(* ===== verification/Loro_Api.thy ===== *)
theory Loro_Api
  imports Prelude
begin

text \<open>
  The interface of the Loro crate, as far as okayeg calls it.  Loro is third-party code: none
  of its source is in the repository, so its operations are parameters of the model.  Three
  records collect them, and every definition that calls Loro takes the records it needs:

  \<^item> \<open>vdoc\<close>: a document as a versioned history (version vectors, frontiers, export, import,
    forks), the calls of \<open>doc.rs\<close> and \<open>sync.rs\<close>;
  \<^item> \<open>loro_ct\<close>: the containers inside a document (the movable tree of files, maps, texts),
    the calls of \<open>tree.rs\<close>, \<open>fs.rs\<close> and \<open>comment.rs\<close>;
  \<^item> \<open>loro_cur\<close>: stable cursors and the textual form of tree ids.

  A document is a value of a type \<open>'d\<close>; a call that changes it in place (Loro's handles share
  one document) returns the new document.  \<open>None\<close> stands for the \<open>Err\<close> of a fallible call, of
  which the code either looks only at the presence or panics on with \<open>expect\<close>.
  The locales state the documented behaviour that the client theorems rely on.
\<close>

section \<open>Values\<close>

text \<open>
  \<open>LoroValue\<close>.  A double is its 64-bit pattern, an \<open>i64\<close> a 64-bit word, and a map the
  list of its entries in iteration order.
\<close>

datatype lvalue =
    LNull
  | LBool bool
  | LDouble "64 word"
  | LI64 "64 word"
  | LString string
  | LList "lvalue list"
  | LMap "(string \<times> lvalue) list"
  | LBinary bytes
  | LContainer string

text \<open>\<open>ValueOrContainer\<close>: what a map holds under a key.\<close>

datatype ('t, 'm) voc = VVal lvalue | VText 't | VMap 'm | VOther

text \<open>\<open>TreeParentId\<close>.\<close>

datatype 'n tree_parent = PNode 'n | PRoot | PDeleted | PUnexist

text \<open>\<open>TextDelta\<close>, the pieces of \<open>LoroText::slice_delta\<close>.\<close>

datatype text_delta = TInsert string | TOther

section \<open>Documents as versioned histories\<close>

text \<open>
  \<open>ld_import\<close> returns the document with the outcome: \<open>Err\<close> of the error's text, or \<open>Ok\<close> of
  whether the import left updates pending for missing ancestors (\<open>ImportStatus::pending\<close>).
\<close>

record ('d, 'v, 'f) vdoc =
  ld_new :: "64 word \<Rightarrow> 'd"
  ld_peer_id :: "'d \<Rightarrow> 64 word"
  ld_commit :: "'d \<Rightarrow> 'd"
  ld_state_vv :: "'d \<Rightarrow> 'v"
  ld_state_frontiers :: "'d \<Rightarrow> 'f"
  ld_export_snapshot :: "'d \<Rightarrow> string + bytes"
  ld_export_updates :: "'d \<Rightarrow> 'v \<Rightarrow> string + bytes"
  ld_import :: "'d \<Rightarrow> bytes \<Rightarrow> 'd \<times> (string + bool)"
  ld_fork_at :: "'d \<Rightarrow> 'f \<Rightarrow> 'd option"
  vv_default :: "'v"
  vv_encode :: "'v \<Rightarrow> bytes"
  vv_decode :: "bytes \<Rightarrow> string + 'v"

section \<open>Containers of a document\<close>

text \<open>
  The tree operations are those of the one tree container okayeg opens, \<open>get_tree("files")\<close>.
  \<open>tr_meta\<close> is \<open>get_meta\<close>; \<open>tr_is_deleted\<close> is \<open>is_node_deleted\<close>.
\<close>

record ('d, 'n, 't, 'm) loro_ct =
  tr_roots :: "'d \<Rightarrow> 'n list"
  tr_children :: "'d \<Rightarrow> 'n \<Rightarrow> 'n list option"
  tr_parent :: "'d \<Rightarrow> 'n \<Rightarrow> 'n tree_parent option"
  tr_is_deleted :: "'d \<Rightarrow> 'n \<Rightarrow> bool option"
  tr_create :: "'d \<Rightarrow> 'n option \<Rightarrow> ('d \<times> 'n) option"
  tr_mov :: "'d \<Rightarrow> 'n \<Rightarrow> 'n option \<Rightarrow> 'd option"
  tr_delete :: "'d \<Rightarrow> 'n \<Rightarrow> 'd option"
  tr_meta :: "'d \<Rightarrow> 'n \<Rightarrow> 'm option"
  mp_root :: "string \<Rightarrow> 'm"
  mp_get :: "'d \<Rightarrow> 'm \<Rightarrow> string \<Rightarrow> ('t, 'm) voc option"
  mp_insert :: "'d \<Rightarrow> 'm \<Rightarrow> string \<Rightarrow> lvalue \<Rightarrow> 'd option"
  mp_insert_text :: "'d \<Rightarrow> 'm \<Rightarrow> string \<Rightarrow> ('d \<times> 't) option"
  mp_insert_map :: "'d \<Rightarrow> 'm \<Rightarrow> string \<Rightarrow> ('d \<times> 'm) option"
  mp_delete :: "'d \<Rightarrow> 'm \<Rightarrow> string \<Rightarrow> 'd option"
  mp_keys :: "'d \<Rightarrow> 'm \<Rightarrow> string list"
  tx_str :: "'d \<Rightarrow> 't \<Rightarrow> string"
  tx_update :: "'d \<Rightarrow> 't \<Rightarrow> string \<Rightarrow> 'd option"
  tx_insert :: "'d \<Rightarrow> 't \<Rightarrow> nat \<Rightarrow> string \<Rightarrow> 'd option"
  tx_delete :: "'d \<Rightarrow> 't \<Rightarrow> nat \<Rightarrow> nat \<Rightarrow> 'd option"
  tx_slice_bytes :: "'d \<Rightarrow> 't \<Rightarrow> nat \<Rightarrow> nat \<Rightarrow> text_delta list option"

section \<open>Cursors and tree ids\<close>

datatype side = SLeft | SRight

text \<open>
  \<open>cu_pos\<close> is \<open>get_cursor_pos\<close>: the current position, and whether the cursor had to be
  updated because its anchor was deleted.
\<close>

record ('d, 'n, 't, 'k) loro_cur =
  tx_len_unicode :: "'d \<Rightarrow> 't \<Rightarrow> nat"
  cu_get :: "'d \<Rightarrow> 't \<Rightarrow> nat \<Rightarrow> side \<Rightarrow> 'k option"
  cu_encode :: "'k \<Rightarrow> bytes"
  cu_decode :: "bytes \<Rightarrow> 'k option"
  cu_pos :: "'d \<Rightarrow> 'k \<Rightarrow> (nat \<times> bool) option"
  tid_str :: "'n \<Rightarrow> string"
  tid_parse :: "string \<Rightarrow> 'n option"

section \<open>What a versioned document promises\<close>

text \<open>
  The documented laws of export and import, over the set of operations a document holds
  (\<open>hist\<close>), the set a version vector covers (\<open>known\<close>), the set an update message carries
  (\<open>carried\<close>) and the operations each operation causally depends on (\<open>deps\<close>).  A version
  vector names a causally closed set, so it is determined by it.  Importing operations whose
  ancestors are all present adds exactly them; otherwise some are held pending.
\<close>

locale loro_history =
  fixes V :: "('d, 'v, 'f) vdoc"
    and wf :: "'d \<Rightarrow> bool"
    and hist :: "'d \<Rightarrow> 'op set"
    and known :: "'v \<Rightarrow> 'op set"
    and carried :: "bytes \<Rightarrow> 'op set"
    and deps :: "'op \<Rightarrow> 'op set"
  assumes vv_roundtrip: "vv_decode V (vv_encode V v) = Ok v"
    and known_default: "known (vv_default V) = {}"
    and known_version: "wf d \<Longrightarrow> known (ld_state_vv V d) = hist d"
    and version_determined:
      "wf d \<Longrightarrow> wf d' \<Longrightarrow> hist d = hist d' \<Longrightarrow> ld_state_vv V d = ld_state_vv V d'"
    and hist_closed: "wf d \<Longrightarrow> x \<in> hist d \<Longrightarrow> deps x \<subseteq> hist d"
    and export_ok:
      "wf d \<Longrightarrow> \<exists>bs. ld_export_updates V d v = Ok bs \<and> carried bs = hist d - known v"
    and import_ok:
      "wf d \<Longrightarrow> (\<And>x. x \<in> carried bs \<Longrightarrow> deps x \<subseteq> hist d \<union> carried bs) \<Longrightarrow>
         ld_export_updates V s v = Ok bs \<Longrightarrow> wf s \<Longrightarrow>
         \<exists>d'. ld_import V d bs = (d', Ok False) \<and> wf d' \<and> hist d' = hist d \<union> carried bs"
    and import_wf:
      "wf d \<Longrightarrow> wf (fst (ld_import V d bs)) \<and> hist d \<subseteq> hist (fst (ld_import V d bs))"
    and import_orphan:
      "wf d \<Longrightarrow> x \<in> carried bs \<Longrightarrow> \<not> deps x \<subseteq> hist d \<union> carried bs \<Longrightarrow>
         snd (ld_import V d bs) \<noteq> Ok False"
    and finite_hist: "wf d \<Longrightarrow> finite (hist d)"
begin

definition updates_of :: "'d \<Rightarrow> 'v \<Rightarrow> bytes" where
  "updates_of d v = projr (ld_export_updates V d v)"

lemma export_updates_of:
  assumes "wf d"
  shows "ld_export_updates V d v = Ok (updates_of d v)"
    and "carried (updates_of d v) = hist d - known v"
proof -
  obtain bs where "ld_export_updates V d v = Ok bs" "carried bs = hist d - known v"
    using export_ok [OF assms] by blast
  then show "ld_export_updates V d v = Ok (updates_of d v)"
    and "carried (updates_of d v) = hist d - known v"
    by (simp_all add: updates_of_def)
qed

lemma version_eq_iff:
  assumes "wf d" "wf d'"
  shows "ld_state_vv V d = ld_state_vv V d' \<longleftrightarrow> hist d = hist d'"
proof
  assume "ld_state_vv V d = ld_state_vv V d'"
  then have "known (ld_state_vv V d) = known (ld_state_vv V d')" by simp
  with assms show "hist d = hist d'" by (simp add: known_version)
qed (rule version_determined [OF assms])

text \<open>
  Updates cut at any causally closed set the receiver already holds are never orphaned: the
  receiver ends with the union of both histories.
\<close>

lemma import_since_known:
  assumes "wf d" "wf s" "known v \<subseteq> hist d"
  shows "\<exists>d'. ld_import V d (updates_of s v) = (d', Ok False) \<and> wf d' \<and>
              hist d' = hist d \<union> hist s"
proof -
  have c: "carried (updates_of s v) = hist s - known v"
    using assms(2) by (rule export_updates_of)
  have "x \<in> carried (updates_of s v) \<Longrightarrow> deps x \<subseteq> hist d \<union> carried (updates_of s v)" for x
    using assms(2,3) hist_closed [of s x] by (auto simp: c)
  then obtain d' where "ld_import V d (updates_of s v) = (d', Ok False)" "wf d'"
      "hist d' = hist d \<union> carried (updates_of s v)"
    using import_ok [of d "updates_of s v" s v] assms export_updates_of(1) by blast
  with assms(3) show ?thesis by (auto simp: c)
qed

end

end
