(* ===== verification/Sync.thy ===== *)
theory Sync
  imports Loro_Api
begin

text \<open>
  \<open>crates/okayeg/src/sync.rs\<close>: the sync protocol as a driver over messages.  Two machines:
  \<open>sync\<close>, the one-shot exchange (await the peer's version, await its updates, done), and
  \<open>live_sync\<close>, the held-open session that streams each commit.  Both take the document as an
  argument and return it, since Loro's handle mutates it in place.
\<close>

section \<open>Messages\<close>

datatype msg = Have bytes | Updates bytes | Ephemeral bytes

datatype sync_error = Malformed | OutOfOrder | Orphaned | LoroError string

fun msg_encode :: "msg \<Rightarrow> bytes" where
  "msg_encode (Have b) = CHR 0x00 # b"
| "msg_encode (Updates b) = CHR 0x01 # b"
| "msg_encode (Ephemeral b) = CHR 0x02 # b"

fun msg_decode :: "bytes \<Rightarrow> sync_error + msg" where
  "msg_decode [] = Err Malformed"
| "msg_decode (tag # body) =
     (if tag = CHR 0x00 then Ok (Have body)
      else if tag = CHR 0x01 then Ok (Updates body)
      else if tag = CHR 0x02 then Ok (Ephemeral body)
      else Err Malformed)"

definition sync_error_display :: "sync_error \<Rightarrow> string" where
  "sync_error_display e = (case e of
     Malformed \<Rightarrow> ''malformed sync message''
   | OutOfOrder \<Rightarrow> ''sync message arrived out of order''
   | Orphaned \<Rightarrow> ''peer pushed updates with missing ancestors''
   | LoroError s \<Rightarrow> s)"

lemma msg_decode_encode [simp]: "msg_decode (msg_encode m) = Ok m"
  by (cases m) auto

lemma msg_encode_decode: "msg_decode bs = Ok m \<Longrightarrow> msg_encode m = bs"
  by (cases bs) (auto split: if_splits)

section \<open>Permissions\<close>

record perms =
  pull :: bool
  push :: bool

definition perms_all :: perms where
  "perms_all = \<lparr>pull = True, push = True\<rparr>"

lemma perms_all_simps [simp]: "pull perms_all" "push perms_all"
  by (simp_all add: perms_all_def)

section \<open>The one-shot exchange\<close>

datatype sync_state = AwaitHave | AwaitUpdates | SyncDone

datatype step = Send msg | Done

record sync =
  sy_state :: sync_state
  sy_perms :: perms

text \<open>
  \<open>import_no_orphans\<close>: the document is changed by the import even when the batch is then
  reported as orphaned.
\<close>

definition import_no_orphans ::
    "('d, 'v, 'f) vdoc \<Rightarrow> 'd \<Rightarrow> bytes \<Rightarrow> 'd \<times> (sync_error + unit)" where
  "import_no_orphans V d bs =
     (case ld_import V d bs of
        (d', Inl e) \<Rightarrow> (d', Err (LoroError e))
      | (d', Inr pending) \<Rightarrow> (d', if pending then Err Orphaned else Ok ()))"

definition sync_gated :: "perms \<Rightarrow> sync" where
  "sync_gated p = \<lparr>sy_state = AwaitHave, sy_perms = p\<rparr>"

definition sync_new :: sync where
  "sync_new = sync_gated perms_all"

definition sync_start :: "('d, 'v, 'f) vdoc \<Rightarrow> 'd \<Rightarrow> msg" where
  "sync_start V d = Have (vv_encode V (ld_state_vv V d))"

definition on_have ::
    "('d, 'v, 'f) vdoc \<Rightarrow> 'd \<Rightarrow> sync \<Rightarrow> bytes \<Rightarrow> 'd \<times> sync \<times> (sync_error + step)" where
  "on_have V d s vv =
     (case (if pull (sy_perms s) then vv_decode V vv else Ok (ld_state_vv V d)) of
        Inl e \<Rightarrow> (d, s, Err (LoroError e))
      | Inr from \<Rightarrow>
          (case ld_export_updates V d from of
             Inl e \<Rightarrow> (d, s, Err (LoroError e))
           | Inr updates \<Rightarrow> (d, s\<lparr>sy_state := AwaitUpdates\<rparr>, Ok (Send (Updates updates)))))"

definition on_updates ::
    "('d, 'v, 'f) vdoc \<Rightarrow> 'd \<Rightarrow> sync \<Rightarrow> bytes \<Rightarrow> 'd \<times> sync \<times> (sync_error + step)" where
  "on_updates V d s bs =
     (if push (sy_perms s)
      then (case import_no_orphans V d bs of
              (d', Inl e) \<Rightarrow> (d', s, Err e)
            | (d', Inr _) \<Rightarrow> (d', s\<lparr>sy_state := SyncDone\<rparr>, Ok Done))
      else (d, s\<lparr>sy_state := SyncDone\<rparr>, Ok Done))"

definition sync_on ::
    "('d, 'v, 'f) vdoc \<Rightarrow> 'd \<Rightarrow> sync \<Rightarrow> msg \<Rightarrow> 'd \<times> sync \<times> (sync_error + step)" where
  "sync_on V d s m =
     (case (sy_state s, m) of
        (AwaitHave, Have vv) \<Rightarrow> on_have V d s vv
      | (AwaitUpdates, Updates bs) \<Rightarrow> on_updates V d s bs
      | _ \<Rightarrow> (d, s, Err OutOfOrder))"

section \<open>The live session\<close>

record 'v live_sync =
  lv_perms :: perms
  acked :: 'v

record live =
  live_send :: "msg option"
  live_changed :: bool

definition live_new :: "('d, 'v, 'f) vdoc \<Rightarrow> perms \<Rightarrow> 'v live_sync" where
  "live_new V p = \<lparr>lv_perms = p, acked = vv_default V\<rparr>"

definition live_start :: "('d, 'v, 'f) vdoc \<Rightarrow> 'd \<Rightarrow> msg" where
  "live_start V d = Have (vv_encode V (ld_state_vv V d))"

definition live_pending ::
    "('d, 'v, 'f) vdoc \<Rightarrow> 'd \<Rightarrow> 'v live_sync \<Rightarrow> 'v live_sync \<times> (sync_error + msg option)" where
  "live_pending V d l =
     (if \<not> pull (lv_perms l) then (l, Ok None)
      else (let ver = ld_state_vv V d in
        if ver = acked l then (l, Ok None)
        else (case ld_export_updates V d (acked l) of
                Inl e \<Rightarrow> (l, Err (LoroError e))
              | Inr updates \<Rightarrow> (l\<lparr>acked := ver\<rparr>, Ok (Some (Updates updates))))))"

definition live_on_have ::
    "('d, 'v, 'f) vdoc \<Rightarrow> 'd \<Rightarrow> 'v live_sync \<Rightarrow> bytes \<Rightarrow> 'd \<times> 'v live_sync \<times> (sync_error + live)"
  where
  "live_on_have V d l vv =
     (case vv_decode V vv of
        Inl e \<Rightarrow> (d, l, Err (LoroError e))
      | Inr v \<Rightarrow>
          (case live_pending V d (l\<lparr>acked := v\<rparr>) of
             (l', Inl e) \<Rightarrow> (d, l', Err e)
           | (l', Inr out) \<Rightarrow> (d, l', Ok \<lparr>live_send = out, live_changed = False\<rparr>)))"

definition live_on_updates ::
    "('d, 'v, 'f) vdoc \<Rightarrow> 'd \<Rightarrow> 'v live_sync \<Rightarrow> bytes \<Rightarrow> 'd \<times> 'v live_sync \<times> (sync_error + live)"
  where
  "live_on_updates V d l bs =
     (if push (lv_perms l)
      then (let before = ld_state_vv V d in
        (case import_no_orphans V d bs of
           (d', Inl e) \<Rightarrow> (d', l, Err e)
         | (d', Inr _) \<Rightarrow>
             (d', l, Ok \<lparr>live_send = None, live_changed = (ld_state_vv V d' \<noteq> before)\<rparr>)))
      else (d, l, Ok \<lparr>live_send = None, live_changed = False\<rparr>))"

definition live_on ::
    "('d, 'v, 'f) vdoc \<Rightarrow> 'd \<Rightarrow> 'v live_sync \<Rightarrow> msg \<Rightarrow> 'd \<times> 'v live_sync \<times> (sync_error + live)"
  where
  "live_on V d l m = (case m of
     Have vv \<Rightarrow> live_on_have V d l vv
   | Updates bs \<Rightarrow> live_on_updates V d l bs
   | Ephemeral _ \<Rightarrow> (d, l, Ok \<lparr>live_send = None, live_changed = False\<rparr>))"

section \<open>What permissions guarantee, against any peer\<close>

text \<open>
  The lemmas here need no law of Loro: whatever bytes a peer sends, a session without push
  leaves the document alone, and a session without pull sends no update.
\<close>

lemma sync_on_no_push:
  "\<not> push (sy_perms s) \<Longrightarrow> sync_on V d s m = (d', s', r) \<Longrightarrow> d' = d \<and> sy_perms s' = sy_perms s"
  by (auto simp: sync_on_def on_have_def on_updates_def
           split: sync_state.splits msg.splits sum.splits if_splits)

lemma live_pending_perms: "live_pending V d l = (l', r) \<Longrightarrow> lv_perms l' = lv_perms l"
  by (auto simp: live_pending_def Let_def split: if_splits sum.splits)

lemma live_pending_no_pull: "\<not> pull (lv_perms l) \<Longrightarrow> live_pending V d l = (l, Ok None)"
  by (simp add: live_pending_def)

lemma live_on_perms: "live_on V d l m = (d', l', r) \<Longrightarrow> lv_perms l' = lv_perms l"
  by (auto simp: live_on_def live_on_have_def live_on_updates_def Let_def dest: live_pending_perms
           split: msg.splits sum.splits prod.splits if_splits)

lemma live_on_no_push: "\<not> push (lv_perms l) \<Longrightarrow> live_on V d l m = (d', l', r) \<Longrightarrow> d' = d"
  by (auto simp: live_on_def live_on_have_def live_on_updates_def
           split: msg.splits sum.splits prod.splits if_splits)

lemma live_on_no_pull:
  "\<not> pull (lv_perms l) \<Longrightarrow> live_on V d l m = (d', l', Ok out) \<Longrightarrow> live_send out = None"
  by (auto simp: live_on_def live_on_have_def live_on_updates_def live_pending_def Let_def
           split: msg.splits sum.splits prod.splits if_splits)

end
