(* ===== verification/Loro_Ref_Hist.thy ===== *)
theory Loro_Ref_Hist
  imports Loro_Api
begin

text \<open>
  A concrete history store with the documented laws: two peers, each with a chain of
  operations, so that a version vector is a pair of counters and an update message carries
  one range of counters per peer, as Loro's own export format does.  It shows that the laws
  of \<open>loro_history\<close> can hold together, and it is the document the witnesses run on.
\<close>

type_synonym rdoc = "nat \<times> nat"

definition range_ops :: "bool \<Rightarrow> nat \<Rightarrow> nat \<Rightarrow> (bool \<times> nat) set" where
  "range_ops p lo hi = {(p, i) | i. lo \<le> i \<and> i < hi}"

definition ref_hist :: "rdoc \<Rightarrow> (bool \<times> nat) set" where
  "ref_hist d = range_ops False 0 (fst d) \<union> range_ops True 0 (snd d)"

fun ref_deps :: "bool \<times> nat \<Rightarrow> (bool \<times> nat) set" where
  "ref_deps (p, 0) = {}"
| "ref_deps (p, Suc i) = {(p, i)}"

definition cnt :: "char \<Rightarrow> bytes \<Rightarrow> nat" where
  "cnt c bs = length (filter ((=) c) bs)"

definition enc4 :: "nat \<Rightarrow> nat \<Rightarrow> nat \<Rightarrow> nat \<Rightarrow> bytes" where
  "enc4 x a y b = replicate x (CHR ''x'') @ replicate a (CHR ''a'') @
                  replicate y (CHR ''y'') @ replicate b (CHR ''b'')"

lemma cnt_enc4 [simp]:
  "cnt (CHR ''x'') (enc4 x a y b) = x" "cnt (CHR ''a'') (enc4 x a y b) = a"
  "cnt (CHR ''y'') (enc4 x a y b) = y" "cnt (CHR ''b'') (enc4 x a y b) = b"
  by (simp_all add: cnt_def enc4_def)

definition ref_carried :: "bytes \<Rightarrow> (bool \<times> nat) set" where
  "ref_carried bs = range_ops False (cnt (CHR ''x'') bs) (cnt (CHR ''a'') bs) \<union>
                    range_ops True (cnt (CHR ''y'') bs) (cnt (CHR ''b'') bs)"

text \<open>One peer's range \<open>[lo, hi)\<close> applies to a counter \<open>n\<close> when it does not start past it.\<close>

definition fits :: "nat \<Rightarrow> nat \<Rightarrow> nat \<Rightarrow> bool" where
  "fits n lo hi \<longleftrightarrow> hi \<le> lo \<or> lo \<le> n"

definition advance :: "nat \<Rightarrow> nat \<Rightarrow> nat \<Rightarrow> nat" where
  "advance n lo hi = (if lo < hi \<and> lo \<le> n then max n hi else n)"

definition ref_import :: "rdoc \<Rightarrow> bytes \<Rightarrow> rdoc \<times> (string + bool)" where
  "ref_import d bs =
     (let x = cnt (CHR ''x'') bs; a = cnt (CHR ''a'') bs;
          y = cnt (CHR ''y'') bs; b = cnt (CHR ''b'') bs
      in ((advance (fst d) x a, advance (snd d) y b),
          Ok (\<not> (fits (fst d) x a \<and> fits (snd d) y b))))"

definition ref_decode :: "bytes \<Rightarrow> string + (nat \<times> nat)" where
  "ref_decode bs = Ok (cnt (CHR ''a'') bs, cnt (CHR ''b'') bs)"

definition ref_vdoc :: "(rdoc, nat \<times> nat, nat \<times> nat) vdoc" where
  "ref_vdoc = \<lparr>
     ld_new = (\<lambda>_. (0, 0)),
     ld_peer_id = (\<lambda>_. 0),
     ld_commit = (\<lambda>d. d),
     ld_state_vv = (\<lambda>d. d),
     ld_state_frontiers = (\<lambda>d. d),
     ld_export_snapshot = (\<lambda>d. Ok (enc4 0 (fst d) 0 (snd d))),
     ld_export_updates = (\<lambda>d v. Ok (enc4 (fst v) (fst d) (snd v) (snd d))),
     ld_import = ref_import,
     ld_fork_at = (\<lambda>d f. if fst f \<le> fst d \<and> snd f \<le> snd d then Some f else None),
     vv_default = (0, 0),
     vv_encode = (\<lambda>v. enc4 0 (fst v) 0 (snd v)),
     vv_decode = ref_decode \<rparr>"

lemmas ref_vdoc_simps [simp] = ref_vdoc_def [THEN arg_cong, of ld_state_vv, simplified]
  ref_vdoc_def [THEN arg_cong, of ld_export_updates, simplified]
  ref_vdoc_def [THEN arg_cong, of ld_import, simplified]
  ref_vdoc_def [THEN arg_cong, of vv_default, simplified]
  ref_vdoc_def [THEN arg_cong, of vv_encode, simplified]
  ref_vdoc_def [THEN arg_cong, of vv_decode, simplified]
  ref_vdoc_def [THEN arg_cong, of ld_export_snapshot, simplified]
  ref_vdoc_def [THEN arg_cong, of ld_commit, simplified]
  ref_vdoc_def [THEN arg_cong, of ld_state_frontiers, simplified]
  ref_vdoc_def [THEN arg_cong, of ld_fork_at, simplified]

lemma range_ops_mem [simp]: "(q, i) \<in> range_ops p lo hi \<longleftrightarrow> q = p \<and> lo \<le> i \<and> i < hi"
  by (auto simp: range_ops_def)

lemma ref_hist_mem [simp]: "(q, i) \<in> ref_hist d \<longleftrightarrow> i < (if q then snd d else fst d)"
  by (auto simp: ref_hist_def)

lemma ref_carried_mem [simp]:
  "(q, i) \<in> ref_carried bs \<longleftrightarrow>
     (if q then cnt (CHR ''y'') bs \<le> i \<and> i < cnt (CHR ''b'') bs
           else cnt (CHR ''x'') bs \<le> i \<and> i < cnt (CHR ''a'') bs)"
  by (auto simp: ref_carried_def)

lemma ref_hist_inj: "ref_hist d = ref_hist d' \<Longrightarrow> d = d'"
proof -
  assume eq: "ref_hist d = ref_hist d'"
  have "(q, i) \<in> ref_hist d \<longleftrightarrow> (q, i) \<in> ref_hist d'" for q i using eq by simp
  from this [of False] this [of True] have "\<forall>i. i < fst d \<longleftrightarrow> i < fst d'"
    "\<forall>i. i < snd d \<longleftrightarrow> i < snd d'" by simp_all
  then show "d = d'" by (meson linorder_neqE_nat less_irrefl prod_eqI)
qed

lemma range_fits:
  assumes "\<And>i. lo \<le> i \<Longrightarrow> i < hi \<Longrightarrow> \<forall>j. i = Suc j \<longrightarrow> j < n \<or> lo \<le> j \<and> j < hi"
  shows "fits n lo hi"
proof (cases "hi \<le> lo")
  case False
  with assms [of lo] show ?thesis by (cases lo) (auto simp: fits_def)
qed (simp add: fits_def)

lemma not_range_fits:
  "lo \<le> Suc j \<Longrightarrow> Suc j < hi \<Longrightarrow> \<not> j < n \<Longrightarrow> \<not> (lo \<le> j \<and> j < hi) \<Longrightarrow> \<not> fits n lo hi"
  by (auto simp: fits_def)

lemma advance_mem: "fits n lo hi \<Longrightarrow> i < advance n lo hi \<longleftrightarrow> i < n \<or> lo \<le> i \<and> i < hi"
  by (auto simp: fits_def advance_def max_def)

interpretation rh: loro_history ref_vdoc "\<lambda>_. True" ref_hist ref_hist ref_carried ref_deps
proof (unfold_locales, goal_cases)
  case (1 v) show ?case by (simp add: ref_decode_def)
next
  case 2 show ?case by (auto simp: ref_hist_def range_ops_def)
next
  case (3 d) show ?case by simp
next
  case (4 d d') then show ?case using ref_hist_inj by simp
next
  case (5 d x) then show ?case by (cases x rule: ref_deps.cases) (auto split: if_splits)
next
  case (6 d v) show ?case by (force split: if_splits)
next
  case (7 d bs s v)
  let ?x = "cnt (CHR ''x'') bs" and ?a = "cnt (CHR ''a'') bs"
  let ?y = "cnt (CHR ''y'') bs" and ?b = "cnt (CHR ''b'') bs"
  have "fits (fst d) ?x ?a"
  proof (rule range_fits, intro allI impI)
    fix i j assume "?x \<le> i" "i < ?a" "i = Suc j"
    with 7(2) [of "(False, i)"] show "j < fst d \<or> ?x \<le> j \<and> j < ?a" by simp
  qed
  moreover have "fits (snd d) ?y ?b"
  proof (rule range_fits, intro allI impI)
    fix i j assume "?y \<le> i" "i < ?b" "i = Suc j"
    with 7(2) [of "(True, i)"] show "j < snd d \<or> ?y \<le> j \<and> j < ?b" by simp
  qed
  ultimately show ?case
    by (auto simp: ref_import_def Let_def advance_mem split: if_splits)
next
  case (8 d bs) show ?case by (auto simp: ref_import_def Let_def advance_def split: if_splits)
next
  case (9 d x bs)
  obtain p i where x: "x = (p, i)" by (cases x)
  with 9 obtain j where "i = Suc j" by (cases i) auto
  with 9 x show ?case
    by (auto simp: ref_import_def Let_def fits_def split: if_splits)
next
  case (10 d)
  have "ref_hist d \<subseteq> UNIV \<times> {..< max (fst d) (snd d)}" by (auto split: if_splits)
  then show ?case by (rule finite_subset) simp
qed

end
