(* ===== verification/Sync_Pair.thy ===== *)
theory Sync_Pair
  imports Sync Loro_Ref_Hist
begin

text \<open>
  Two one-shot drivers against each other, the loop of \<open>drive\<close> in
  \<open>crates/okayeg-net/src/lib.rs\<close> on both ends of a connection.  Each side has an inbox that
  keeps the order of the stream; a step is one side taking its next message.  Which side
  moves is left open, so what holds of every run holds of every interleaving.
\<close>

record 'd side =
  sd_doc :: 'd
  sd_sync :: sync
  sd_inbox :: "msg list"
  sd_error :: "sync_error option"

text \<open>
  One turn of \<open>drive\<close>'s loop: ephemeral frames are skipped, a message goes to the driver, and
  an error or \<open>Done\<close> ends the loop (no turn is taken afterwards).
\<close>

definition drive_step :: "('d, 'v, 'f) vdoc \<Rightarrow> 'd side \<Rightarrow> ('d side \<times> msg list) option" where
  "drive_step V s =
     (if sd_error s \<noteq> None \<or> sy_state (sd_sync s) = SyncDone then None
      else (case sd_inbox s of
              [] \<Rightarrow> None
            | Ephemeral _ # ms \<Rightarrow> Some (s\<lparr>sd_inbox := ms\<rparr>, [])
            | m # ms \<Rightarrow>
                (case sync_on V (sd_doc s) (sd_sync s) m of
                   (d, y, r) \<Rightarrow>
                     (let s' = s\<lparr>sd_doc := d, sd_sync := y, sd_inbox := ms\<rparr> in
                      case r of
                        Inl e \<Rightarrow> Some (s'\<lparr>sd_error := Some e\<rparr>, [])
                      | Inr (Send out) \<Rightarrow> Some (s', [out])
                      | Inr Done \<Rightarrow> Some (s', [])))))"

inductive pair_step :: "('d, 'v, 'f) vdoc \<Rightarrow> 'd side \<times> 'd side \<Rightarrow> 'd side \<times> 'd side \<Rightarrow> bool"
  for V where
  left: "drive_step V a = Some (a', out) \<Longrightarrow>
           pair_step V (a, b) (a', b\<lparr>sd_inbox := sd_inbox b @ out\<rparr>)"
| right: "drive_step V b = Some (b', out) \<Longrightarrow>
           pair_step V (a, b) (a\<lparr>sd_inbox := sd_inbox a @ out\<rparr>, b')"

inductive_cases pair_stepE: "pair_step V (a, b) c"

text \<open>Both sides open with the version they hold; each grants the other its own permissions.\<close>

definition side_start :: "('d, 'v, 'f) vdoc \<Rightarrow> perms \<Rightarrow> 'd \<Rightarrow> 'd \<Rightarrow> 'd side" where
  "side_start V p d peer =
     \<lparr>sd_doc = d, sd_sync = sync_gated p, sd_inbox = [sync_start V peer], sd_error = None\<rparr>"

definition pair_start ::
    "('d, 'v, 'f) vdoc \<Rightarrow> perms \<Rightarrow> 'd \<Rightarrow> perms \<Rightarrow> 'd \<Rightarrow> 'd side \<times> 'd side" where
  "pair_start V pa da pb db = (side_start V pa da db, side_start V pb db da)"

text \<open>Turns a side still has to take.\<close>

definition turns_left :: "'d side \<Rightarrow> nat" where
  "turns_left s = (case sy_state (sd_sync s) of AwaitHave \<Rightarrow> 2 | AwaitUpdates \<Rightarrow> 1 | SyncDone \<Rightarrow> 0)"

text \<open>What a side may come to hold: its own history, and the peer's where both gates allow.\<close>

definition gained :: "('d \<Rightarrow> 'op set) \<Rightarrow> perms \<Rightarrow> 'd \<Rightarrow> perms \<Rightarrow> 'd \<Rightarrow> 'op set" where
  "gained hist mine d theirs peer =
     hist d \<union> (if push mine \<and> pull theirs then hist peer else {})"

section \<open>The invariant of a run\<close>

context loro_history
begin

definition reply_of :: "perms \<Rightarrow> 'd \<Rightarrow> 'd \<Rightarrow> msg" where
  "reply_of p d peer = Updates (updates_of d (if pull p then ld_state_vv V peer else ld_state_vv V d))"

definition reply_in :: "perms \<Rightarrow> 'd \<Rightarrow> 'd \<Rightarrow> 'd side \<Rightarrow> msg list" where
  "reply_in py dy dx Y = (if sy_state (sd_sync Y) = AwaitHave then [] else [reply_of py dy dx])"

definition side_inv :: "perms \<Rightarrow> 'd \<Rightarrow> perms \<Rightarrow> 'd \<Rightarrow> 'd side \<Rightarrow> 'd side \<Rightarrow> bool" where
  "side_inv px dx py dy X Y \<longleftrightarrow>
     sd_error X = None \<and> sy_perms (sd_sync X) = px \<and>
     (case sy_state (sd_sync X) of
        AwaitHave \<Rightarrow> sd_doc X = dx \<and> sd_inbox X = sync_start V dy # reply_in py dy dx Y
      | AwaitUpdates \<Rightarrow> sd_doc X = dx \<and> sd_inbox X = reply_in py dy dx Y
      | SyncDone \<Rightarrow> sy_state (sd_sync Y) \<noteq> AwaitHave \<and> sd_inbox X = [] \<and> wf (sd_doc X) \<and>
                    hist (sd_doc X) = gained hist px dx py dy)"

lemma side_inv_start: "side_inv px dx py dy (side_start V px dx dy) (side_start V py dy dx)"
  by (simp add: side_inv_def side_start_def sync_gated_def reply_in_def)

lemma turn_await_have:
  assumes "wf dx" "side_inv px dx py dy X Y" "sy_state (sd_sync X) = AwaitHave"
  shows "drive_step V X = Some (X\<lparr>sd_sync := (sd_sync X)\<lparr>sy_state := AwaitUpdates\<rparr>,
            sd_inbox := reply_in py dy dx Y\<rparr>, [reply_of px dx dy])"
  using assms export_updates_of(1) [of dx]
  by (auto simp: side_inv_def drive_step_def sync_start_def sync_on_def on_have_def vv_roundtrip
        reply_of_def Let_def)

lemma import_reply:
  assumes "wf dx" "wf dy" "push px"
  shows "\<exists>d'. import_no_orphans V dx (case reply_of py dy dx of Updates b \<Rightarrow> b) = (d', Ok ()) \<and>
              wf d' \<and> hist d' = gained hist px dx py dy"
proof (cases "pull py")
  case True
  with import_since_known [OF assms(1,2), of "ld_state_vv V dx"] assms show ?thesis
    by (fastforce simp: known_version reply_of_def import_no_orphans_def gained_def)
next
  case False
  let ?b = "updates_of dy (ld_state_vv V dy)"
  have none: "carried ?b = {}" using assms(2) by (simp add: export_updates_of known_version)
  obtain d' where "ld_import V dx ?b = (d', Ok False)" "wf d'" "hist d' = hist dx \<union> carried ?b"
    using import_ok [of dx ?b dy "ld_state_vv V dy"] assms(1,2) export_updates_of(1) none by blast
  with False none show ?thesis
    by (simp add: reply_of_def import_no_orphans_def gained_def)
qed

lemma turn_await_updates:
  assumes "wf dx" "wf dy" "side_inv px dx py dy X Y" "sy_state (sd_sync X) = AwaitUpdates"
    and "sy_state (sd_sync Y) \<noteq> AwaitHave"
  shows "\<exists>d'. drive_step V X = Some (X\<lparr>sd_doc := d', sd_sync := (sd_sync X)\<lparr>sy_state := SyncDone\<rparr>,
            sd_inbox := []\<rparr>, []) \<and> wf d' \<and> hist d' = gained hist px dx py dy"
proof -
  obtain b where b: "reply_of py dy dx = Updates b" by (simp add: reply_of_def)
  show ?thesis
  proof (cases "push px")
    case True
    from import_reply [OF assms(1,2) True, of py] b obtain d' where
      "import_no_orphans V dx b = (d', Ok ())" "wf d'" "hist d' = gained hist px dx py dy"
      by auto
    with assms True b show ?thesis
      by (auto simp: side_inv_def drive_step_def reply_in_def sync_on_def on_updates_def)
  next
    case False
    with assms b show ?thesis
      by (auto simp: side_inv_def drive_step_def reply_in_def sync_on_def on_updates_def gained_def)
  qed
qed

text \<open>
  One turn, seen from the side that takes it: it keeps the invariant of both sides and uses up
  one of the mover's turns.
\<close>

lemma side_turn:
  assumes "wf dx" "wf dy" and X: "side_inv px dx py dy X Y" and Y: "side_inv py dy px dx Y X"
    and turn: "drive_step V X = Some (X', out)"
  defines "Y' \<equiv> Y\<lparr>sd_inbox := sd_inbox Y @ out\<rparr>"
  shows "side_inv px dx py dy X' Y' \<and> side_inv py dy px dx Y' X' \<and>
         turns_left X = Suc (turns_left X') \<and> turns_left Y' = turns_left Y"
proof (cases "sy_state (sd_sync X)")
  case AwaitHave
  with turn_await_have [OF assms(1) X] turn X Y show ?thesis
    by (auto simp: Y'_def side_inv_def reply_in_def turns_left_def split: sync_state.splits)
next
  case AwaitUpdates
  with turn X have y: "sy_state (sd_sync Y) \<noteq> AwaitHave"
    by (auto simp: side_inv_def reply_in_def drive_step_def)
  from turn_await_updates [OF assms(1,2) X AwaitUpdates y] obtain d' where
    "drive_step V X = Some (X\<lparr>sd_doc := d', sd_sync := (sd_sync X)\<lparr>sy_state := SyncDone\<rparr>,
        sd_inbox := []\<rparr>, [])" "wf d'" "hist d' = gained hist px dx py dy" by blast
  with turn have X': "X' = X\<lparr>sd_doc := d', sd_sync := (sd_sync X)\<lparr>sy_state := SyncDone\<rparr>, sd_inbox := []\<rparr>"
    and "out = []" by simp_all
  then have "Y' = Y" by (simp add: Y'_def)
  moreover have "side_inv px dx py dy X' Y"
    using X y \<open>wf d'\<close> \<open>hist d' = _\<close> by (simp add: X' side_inv_def)
  moreover have "side_inv py dy px dx Y X'"
    using Y AwaitUpdates y
    by (cases "sy_state (sd_sync Y)") (simp_all add: X' side_inv_def reply_in_def)
  ultimately show ?thesis using AwaitUpdates by (simp add: turns_left_def X')
next
  case SyncDone
  with turn show ?thesis by (simp add: drive_step_def)
qed

lemma pair_run:
  assumes "wf da" "wf db"
    and "(pair_step V ^^ n) (pair_start V pa da pb db) (a, b)"
  shows "side_inv pa da pb db a b \<and> side_inv pb db pa da b a \<and> n + turns_left a + turns_left b = 4"
  using assms(3)
proof (induction n arbitrary: a b)
  case 0
  then have eq: "a = side_start V pa da db" "b = side_start V pb db da"
    by (simp_all add: pair_start_def)
  show ?case unfolding eq
    by (intro conjI side_inv_start) (simp add: turns_left_def side_start_def sync_gated_def)
next
  case (Suc n)
  then obtain a1 b1 where run: "(pair_step V ^^ n) (pair_start V pa da pb db) (a1, b1)"
    and st: "pair_step V (a1, b1) (a, b)" by auto
  note IH = Suc.IH [OF run]
  from st consider
      (l) out where "drive_step V a1 = Some (a, out)" "b = b1\<lparr>sd_inbox := sd_inbox b1 @ out\<rparr>"
    | (r) out where "drive_step V b1 = Some (b, out)" "a = a1\<lparr>sd_inbox := sd_inbox a1 @ out\<rparr>"
    by (auto elim: pair_stepE)
  then show ?case
  proof cases
    case l
    with side_turn [OF assms(1,2), of pa pb a1 b1 a out] IH show ?thesis by simp
  next
    case r
    with side_turn [OF assms(2,1), of pb pa b1 a1 b out] IH show ?thesis by simp
  qed
qed

lemma pair_progress:
  assumes "wf da" "wf db" "side_inv pa da pb db a b" "side_inv pb db pa da b a"
    and "turns_left a + turns_left b \<noteq> 0"
  shows "\<exists>c. pair_step V (a, b) c"
proof (cases "sy_state (sd_sync a) = AwaitHave \<or> sy_state (sd_sync b) = AwaitHave")
  case True
  then show ?thesis
    using turn_await_have [OF assms(1,3)] turn_await_have [OF assms(2,4)] pair_step.intros
    by metis
next
  case False
  with assms(5) have "sy_state (sd_sync a) = AwaitUpdates \<or> sy_state (sd_sync b) = AwaitUpdates"
    by (cases "sy_state (sd_sync a)"; cases "sy_state (sd_sync b)") (auto simp: turns_left_def)
  with False show ?thesis
    using turn_await_updates [OF assms(1,2,3)] turn_await_updates [OF assms(2,1,4)]
      pair_step.intros by metis
qed

lemma done_inv:
  "side_inv px dx py dy X Y \<Longrightarrow> turns_left X = 0 \<Longrightarrow>
     sy_state (sd_sync X) = SyncDone \<and> hist (sd_doc X) = gained hist px dx py dy"
  by (cases "sy_state (sd_sync X)") (auto simp: side_inv_def turns_left_def)

lemma side_inv_no_error: "side_inv px dx py dy X Y \<Longrightarrow> sd_error X = None"
  by (simp add: side_inv_def)

end

section \<open>The exchange converges\<close>

definition both_done :: "'d side \<times> 'd side \<Rightarrow> bool" where
  "both_done c = (sy_state (sd_sync (fst c)) = SyncDone \<and> sy_state (sd_sync (snd c)) = SyncDone)"

text \<open>
  C1.  The one-shot exchange of \<open>sync.rs\<close>, whatever the order in which the two drivers take
  their messages and whatever permissions each side grants: it never faults, it can always
  take another turn until both sides report done, it takes exactly four turns, and it leaves
  each side with its own history together with the peer's, the latter only where this side
  grants push and the peer grants pull.  With full permissions both ways the two documents
  hold the same history.
\<close>

theorem one_shot_exchange_converges:
  assumes "loro_history V dwf hist known carried deps" "dwf da" "dwf db"
    and "(pair_step V ^^ n) (pair_start V pa da pb db) (a, b)"
  shows "sd_error a = None \<and> sd_error b = None \<and> n \<le> 4 \<and>
         (n < 4 \<longrightarrow> (\<exists>c. pair_step V (a, b) c)) \<and>
         (n = 4 \<longrightarrow> both_done (a, b) \<and> hist (sd_doc a) = gained hist pa da pb db \<and>
                     hist (sd_doc b) = gained hist pb db pa da)"
proof -
  note run = loro_history.pair_run [OF assms]
  note prog = loro_history.pair_progress [OF assms(1-3)]
  note fin = loro_history.done_inv [OF assms(1)]
  note err = loro_history.side_inv_no_error [OF assms(1)]
  show ?thesis
  proof (intro conjI impI)
    assume "n < 4"
    with run prog show "\<exists>c. pair_step V (a, b) c" by (metis add.assoc add.right_neutral less_irrefl)
  next
    assume "n = 4"
    with run fin show "both_done (a, b)" "hist (sd_doc a) = gained hist pa da pb db"
      "hist (sd_doc b) = gained hist pb db pa da" by (auto simp: both_done_def)
  qed (use run err in auto)
qed

text \<open>
  The exchange of the documents \<open>(2, 1)\<close> and \<open>(1, 3)\<close> where the left side denies pull: the left
  side ends with both histories, the right side with its own.
\<close>

theorem one_shot_exchange_witness:
  "\<exists>a b. (pair_step ref_vdoc ^^ 4)
       (pair_start ref_vdoc \<lparr>pull = False, push = True\<rparr> (2, 1) perms_all (1, 3)) (a, b) \<and>
     both_done (a, b) \<and> sd_doc a = (2, 3) \<and> sd_doc b = (1, 3)"
proof -
  have T: "sd_error a = None \<and> sd_error b = None \<and> n \<le> 4 \<and>
         (n < 4 \<longrightarrow> (\<exists>c. pair_step ref_vdoc (a, b) c)) \<and>
         (n = 4 \<longrightarrow> both_done (a, b) \<and>
            ref_hist (sd_doc a) = gained ref_hist \<lparr>pull = False, push = True\<rparr> (2, 1) perms_all (1, 3) \<and>
            ref_hist (sd_doc b) = gained ref_hist perms_all (1, 3) \<lparr>pull = False, push = True\<rparr> (2, 1))"
    if "(pair_step ref_vdoc ^^ n) (pair_start ref_vdoc \<lparr>pull = False, push = True\<rparr> (2, 1)
          perms_all (1, 3)) (a, b)" for n a b
    by (rule one_shot_exchange_converges [OF rh.loro_history_axioms _ _ that]) simp_all
  let ?s = "pair_start ref_vdoc \<lparr>pull = False, push = True\<rparr> (2, 1) perms_all (1, 3)"
  have run: "n \<le> 4 \<Longrightarrow> \<exists>a b. (pair_step ref_vdoc ^^ n) ?s (a, b)" for n
  proof (induction n)
    case 0
    show ?case by (simp add: pair_start_def)
  next
    case (Suc n)
    then obtain a b where ab: "(pair_step ref_vdoc ^^ n) ?s (a, b)" by auto
    with T [OF ab] Suc.prems obtain c where "pair_step ref_vdoc (a, b) c" by auto
    with ab have "(pair_step ref_vdoc ^^ Suc n) ?s c" by (rule relpowp_Suc_I)
    then show ?case by (cases c) blast
  qed
  from run [of 4] obtain a b where ab: "(pair_step ref_vdoc ^^ 4) ?s (a, b)" by auto
  have merged: "ref_hist (2, 1) \<union> ref_hist (1, 3) = ref_hist (2, 3)"
    by (auto simp: ref_hist_def range_ops_def)
  have "both_done (a, b)" using T [OF ab] by simp
  moreover have "ref_hist (sd_doc a) = ref_hist (2, 3)"
    using T [OF ab] by (simp add: gained_def perms_all_def merged [simplified])
  then have "sd_doc a = (2, 3)" by (rule ref_hist_inj)
  moreover have "ref_hist (sd_doc b) = ref_hist (1, 3)"
    using T [OF ab] by (simp add: gained_def perms_all_def)
  then have "sd_doc b = (1, 3)" by (rule ref_hist_inj)
  ultimately show ?thesis using ab by blast
qed

end
