(* ===== verification/Live_Pair.thy ===== *)
theory Live_Pair
  imports Sync Loro_Ref_Hist
begin

text \<open>
  Two live sessions against each other: \<open>drive_live\<close> on both ends of a connection, at the
  level of sync messages.  Each side keeps the order of the messages it is sent; a step is a
  side taking its next message, answering a pending nudge, or committing locally.  Any
  interleaving of them is allowed, commits and messages in flight included.
\<close>

record ('d, 'v) lside =
  ls_doc :: 'd
  ls_live :: "'v live_sync"
  ls_inbox :: "msg list"
  ls_nudged :: bool
  ls_error :: "sync_error option"

text \<open>The frame arm of the loop: a changed document nudges every session, this one included.\<close>

definition live_recv ::
    "('d, 'v, 'f) vdoc \<Rightarrow> ('d, 'v) lside \<Rightarrow> (('d, 'v) lside \<times> msg list) option" where
  "live_recv V s =
     (if ls_error s \<noteq> None then None
      else (case ls_inbox s of
              [] \<Rightarrow> None
            | m # ms \<Rightarrow>
                (case live_on V (ls_doc s) (ls_live s) m of
                   (d, l, r) \<Rightarrow>
                     (let s' = s\<lparr>ls_doc := d, ls_live := l, ls_inbox := ms\<rparr> in
                      case r of
                        Inl e \<Rightarrow> Some (s'\<lparr>ls_error := Some e\<rparr>, [])
                      | Inr out \<Rightarrow> Some (s'\<lparr>ls_nudged := (ls_nudged s \<or> live_changed out)\<rparr>,
                                         case live_send out of None \<Rightarrow> [] | Some x \<Rightarrow> [x])))))"

text \<open>The nudge arm.\<close>

definition live_nudge ::
    "('d, 'v, 'f) vdoc \<Rightarrow> ('d, 'v) lside \<Rightarrow> (('d, 'v) lside \<times> msg list) option" where
  "live_nudge V s =
     (if ls_error s \<noteq> None \<or> \<not> ls_nudged s then None
      else (case live_pending V (ls_doc s) (ls_live s) of
              (l, Inl e) \<Rightarrow> Some (s\<lparr>ls_live := l, ls_nudged := False, ls_error := Some e\<rparr>, [])
            | (l, Inr out) \<Rightarrow> Some (s\<lparr>ls_live := l, ls_nudged := False\<rparr>,
                                    case out of None \<Rightarrow> [] | Some x \<Rightarrow> [x])))"

definition deliver :: "msg list \<Rightarrow> ('d, 'v) lside \<Rightarrow> ('d, 'v) lside" where
  "deliver out s = s\<lparr>ls_inbox := ls_inbox s @ out\<rparr>"

inductive quiet_step ::
    "('d, 'v, 'f) vdoc \<Rightarrow> ('d, 'v) lside \<times> ('d, 'v) lside \<Rightarrow> ('d, 'v) lside \<times> ('d, 'v) lside \<Rightarrow> bool"
  for V where
  recvL: "live_recv V a = Some (a', out) \<Longrightarrow> quiet_step V (a, b) (a', deliver out b)"
| recvR: "live_recv V b = Some (b', out) \<Longrightarrow> quiet_step V (a, b) (deliver out a, b')"
| nudgeL: "live_nudge V a = Some (a', out) \<Longrightarrow> quiet_step V (a, b) (a', deliver out b)"
| nudgeR: "live_nudge V b = Some (b', out) \<Longrightarrow> quiet_step V (a, b) (deliver out a, b')"

inductive_cases quiet_stepE: "quiet_step V (a, b) c"

text \<open>A local commit extends the history and nudges the session.\<close>

definition committed :: "('d \<Rightarrow> bool) \<Rightarrow> ('d \<Rightarrow> 'op set) \<Rightarrow> ('d, 'v) lside \<Rightarrow> ('d, 'v) lside \<Rightarrow> bool" where
  "committed dwf hist s s' \<longleftrightarrow>
     (\<exists>d'. dwf d' \<and> hist (ls_doc s) \<subseteq> hist d' \<and> s' = s\<lparr>ls_doc := d', ls_nudged := True\<rparr>)"

inductive live_step ::
    "('d, 'v, 'f) vdoc \<Rightarrow> ('d \<Rightarrow> bool) \<Rightarrow> ('d \<Rightarrow> 'op set) \<Rightarrow>
     ('d, 'v) lside \<times> ('d, 'v) lside \<Rightarrow> ('d, 'v) lside \<times> ('d, 'v) lside \<Rightarrow> bool"
  for V dwf hist where
  quiet: "quiet_step V c c' \<Longrightarrow> live_step V dwf hist c c'"
| commitL: "committed dwf hist a a' \<Longrightarrow> live_step V dwf hist (a, b) (a', b)"
| commitR: "committed dwf hist b b' \<Longrightarrow> live_step V dwf hist (a, b) (a, b')"

definition lside_start :: "('d, 'v, 'f) vdoc \<Rightarrow> perms \<Rightarrow> 'd \<Rightarrow> 'd \<Rightarrow> ('d, 'v) lside" where
  "lside_start V p d peer =
     \<lparr>ls_doc = d, ls_live = live_new V p, ls_inbox = [live_start V peer], ls_nudged = False,
      ls_error = None\<rparr>"

definition live_pair_start ::
    "('d, 'v, 'f) vdoc \<Rightarrow> perms \<Rightarrow> 'd \<Rightarrow> perms \<Rightarrow> 'd \<Rightarrow> ('d, 'v) lside \<times> ('d, 'v) lside" where
  "live_pair_start V pa da pb db = (lside_start V pa da db, lside_start V pb db da)"

definition settled :: "('d, 'v) lside \<times> ('d, 'v) lside \<Rightarrow> bool" where
  "settled c \<longleftrightarrow> ls_inbox (fst c) = [] \<and> ls_inbox (snd c) = [] \<and>
                 \<not> ls_nudged (fst c) \<and> \<not> ls_nudged (snd c)"

section \<open>What is in flight\<close>

context loro_history
begin

fun flight :: "msg list \<Rightarrow> 'op set" where
  "flight [] = {}"
| "flight (Updates bs # ms) = carried bs \<union> flight ms"
| "flight (m # ms) = flight ms"

text \<open>The updates in an inbox apply in order: each finds its ancestors present.\<close>

fun chain :: "'op set \<Rightarrow> msg list \<Rightarrow> bool" where
  "chain H [] = True"
| "chain H (Updates bs # ms) =
     ((\<exists>s v. wf s \<and> ld_export_updates V s v = Ok bs) \<and>
      (\<forall>x \<in> carried bs. deps x \<subseteq> H \<union> carried bs) \<and> chain (H \<union> carried bs) ms)"
| "chain H (m # ms) = chain H ms"

fun haves :: "msg list \<Rightarrow> bytes set" where
  "haves [] = {}"
| "haves (Have vv # ms) = insert vv (haves ms)"
| "haves (m # ms) = haves ms"

lemma flight_append [simp]: "flight (ms @ ns) = flight ms \<union> flight ns"
  by (induction ms rule: flight.induct) auto

lemma haves_append [simp]: "haves (ms @ ns) = haves ms \<union> haves ns"
  by (induction ms rule: haves.induct) auto

lemma chain_append: "chain H (ms @ ns) \<longleftrightarrow> chain H ms \<and> chain (H \<union> flight ms) ns"
  by (induction H ms rule: chain.induct) (auto simp: Un_assoc)

lemma chain_mono: "chain H ms \<Longrightarrow> H \<subseteq> H' \<Longrightarrow> chain H' ms"
proof (induction H ms arbitrary: H' rule: chain.induct)
  case (2 H bs ms)
  then have "chain (H' \<union> carried bs) ms" by (auto intro: 2(1))
  with 2 show ?case by auto
qed auto

text \<open>What side \<open>X\<close> owes its peer \<open>Y\<close>, who grants \<open>X\<close> the permissions \<open>py\<close>.\<close>

definition owes :: "perms \<Rightarrow> perms \<Rightarrow> ('d, 'v) lside \<Rightarrow> ('d, 'v) lside \<Rightarrow> bool" where
  "owes px py X Y \<longleftrightarrow>
     wf (ls_doc X) \<and> ls_error X = None \<and> lv_perms (ls_live X) = px \<and>
     (push py \<longrightarrow> chain (hist (ls_doc Y)) (ls_inbox Y) \<and>
                  known (acked (ls_live X)) \<subseteq> hist (ls_doc Y) \<union> flight (ls_inbox Y)) \<and>
     (\<forall>vv \<in> haves (ls_inbox X). \<exists>v. vv = vv_encode V v \<and> known v \<subseteq> hist (ls_doc Y)) \<and>
     flight (ls_inbox Y) \<subseteq> hist (ls_doc X) \<and>
     (pull px \<longrightarrow> \<not> ls_nudged X \<longrightarrow> haves (ls_inbox X) = {} \<longrightarrow>
        acked (ls_live X) = ld_state_vv V (ls_doc X))"

lemma owesI:
  assumes "wf (ls_doc X)" "ls_error X = None" "lv_perms (ls_live X) = px"
    and "push py \<Longrightarrow> chain (hist (ls_doc Y)) (ls_inbox Y)"
    and "push py \<Longrightarrow> known (acked (ls_live X)) \<subseteq> hist (ls_doc Y) \<union> flight (ls_inbox Y)"
    and "\<And>vv. vv \<in> haves (ls_inbox X) \<Longrightarrow> \<exists>v. vv = vv_encode V v \<and> known v \<subseteq> hist (ls_doc Y)"
    and "flight (ls_inbox Y) \<subseteq> hist (ls_doc X)"
    and "pull px \<Longrightarrow> \<not> ls_nudged X \<Longrightarrow> haves (ls_inbox X) = {} \<Longrightarrow>
           acked (ls_live X) = ld_state_vv V (ls_doc X)"
  shows "owes px py X Y"
  using assms unfolding owes_def by blast

lemma owesD:
  assumes "owes px py X Y"
  shows "wf (ls_doc X)" "ls_error X = None" "lv_perms (ls_live X) = px"
    and "push py \<Longrightarrow> chain (hist (ls_doc Y)) (ls_inbox Y)"
    and "push py \<Longrightarrow> known (acked (ls_live X)) \<subseteq> hist (ls_doc Y) \<union> flight (ls_inbox Y)"
    and "vv \<in> haves (ls_inbox X) \<Longrightarrow> \<exists>v. vv = vv_encode V v \<and> known v \<subseteq> hist (ls_doc Y)"
    and "flight (ls_inbox Y) \<subseteq> hist (ls_doc X)"
    and "pull px \<Longrightarrow> \<not> ls_nudged X \<Longrightarrow> haves (ls_inbox X) = {} \<Longrightarrow>
           acked (ls_live X) = ld_state_vv V (ls_doc X)"
  using assms unfolding owes_def by blast+

text \<open>What the receiver's growing history does to what its peer owes it.\<close>

lemma owes_grow:
  assumes "owes py px Y X" "hist (ls_doc X) \<subseteq> hist (ls_doc X')"
    and "push px \<Longrightarrow> chain (hist (ls_doc X')) (ls_inbox X')"
    and "hist (ls_doc X) \<union> flight (ls_inbox X) \<subseteq> hist (ls_doc X') \<union> flight (ls_inbox X')"
    and "flight (ls_inbox X') \<subseteq> flight (ls_inbox X)"
  shows "owes py px Y X'"
proof (rule owesI)
  show "known (acked (ls_live Y)) \<subseteq> hist (ls_doc X') \<union> flight (ls_inbox X')" if "push px"
    using owesD(5) [OF assms(1) that] assms(4) by blast
  show "\<exists>v. vv = vv_encode V v \<and> known v \<subseteq> hist (ls_doc X')" if "vv \<in> haves (ls_inbox Y)" for vv
    using owesD(6) [OF assms(1) that] assms(2) by blast
  show "flight (ls_inbox X') \<subseteq> hist (ls_doc Y)"
    using owesD(7) [OF assms(1)] assms(5) by blast
qed (use owesD(1-3,8) [OF assms(1)] assms(3) in auto)

lemma owes_start:
  assumes "wf dx" "wf dy"
  shows "owes px py (lside_start V px dx dy) (lside_start V py dy dx)"
  using assms
  by (auto simp: owes_def lside_start_def live_new_def live_start_def known_default known_version)

text \<open>What \<open>pending\<close> does: nothing, or it sends the gap since \<open>acked\<close>, which becomes the version.\<close>

lemma pending_cases:
  assumes "wf d"
  obtains (silent) "live_pending V d l = (l, Ok None)" "pull (lv_perms l) \<longrightarrow> acked l = ld_state_vv V d"
  | (gap) bs where "live_pending V d l = (l\<lparr>acked := ld_state_vv V d\<rparr>, Ok (Some (Updates bs)))"
      "ld_export_updates V d (acked l) = Ok bs" "carried bs = hist d - known (acked l)"
proof (cases "pull (lv_perms l) \<and> ld_state_vv V d \<noteq> acked l")
  case True
  obtain bs where "ld_export_updates V d (acked l) = Ok bs" "carried bs = hist d - known (acked l)"
    using export_ok [OF assms] by blast
  with True gap show thesis by (simp add: live_pending_def Let_def)
next
  case False
  with silent show thesis by (auto simp: live_pending_def Let_def)
qed

lemma pending_ok:
  assumes "wf d"
  obtains l' o' where "live_pending V d l = (l', Ok o')"
  using pending_cases [OF assms, of l] by metis

lemma gap_delivered:
  assumes "wf d" "ld_export_updates V d a = Ok bs" "carried bs = hist d - known a"
    and "chain H ms" "known a \<subseteq> H \<union> flight ms"
  shows "chain H (ms @ [Updates bs]) \<and> hist d \<subseteq> H \<union> flight (ms @ [Updates bs])"
proof -
  have "deps x \<subseteq> (H \<union> flight ms) \<union> carried bs" if "x \<in> carried bs" for x
    using hist_closed [OF assms(1), of x] that assms(3,5) by blast
  with assms show ?thesis by (auto simp: chain_append)
qed

text \<open>Sending the gap keeps both obligations.\<close>

definition sending :: "('d, 'v) lside \<Rightarrow> ('d, 'v) lside \<Rightarrow> 'v live_sync \<Rightarrow> msg list \<Rightarrow> bool" where
  "sending X X' l out \<longleftrightarrow>
     live_pending V (ls_doc X) l = (ls_live X', Ok (case out of [] \<Rightarrow> None | m # _ \<Rightarrow> Some m)) \<and>
     length out \<le> 1 \<and> ls_doc X' = ls_doc X \<and> ls_error X' = None"

lemma owes_sending:
  assumes s: "sending X X' l out" and wf: "wf (ls_doc X)" "wf (ls_doc Y)"
    and perms: "lv_perms l = px" "ls_error Y = None" "lv_perms (ls_live Y) = py"
    and X: "push py \<longrightarrow> chain (hist (ls_doc Y)) (ls_inbox Y) \<and>
              known (acked l) \<subseteq> hist (ls_doc Y) \<union> flight (ls_inbox Y)"
      "\<forall>vv \<in> haves (ls_inbox X'). \<exists>v. vv = vv_encode V v \<and> known v \<subseteq> hist (ls_doc Y)"
      "flight (ls_inbox Y) \<subseteq> hist (ls_doc X)"
  shows "owes px py X' (deliver out Y)"
  using wf(1)
proof (cases rule: pending_cases [of _ l])
  case silent
  with s have "out = []" "ls_live X' = l" by (auto simp: sending_def split: list.splits)
  with silent s wf perms X show ?thesis by (simp add: owes_def deliver_def sending_def)
next
  case (gap bs)
  with s have out: "out = [Updates bs]" and l: "ls_live X' = l\<lparr>acked := ld_state_vv V (ls_doc X)\<rparr>"
    by (auto simp: sending_def split: list.splits)
  have "push py \<longrightarrow> chain (hist (ls_doc Y)) (ls_inbox Y @ [Updates bs]) \<and>
          hist (ls_doc X) \<subseteq> hist (ls_doc Y) \<union> flight (ls_inbox Y @ [Updates bs])"
    using gap_delivered [OF wf(1) gap(2,3)] X(1) by blast
  with gap s wf perms X out l show ?thesis
    by (simp add: owes_def deliver_def sending_def known_version)
qed

lemma owes_receiving:
  assumes "sending X X' l out" "owes py px Y X"
    and "push px \<longrightarrow> chain (hist (ls_doc X)) (ls_inbox X')"
    and "flight (ls_inbox X') = flight (ls_inbox X)"
  shows "owes py px (deliver out Y) X'"
proof -
  have "haves out = {}"
    using assms(1) by (cases out; cases "tl out")
      (auto simp: sending_def live_pending_def Let_def split: if_splits sum.splits)
  with assms show ?thesis by (simp add: owes_def deliver_def sending_def)
qed

lemma nudge_owes:
  assumes X: "owes px py X Y" and Y: "owes py px Y X" and st: "live_nudge V X = Some (X', out)"
  shows "owes px py X' (deliver out Y) \<and> owes py px (deliver out Y) X'"
proof -
  have wf: "wf (ls_doc X)" using X by (simp add: owes_def)
  obtain l' o' where p: "live_pending V (ls_doc X) (ls_live X) = (l', Ok o')"
    using pending_ok [OF wf] .
  with X st have X': "X' = X\<lparr>ls_live := l', ls_nudged := False\<rparr>"
    and out: "out = (case o' of None \<Rightarrow> [] | Some x \<Rightarrow> [x])"
    by (simp_all add: live_nudge_def owes_def split: if_splits)
  have s: "sending X X' (ls_live X) out" and i: "ls_inbox X' = ls_inbox X"
    using p X by (simp_all add: sending_def X' out owes_def split: option.split)
  have "owes px py X' (deliver out Y)"
    by (rule owes_sending [OF s wf]) (use X Y i in \<open>simp_all add: owes_def\<close>)
  moreover have "owes py px (deliver out Y) X'"
    by (rule owes_receiving [OF s Y]) (use X Y i in \<open>simp_all add: owes_def\<close>)
  ultimately show ?thesis ..
qed

lemma recv_have_owes:
  assumes X: "owes px py X Y" and Y: "owes py px Y X" and st: "live_recv V X = Some (X', out)"
    and m: "ls_inbox X = Have vv # ms"
  shows "owes px py X' (deliver out Y) \<and> owes py px (deliver out Y) X'"
proof -
  have wf: "wf (ls_doc X)" using X by (simp add: owes_def)
  obtain v where v: "vv = vv_encode V v" "known v \<subseteq> hist (ls_doc Y)"
    using X m by (auto simp: owes_def)
  let ?l = "(ls_live X)\<lparr>acked := v\<rparr>"
  obtain l' o' where p: "live_pending V (ls_doc X) ?l = (l', Ok o')" using pending_ok [OF wf] .
  have "live_on V (ls_doc X) (ls_live X) (Have vv) =
      (ls_doc X, l', Ok \<lparr>live_send = o', live_changed = False\<rparr>)"
    using p by (simp add: live_on_def live_on_have_def v(1) vv_roundtrip)
  with X st m have X': "X' = X\<lparr>ls_live := l', ls_inbox := ms\<rparr>"
    and out: "out = (case o' of None \<Rightarrow> [] | Some x \<Rightarrow> [x])"
    by (simp_all add: live_recv_def owes_def)
  have s: "sending X X' ?l out" and i: "ls_inbox X' = ms"
    using p X by (simp_all add: sending_def X' out owes_def split: option.split)
  have "owes px py X' (deliver out Y)"
    by (rule owes_sending [OF s wf]) (use X Y i m v(2) in \<open>auto simp: owes_def\<close>)
  moreover have "owes py px (deliver out Y) X'"
    by (rule owes_receiving [OF s Y]) (use X Y i m in \<open>simp_all add: owes_def\<close>)
  ultimately show ?thesis ..
qed

lemma recv_updates_owes:
  assumes X: "owes px py X Y" and Y: "owes py px Y X" and st: "live_recv V X = Some (X', out)"
    and m: "ls_inbox X = Updates bs # ms"
  shows "owes px py X' (deliver out Y) \<and> owes py px (deliver out Y) X'"
proof (cases "push px")
  case False
  with X st m have "X' = X\<lparr>ls_inbox := ms\<rparr>" "out = []"
    by (auto simp: live_recv_def live_on_def live_on_updates_def owes_def)
  with X Y m False show ?thesis by (simp add: owes_def deliver_def)
next
  case True
  have wf: "wf (ls_doc X)" using X by (simp add: owes_def)
  from Y m True obtain s v where ch: "wf s" "ld_export_updates V s v = Ok bs"
    "\<forall>x \<in> carried bs. deps x \<subseteq> hist (ls_doc X) \<union> carried bs"
    by (auto simp: owes_def)
  obtain d' where d': "ld_import V (ls_doc X) bs = (d', Ok False)" "wf d'"
    "hist d' = hist (ls_doc X) \<union> carried bs"
    using import_ok [OF wf _ ch(2,1)] ch(3) by blast
  let ?c = "ld_state_vv V d' \<noteq> ld_state_vv V (ls_doc X)"
  have "live_on V (ls_doc X) (ls_live X) (Updates bs) =
      (d', ls_live X, Ok \<lparr>live_send = None, live_changed = ?c\<rparr>)"
    using d' True X
    by (simp add: live_on_def live_on_updates_def import_no_orphans_def owes_def Let_def)
  with X st m have X': "X' = X\<lparr>ls_doc := d', ls_inbox := ms, ls_nudged := (ls_nudged X \<or> ?c)\<rparr>"
    and out: "out = []" by (auto simp: live_recv_def owes_def)
  have Yout: "deliver out Y = Y" by (simp add: deliver_def out)
  have "owes px py X' Y"
  proof (rule owesI)
    show "acked (ls_live X') = ld_state_vv V (ls_doc X')"
      if "pull px" "\<not> ls_nudged X'" "haves (ls_inbox X') = {}"
      using that owesD(8) [OF X] m by (simp add: X')
    show "flight (ls_inbox Y) \<subseteq> hist (ls_doc X')" using owesD(7) [OF X] d'(3) by (auto simp: X')
  qed (use owesD(2-6) [OF X] m d'(2) in \<open>simp_all add: X'\<close>)
  moreover have "owes py px Y X'"
  proof (rule owes_grow [OF Y])
    show "chain (hist (ls_doc X')) (ls_inbox X')" if "push px"
      using owesD(4) [OF Y that] m d'(3) by (simp add: X')
  qed (use m d'(3) in \<open>auto simp: X'\<close>)
  ultimately show ?thesis by (simp add: Yout)
qed

lemma recv_owes:
  assumes X: "owes px py X Y" and Y: "owes py px Y X" and st: "live_recv V X = Some (X', out)"
  shows "owes px py X' (deliver out Y) \<and> owes py px (deliver out Y) X'"
proof -
  from st obtain m ms where m: "ls_inbox X = m # ms"
    by (auto simp: live_recv_def split: if_splits list.splits)
  show ?thesis
  proof (cases m)
    case (Have vv)
    with assms m show ?thesis by (intro recv_have_owes) auto
  next
    case (Updates bs)
    with assms m show ?thesis by (intro recv_updates_owes) auto
  next
    case (Ephemeral bs)
    with X st m have "X' = X\<lparr>ls_inbox := ms\<rparr>" "out = []"
      by (auto simp: live_recv_def live_on_def owes_def)
    with X Y m Ephemeral show ?thesis by (simp add: owes_def deliver_def)
  qed
qed

lemma commit_owes:
  assumes X: "owes px py X Y" and Y: "owes py px Y X" and "committed wf hist X X'"
  shows "owes px py X' Y \<and> owes py px Y X'"
proof -
  from assms(3) obtain d' where d': "wf d'" "hist (ls_doc X) \<subseteq> hist d'"
    "X' = X\<lparr>ls_doc := d', ls_nudged := True\<rparr>" by (auto simp: committed_def)
  have "owes px py X' Y"
  proof (rule owesI)
    show "flight (ls_inbox Y) \<subseteq> hist (ls_doc X')" using owesD(7) [OF X] d' by auto
  qed (use owesD(2-6) [OF X] d'(1) in \<open>simp_all add: d'(3)\<close>)
  moreover have "owes py px Y X'"
  proof (rule owes_grow [OF Y])
    show "chain (hist (ls_doc X')) (ls_inbox X')" if "push px"
      using chain_mono [OF owesD(4) [OF Y that] d'(2)] by (simp add: d'(3))
  qed (use d' in auto)
  ultimately show ?thesis ..
qed

lemma quiet_owes:
  assumes "quiet_step V (X, Y) (X', Y')" "owes px py X Y" "owes py px Y X"
  shows "owes px py X' Y' \<and> owes py px Y' X'"
  using assms(1)
  by (cases rule: quiet_stepE)
     (use recv_owes [OF assms(2,3)] recv_owes [OF assms(3,2)] nudge_owes [OF assms(2,3)]
        nudge_owes [OF assms(3,2)] in blast)+

lemma live_step_owes:
  assumes "live_step V wf hist (X, Y) (X', Y')" "owes px py X Y" "owes py px Y X"
  shows "owes px py X' Y' \<and> owes py px Y' X'"
  using assms(1)
  by cases (use quiet_owes [OF _ assms(2,3)] commit_owes [OF assms(2,3)]
      commit_owes [OF assms(3,2)] in blast)+

lemma live_run_owes:
  assumes "wf da" "wf db" "(live_step V wf hist)\<^sup>*\<^sup>* (live_pair_start V pa da pb db) (a, b)"
  shows "owes pa pb a b \<and> owes pb pa b a"
  using assms(3)
proof (induction "(a, b)" arbitrary: a b rule: rtranclp_induct)
  case base
  then show ?case using owes_start assms(1,2) by (auto simp: live_pair_start_def)
next
  case (step c)
  then show ?case using live_step_owes by (cases c) blast
qed

section \<open>Quiet steps run out\<close>

definition weight :: "msg list \<Rightarrow> nat" where
  "weight ms = sum_list (map (\<lambda>m. case m of Have _ \<Rightarrow> 2 | _ \<Rightarrow> 1) ms)"

definition side_work :: "('d, 'v) lside \<Rightarrow> nat" where
  "side_work s = weight (ls_inbox s) + (if ls_nudged s then 2 else 0)"

definition work :: "('d, 'v) lside \<times> ('d, 'v) lside \<Rightarrow> nat" where
  "work c = side_work (fst c) + side_work (snd c)"

definition missing :: "('d, 'v) lside \<times> ('d, 'v) lside \<Rightarrow> nat" where
  "missing c = card (hist (ls_doc (fst c)) - hist (ls_doc (snd c))) +
               card (hist (ls_doc (snd c)) - hist (ls_doc (fst c)))"

lemma weight_simps [simp]:
  "weight [] = 0" "weight (Have vv # ms) = 2 + weight ms" "weight (Updates bs # ms) = 1 + weight ms"
  "weight (Ephemeral bs # ms) = 1 + weight ms" "weight (ms @ ns) = weight ms + weight ns"
  by (simp_all add: weight_def)

lemma side_work_deliver [simp]: "side_work (deliver out s) = side_work s + weight out"
  by (simp add: side_work_def deliver_def)

lemma doc_deliver [simp]: "ls_doc (deliver out s) = ls_doc s"
  by (simp add: deliver_def)

lemma pending_weight:
  assumes "live_pending V d l = (l', Ok o')"
  shows "weight (case o' of None \<Rightarrow> [] | Some x \<Rightarrow> [x]) \<le> 1"
  using assms by (auto simp: live_pending_def Let_def split: if_splits sum.splits)

text \<open>A turn uses up work, or the side learns operations its peer has.\<close>

definition progress :: "('d, 'v) lside \<Rightarrow> ('d, 'v) lside \<Rightarrow> msg list \<Rightarrow> ('d, 'v) lside \<Rightarrow> bool" where
  "progress X X' out Y \<longleftrightarrow>
     (hist (ls_doc X') = hist (ls_doc X) \<and> side_work X' + weight out < side_work X) \<or>
     (hist (ls_doc X) \<subset> hist (ls_doc X') \<and>
      hist (ls_doc X') \<subseteq> hist (ls_doc X) \<union> hist (ls_doc Y))"

lemma nudge_progress:
  assumes "owes px py X Y" "live_nudge V X = Some (X', out)"
  shows "progress X X' out Y"
proof -
  obtain l' o' where p: "live_pending V (ls_doc X) (ls_live X) = (l', Ok o')"
    using pending_ok [OF owesD(1) [OF assms(1)]] .
  with assms pending_weight [OF p] show ?thesis
    by (auto simp: live_nudge_def progress_def side_work_def split: if_splits)
qed

lemma recv_progress:
  assumes X: "owes px py X Y" and Y: "owes py px Y X" and st: "live_recv V X = Some (X', out)"
  shows "progress X X' out Y"
proof -
  have e: "ls_error X = None" and wf: "wf (ls_doc X)" by (rule owesD [OF X])+
  from st obtain m ms where m: "ls_inbox X = m # ms"
    by (auto simp: live_recv_def split: if_splits list.splits)
  show ?thesis
  proof (cases m)
    case (Have vv)
    then obtain v where v: "vv = vv_encode V v" using owesD(6) [OF X, of vv] m by auto
    obtain l' o' where p: "live_pending V (ls_doc X) ((ls_live X)\<lparr>acked := v\<rparr>) = (l', Ok o')"
      using pending_ok [OF wf] .
    with pending_weight [OF p] st e m Have v show ?thesis
      by (auto simp: live_recv_def live_on_def live_on_have_def vv_roundtrip progress_def side_work_def)
  next
    case (Ephemeral bs)
    with st e m show ?thesis
      by (auto simp: live_recv_def live_on_def progress_def side_work_def)
  next
    case (Updates bs)
    show ?thesis
    proof (cases "push px")
      case False
      with owesD(3) [OF X] st e m Updates show ?thesis
        by (auto simp: live_recv_def live_on_def live_on_updates_def progress_def side_work_def)
    next
      case True
      from owesD(4) [OF Y True] m Updates obtain s v where ch: "wf s" "ld_export_updates V s v = Ok bs"
        "\<forall>x \<in> carried bs. deps x \<subseteq> hist (ls_doc X) \<union> carried bs" by auto
      obtain d' where d': "ld_import V (ls_doc X) bs = (d', Ok False)" "wf d'"
        "hist d' = hist (ls_doc X) \<union> carried bs"
        using import_ok [OF wf _ ch(2,1)] ch(3) by blast
      have c: "carried bs \<subseteq> hist (ls_doc Y)" using owesD(7) [OF Y] m Updates by auto
      let ?c = "ld_state_vv V d' \<noteq> ld_state_vv V (ls_doc X)"
      have X': "X' = X\<lparr>ls_doc := d', ls_inbox := ms, ls_nudged := (ls_nudged X \<or> ?c)\<rparr>" "out = []"
        using d' True owesD(3) [OF X] st e m Updates
        by (auto simp: live_recv_def live_on_def live_on_updates_def import_no_orphans_def Let_def)
      show ?thesis
      proof (cases "hist d' = hist (ls_doc X)")
        case True
        then have "\<not> ?c" using version_eq_iff [OF d'(2) wf] by simp
        with True X' m Updates show ?thesis by (simp add: progress_def side_work_def)
      next
        case False
        with d'(3) c X' show ?thesis by (auto simp: progress_def)
      qed
    qed
  qed
qed

definition ranked :: "('d, 'v) lside \<times> ('d, 'v) lside \<Rightarrow> nat \<times> nat" where
  "ranked c = (missing c, work c)"

lemma progress_ranked:
  assumes "progress X X' out Y" "wf (ls_doc X)" "wf (ls_doc Y)"
  shows "(ranked (X', deliver out Y), ranked (X, Y)) \<in> less_than <*lex*> less_than"
    "(ranked (deliver out Y, X'), ranked (Y, X)) \<in> less_than <*lex*> less_than"
proof -
  have "missing (X', deliver out Y) < missing (X, Y) \<or>
        missing (X', deliver out Y) = missing (X, Y) \<and> work (X', deliver out Y) < work (X, Y)"
    using assms(1) unfolding progress_def
  proof
    assume h: "hist (ls_doc X) \<subset> hist (ls_doc X') \<and>
        hist (ls_doc X') \<subseteq> hist (ls_doc X) \<union> hist (ls_doc Y)"
    then have "hist (ls_doc Y) - hist (ls_doc X') \<subset> hist (ls_doc Y) - hist (ls_doc X)" by blast
    then have "card (hist (ls_doc Y) - hist (ls_doc X')) < card (hist (ls_doc Y) - hist (ls_doc X))"
      using finite_hist [OF assms(3)] by (intro psubset_card_mono) auto
    moreover from h have "hist (ls_doc X') - hist (ls_doc Y) = hist (ls_doc X) - hist (ls_doc Y)" by blast
    ultimately show ?thesis by (simp add: missing_def)
  qed (simp add: missing_def work_def)
  then show "(ranked (X', deliver out Y), ranked (X, Y)) \<in> less_than <*lex*> less_than"
    "(ranked (deliver out Y, X'), ranked (Y, X)) \<in> less_than <*lex*> less_than"
    by (auto simp: ranked_def missing_def work_def add.commute)
qed

lemma quiet_ranked:
  assumes "quiet_step V (X, Y) c" "owes px py X Y" "owes py px Y X"
  shows "(ranked c, ranked (X, Y)) \<in> less_than <*lex*> less_than"
  using assms(1)
  by (cases rule: quiet_stepE)
     (use progress_ranked owesD(1) [OF assms(2)] owesD(1) [OF assms(3)]
        recv_progress [OF assms(2,3)] recv_progress [OF assms(3,2)]
        nudge_progress [OF assms(2)] nudge_progress [OF assms(3)] in blast)+

lemma no_infinite_quiet:
  assumes "owes px py (fst (f 0)) (snd (f 0))" "owes py px (snd (f 0)) (fst (f 0))"
  shows "\<not> (\<forall>i. quiet_step V (f i) (f (Suc i)))"
proof
  assume st: "\<forall>i. quiet_step V (f i) (f (Suc i))"
  have inv: "owes px py (fst (f i)) (snd (f i)) \<and> owes py px (snd (f i)) (fst (f i))" for i
  proof (induction i)
    case (Suc i)
    with st quiet_owes [of "fst (f i)" "snd (f i)" "fst (f (Suc i))" "snd (f (Suc i))" px py]
    show ?case by simp
  qed (use assms in simp)
  have "(ranked (f (Suc i)), ranked (f i)) \<in> less_than <*lex*> less_than" for i
    using quiet_ranked [of "fst (f i)" "snd (f i)" "f (Suc i)" px py] inv [of i] st by simp
  then have "\<exists>g. \<forall>i. (g (Suc i), g i) \<in> less_than <*lex*> less_than"
    by (intro exI [of _ "\<lambda>i. ranked (f i)"]) simp
  then show False
    using wf_iff_no_infinite_down_chain [THEN iffD1, OF wf_lex_prod [OF wf_less_than wf_less_than]]
    by simp
qed

lemma progress_grows: "progress X X' out Y \<Longrightarrow> hist (ls_doc X) \<subseteq> hist (ls_doc X')"
  by (auto simp: progress_def)

lemma live_step_grows:
  assumes "live_step V wf hist (X, Y) (X', Y')" "owes px py X Y" "owes py px Y X"
  shows "hist (ls_doc X) \<subseteq> hist (ls_doc X') \<and> hist (ls_doc Y) \<subseteq> hist (ls_doc Y')"
  using assms(1)
proof cases
  case quiet
  then show ?thesis
    by (cases rule: quiet_stepE)
       (use recv_progress [OF assms(2,3)] recv_progress [OF assms(3,2)]
          nudge_progress [OF assms(2)] nudge_progress [OF assms(3)]
        in \<open>auto dest!: progress_grows\<close>)
qed (auto simp: committed_def)

lemma live_run_grows:
  assumes "wf da" "wf db" "(live_step V wf hist)\<^sup>*\<^sup>* (live_pair_start V pa da pb db) c"
  shows "hist da \<subseteq> hist (ls_doc (fst c)) \<and> hist db \<subseteq> hist (ls_doc (snd c))"
  using assms(3)
proof (induction rule: rtranclp_induct)
  case base
  then show ?case by (simp add: live_pair_start_def lside_start_def)
next
  case (step c c')
  then have "owes pa pb (fst c) (snd c) \<and> owes pb pa (snd c) (fst c)"
    using live_run_owes [OF assms(1,2), of pa pb "fst c" "snd c"] by simp
  with live_step_grows [of "fst c" "snd c" "fst c'" "snd c'" pa pb] step show ?case
    by simp blast
qed

lemma quiet_progress:
  assumes "owes px py X Y" "owes py px Y X" "\<not> settled (X, Y)"
  shows "\<exists>c. quiet_step V (X, Y) c"
proof -
  have go: "\<exists>s' out. live_nudge V s = Some (s', out)" if "ls_nudged s" "ls_error s = None" for s
    using that by (auto simp: live_nudge_def split: prod.splits sum.splits)
  have rc: "\<exists>s' out. live_recv V s = Some (s', out)" if "ls_inbox s \<noteq> []" "ls_error s = None" for s
    using that by (auto simp: live_recv_def Let_def neq_Nil_conv split: prod.splits sum.splits)
  show ?thesis
    using assms(3) go rc owesD(2) [OF assms(1)] owesD(2) [OF assms(2)] quiet_step.intros
    unfolding settled_def by (metis fst_conv snd_conv)
qed

lemma settled_equal:
  assumes "owes perms_all perms_all X Y" "owes perms_all perms_all Y X" "settled (X, Y)"
  shows "hist (ls_doc X) = hist (ls_doc Y)"
proof -
  have "acked (ls_live X) = ld_state_vv V (ls_doc X)" "acked (ls_live Y) = ld_state_vv V (ls_doc Y)"
    using owesD(8) [OF assms(1)] owesD(8) [OF assms(2)] assms(3) by (simp_all add: settled_def)
  with owesD(5) [OF assms(1)] owesD(5) [OF assms(2)] assms(3) owesD(1) [OF assms(1)] owesD(1) [OF assms(2)]
  show ?thesis by (auto simp: settled_def known_version)
qed

end

section \<open>Live sessions converge\<close>

text \<open>
  C2.  Two live sessions on one connection, from any documents, under any interleaving of
  local commits, deliveries and nudges: neither ever faults (no update is orphaned); once the
  commits pause the two cannot keep each other busy for ever, and as long as something is
  unread or unanswered a turn is possible; and when all is read and answered, with full
  permissions both ways, the two documents hold the same history, which includes both
  initial ones.
\<close>

theorem live_sessions_converge:
  assumes "loro_history V dwf hist known carried deps" "dwf da" "dwf db"
    and "(live_step V dwf hist)\<^sup>*\<^sup>* (live_pair_start V pa da pb db) (a, b)"
  shows "ls_error a = None \<and> ls_error b = None \<and>
         (\<forall>f. f 0 = (a, b) \<longrightarrow> \<not> (\<forall>i :: nat. quiet_step V (f i) (f (Suc i)))) \<and>
         (\<not> settled (a, b) \<longrightarrow> (\<exists>c. quiet_step V (a, b) c)) \<and>
         (settled (a, b) \<and> pa = perms_all \<and> pb = perms_all \<longrightarrow>
            hist (ls_doc a) = hist (ls_doc b) \<and> hist da \<union> hist db \<subseteq> hist (ls_doc a))"
proof -
  note run = loro_history.live_run_owes [OF assms]
  note d = loro_history.owesD(2) [OF assms(1)]
  have grows: "hist da \<subseteq> hist (ls_doc a)" "hist db \<subseteq> hist (ls_doc b)"
    using loro_history.live_run_grows [OF assms(1-4)] by simp_all
  have stop: "\<not> (\<forall>i :: nat. quiet_step V (f i) (f (Suc i)))" if "f 0 = (a, b)" for f
    by (rule loro_history.no_infinite_quiet [OF assms(1), of pa pb]) (use run that in simp_all)
  have eq: "hist (ls_doc a) = hist (ls_doc b)" if "settled (a, b)" "pa = perms_all" "pb = perms_all"
    using loro_history.settled_equal [OF assms(1)] run that by blast
  have prog: "\<exists>c. quiet_step V (a, b) c" if "\<not> settled (a, b)"
    using loro_history.quiet_progress [OF assms(1) _ _ that] run by blast
  show ?thesis using run d stop prog eq grows by blast
qed

text \<open>
  The witness: two sessions with full permissions, one operation each; after the two opening
  versions and the updates they ask for are delivered and echoed, both hold both operations.
\<close>

theorem live_sessions_converge_witness:
  "\<exists>a b. (live_step ref_vdoc (\<lambda>_. True) ref_hist)\<^sup>*\<^sup>*
            (live_pair_start ref_vdoc perms_all (1, 0) perms_all (0, 1)) (a, b) \<and>
         settled (a, b) \<and> ref_hist (ls_doc a) = ref_hist (ls_doc b)"
proof -
  let ?s = "live_pair_start ref_vdoc perms_all (1, 0) perms_all (0, 1)"
  let ?st = "live_step ref_vdoc (\<lambda>_. True) ref_hist"
  have T: "(\<forall>f. f 0 = c \<longrightarrow> \<not> (\<forall>i :: nat. quiet_step ref_vdoc (f i) (f (Suc i)))) \<and>
      (\<not> settled c \<longrightarrow> (\<exists>c'. quiet_step ref_vdoc c c')) \<and>
      (settled c \<longrightarrow> ref_hist (ls_doc (fst c)) = ref_hist (ls_doc (snd c)))"
    if "?st\<^sup>*\<^sup>* ?s c" for c
  proof -
    obtain a b where c: "c = (a, b)" by (cases c)
    have "?st\<^sup>*\<^sup>* ?s (a, b)" using that by (simp only: c)
    from live_sessions_converge [OF rh.loro_history_axioms _ _ this] show ?thesis
      unfolding c by simp
  qed
  have "\<exists>c. ?st\<^sup>*\<^sup>* ?s c \<and> settled c"
  proof (rule ccontr)
    assume none: "\<nexists>c. ?st\<^sup>*\<^sup>* ?s c \<and> settled c"
    have "\<exists>f. \<forall>n. (?st\<^sup>*\<^sup>* ?s (f n) \<and> (n = 0 \<longrightarrow> f n = ?s)) \<and> quiet_step ref_vdoc (f n) (f (Suc n))"
    proof (rule dependent_nat_choice)
      fix c and n :: nat assume c: "?st\<^sup>*\<^sup>* ?s c \<and> (n = 0 \<longrightarrow> c = ?s)"
      with none T [of c] obtain c' where "quiet_step ref_vdoc c c'" by blast
      with c show "\<exists>c'. (?st\<^sup>*\<^sup>* ?s c' \<and> (Suc n = 0 \<longrightarrow> c' = ?s)) \<and> quiet_step ref_vdoc c c'"
        by (meson Suc_not_Zero live_step.quiet rtranclp.rtrancl_into_rtrancl)
    qed blast
    then obtain f where "f 0 = ?s" "\<forall>n :: nat. quiet_step ref_vdoc (f n) (f (Suc n))" by blast
    with T [OF rtranclp.rtrancl_refl] show False by blast
  qed
  then obtain a b where "?st\<^sup>*\<^sup>* ?s (a, b)" "settled (a, b)" by (metis prod.collapse)
  with T [of "(a, b)"] show ?thesis by auto
qed

end
