(* ===== verification/Pull_Serve.thy ===== *)
theory Pull_Serve
  imports Sync_Pair Live_Pair
begin

text \<open>
  \<open>eg pull\<close> against \<open>eg serve\<close>: the dialer runs the one-shot driver (\<open>Node::sync_with\<close> in
  \<open>crates/okayeg-net/src/node.rs\<close>, which grants full permissions), the host a live session.
\<close>

inductive pull_step ::
    "('d, 'v, 'f) vdoc \<Rightarrow> 'd side \<times> ('d, 'v) lside \<Rightarrow> 'd side \<times> ('d, 'v) lside \<Rightarrow> bool"
  for V where
  dialer: "drive_step V a = Some (a', out) \<Longrightarrow> pull_step V (a, h) (a', deliver out h)"
| host_recv: "live_recv V h = Some (h', out) \<Longrightarrow>
     pull_step V (a, h) (a\<lparr>sd_inbox := sd_inbox a @ out\<rparr>, h')"
| host_nudge: "live_nudge V h = Some (h', out) \<Longrightarrow>
     pull_step V (a, h) (a\<lparr>sd_inbox := sd_inbox a @ out\<rparr>, h')"

inductive_cases pull_stepE: "pull_step V (a, h) c"

definition pull_start ::
    "('d, 'v, 'f) vdoc \<Rightarrow> 'd \<Rightarrow> perms \<Rightarrow> 'd \<Rightarrow> 'd side \<times> ('d, 'v) lside" where
  "pull_start V d p dh = (side_start V perms_all d dh, lside_start V p dh d)"

context loro_history
begin

text \<open>Nothing to send: the host withholds, or it has nothing the dialer lacks.\<close>

definition idle_host :: "perms \<Rightarrow> 'd \<Rightarrow> ('d, 'v) lside \<Rightarrow> bool" where
  "idle_host p d h \<longleftrightarrow>
     ls_error h = None \<and> lv_perms (ls_live h) = p \<and> wf (ls_doc h) \<and>
     (\<forall>m \<in> set (ls_inbox h). m = Have (vv_encode V (ld_state_vv V d)) \<or>
        (\<exists>v. m = Updates (updates_of d v) \<and> known v \<subseteq> hist (ls_doc h))) \<and>
     (pull p \<longrightarrow> hist (ls_doc h) = hist d \<and> \<not> ls_nudged h)"

definition waiting :: "'d \<Rightarrow> 'd \<Rightarrow> 'd side \<Rightarrow> bool" where
  "waiting d dh a \<longleftrightarrow>
     sd_error a = None \<and> sd_doc a = d \<and> sy_perms (sd_sync a) = perms_all \<and>
     ((sy_state (sd_sync a) = AwaitHave \<and> sd_inbox a = [Have (vv_encode V (ld_state_vv V dh))]) \<or>
      (sy_state (sd_sync a) = AwaitUpdates \<and> sd_inbox a = []))"

lemma dialer_waits:
  assumes "wf d" "wf dh" "waiting d dh a" "idle_host p d h" "hist dh \<subseteq> hist (ls_doc h)"
    and "drive_step V a = Some (a', out)"
  shows "waiting d dh a' \<and> idle_host p d (deliver out h)"
proof -
  have "sy_state (sd_sync a) = AwaitHave"
    using assms(3,6) by (auto simp: waiting_def drive_step_def)
  then have a': "a' = a\<lparr>sd_sync := (sd_sync a)\<lparr>sy_state := AwaitUpdates\<rparr>, sd_inbox := []\<rparr>"
    and out: "out = [Updates (updates_of d (ld_state_vv V dh))]"
    using assms(1,3,6) export_updates_of(1) [OF assms(1)]
    by (auto simp: waiting_def drive_step_def sync_on_def on_have_def vv_roundtrip Let_def sync_gated_def)
  have "waiting d dh a'" using assms(3) by (simp add: waiting_def a')
  have "known (ld_state_vv V dh) \<subseteq> hist (ls_doc h)" using assms(2,5) by (simp add: known_version)
  then have "idle_host p d (deliver out h)"
    using assms(4) by (auto simp: idle_host_def deliver_def out)
  with \<open>waiting d dh a'\<close> show ?thesis ..
qed

lemma host_idle:
  assumes d: "wf d" and h: "idle_host p d h" and st: "live_recv V h = Some (h', out) \<or> live_nudge V h = Some (h', out)"
  shows "idle_host p d h' \<and> out = [] \<and> hist (ls_doc h) \<subseteq> hist (ls_doc h')"
  using st
proof
  assume "live_nudge V h = Some (h', out)"
  with h show ?thesis
    by (auto simp: idle_host_def live_nudge_def live_pending_def split: if_splits)
next
  assume rc: "live_recv V h = Some (h', out)"
  then obtain m ms where m: "ls_inbox h = m # ms"
    by (auto simp: live_recv_def split: if_splits list.splits)
  have wfh: "wf (ls_doc h)" using h by (simp add: idle_host_def)
  from h m consider "m = Have (vv_encode V (ld_state_vv V d))"
    | v where "m = Updates (updates_of d v)" "known v \<subseteq> hist (ls_doc h)"
    by (auto simp: idle_host_def)
  then show ?thesis
  proof cases
    case 1
    have "pull p \<longrightarrow> ld_state_vv V (ls_doc h) = ld_state_vv V d"
      using h version_eq_iff [OF wfh d] by (simp add: idle_host_def)
    with h have "live_pending V (ls_doc h) ((ls_live h)\<lparr>acked := ld_state_vv V d\<rparr>) =
        ((ls_live h)\<lparr>acked := ld_state_vv V d\<rparr>, Ok None)"
      by (simp add: live_pending_def idle_host_def)
    with h m 1 rc have "h' = h\<lparr>ls_live := (ls_live h)\<lparr>acked := ld_state_vv V d\<rparr>, ls_inbox := ms\<rparr>"
      "out = []"
      by (simp_all add: live_recv_def live_on_def live_on_have_def vv_roundtrip idle_host_def)
    with h m show ?thesis by (simp add: idle_host_def)
  next
    case 2
    obtain d' where d': "ld_import V (ls_doc h) (updates_of d v) = (d', Ok False)" "wf d'"
      "hist d' = hist (ls_doc h) \<union> hist d"
      using import_since_known [OF wfh d 2(2)] by blast
    let ?c = "ld_state_vv V d' \<noteq> ld_state_vv V (ls_doc h)"
    have c: "pull p \<longrightarrow> \<not> ?c"
      using h d'(3) version_eq_iff [OF d'(2) wfh] by (auto simp: idle_host_def)
    show ?thesis
    proof (cases "push p")
      case True
      with h m 2(1) rc d'(1) have h': "h' = h\<lparr>ls_doc := d', ls_inbox := ms, ls_nudged := (ls_nudged h \<or> ?c)\<rparr>"
        and "out = []"
        by (auto simp: live_recv_def live_on_def live_on_updates_def import_no_orphans_def Let_def idle_host_def)
      moreover have "idle_host p d h'"
        using h c d'(2,3) m by (fastforce simp: idle_host_def h')
      ultimately show ?thesis using d'(3) by simp
    next
      case False
      with h m 2(1) rc have "h' = h\<lparr>ls_inbox := ms\<rparr>" "out = []"
        by (auto simp: live_recv_def live_on_def live_on_updates_def Let_def idle_host_def)
      with h m show ?thesis by (simp add: idle_host_def)
    qed
  qed
qed

lemma pull_run:
  assumes "wf d" "wf dh" "\<not> pull p \<or> hist dh = hist d"
    and "(pull_step V)\<^sup>*\<^sup>* (pull_start V d p dh) (a, h)"
  shows "waiting d dh a \<and> idle_host p d h \<and> hist dh \<subseteq> hist (ls_doc h)"
  using assms(4)
proof (induction "(a, h)" arbitrary: a h rule: rtranclp_induct)
  case base
  then have a: "a = side_start V perms_all d dh" and h: "h = lside_start V p dh d"
    by (simp_all add: pull_start_def)
  show ?case unfolding a h using assms(1-3)
    by (auto simp: waiting_def idle_host_def side_start_def lside_start_def sync_start_def live_start_def
        live_new_def sync_gated_def)
next
  case (step c)
  obtain a1 h1 where c: "c = (a1, h1)" by (cases c)
  note IH = step(3) [OF c]
  from step(2) [unfolded c] consider
      (dialer) out where "drive_step V a1 = Some (a, out)" "h = deliver out h1"
    | (host) out where "live_recv V h1 = Some (h, out) \<or> live_nudge V h1 = Some (h, out)"
        "a = a1\<lparr>sd_inbox := sd_inbox a1 @ out\<rparr>"
    by (cases rule: pull_stepE) blast+
  then show ?case
  proof cases
    case dialer
    with dialer_waits [OF assms(1,2), of a1 p h1 a] IH show ?thesis by auto
  next
    case host
    with host_idle [OF assms(1) _ host(1), of p] IH have "out = []" "idle_host p d h"
      "hist dh \<subseteq> hist (ls_doc h)" by auto
    with IH host(2) show ?thesis by (simp add: waiting_def)
  qed
qed

end

text \<open>
  C3.  A one-shot pull from a live host ends only if the host has something to send: when the
  host's version equals the dialer's, or the host grants no pull, no run of the two ever
  brings the dialer to done, because a live session sends no empty update set; after the
  opening messages the dialer waits on an empty inbox.
\<close>

theorem pull_of_nothing_never_ends:
  assumes "loro_history V dwf hist known carried deps" "dwf d" "dwf dh"
    and "\<not> pull p \<or> hist dh = hist d"
    and "(pull_step V)\<^sup>*\<^sup>* (pull_start V d p dh) (a, h)"
  shows "sy_state (sd_sync a) \<noteq> SyncDone \<and> sd_error a = None \<and>
         (sy_state (sd_sync a) = AwaitUpdates \<longrightarrow> sd_inbox a = [])"
proof -
  have "loro_history.waiting V d dh a"
    using loro_history.pull_run [OF assms] by simp
  then show ?thesis by (auto simp: loro_history.waiting_def [OF assms(1)])
qed

theorem pull_of_nothing_never_ends_witness:
  "\<exists>a h. pull_step ref_vdoc (pull_start ref_vdoc (2, 1) perms_all (2, 1)) (a, h) \<and>
     sy_state (sd_sync a) = AwaitUpdates \<and> sd_inbox a = []"
proof -
  let ?s = "side_start ref_vdoc perms_all (2, 1) (2, 1)"
  obtain a' out where st: "drive_step ref_vdoc ?s = Some (a', out)" "sy_state (sd_sync a') = AwaitUpdates"
    by (simp add: drive_step_def side_start_def sync_gated_def sync_start_def sync_on_def on_have_def
        ref_decode_def perms_all_def Let_def)
  let ?h = "deliver out (lside_start ref_vdoc perms_all (2, 1) (2, 1))"
  have step: "pull_step ref_vdoc (pull_start ref_vdoc (2, 1) perms_all (2, 1)) (a', ?h)"
    unfolding pull_start_def by (rule pull_step.dialer [OF st(1)])
  then have this_run: "(pull_step ref_vdoc)\<^sup>*\<^sup>* (pull_start ref_vdoc (2, 1) perms_all (2, 1)) (a', ?h)"
    by (rule r_into_rtranclp)
  have "sd_inbox a' = []"
    using pull_of_nothing_never_ends [OF rh.loro_history_axioms _ _ _ this_run] st(2) by simp
  with step st(2) show ?thesis by blast
qed

end
