(* ===== verification/Utf8.thy ===== *)
theory Utf8
  imports Prelude
begin

text \<open>
  Rust's text layer, as far as the program uses it: the characters of a \<open>String\<close> (a list of
  code points), \<open>String::from_utf8\<close> and \<open>String::from_utf8_lossy\<close> with the standard library's
  rule for where an invalid sequence ends, and the whitespace and line functions of \<open>str\<close>.
\<close>

type_synonym chars = "nat list"

definition scalar :: "nat \<Rightarrow> bool" where
  "scalar c \<longleftrightarrow> c < 0xD800 \<or> (0xE000 \<le> c \<and> c < 0x110000)"

definition REPLACEMENT :: nat where "REPLACEMENT = 0xFFFD"

section \<open>Encoding\<close>

definition utf8_char :: "nat \<Rightarrow> nat list" where
  "utf8_char c =
     (if c < 0x80 then [c]
      else if c < 0x800 then [0xC0 + c div 64, 0x80 + c mod 64]
      else if c < 0x10000 then [0xE0 + c div 4096, 0x80 + c div 64 mod 64, 0x80 + c mod 64]
      else [0xF0 + c div 262144, 0x80 + c div 4096 mod 64, 0x80 + c div 64 mod 64, 0x80 + c mod 64])"

definition utf8_encode :: "chars \<Rightarrow> bytes" where
  "utf8_encode cs = map char_of (concat (map utf8_char cs))"

section \<open>Decoding\<close>

definition cont :: "nat \<Rightarrow> bool" where "cont b \<longleftrightarrow> 0x80 \<le> b \<and> b < 0xC0"

text \<open>The range a lead byte allows for the second byte (empty: no such lead byte).\<close>

definition second_ok :: "nat \<Rightarrow> nat \<Rightarrow> bool" where
  "second_ok b0 b1 \<longleftrightarrow>
     (if b0 = 0xE0 then 0xA0 \<le> b1 \<and> b1 < 0xC0
      else if b0 = 0xED then 0x80 \<le> b1 \<and> b1 < 0xA0
      else if b0 = 0xF0 then 0x90 \<le> b1 \<and> b1 < 0xC0
      else if b0 = 0xF4 then 0x80 \<le> b1 \<and> b1 < 0x90
      else cont b1)"

definition lead_width :: "nat \<Rightarrow> nat" where
  "lead_width b = (if b < 0x80 then 1 else if 0xC2 \<le> b \<and> b < 0xE0 then 2
     else if 0xE0 \<le> b \<and> b < 0xF0 then 3 else if 0xF0 \<le> b \<and> b < 0xF5 then 4 else 0)"

text \<open>
  The next character with its length in bytes, or \<open>None\<close> with the length of the invalid
  sequence: the bytes that began like a character before the first one that does not fit.
\<close>

definition utf8_head :: "nat \<Rightarrow> nat list \<Rightarrow> nat option \<times> nat" where
  "utf8_head b0 rest =
     (let w = lead_width b0 in
      if w = 1 then (Some b0, 1)
      else if w = 0 then (None, 1)
      else (case rest of
              [] \<Rightarrow> (None, 1)
            | b1 # r1 \<Rightarrow>
                if \<not> second_ok b0 b1 then (None, 1)
                else if w = 2 then (Some ((b0 - 0xC0) * 64 + (b1 - 0x80)), 2)
                else (case r1 of
                        [] \<Rightarrow> (None, 2)
                      | b2 # r2 \<Rightarrow>
                          if \<not> cont b2 then (None, 2)
                          else if w = 3
                          then (Some ((b0 - 0xE0) * 4096 + (b1 - 0x80) * 64 + (b2 - 0x80)), 3)
                          else (case r2 of
                                  [] \<Rightarrow> (None, 3)
                                | b3 # _ \<Rightarrow>
                                    if \<not> cont b3 then (None, 3)
                                    else (Some ((b0 - 0xF0) * 262144 + (b1 - 0x80) * 4096
                                                + (b2 - 0x80) * 64 + (b3 - 0x80)), 4)))))"

lemma utf8_head_pos: "0 < snd (utf8_head b rest)"
  by (auto simp: utf8_head_def Let_def split: list.splits)

function utf8_chunks :: "nat list \<Rightarrow> nat option list" where
  "utf8_chunks [] = []"
| "utf8_chunks (b # bs) =
     fst (utf8_head b bs) # utf8_chunks (drop (snd (utf8_head b bs) - 1) bs)"
  by pat_completeness auto
termination by (relation "measure length") auto

definition byte_list :: "bytes \<Rightarrow> nat list" where "byte_list s = map of_char s"

definition chars_of :: "bytes \<Rightarrow> chars option" where
  "chars_of s =
     (let ks = utf8_chunks (byte_list s) in if None \<in> set ks then None else Some (map the ks))"

definition valid_utf8 :: "bytes \<Rightarrow> bool" where
  "valid_utf8 s \<longleftrightarrow> chars_of s \<noteq> None"

text \<open>\<open>String::from_utf8\<close> keeps the bytes; \<open>from_utf8_lossy\<close> puts U+FFFD for each bad sequence.\<close>

definition from_utf8 :: "bytes \<Rightarrow> bytes option" where
  "from_utf8 s = (if valid_utf8 s then Some s else None)"

definition lossy_chars :: "bytes \<Rightarrow> chars" where
  "lossy_chars s = map (\<lambda>k. case k of None \<Rightarrow> REPLACEMENT | Some c \<Rightarrow> c) (utf8_chunks (byte_list s))"

definition from_utf8_lossy :: "bytes \<Rightarrow> bytes" where
  "from_utf8_lossy s = utf8_encode (lossy_chars s)"

section \<open>Encoding and decoding are inverse\<close>

text \<open>The three multi-byte forms, over the payload bits of each byte.\<close>

definition payload2 :: "nat \<Rightarrow> nat \<Rightarrow> nat" where "payload2 x y = x * 64 + y"
definition payload3 :: "nat \<Rightarrow> nat \<Rightarrow> nat \<Rightarrow> nat" where "payload3 x y z = payload2 (payload2 x y) z"
definition payload4 :: "nat \<Rightarrow> nat \<Rightarrow> nat \<Rightarrow> nat \<Rightarrow> nat" where
  "payload4 x y z u = payload2 (payload3 x y z) u"

lemma payload2_div_mod [simp]: "y < 64 \<Longrightarrow> payload2 x y div 64 = x" "y < 64 \<Longrightarrow> payload2 x y mod 64 = y"
  by (simp_all add: payload2_def)

lemma payload2_split: "payload2 (c div 64) (c mod 64) = c"
  by (simp add: payload2_def)

lemma head2:
  assumes "2 \<le> x" "x < 32" "y < 64"
  shows "utf8_head (0xC0 + x) ((0x80 + y) # r) = (Some (payload2 x y), 2)"
    "utf8_char (payload2 x y) = [0xC0 + x, 0x80 + y]" "scalar (payload2 x y)"
proof -
  have b: "0x80 \<le> payload2 x y" "payload2 x y < 0x800" using assms by (auto simp: payload2_def)
  show "utf8_head (0xC0 + x) ((0x80 + y) # r) = (Some (payload2 x y), 2)"
    using assms by (simp add: utf8_head_def lead_width_def second_ok_def cont_def payload2_def)
  show "utf8_char (payload2 x y) = [0xC0 + x, 0x80 + y]"
    using assms b by (simp add: utf8_char_def)
  show "scalar (payload2 x y)" using b by (simp add: scalar_def)
qed

lemma div4096: "(c :: nat) div 4096 = c div 64 div 64" by (simp add: div_mult2_eq [symmetric])
lemma div262144: "(c :: nat) div 262144 = c div 64 div 64 div 64" by (simp add: div_mult2_eq [symmetric])

lemma head3:
  assumes "x < 16" "y < 64" "z < 64" "x = 0 \<Longrightarrow> 32 \<le> y" "x = 13 \<Longrightarrow> y < 32"
  shows "utf8_head (0xE0 + x) ((0x80 + y) # (0x80 + z) # r) = (Some (payload3 x y z), 3)"
    "utf8_char (payload3 x y z) = [0xE0 + x, 0x80 + y, 0x80 + z]" "scalar (payload3 x y z)"
proof -
  have v: "payload3 x y z = x * 4096 + y * 64 + z" by (simp add: payload3_def payload2_def)
  have so: "second_ok (0xE0 + x) (0x80 + y)" using assms by (auto simp: second_ok_def cont_def)
  have lw: "lead_width (0xE0 + x) = 3" using assms(1) by (simp add: lead_width_def)
  have b: "0x800 \<le> payload3 x y z" using assms unfolding v by (cases "x = 0") auto
  have b': "payload3 x y z < 0x10000" using assms(1-3) unfolding v by auto
  show "utf8_head (0xE0 + x) ((0x80 + y) # (0x80 + z) # r) = (Some (payload3 x y z), 3)"
    using assms(3) by (simp add: utf8_head_def lw so cont_def v)
  show "utf8_char (payload3 x y z) = [0xE0 + x, 0x80 + y, 0x80 + z]"
    using assms b b' by (simp add: utf8_char_def div4096 payload3_def)
  show "scalar (payload3 x y z)"
  proof (cases "x < 13 \<or> x = 13")
    case True
    with assms have "payload3 x y z < 0xD800" unfolding v by auto
    then show ?thesis by (simp add: scalar_def)
  next
    case False
    then have "0xE000 \<le> payload3 x y z" unfolding v by simp
    with b' show ?thesis by (simp add: scalar_def)
  qed
qed

lemma head4:
  assumes "x < 5" "y < 64" "z < 64" "u < 64" "x = 0 \<Longrightarrow> 16 \<le> y" "x = 4 \<Longrightarrow> y < 16"
  shows "utf8_head (0xF0 + x) ((0x80 + y) # (0x80 + z) # (0x80 + u) # r) = (Some (payload4 x y z u), 4)"
    "utf8_char (payload4 x y z u) = [0xF0 + x, 0x80 + y, 0x80 + z, 0x80 + u]"
    "scalar (payload4 x y z u)"
proof -
  have v: "payload4 x y z u = x * 262144 + y * 4096 + z * 64 + u"
    by (simp add: payload4_def payload3_def payload2_def)
  have so: "second_ok (0xF0 + x) (0x80 + y)" using assms by (auto simp: second_ok_def cont_def)
  have lw: "lead_width (0xF0 + x) = 4" using assms(1) by (simp add: lead_width_def)
  have b: "0x10000 \<le> payload4 x y z u" using assms unfolding v by (cases "x = 0") auto
  have b': "payload4 x y z u < 0x110000"
    using assms unfolding v by (cases "x = 4") auto
  show "utf8_head (0xF0 + x) ((0x80 + y) # (0x80 + z) # (0x80 + u) # r) = (Some (payload4 x y z u), 4)"
    using assms(3,4) by (simp add: utf8_head_def lw so cont_def v)
  show "utf8_char (payload4 x y z u) = [0xF0 + x, 0x80 + y, 0x80 + z, 0x80 + u]"
    using assms b by (simp add: utf8_char_def div4096 div262144 payload4_def payload3_def)
  show "scalar (payload4 x y z u)" using b b' by (simp add: scalar_def)
qed

text \<open>Every scalar value has one of the four forms, and so has every accepted sequence.\<close>

lemma scalar_cases:
  assumes "scalar c"
  obtains "c < 0x80"
  | x y where "c = payload2 x y" "2 \<le> x" "x < 32" "y < 64"
  | x y z where "c = payload3 x y z" "x < 16" "y < 64" "z < 64" "x = 0 \<Longrightarrow> 32 \<le> y" "x = 13 \<Longrightarrow> y < 32"
  | x y z u where "c = payload4 x y z u" "x < 5" "y < 64" "z < 64" "u < 64" "x = 0 \<Longrightarrow> 16 \<le> y"
      "x = 4 \<Longrightarrow> y < 16"
proof -
  let ?x = "c div 64"
  consider "c < 0x80" | "0x80 \<le> c" "c < 0x800" | "0x800 \<le> c" "c < 0x10000" | "0x10000 \<le> c"
    by linarith
  then show thesis
  proof cases
    case 2
    then have "2 \<le> ?x" "?x < 32" by auto
    then show thesis by (intro that(2) [of ?x "c mod 64"]) (simp_all add: payload2_split)
  next
    case 3
    define x y z where d: "x = c div 64 div 64" "y = c div 64 mod 64" "z = c mod 64"
    have c: "c = payload3 x y z" by (simp add: d payload3_def payload2_split)
    then have v: "c = x * 4096 + y * 64 + z" by (simp add: payload3_def payload2_def)
    have ub: "y < 64" "z < 64" by (simp_all add: d)
    have "x < 16" "x = 0 \<Longrightarrow> 32 \<le> y" using 3 ub unfolding v by auto
    moreover have "x = 13 \<Longrightarrow> y < 32" using assms ub unfolding scalar_def v by auto
    ultimately show thesis using that(3) [OF c] ub by blast
  next
    case 4
    define x y z u where
      d: "x = c div 64 div 64 div 64" "y = c div 64 div 64 mod 64" "z = c div 64 mod 64" "u = c mod 64"
    have c: "c = payload4 x y z u" by (simp add: d payload4_def payload3_def payload2_split)
    then have v: "c = x * 262144 + y * 4096 + z * 64 + u"
      by (simp add: payload4_def payload3_def payload2_def)
    have ub: "y < 64" "z < 64" "u < 64" by (simp_all add: d)
    have "x < 5" "x = 4 \<Longrightarrow> y < 16" using 4 assms ub unfolding scalar_def v by auto
    moreover have "x = 0 \<Longrightarrow> 16 \<le> y" using 4 ub unfolding v by auto
    ultimately show thesis using that(4) [OF c] ub by blast
  qed (rule that(1))
qed

lemma utf8_head_char:
  assumes "scalar c"
  shows "\<exists>b bs. utf8_char c = b # bs \<and> (\<forall>r. utf8_head b (bs @ r) = (Some c, Suc (length bs)))"
  using assms
proof (cases rule: scalar_cases)
  case 1
  then show ?thesis by (simp add: utf8_char_def utf8_head_def lead_width_def)
next
  case (2 x y)
  then show ?thesis using head2 [of x y] by simp
next
  case (3 x y z)
  show ?thesis using head3 [OF 3(2-6)] by (simp add: 3(1))
next
  case (4 x y z u)
  show ?thesis using head4 [OF 4(2-7)] by (simp add: 4(1))
qed

lemma utf8_char_bytes: "scalar c \<Longrightarrow> b \<in> set (utf8_char c) \<Longrightarrow> b < 256"
  by (auto simp: utf8_char_def scalar_def split: if_splits)

lemma byte_list_encode:
  "list_all scalar cs \<Longrightarrow> byte_list (utf8_encode cs) = concat (map utf8_char cs)"
  by (auto simp: byte_list_def utf8_encode_def list_all_iff comp_def
        intro!: map_idI) (metis mod_less utf8_char_bytes)

lemma chunks_concat:
  "list_all scalar cs \<Longrightarrow> utf8_chunks (concat (map utf8_char cs) @ r) = map Some cs @ utf8_chunks r"
proof (induction cs)
  case (Cons c cs)
  then have "scalar c" by simp
  then obtain b bs where "utf8_char c = b # bs" "\<forall>r. utf8_head b (bs @ r) = (Some c, Suc (length bs))"
    using utf8_head_char by blast
  with Cons show ?case by simp
qed simp

lemma chunks_encode: "list_all scalar cs \<Longrightarrow> utf8_chunks (byte_list (utf8_encode cs)) = map Some cs"
  using chunks_concat [of cs "[]"] by (simp add: byte_list_encode)

lemma chars_of_encode [simp]: "list_all scalar cs \<Longrightarrow> chars_of (utf8_encode cs) = Some cs"
  by (auto simp: chars_of_def chunks_encode comp_def)

lemma lossy_encode [simp]: "list_all scalar cs \<Longrightarrow> lossy_chars (utf8_encode cs) = cs"
  by (simp add: lossy_chars_def chunks_encode comp_def)

text \<open>What the decoder accepts is the encoding of a scalar value.\<close>

lemma second_cont: "second_ok b0 b1 \<Longrightarrow> 0x80 \<le> b1 \<and> b1 < 0xC0"
  by (auto simp: second_ok_def cont_def split: if_splits)

lemma cont_obtain: "0x80 \<le> (b :: nat) \<and> b < 0xC0 \<Longrightarrow> \<exists>y < 64. b = 0x80 + y"
  by (intro exI [of _ "b - 0x80"]) auto

lemma utf8_head_Some:
  assumes "utf8_head b rest = (Some c, n)"
  shows "scalar c \<and> utf8_char c = b # take (n - 1) rest"
proof -
  consider "lead_width b = 0" | "lead_width b = 1" | "lead_width b = 2" | "lead_width b = 3"
    | "lead_width b = 4" unfolding lead_width_def by presburger
  then show ?thesis
  proof cases
    case 1
    with assms show ?thesis by (simp add: utf8_head_def)
  next
    case 2
    then have "b < 0x80" by (auto simp: lead_width_def split: if_splits)
    with assms 2 show ?thesis by (auto simp: utf8_head_def utf8_char_def scalar_def)
  next
    case 3
    with assms obtain b1 r where r: "rest = b1 # r" "second_ok b b1"
      by (auto simp: utf8_head_def split: list.splits if_splits)
    from 3 have "0xC2 \<le> b" "b < 0xE0" by (auto simp: lead_width_def split: if_splits)
    then obtain x where x: "b = 0xC0 + x" "2 \<le> x" "x < 32"
      by (intro that [of "b - 0xC0"]) auto
    from cont_obtain [OF second_cont [OF r(2)]] obtain y where y: "y < 64" "b1 = 0x80 + y" by blast
    show ?thesis using assms head2 [OF x(2,3) y(1)] by (auto simp: r(1) x(1) y(2))
  next
    case 4
    with assms obtain b1 b2 r where r: "rest = b1 # b2 # r" "second_ok b b1" "cont b2"
      by (auto simp: utf8_head_def split: list.splits if_splits)
    from 4 have "0xE0 \<le> b" "b < 0xF0" by (auto simp: lead_width_def split: if_splits)
    then obtain x where x: "b = 0xE0 + x" "x < 16" by (intro that [of "b - 0xE0"]) auto
    from cont_obtain [OF second_cont [OF r(2)]] obtain y where y: "y < 64" "b1 = 0x80 + y" by blast
    from cont_obtain [OF r(3) [unfolded cont_def]] obtain z where z: "z < 64" "b2 = 0x80 + z" by blast
    have "x = 0 \<Longrightarrow> 32 \<le> y" "x = 13 \<Longrightarrow> y < 32"
      using r(2) by (auto simp: second_ok_def x y)
    from head3 [OF x(2) y(1) z(1) this] assms show ?thesis by (auto simp: r(1) x(1) y(2) z(2))
  next
    case 5
    with assms obtain b1 b2 b3 r where r: "rest = b1 # b2 # b3 # r" "second_ok b b1" "cont b2" "cont b3"
      by (auto simp: utf8_head_def split: list.splits if_splits)
    from 5 have "0xF0 \<le> b" "b < 0xF5" by (auto simp: lead_width_def split: if_splits)
    then obtain x where x: "b = 0xF0 + x" "x < 5" by (intro that [of "b - 0xF0"]) auto
    from cont_obtain [OF second_cont [OF r(2)]] obtain y where y: "y < 64" "b1 = 0x80 + y" by blast
    from cont_obtain [OF r(3) [unfolded cont_def]] obtain z where z: "z < 64" "b2 = 0x80 + z" by blast
    from cont_obtain [OF r(4) [unfolded cont_def]] obtain u where u: "u < 64" "b3 = 0x80 + u" by blast
    have "x = 0 \<Longrightarrow> 16 \<le> y" "x = 4 \<Longrightarrow> y < 16"
      using r(2) by (auto simp: second_ok_def x y)
    from head4 [OF x(2) y(1) z(1) u(1) this] assms show ?thesis
      by (auto simp: r(1) x(1) y(2) z(2) u(2))
  qed
qed

lemma chunks_valid:
  "None \<notin> set (utf8_chunks bs) \<Longrightarrow>
     \<exists>cs. list_all scalar cs \<and> utf8_chunks bs = map Some cs \<and> concat (map utf8_char cs) = bs"
proof (induction bs rule: utf8_chunks.induct)
  case (2 b bs)
  obtain k n where h: "utf8_head b bs = (k, n)" by fastforce
  from 2 h obtain cs where cs: "list_all scalar cs" "utf8_chunks (drop (n - 1) bs) = map Some cs"
    "concat (map utf8_char cs) = drop (n - 1) bs" by auto
  from 2(2) h obtain c where c: "k = Some c" by (cases k) auto
  with utf8_head_Some h have "scalar c" "utf8_char c = b # take (n - 1) bs" by blast+
  with cs h c show ?case by (intro exI [of _ "c # cs"]) simp
qed simp

lemma chars_of_Some:
  assumes "chars_of s = Some cs"
  shows "list_all scalar cs \<and> utf8_encode cs = s"
proof -
  from assms have n: "None \<notin> set (utf8_chunks (byte_list s))"
    and cs: "cs = map the (utf8_chunks (byte_list s))"
    by (auto simp: chars_of_def Let_def split: if_splits)
  from chunks_valid [OF n] cs have "list_all scalar cs" "concat (map utf8_char cs) = byte_list s"
    by (auto simp: comp_def)
  then show ?thesis by (simp add: utf8_encode_def byte_list_def comp_def)
qed

lemma chars_of_iff: "chars_of s = Some cs \<longleftrightarrow> list_all scalar cs \<and> s = utf8_encode cs"
  using chars_of_Some chars_of_encode by metis

lemma from_utf8_lossy_valid: "valid_utf8 s \<Longrightarrow> from_utf8_lossy s = s"
  by (auto simp: valid_utf8_def from_utf8_lossy_def chars_of_iff)

section \<open>Whitespace, lines and words\<close>

text \<open>The characters of an ASCII literal.\<close>

definition ascii :: "string \<Rightarrow> chars" where "ascii s = map of_char s"

text \<open>\<open>char::is_whitespace\<close> (Unicode White_Space) and \<open>char::is_control\<close> (category Cc).\<close>

definition is_whitespace :: "nat \<Rightarrow> bool" where
  "is_whitespace c \<longleftrightarrow>
     (9 \<le> c \<and> c \<le> 13) \<or> c = 32 \<or> c = 0x85 \<or> c = 0xA0 \<or> c = 0x1680 \<or>
     (0x2000 \<le> c \<and> c \<le> 0x200A) \<or> c = 0x2028 \<or> c = 0x2029 \<or> c = 0x202F \<or> c = 0x205F \<or> c = 0x3000"

definition is_control :: "nat \<Rightarrow> bool" where
  "is_control c \<longleftrightarrow> c < 0x20 \<or> (0x7F \<le> c \<and> c < 0xA0)"

definition trim_start :: "chars \<Rightarrow> chars" where "trim_start = dropWhile is_whitespace"

definition trim :: "chars \<Rightarrow> chars" where
  "trim s = rev (dropWhile is_whitespace (rev (dropWhile is_whitespace s)))"

text \<open>\<open>split_whitespace\<close>: the maximal runs of other characters.\<close>

function words_of :: "chars \<Rightarrow> chars list" where
  "words_of s =
     (let s' = dropWhile is_whitespace s in
      if s' = [] then []
      else takeWhile (\<lambda>c. \<not> is_whitespace c) s' # words_of (dropWhile (\<lambda>c. \<not> is_whitespace c) s'))"
  by pat_completeness auto
termination
proof (relation "measure length", goal_cases)
  case (2 s s')
  have le: "length (dropWhile is_whitespace s) \<le> length s" by (rule length_dropWhile_le)
  obtain x xs where s': "s' = x # xs" using 2(2) by (meson neq_Nil_conv)
  with 2 have "\<not> is_whitespace x" by (metis dropWhile_eq_Cons_conv)
  then have "dropWhile (\<lambda>c. \<not> is_whitespace c) s' = dropWhile (\<lambda>c. \<not> is_whitespace c) xs"
    by (simp add: s')
  moreover have "length s' = Suc (length xs)" by (simp add: s')
  moreover have "length s' \<le> length s" using le by (simp add: 2(1))
  ultimately show ?case using length_dropWhile_le [of "\<lambda>c. \<not> is_whitespace c" xs] by simp
qed simp

declare words_of.simps [simp del]

text \<open>\<open>str::lines\<close>: split at line feeds, a carriage return before one dropped, no last empty line.\<close>

fun split_lines :: "chars \<Rightarrow> chars \<Rightarrow> chars list" where
  "split_lines acc [] = (if acc = [] then [] else [rev acc])"
| "split_lines acc (c # cs) =
     (if c = 10 then rev (if acc \<noteq> [] \<and> hd acc = 13 then tl acc else acc) # split_lines [] cs
      else split_lines (c # acc) cs)"

definition lines_of :: "chars \<Rightarrow> chars list" where "lines_of = split_lines []"

fun join_lines :: "chars list \<Rightarrow> chars" where
  "join_lines [] = []"
| "join_lines [l] = l"
| "join_lines (l # m # ms) = l @ 10 # join_lines (m # ms)"

lemma set_trim: "set (trim s) \<subseteq> set s"
  by (auto simp: trim_def dest!: set_dropWhileD)

lemma ascii_valid:
  assumes "\<And>c. c \<in> set s \<Longrightarrow> of_char c < (128 :: nat)"
  shows "valid_utf8 s"
proof -
  have "utf8_encode (map of_char s) = s"
    using assms by (induction s) (simp_all add: utf8_encode_def utf8_char_def)
  moreover have "list_all scalar (map of_char s)"
    using assms by (force simp: list_all_iff scalar_def)
  ultimately show ?thesis using chars_of_encode [of "map of_char s"] by (simp add: valid_utf8_def)
qed

end
