(* ===== verification/Authz.thy ===== *)
theory Authz
  imports Sync Utf8
begin

text \<open>
  \<open>crates/okayeg-net/src/authz.rs\<close>: what a connecting peer may do.  The external command is a
  parameter: a function from what is written to its standard input to what became of it.
\<close>

datatype decision = Grant perms | Deny (deny_message: "string option")

text \<open>\<open>From<Option<Perms>>\<close>, and the closure authorizer of \<open>from_fn\<close>.\<close>

definition decision_from :: "perms option \<Rightarrow> decision" where
  "decision_from p = (case p of Some perms \<Rightarrow> Grant perms | None \<Rightarrow> Deny None)"

definition fn_authorize :: "('id \<Rightarrow> 'a) \<Rightarrow> ('a \<Rightarrow> decision) \<Rightarrow> 'id \<Rightarrow> decision" where
  "fn_authorize f into who = into (f who)"

section \<open>The verdict of a command\<close>

definition verdict_word :: "perms \<Rightarrow> chars \<Rightarrow> perms" where
  "verdict_word p w =
     (if w = ascii ''pull'' then p\<lparr>pull := True\<rparr>
      else if w = ascii ''push'' then p\<lparr>push := True\<rparr>
      else p)"

definition parse_verdict :: "chars \<Rightarrow> decision" where
  "parse_verdict stdout =
     (let ls = lines_of stdout;
          first = (case ls of [] \<Rightarrow> [] | l # _ \<Rightarrow> l);
          perms = foldl verdict_word \<lparr>pull = False, push = False\<rparr> (words_of first)
      in if pull perms \<or> push perms then Grant perms
         else (let rest = trim (join_lines (tl ls))
               in Deny (if rest = [] then None else Some (utf8_encode rest))))"

section \<open>The command authorizer\<close>

datatype cmd_outcome = NotSpawned | WaitFailed | Exited (exit_success: bool) (exit_stdout: bytes)

definition command_authorize :: "(string \<Rightarrow> cmd_outcome) \<Rightarrow> string \<Rightarrow> decision" where
  "command_authorize run who =
     (case run (who @ [CHR 0x0A]) of
        NotSpawned \<Rightarrow> Deny None
      | WaitFailed \<Rightarrow> Deny None
      | Exited success stdout \<Rightarrow>
          if \<not> success then Deny None else parse_verdict (lossy_chars stdout))"

section \<open>A grant is explicit\<close>

definition verdict_words :: "chars \<Rightarrow> chars list" where
  "verdict_words stdout = words_of (case lines_of stdout of [] \<Rightarrow> [] | l # _ \<Rightarrow> l)"

lemma ascii_pull_push: "ascii ''pull'' \<noteq> ascii ''push''"
  by (simp add: ascii_def)

lemma verdict_fold:
  "pull (foldl verdict_word p ws) \<longleftrightarrow> pull p \<or> ascii ''pull'' \<in> set ws"
  "push (foldl verdict_word p ws) \<longleftrightarrow> push p \<or> ascii ''push'' \<in> set ws"
  using ascii_pull_push by (induction ws arbitrary: p) (auto simp: verdict_word_def)

lemma perms_eq_iff: "(p :: perms) = q \<longleftrightarrow> pull p = pull q \<and> push p = push q"
  by (cases p; cases q) simp

lemma parse_verdict_grant:
  "parse_verdict s = Grant p \<longleftrightarrow>
     pull p = (ascii ''pull'' \<in> set (verdict_words s)) \<and>
     push p = (ascii ''push'' \<in> set (verdict_words s)) \<and> (pull p \<or> push p)"
  by (auto simp: parse_verdict_def Let_def verdict_fold perms_eq_iff verdict_words_def)

text \<open>
  C6.  The command authorizer fails closed: a peer is admitted exactly when the command could be
  run on its id, ended with success, and the first line of its output holds the word \<open>pull\<close> or
  \<open>push\<close>; the rights are exactly the words found there.  Every other outcome, whatever the
  bytes of the output, is a refusal.
\<close>

theorem command_authorize_fails_closed:
  "command_authorize run who = Grant p \<longleftrightarrow>
     (\<exists>out. run (who @ [CHR 0x0A]) = Exited True out \<and>
        pull p = (ascii ''pull'' \<in> set (verdict_words (lossy_chars out))) \<and>
        push p = (ascii ''push'' \<in> set (verdict_words (lossy_chars out))) \<and>
        (pull p \<or> push p))"
  by (auto simp: command_authorize_def parse_verdict_grant split: cmd_outcome.splits)

end
