(* ===== verification/Net_Frames.thy ===== *)
theory Net_Frames
  imports Authz
begin

text \<open>
  The framing of \<open>crates/okayeg-net/src/lib.rs\<close>: a four byte big endian length and the body,
  control frames beside sync messages, and the gate of \<open>Transport::accept\<close> with the refusal it
  sends (\<open>node.rs\<close>).  A stream that has ended is the list of the bytes left in it.
\<close>

section \<open>Errors\<close>

datatype net_error =
    Transport string
  | Unreachable string
  | Refused "string option"
  | Protocol sync_error
  | Io string

definition net_error_display :: "net_error \<Rightarrow> string" where
  "net_error_display e = (case e of
     Transport s \<Rightarrow> ''transport: '' @ s
   | Refused m \<Rightarrow> ''refused by peer'' @ (case m of None \<Rightarrow> [] | Some msg \<Rightarrow> '' ('' @ msg @ '')'')
   | Unreachable i \<Rightarrow> ''peer '' @ i @
       '' unreachable: dial timed out (offline, unreachable, or a dial-only browser peer; '' @
       ''if you meant a project, dial its host endpoint, not a client)''
   | Protocol p \<Rightarrow> ''protocol: '' @ sync_error_display p
   | Io s \<Rightarrow> ''io: '' @ s)"

section \<open>Frames\<close>

definition MAX_FRAME :: nat where "MAX_FRAME = 64 * 2 ^ 20"
definition CTRL_TAG :: char where "CTRL_TAG = CHR 0xFF"
definition CTRL_REFUSED :: char where "CTRL_REFUSED = CHR 0x00"
definition MAX_MESSAGE :: nat where "MAX_MESSAGE = 512"

definition be32 :: "nat \<Rightarrow> bytes" where
  "be32 n = map (\<lambda>i. char_of (n div 256 ^ i mod 256)) [3, 2, 1, 0]"

definition of_be :: "bytes \<Rightarrow> nat" where
  "of_be bs = foldl (\<lambda>n b. n * 256 + of_char b) 0 bs"

definition write_frame :: "bytes \<Rightarrow> net_error + bytes" where
  "write_frame body =
     (if length body < 2 ^ 32 then Ok (be32 (length body) @ body)
      else Err (Transport ''message too large to frame''))"

text \<open>\<open>read_exact\<close> on a stream that ends: what was read, or the end-of-file error.\<close>

definition read_exact :: "nat \<Rightarrow> bytes \<Rightarrow> net_error + bytes \<times> bytes" where
  "read_exact n s =
     (if length s < n then Err (Io ''early eof'') else Ok (take n s, drop n s))"

definition read_frame :: "bytes \<Rightarrow> net_error + bytes \<times> bytes" where
  "read_frame s =
     (case read_exact 4 s of
        Inl e \<Rightarrow> Err e
      | Inr (hd4, s1) \<Rightarrow>
          (let len = of_be hd4 in
           if MAX_FRAME < len
           then Err (Transport (''frame of '' @ dec len @ '' bytes exceeds '' @ dec MAX_FRAME @ '' cap''))
           else read_exact len s1))"

definition encode_refused :: "string option \<Rightarrow> bytes" where
  "encode_refused message =
     CTRL_TAG # CTRL_REFUSED # take MAX_MESSAGE (case message of None \<Rightarrow> [] | Some m \<Rightarrow> m)"

definition decode_frame :: "bytes \<Rightarrow> net_error + msg" where
  "decode_frame bs =
     (case bs of
        [] \<Rightarrow> (case msg_decode [] of Inl e \<Rightarrow> Err (Protocol e) | Inr m \<Rightarrow> Ok m)
      | b # rest \<Rightarrow>
          if b \<noteq> CTRL_TAG
          then (case msg_decode bs of Inl e \<Rightarrow> Err (Protocol e) | Inr m \<Rightarrow> Ok m)
          else (case rest of
                  [] \<Rightarrow> Err (Transport ''unknown control frame'')
                | k # msg \<Rightarrow>
                    if k = CTRL_REFUSED
                    then Err (Refused (if msg = [] then None else Some (from_utf8_lossy msg)))
                    else Err (Transport ''unknown control frame'')))"

section \<open>The gate of \<open>accept\<close>\<close>

text \<open>
  \<open>Transport::accept\<close> once a peer's stream is there: what the authorizer decided, and the bytes
  written to the stream before it is handed back (\<open>node.rs\<close> writes the refusal, the in-memory
  transport of the tests nothing).  A failed write is ignored.
\<close>

datatype 'id accepted = RefusedPeer 'id "string option" | Peer 'id perms

definition accept :: "('id \<Rightarrow> decision) \<Rightarrow> 'id \<Rightarrow> 'id accepted \<times> bytes" where
  "accept authorize who =
     (case authorize who of
        Grant perms \<Rightarrow> (Peer who perms, [])
      | Deny message \<Rightarrow>
          (RefusedPeer who message,
           case write_frame (encode_refused message) of Inl _ \<Rightarrow> [] | Inr bs \<Rightarrow> bs))"

definition mem_accept :: "('id \<Rightarrow> decision) \<Rightarrow> 'id \<Rightarrow> 'id accepted" where
  "mem_accept authorize who =
     (case authorize who of
        Grant perms \<Rightarrow> Peer who perms
      | Deny message \<Rightarrow> RefusedPeer who message)"

section \<open>Framing is a round trip\<close>

lemma be32_length [simp]: "length (be32 n) = 4"
  by (simp add: be32_def)

lemma digit_step: "(m :: nat) div 256 * 256 + m mod 256 = m"
  by (rule div_mult_mod_eq)

lemma of_be_be32: "n < 2 ^ 32 \<Longrightarrow> of_be (be32 n) = n"
proof -
  assume "n < 2 ^ 32"
  then have top: "n div 16777216 mod 256 = n div 16777216" by auto
  have d: "n div 16777216 = n div 65536 div 256" "n div 65536 = n div 256 div 256"
    by (simp_all add: div_mult2_eq [symmetric])
  have "of_be (be32 n) =
      ((n div 16777216 mod 256 * 256 + n div 65536 mod 256) * 256 + n div 256 mod 256) * 256 + n mod 256"
    by (simp add: be32_def of_be_def)
  also have "\<dots> = n" by (simp only: top) (simp only: d digit_step)
  finally show ?thesis .
qed

lemma read_write_frame:
  assumes "write_frame body = Ok w"
  shows "read_frame (w @ rest) =
           (if length body \<le> MAX_FRAME then Ok (body, rest)
            else Err (Transport (''frame of '' @ dec (length body) @ '' bytes exceeds '' @ dec MAX_FRAME @ '' cap'')))"
proof -
  from assms have len: "length body < 2 ^ 32" and w: "w = be32 (length body) @ body"
    by (auto simp: write_frame_def split: if_splits)
  have "read_exact 4 (w @ rest) = Ok (be32 (length body), body @ rest)"
    by (simp add: read_exact_def w)
  then show ?thesis using of_be_be32 [OF len] by (simp add: read_frame_def read_exact_def)
qed

text \<open>The bodies read from a stream until it fails, with the error that ends it.\<close>

lemma read_frame_shorter: "read_frame s = Ok (b, r) \<Longrightarrow> length r < length s"
  by (auto simp: read_frame_def read_exact_def Let_def split: if_splits)

function read_frames :: "bytes \<Rightarrow> bytes list \<times> net_error" where
  "read_frames s =
     (case read_frame s of
        Inl e \<Rightarrow> ([], e)
      | Inr (b, r) \<Rightarrow> (case read_frames r of (bs, e) \<Rightarrow> (b # bs, e)))"
  by pat_completeness auto
termination by (relation "measure length") (auto dest: read_frame_shorter)

declare read_frames.simps [simp del]

definition framed :: "bytes list \<Rightarrow> bytes" where
  "framed bodies = concat (map (\<lambda>b. case write_frame b of Inl _ \<Rightarrow> [] | Inr w \<Rightarrow> w) bodies)"

lemma write_frame_ok: "length body \<le> MAX_FRAME \<Longrightarrow> \<exists>w. write_frame body = Ok w"
  by (auto simp: write_frame_def MAX_FRAME_def)

lemma read_frames_framed:
  assumes "\<forall>b \<in> set bodies. length b \<le> MAX_FRAME"
  shows "read_frames (framed bodies @ rest) = (case read_frames rest of (bs, e) \<Rightarrow> (bodies @ bs, e))"
  using assms
proof (induction bodies)
  case Nil
  then show ?case by (simp add: framed_def split: prod.splits)
next
  case (Cons b bodies)
  then obtain w where w: "write_frame b = Ok w" using write_frame_ok [of b] by auto
  have "framed (b # bodies) @ rest = w @ framed bodies @ rest" by (simp add: framed_def w)
  moreover have "read_frame (w @ framed bodies @ rest) = Ok (b, framed bodies @ rest)"
    using read_write_frame [OF w] Cons.prems by simp
  ultimately show ?case using Cons
    by (subst read_frames.simps) (simp split: prod.splits)
qed

lemma decode_frame_msg [simp]: "decode_frame (msg_encode m) = Ok m"
  by (cases m) (auto simp: decode_frame_def CTRL_TAG_def)

lemma decode_frame_refused [simp]:
  "decode_frame (encode_refused m) =
     Err (Refused (case m of None \<Rightarrow> None | Some t \<Rightarrow> if t = [] then None
                                  else Some (from_utf8_lossy (take MAX_MESSAGE t))))"
  by (auto simp: decode_frame_def encode_refused_def MAX_MESSAGE_def split: option.splits)

text \<open>Only a control frame decodes to a refusal, and only the bytes of a message to a message.\<close>

lemma decode_frame_Ok: "decode_frame bs = Ok m \<Longrightarrow> bs = msg_encode m"
  by (auto simp: decode_frame_def split: list.splits if_splits sum.splits dest: msg_encode_decode)

lemma decode_frame_Refused:
  "decode_frame bs = Err (Refused m) \<Longrightarrow> \<exists>t. bs = CTRL_TAG # CTRL_REFUSED # t"
  by (auto simp: decode_frame_def split: list.splits if_splits sum.splits)

text \<open>
  C7.  What one end frames the other end reads: any sequence of messages, each of which fits the
  reader's cap, is read back as the same messages in order and nothing else, up to the error of
  the closed stream.  The lengths are checked on 32 bits by the writer and against the cap by
  the reader.
\<close>

theorem frames_roundtrip:
  assumes "\<forall>m \<in> set ms. length (msg_encode m) \<le> MAX_FRAME"
  shows "\<exists>bodies. read_frames (framed (map msg_encode ms)) = (bodies, Io ''early eof'') \<and>
                  map decode_frame bodies = map Ok ms"
proof -
  have "read_frames [] = ([], Io ''early eof'')"
    by (subst read_frames.simps) (simp add: read_frame_def read_exact_def)
  then show ?thesis
    using read_frames_framed [of "map msg_encode ms" "[]"] assms by (simp add: comp_def)
qed

theorem frames_roundtrip_witness:
  "\<exists>bodies. read_frames (framed (map msg_encode [Have ''v'', Updates ''abc'', Ephemeral []])) =
       (bodies, Io ''early eof'') \<and>
     map decode_frame bodies = [Ok (Have ''v''), Ok (Updates ''abc''), Ok (Ephemeral [])]"
  using frames_roundtrip [of "[Have ''v'', Updates ''abc'', Ephemeral []]"]
  by (simp add: MAX_FRAME_def)

text \<open>
  The gate is told apart from the protocol: a peer the authorizer denies gets one frame,
  which its reader decodes to a refusal carrying the message cut at \<open>MAX_MESSAGE\<close> bytes and
  repaired to valid UTF-8, and which is never a sync message; a peer it grants gets no frame
  and the rights granted; and no sync message is ever taken for a refusal.
\<close>

theorem accept_refuses_in_band:
  "(\<forall>p. authorize who = Grant p \<longrightarrow> accept authorize who = (Peer who p, [])) \<and>
   (\<forall>m. authorize who = Deny m \<longrightarrow>
      (\<exists>body. accept authorize who = (RefusedPeer who m, snd (accept authorize who)) \<and>
              read_frame (snd (accept authorize who)) = Ok (body, []) \<and>
              decode_frame body =
                Err (Refused (case m of None \<Rightarrow> None | Some t \<Rightarrow> if t = [] then None
                       else Some (from_utf8_lossy (take MAX_MESSAGE t)))) \<and>
              (\<forall>msg. msg_encode msg \<noteq> body)))"
proof (intro conjI allI impI)
  fix p assume "authorize who = Grant p"
  then show "accept authorize who = (Peer who p, [])" by (simp add: accept_def)
next
  fix m assume deny: "authorize who = Deny m"
  let ?b = "encode_refused m"
  have len: "length ?b \<le> MAX_FRAME"
    by (auto simp: encode_refused_def MAX_MESSAGE_def MAX_FRAME_def split: option.splits)
  then obtain w where w: "write_frame ?b = Ok w" using write_frame_ok by blast
  have "read_frame w = Ok (?b, [])" using read_write_frame [OF w, of "[]"] len by simp
  moreover have "msg_encode msg \<noteq> ?b" for msg
    using decode_frame_msg [of msg] decode_frame_refused [of m] by (metis Inl_Inr_False)
  ultimately show "\<exists>body. accept authorize who = (RefusedPeer who m, snd (accept authorize who)) \<and>
        read_frame (snd (accept authorize who)) = Ok (body, []) \<and>
        decode_frame body = Err (Refused (case m of None \<Rightarrow> None | Some t \<Rightarrow> if t = [] then None
                       else Some (from_utf8_lossy (take MAX_MESSAGE t)))) \<and>
        (\<forall>msg. msg_encode msg \<noteq> body)"
    using deny w by (intro exI [of _ ?b]) (simp add: accept_def)
qed

theorem accept_refuses_in_band_witness:
  "accept (\<lambda>_. Deny (Some ''no'')) (7 :: nat) =
      (RefusedPeer 7 (Some ''no''), snd (accept (\<lambda>_. Deny (Some ''no'')) (7 :: nat)))"
  using accept_refuses_in_band [of "\<lambda>_. Deny (Some ''no'')" "7 :: nat"] by blast

end
