(* ===== verification/Presence_Wire.thy ===== *)
theory Presence_Wire
  imports Loro_Api
begin

text \<open>
  \<open>crates/okayeg/src/presence/wire.rs\<close>: the mirror of Loro's presence encoding.  The file
  implements serde's \<open>Serialize\<close> and \<open>Deserialize\<close>; which bytes a format makes of that is the
  format crate's business (postcard), a parameter.  What a value hands to the serializer,
  and what a deserializer hands back, is a tree of serde's data model, the datatype \<open>serde\<close>.
\<close>

section \<open>Serde's data model, as far as the file uses it\<close>

datatype serde =
    SdUnitVariant nat
  | SdNewtypeVariant nat serde
  | SdBool bool
  | SdF64 "64 word"
  | SdI64 "64 word"
  | SdStr string
  | SdU8s bytes
  | SdSeq "serde list"
  | SdMap "(string \<times> serde) list"
  | SdNone
  | SdSome serde
  | SdEntry serde serde serde

section \<open>Values\<close>

text \<open>
  \<open>Value\<close> is \<open>LoroValue\<close>'s wire shape without containers; the variant called \<open>I32\<close> on the
  wire holds an \<open>i64\<close>, and \<open>Binary\<close> has index 8 because index 7 is \<open>Container\<close>.
\<close>

datatype pvalue =
    PNull
  | PBool bool
  | PDouble "64 word"
  | PI64 "64 word"
  | PString string
  | PList "pvalue list"
  | PMap "(string \<times> pvalue) list"
  | PBinary bytes

record entry =
  e_key :: string
  e_value :: "pvalue option"
  e_timestamp :: "64 word"

definition MAX_DEPTH :: nat where "MAX_DEPTH = 64"

datatype tag = TNull | TBool | TDouble | TI32 | TString | TList | TMap | TContainer | TBinary

text \<open>\<open>VARIANTS\<close>, whose order the derived \<open>Deserialize\<close> of \<open>Tag\<close> shares.\<close>

definition VARIANTS :: "tag list" where
  "VARIANTS = [TNull, TBool, TDouble, TI32, TString, TList, TMap, TContainer, TBinary]"

definition tag_of :: "nat \<Rightarrow> tag option" where
  "tag_of i = (if i < length VARIANTS then Some (VARIANTS ! i) else None)"

section \<open>Serializing\<close>

fun serialize_value :: "pvalue \<Rightarrow> serde" where
  "serialize_value PNull = SdUnitVariant 0"
| "serialize_value (PBool v) = SdNewtypeVariant 1 (SdBool v)"
| "serialize_value (PDouble v) = SdNewtypeVariant 2 (SdF64 v)"
| "serialize_value (PI64 v) = SdNewtypeVariant 3 (SdI64 v)"
| "serialize_value (PString v) = SdNewtypeVariant 4 (SdStr v)"
| "serialize_value (PList v) = SdNewtypeVariant 5 (SdSeq (map serialize_value v))"
| "serialize_value (PMap v) = SdNewtypeVariant 6 (SdMap (map (\<lambda>(k, x). (k, serialize_value x)) v))"
| "serialize_value (PBinary v) = SdNewtypeVariant 8 (SdU8s v)"

definition serialize_entry :: "entry \<Rightarrow> serde" where
  "serialize_entry e = SdEntry (SdStr (e_key e))
     (case e_value e of None \<Rightarrow> SdNone | Some v \<Rightarrow> SdSome (serialize_value v))
     (SdI64 (e_timestamp e))"

definition serialize_entries :: "entry list \<Rightarrow> serde" where
  "serialize_entries es = SdSeq (map serialize_entry es)"

section \<open>Deserializing with a depth budget\<close>

datatype de_error = TooDeep | ContainerValue | WrongShape

text \<open>
  \<open>value_seed\<close> is \<open>ValueSeed::visit_enum\<close>, \<open>list_seed\<close> and \<open>map_seed\<close> the loops of
  \<open>ListSeed::visit_seq\<close> and \<open>MapSeed::visit_map\<close>, which stop at the first error.  The budget
  is checked before the variant is looked at.
\<close>

fun value_seed :: "nat \<Rightarrow> serde \<Rightarrow> de_error + pvalue"
  and list_seed :: "nat \<Rightarrow> serde list \<Rightarrow> de_error + pvalue list"
  and map_seed :: "nat \<Rightarrow> (string \<times> serde) list \<Rightarrow> de_error + (string \<times> pvalue) list"
where
  "value_seed depth (SdUnitVariant i) =
     (if depth = 0 then Err TooDeep
      else (case tag_of i of
              Some TNull \<Rightarrow> Ok PNull
            | Some TContainer \<Rightarrow> Err ContainerValue
            | _ \<Rightarrow> Err WrongShape))"
| "value_seed depth (SdNewtypeVariant i x) =
     (if depth = 0 then Err TooDeep
      else (case (tag_of i, x) of
              (Some TBool, SdBool v) \<Rightarrow> Ok (PBool v)
            | (Some TDouble, SdF64 v) \<Rightarrow> Ok (PDouble v)
            | (Some TI32, SdI64 v) \<Rightarrow> Ok (PI64 v)
            | (Some TString, SdStr v) \<Rightarrow> Ok (PString v)
            | (Some TList, SdSeq v) \<Rightarrow>
                (case list_seed (depth - 1) v of Inl e \<Rightarrow> Err e | Inr w \<Rightarrow> Ok (PList w))
            | (Some TMap, SdMap v) \<Rightarrow>
                (case map_seed (depth - 1) v of Inl e \<Rightarrow> Err e | Inr w \<Rightarrow> Ok (PMap w))
            | (Some TContainer, _) \<Rightarrow> Err ContainerValue
            | (Some TBinary, SdU8s v) \<Rightarrow> Ok (PBinary v)
            | _ \<Rightarrow> Err WrongShape))"
| "value_seed depth _ = Err WrongShape"
| "list_seed depth [] = Ok []"
| "list_seed depth (x # xs) =
     (case value_seed depth x of
        Inl e \<Rightarrow> Err e
      | Inr v \<Rightarrow> (case list_seed depth xs of Inl e \<Rightarrow> Err e | Inr vs \<Rightarrow> Ok (v # vs)))"
| "map_seed depth [] = Ok []"
| "map_seed depth ((k, x) # xs) =
     (case value_seed depth x of
        Inl e \<Rightarrow> Err e
      | Inr v \<Rightarrow> (case map_seed depth xs of Inl e \<Rightarrow> Err e | Inr vs \<Rightarrow> Ok ((k, v) # vs)))"

definition deserialize_value :: "serde \<Rightarrow> de_error + pvalue" where
  "deserialize_value = value_seed MAX_DEPTH"

text \<open>The derived \<open>Deserialize\<close> of \<open>Entry\<close> and of \<open>Vec<Entry>\<close>.\<close>

fun deserialize_entry :: "serde \<Rightarrow> de_error + entry" where
  "deserialize_entry (SdEntry (SdStr k) v (SdI64 t)) =
     (case v of
        SdNone \<Rightarrow> Ok \<lparr>e_key = k, e_value = None, e_timestamp = t\<rparr>
      | SdSome x \<Rightarrow>
          (case deserialize_value x of
             Inl e \<Rightarrow> Err e
           | Inr w \<Rightarrow> Ok \<lparr>e_key = k, e_value = Some w, e_timestamp = t\<rparr>)
      | _ \<Rightarrow> Err WrongShape)"
| "deserialize_entry _ = Err WrongShape"

fun deserialize_all :: "serde list \<Rightarrow> de_error + entry list" where
  "deserialize_all [] = Ok []"
| "deserialize_all (x # xs) =
     (case deserialize_entry x of
        Inl e \<Rightarrow> Err e
      | Inr v \<Rightarrow> (case deserialize_all xs of Inl e \<Rightarrow> Err e | Inr vs \<Rightarrow> Ok (v # vs)))"

fun deserialize_entries :: "serde \<Rightarrow> de_error + entry list" where
  "deserialize_entries (SdSeq xs) = deserialize_all xs"
| "deserialize_entries _ = Err WrongShape"

section \<open>Round trip, and the bound on nesting\<close>

text \<open>How deep a value nests; a scalar is one level.\<close>

fun vdepth :: "pvalue \<Rightarrow> nat" where
  "vdepth (PList v) = Suc (foldr max (map vdepth v) 0)"
| "vdepth (PMap v) = Suc (foldr max (map (\<lambda>(k, x). vdepth x) v) 0)"
| "vdepth _ = 1"

lemma tag_of_simps [simp]:
  "tag_of 0 = Some TNull" "tag_of (Suc 0) = Some TBool" "tag_of 2 = Some TDouble"
  "tag_of 3 = Some TI32" "tag_of 4 = Some TString" "tag_of 5 = Some TList"
  "tag_of 6 = Some TMap" "tag_of 7 = Some TContainer" "tag_of 8 = Some TBinary"
  by (simp_all add: tag_of_def VARIANTS_def)

lemma list_seed_serialize:
  "(\<And>x. x \<in> set v \<Longrightarrow> value_seed d (serialize_value x) = (if vdepth x \<le> d then Ok x else Err TooDeep)) \<Longrightarrow>
   list_seed d (map serialize_value v) =
     (if foldr max (map vdepth v) 0 \<le> d then Ok v else Err TooDeep)"
  by (induction v) auto

lemma map_seed_serialize:
  "\<forall>(k, x) \<in> set v. value_seed d (serialize_value x) = (if vdepth x \<le> d then Ok x else Err TooDeep) \<Longrightarrow>
   map_seed d (map (\<lambda>(k, x). (k, serialize_value x)) v) =
     (if foldr max (map (\<lambda>(k, x). vdepth x) v) 0 \<le> d then Ok v else Err TooDeep)"
  by (induction v) auto

lemma value_seed_serialize:
  "value_seed d (serialize_value v) = (if vdepth v \<le> d then Ok v else Err TooDeep)"
proof (induction v arbitrary: d rule: serialize_value.induct)
  case (6 v)
  have "list_seed (d - 1) (map serialize_value v) =
      (if foldr max (map vdepth v) 0 \<le> d - 1 then Ok v else Err TooDeep)"
    by (rule list_seed_serialize) (rule 6)
  then show ?case by (cases d) auto
next
  case (7 v)
  have "map_seed (d - 1) (map (\<lambda>(k, x). (k, serialize_value x)) v) =
      (if foldr max (map (\<lambda>(k, x). vdepth x) v) 0 \<le> d - 1 then Ok v else Err TooDeep)"
    by (rule map_seed_serialize) (auto simp: 7)
  then show ?case by (cases d) auto
qed auto

definition entry_ok :: "entry \<Rightarrow> bool" where
  "entry_ok e = (case e_value e of None \<Rightarrow> True | Some v \<Rightarrow> vdepth v \<le> MAX_DEPTH)"

lemma deserialize_serialize_entry:
  "deserialize_entry (serialize_entry e) = (if entry_ok e then Ok e else Err TooDeep)"
  by (cases "e_value e")
     (auto simp: serialize_entry_def entry_ok_def deserialize_value_def value_seed_serialize)

lemma deserialize_serialize_entries:
  "\<forall>e \<in> set es. entry_ok e \<Longrightarrow> deserialize_entries (serialize_entries es) = Ok es"
  by (induction es) (auto simp: serialize_entries_def deserialize_serialize_entry)

text \<open>Whatever a deserializer hands over, an accepted value nests at most as deep as the budget.\<close>

lemma seeds_bounded:
  "value_seed d s = Ok v \<Longrightarrow> vdepth v \<le> d"
  "list_seed d ss = Ok vs \<Longrightarrow> foldr max (map vdepth vs) 0 \<le> d"
  "map_seed d ms = Ok kvs \<Longrightarrow> foldr max (map (\<lambda>(k, x). vdepth x) kvs) 0 \<le> d"
proof (induction d s and d ss and d ms arbitrary: v and vs and kvs
    rule: value_seed_list_seed_map_seed.induct)
  case (2 depth i x)
  then show ?case
    by (cases depth)
       (auto split: if_splits option.splits tag.splits serde.splits sum.splits)
qed (auto split: if_splits option.splits tag.splits sum.splits)

lemma deserialize_entry_ok: "deserialize_entry s = Ok e \<Longrightarrow> entry_ok e"
  by (cases s rule: deserialize_entry.cases)
     (auto simp: entry_ok_def deserialize_value_def split: serde.splits sum.splits dest: seeds_bounded(1))

lemma deserialize_entries_ok: "deserialize_entries s = Ok es \<Longrightarrow> \<forall>e \<in> set es. entry_ok e"
proof (cases s rule: deserialize_entries.cases)
  case (1 xs)
  have "deserialize_all xs = Ok es \<Longrightarrow> \<forall>e \<in> set es. entry_ok e" for xs es
    by (induction xs arbitrary: es) (auto split: sum.splits dest: deserialize_entry_ok)
  moreover assume "deserialize_entries s = Ok es"
  ultimately show ?thesis using 1 by simp
qed auto

end
