(* ===== verification/Presence.thy ===== *)
theory Presence
  imports Presence_Wire "HOL-Library.Countable"
begin

text \<open>
  \<open>crates/okayeg/src/presence.rs\<close>: the ephemeral state beside the document, and the scoping of
  a peer's updates to the keys that peer owns.  Loro's \<open>EphemeralStore\<close> and the postcard
  format are parameters (\<open>estore\<close>, \<open>postcard\<close>); \<open>presence_store\<close> states their documented laws.
\<close>

section \<open>The store and the format\<close>

record 's estore =
  es_new :: "64 word \<Rightarrow> 's"
  es_set :: "'s \<Rightarrow> string \<Rightarrow> lvalue \<Rightarrow> 's"
  es_delete :: "'s \<Rightarrow> string \<Rightarrow> 's"
  es_get :: "'s \<Rightarrow> string \<Rightarrow> lvalue option"
  es_all :: "'s \<Rightarrow> (string \<times> lvalue) list"
  es_encode_all :: "'s \<Rightarrow> bytes"
  es_apply :: "'s \<Rightarrow> bytes \<Rightarrow> 's \<times> bool"
  es_remove_outdated :: "'s \<Rightarrow> 's"

record postcard =
  pc_parse :: "bytes \<Rightarrow> serde option"
  pc_ser :: "serde \<Rightarrow> bytes option"

datatype presence_error = Malformed

definition presence_error_display :: "presence_error \<Rightarrow> string" where
  "presence_error_display e = (case e of Malformed \<Rightarrow> ''malformed presence update'')"

section \<open>Scoped updates\<close>

text \<open>\<open>postcard::from_bytes::<Vec<Entry>>\<close>, every error of which the code maps to \<open>Malformed\<close>.\<close>

definition decode_entries :: "postcard \<Rightarrow> bytes \<Rightarrow> entry list option" where
  "decode_entries P bs = (case pc_parse P bs of None \<Rightarrow> None
     | Some s \<Rightarrow> result_ok (deserialize_entries s))"

definition apply_from ::
    "'s estore \<Rightarrow> postcard \<Rightarrow> 's \<Rightarrow> bytes \<Rightarrow> (string \<Rightarrow> bool) \<Rightarrow> 's \<times> (presence_error + bytes option)"
where
  "apply_from E P st bs allowed =
     (case decode_entries P bs of
        None \<Rightarrow> (st, Err Malformed)
      | Some entries \<Rightarrow>
          (let total = length entries;
               kept = filter (\<lambda>e. allowed (e_key e)) entries
           in if kept = [] then (st, Ok None)
              else
                (case (if length kept = total then Some bs else pc_ser P (serialize_entries kept)) of
                   None \<Rightarrow> (st, Err Malformed)
                 | Some sane \<Rightarrow>
                     (case es_apply E st sane of
                        (st', applied) \<Rightarrow>
                          (st', if applied then Ok (Some sane) else Err Malformed)))))"

definition owns_key :: "string \<Rightarrow> string \<Rightarrow> bool" where
  "owns_key owner key \<longleftrightarrow>
     key = owner \<or> (case strip_prefix owner key of None \<Rightarrow> False | Some r \<Rightarrow> prefix ''/'' r)"

definition apply_owned ::
    "'s estore \<Rightarrow> postcard \<Rightarrow> 's \<Rightarrow> bytes \<Rightarrow> string option \<Rightarrow> 's \<times> (presence_error + bytes option)"
where
  "apply_owned E P st bs owner =
     apply_from E P st bs (\<lambda>k. case owner of Some ow \<Rightarrow> owns_key ow k | None \<Rightarrow> True)"

section \<open>Cursors\<close>

definition CURSOR :: string where "CURSOR = ''cursor''"

definition cursor_key :: "string \<Rightarrow> string" where
  "cursor_key ns = ns @ ''/'' @ CURSOR"

definition set_cursor :: "'s estore \<Rightarrow> 's \<Rightarrow> string \<Rightarrow> string \<Rightarrow> bytes \<Rightarrow> bytes \<Rightarrow> 's" where
  "set_cursor E st ns file anchor head =
     es_set E st (cursor_key ns)
       (LMap [(''file'', LString file), (''anchor'', LBinary anchor), (''head'', LBinary head)])"

definition as_string :: "lvalue \<Rightarrow> string option" where
  "as_string v = (case v of LString s \<Rightarrow> Some s | _ \<Rightarrow> None)"

definition as_binary :: "lvalue \<Rightarrow> bytes option" where
  "as_binary v = (case v of LBinary s \<Rightarrow> Some s | _ \<Rightarrow> None)"

definition decode_cursor :: "lvalue \<Rightarrow> (string \<times> bytes \<times> bytes) option" where
  "decode_cursor v =
     (case v of
        LMap m \<Rightarrow>
          Option.bind (Option.bind (map_of m ''file'') as_string) (\<lambda>file.
          Option.bind (Option.bind (map_of m ''anchor'') as_binary) (\<lambda>anchor.
          Option.bind (Option.bind (map_of m ''head'') as_binary) (\<lambda>head.
          Some (file, anchor, head))))
      | _ \<Rightarrow> None)"

definition get_cursor :: "'s estore \<Rightarrow> 's \<Rightarrow> string \<Rightarrow> (string \<times> bytes \<times> bytes) option" where
  "get_cursor E st ns = Option.bind (es_get E st (cursor_key ns)) decode_cursor"

definition clear_cursor :: "'s estore \<Rightarrow> 's \<Rightarrow> string \<Rightarrow> 's" where
  "clear_cursor E st ns = es_delete E st (cursor_key ns)"

definition cursors :: "'s estore \<Rightarrow> 's \<Rightarrow> (string \<times> string \<times> bytes \<times> bytes) list" where
  "cursors E st =
     List.map_filter (\<lambda>(key, v).
        Option.bind (strip_suffix (''/'' @ CURSOR) key) (\<lambda>ns.
        Option.bind (decode_cursor v) (\<lambda>(file, anchor, head). Some (ns, file, anchor, head))))
       (es_all E st)"

section \<open>Whose key is it\<close>

lemma owns_key_iff: "owns_key ow k \<longleftrightarrow> k = ow \<or> (\<exists>r. k = ow @ ''/'' @ r)"
  by (auto simp: owns_key_def strip_prefix_Some prefix_def split: option.splits)

lemma append_slash_eq:
  "CHR ''/'' \<notin> set a \<Longrightarrow> CHR ''/'' \<notin> set b \<Longrightarrow>
     a @ CHR ''/'' # r = b @ CHR ''/'' # s \<longleftrightarrow> a = b \<and> r = s"
  by (metis list.inject split_on_append same_append_eq)

lemma owners_disjoint:
  assumes "CHR ''/'' \<notin> set a" "CHR ''/'' \<notin> set b" "a \<noteq> b"
  shows "\<not> (owns_key a k \<and> owns_key b k)"
  using assms by (auto simp: owns_key_iff append_slash_eq)

lemma owns_cursor_key:
  assumes "CHR ''/'' \<notin> set ow" "CHR ''/'' \<notin> set ns"
  shows "owns_key ow (cursor_key ns) \<longleftrightarrow> ns = ow"
  using assms by (auto simp: owns_key_iff cursor_key_def append_slash_eq)

lemma cursor_key_inj [simp]: "cursor_key a = cursor_key b \<longleftrightarrow> a = b"
  by (simp add: cursor_key_def)

lemma decode_entries_ok: "decode_entries P bs = Some es \<Longrightarrow> \<forall>e \<in> set es. entry_ok e"
  by (auto simp: decode_entries_def split: option.splits elim!: result_ok.elims
        dest: deserialize_entries_ok)

section \<open>The laws of the store, and scoping\<close>

text \<open>
  \<open>apply\<close> reads the same format as \<open>wire.rs\<close> (the crate's test \<open>wire_matches_loro\<close>) and only
  touches the keys of the entries in the update.
\<close>

locale presence_store =
  fixes E :: "'s estore" and P :: postcard
  assumes postcard_roundtrip: "pc_ser P s = Some bs \<Longrightarrow> pc_parse P bs = Some s"
    and get_set: "es_get E (es_set E st k v) k' = (if k' = k then Some v else es_get E st k')"
    and get_delete: "es_get E (es_delete E st k) k' = (if k' = k then None else es_get E st k')"
    and all_get: "(k, v) \<in> set (es_all E st) \<longleftrightarrow> es_get E st k = Some v"
    and apply_frame:
      "decode_entries P bs = Some es \<Longrightarrow> k \<notin> e_key ` set es \<Longrightarrow>
         es_get E (fst (es_apply E st bs)) k = es_get E st k"
begin

lemma decode_serialized:
  "pc_ser P (serialize_entries es) = Some bs \<Longrightarrow> \<forall>e \<in> set es. entry_ok e \<Longrightarrow>
     decode_entries P bs = Some es"
  by (simp add: decode_entries_def postcard_roundtrip deserialize_serialize_entries)

text \<open>An update either changes nothing, or applies bytes that decode to the entries kept.\<close>

lemma apply_from_cases:
  assumes "apply_from E P st bs allowed = (st', r)"
  obtains (unchanged) "st' = st" "\<forall>out. r \<noteq> Ok (Some out)"
  | (applied) es sane where "decode_entries P bs = Some es"
      "decode_entries P sane = Some (filter (\<lambda>e. allowed (e_key e)) es)"
      "st' = fst (es_apply E st sane)" "\<forall>out. r = Ok (Some out) \<longrightarrow> out = sane"
proof (cases "decode_entries P bs")
  case None
  with assms have "st' = st" "r = Err Malformed" by (simp_all add: apply_from_def)
  then show thesis by (intro that(1)) simp_all
next
  case (Some es)
  define kept where "kept = filter (\<lambda>e. allowed (e_key e)) es"
  have ok: "\<forall>e \<in> set kept. entry_ok e" using decode_entries_ok [OF Some] by (simp add: kept_def)
  have full: "length kept = length es \<Longrightarrow> kept = es"
    unfolding kept_def by (metis filter_True length_filter_less less_irrefl)
  define sane where
    "sane = (if length kept = length es then Some bs else pc_ser P (serialize_entries kept))"
  have dec: "decode_entries P b = Some kept" if "sane = Some b" for b
    using that full Some decode_serialized [OF _ ok] by (auto simp: sane_def split: if_splits)
  have eq: "apply_from E P st bs allowed =
      (if kept = [] then (st, Ok None) else case sane of None \<Rightarrow> (st, Err Malformed)
        | Some b \<Rightarrow> (case es_apply E st b of (s, ok) \<Rightarrow> (s, if ok then Ok (Some b) else Err Malformed)))"
    by (simp add: apply_from_def Some Let_def kept_def sane_def)
  show thesis
  proof (cases "kept = [] \<or> sane = None")
    case True
    with assms eq that(1) show thesis by (auto split: if_splits)
  next
    case False
    then obtain b where b: "sane = Some b" by auto
    show thesis
    proof (rule that(2) [OF Some])
      show "decode_entries P b = Some (filter (\<lambda>e. allowed (e_key e)) es)"
        using dec [OF b] by (simp add: kept_def)
    qed (use assms eq False b in \<open>auto split: prod.splits if_splits\<close>)
  qed
qed

lemma apply_from_foreign:
  assumes "\<not> allowed k"
  shows "es_get E (fst (apply_from E P st bs allowed)) k = es_get E st k"
proof -
  obtain st' r where ap: "apply_from E P st bs allowed = (st', r)" by fastforce
  then show ?thesis
  proof (cases rule: apply_from_cases)
    case (applied es sane)
    with apply_frame [OF applied(2), of k st] assms show ?thesis by (auto simp: ap)
  qed (simp add: ap)
qed

lemma apply_from_relay:
  assumes "apply_from E P st bs allowed = (st', Ok (Some out))"
  shows "\<exists>es. decode_entries P bs = Some es \<and>
              decode_entries P out = Some (filter (\<lambda>e. allowed (e_key e)) es)"
  using assms by (cases rule: apply_from_cases) auto

lemma get_set_cursor:
  "get_cursor E (set_cursor E st ns file a h) ns' =
     (if ns' = ns then Some (file, a, h) else get_cursor E st ns')"
  by (simp add: get_cursor_def set_cursor_def get_set decode_cursor_def as_string_def as_binary_def)

lemma get_clear_cursor:
  "get_cursor E (clear_cursor E st ns) ns' = (if ns' = ns then None else get_cursor E st ns')"
  by (simp add: get_cursor_def clear_cursor_def get_delete)

lemma cursors_get:
  "(ns, c) \<in> set (cursors E st) \<longleftrightarrow> get_cursor E st ns = Some c"
proof -
  have "(ns, c) \<in> set (cursors E st) \<longleftrightarrow>
      (\<exists>v. (cursor_key ns, v) \<in> set (es_all E st) \<and> decode_cursor v = Some c)"
    by (cases c) (auto simp: cursors_def in_map_filter strip_suffix_Some cursor_key_def
        Option.bind_eq_Some_conv split: prod.splits)
  also have "\<dots> \<longleftrightarrow> get_cursor E st ns = Some c"
    by (auto simp: all_get get_cursor_def Option.bind_eq_Some_conv)
  finally show ?thesis .
qed

end

section \<open>A store with the laws\<close>

text \<open>A plain last-write-wins map, fed by a format that numbers the trees it is given.\<close>

instance serde :: countable by countable_datatype

definition ref_postcard :: postcard where
  "ref_postcard = \<lparr>pc_parse = (\<lambda>bs. Some (from_nat (length bs))),
                   pc_ser = (\<lambda>s. Some (replicate (to_nat s) (CHR ''x'')))\<rparr>"

fun to_lvalue :: "pvalue \<Rightarrow> lvalue" where
  "to_lvalue PNull = LNull"
| "to_lvalue (PBool b) = LBool b"
| "to_lvalue (PDouble w) = LDouble w"
| "to_lvalue (PI64 w) = LI64 w"
| "to_lvalue (PString s) = LString s"
| "to_lvalue (PList vs) = LList (map to_lvalue vs)"
| "to_lvalue (PMap kvs) = LMap (map (\<lambda>(k, v). (k, to_lvalue v)) kvs)"
| "to_lvalue (PBinary b) = LBinary b"

type_synonym rstore = "(string \<times> lvalue) list"

definition ref_entry :: "rstore \<Rightarrow> entry \<Rightarrow> rstore" where
  "ref_entry st e = (case e_value e of
       None \<Rightarrow> filter (\<lambda>p. fst p \<noteq> e_key e) st
     | Some v \<Rightarrow> (e_key e, to_lvalue v) # st)"

definition ref_all :: "rstore \<Rightarrow> (string \<times> lvalue) list" where
  "ref_all st = map (\<lambda>k. (k, the (map_of st k))) (remdups (map fst st))"

definition ref_estore :: "rstore estore" where
  "ref_estore = \<lparr>
     es_new = (\<lambda>_. []),
     es_set = (\<lambda>st k v. (k, v) # st),
     es_delete = (\<lambda>st k. filter (\<lambda>p. fst p \<noteq> k) st),
     es_get = map_of,
     es_all = ref_all,
     es_encode_all = (\<lambda>st. []),
     es_apply = (\<lambda>st bs. case decode_entries ref_postcard bs of
                   None \<Rightarrow> (st, False) | Some es \<Rightarrow> (foldl ref_entry st es, True)),
     es_remove_outdated = (\<lambda>st. st)\<rparr>"

lemma in_ref_all: "(k, v) \<in> set (ref_all st) \<longleftrightarrow> map_of st k = Some v"
proof (cases "map_of st k")
  case None
  then have "k \<notin> fst ` set st" by (simp add: map_of_eq_None_iff)
  with None show ?thesis by (auto simp: ref_all_def)
next
  case (Some w)
  then have "k \<in> fst ` set st" by (force dest: map_of_SomeD)
  with Some show ?thesis by (auto simp: ref_all_def)
qed

lemma ref_entry_frame: "k \<noteq> e_key e \<Longrightarrow> map_of (ref_entry st e) k = map_of st k"
  by (auto simp: ref_entry_def map_of_filter_key split: option.splits)

lemma ref_entries_frame: "k \<notin> e_key ` set es \<Longrightarrow> map_of (foldl ref_entry st es) k = map_of st k"
  by (induction es arbitrary: st) (auto simp: ref_entry_frame)

interpretation rp: presence_store ref_estore ref_postcard
proof (unfold_locales, goal_cases)
  case (1 s bs)
  then show ?case by (auto simp: ref_postcard_def)
next
  case (4 k v st)
  show ?case by (simp add: ref_estore_def in_ref_all)
next
  case (5 bs es k st)
  then show ?case by (simp add: ref_estore_def ref_entries_frame)
qed (simp_all add: ref_estore_def map_of_filter_key)

section \<open>Scoping of presence updates\<close>

text \<open>
  C4.  A peer's presence update, applied under its owner name, changes only that owner's keys:
  the key itself and the keys below \<open>owner/\<close>.  In particular the cursor of every other peer is
  untouched (peer names hold no slash), and the bytes to relay decode to exactly the entries
  of the update that the owner may write, in order.  All of it whatever the bytes are.
\<close>

theorem apply_owned_scoped:
  assumes "presence_store E P" and "apply_owned E P st bs (Some owner) = (st', r)"
    and "CHR ''/'' \<notin> set owner"
  shows "(\<forall>k. \<not> owns_key owner k \<longrightarrow> es_get E st' k = es_get E st k) \<and>
         (\<forall>ns. CHR ''/'' \<notin> set ns \<and> ns \<noteq> owner \<longrightarrow> get_cursor E st' ns = get_cursor E st ns) \<and>
         (\<forall>out. r = Ok (Some out) \<longrightarrow>
            (\<exists>es. decode_entries P bs = Some es \<and>
                  decode_entries P out = Some (filter (\<lambda>e. owns_key owner (e_key e)) es)))"
proof -
  have foreign: "es_get E st' k = es_get E st k" if "\<not> owns_key owner k" for k
    using presence_store.apply_from_foreign [OF assms(1), of "owns_key owner" k st bs] that assms(2)
    by (simp add: apply_owned_def)
  moreover have "get_cursor E st' ns = get_cursor E st ns"
    if "CHR ''/'' \<notin> set ns" "ns \<noteq> owner" for ns
    using foreign [of "cursor_key ns"] owns_cursor_key [OF assms(3) that(1)] that(2)
    by (simp add: get_cursor_def)
  ultimately show ?thesis
    using presence_store.apply_from_relay [OF assms(1)] assms(2) by (auto simp: apply_owned_def)
qed

text \<open>An update of \<open>bob\<close> that also carries an entry for \<open>amy\<close>'s cursor.\<close>

definition two_entries :: "entry list" where
  "two_entries = [\<lparr>e_key = ''bob'', e_value = Some PNull, e_timestamp = 1\<rparr>,
                  \<lparr>e_key = ''amy/cursor'', e_value = None, e_timestamp = 1\<rparr>]"

theorem apply_owned_scoped_witness:
  "\<exists>bs st' r. decode_entries ref_postcard bs = Some two_entries \<and>
     apply_owned ref_estore ref_postcard (set_cursor ref_estore [] ''amy'' ''f'' ''x'' ''y'') bs
       (Some ''bob'') = (st', r) \<and>
     get_cursor ref_estore st' ''amy'' = Some (''f'', ''x'', ''y'')"
proof -
  obtain bs where "pc_ser ref_postcard (serialize_entries two_entries) = Some bs"
    by (simp add: ref_postcard_def)
  then have bs: "decode_entries ref_postcard bs = Some two_entries"
    by (rule rp.decode_serialized) (simp add: two_entries_def entry_ok_def MAX_DEPTH_def)
  let ?st = "set_cursor ref_estore [] ''amy'' ''f'' ''x'' ''y''"
  obtain st' r where ap: "apply_owned ref_estore ref_postcard ?st bs (Some ''bob'') = (st', r)"
    by fastforce
  have "get_cursor ref_estore st' ''amy'' = get_cursor ref_estore ?st ''amy''"
    using apply_owned_scoped [OF rp.presence_store_axioms ap] by simp
  with bs ap show ?thesis using rp.get_set_cursor [of "[]" "''amy''"] by auto
qed

text \<open>
  C5.  The presence format's mirror is faithful within its depth budget and safe beyond it:
  entries whose values nest at most \<open>MAX_DEPTH\<close> levels come back unchanged from what was
  serialized, a deeper value is refused, and any entries accepted from arbitrary data are
  within the budget, so that re-encoding what was accepted and reading it again is the
  identity.
\<close>

theorem presence_wire_roundtrip:
  "deserialize_entry (serialize_entry e) = (if entry_ok e then Ok e else Err TooDeep) \<and>
   (deserialize_entries s = Ok es \<longrightarrow>
      (\<forall>e \<in> set es. entry_ok e) \<and> deserialize_entries (serialize_entries es) = Ok es)"
  by (metis deserialize_entries_ok deserialize_serialize_entries deserialize_serialize_entry)

theorem presence_wire_roundtrip_witness:
  "deserialize_entries (serialize_entries two_entries) = Ok two_entries"
proof -
  have "deserialize_entries (serialize_entries two_entries) = Ok two_entries"
    by (simp add: two_entries_def serialize_entries_def serialize_entry_def deserialize_value_def
        MAX_DEPTH_def)
  with presence_wire_roundtrip show ?thesis by blast
qed

end
