(* ===== verification/Net_Drive.thy ===== *)
theory Net_Drive
  imports Net_Frames Presence Loro_Ref_Hist
begin

text \<open>
  \<open>drive_live\<close> of \<open>crates/okayeg-net/src/lib.rs\<close>: one held-open session as a machine over the
  three arms of its \<open>select!\<close> loop (a frame read, an item of the presence relay, a nudge).  The
  document and the presence store are shared with the other sessions, so between two turns
  they may have changed in any way.
\<close>

section \<open>The session\<close>

record presence_link = lk_owner :: "string option"

record 'v session =
  ss_live :: "'v live_sync"
  ss_link :: "presence_link option"
  ss_relayed :: bool

datatype relay_item = RelayItem string bytes | Lagged | RelayClosed

datatype event = FrameRead "net_error + bytes" | Relayed relay_item | Nudge bool

text \<open>
  What a turn does: the new document, store and session, the frames written, the items sent on
  the relay, whether \<open>changed\<close> fired, and the result if the loop ended.
\<close>

record ('d, 's, 'v) turn =
  t_doc :: 'd
  t_store :: 's
  t_session :: "'v session"
  t_frames :: "bytes list"
  t_relay :: "(string \<times> bytes) list"
  t_changed :: bool
  t_end :: "(net_error + unit) option"

definition link_apply ::
    "'s estore \<Rightarrow> postcard \<Rightarrow> presence_link \<Rightarrow> 's \<Rightarrow> bytes \<Rightarrow> 's \<times> bytes option" where
  "link_apply E P link st bs =
     (case apply_owned E P st bs (lk_owner link) of (st', r) \<Rightarrow> (st', Option.bind (result_ok r) id))"

definition idle_turn :: "'d \<Rightarrow> 's \<Rightarrow> 'v session \<Rightarrow> ('d, 's, 'v) turn" where
  "idle_turn d st s = \<lparr>t_doc = d, t_store = st, t_session = s, t_frames = [], t_relay = [],
                       t_changed = False, t_end = None\<rparr>"

text \<open>\<open>write_frame(..).await?\<close> of a message: a body too large ends the loop.\<close>

definition send_msg :: "msg \<Rightarrow> ('d, 's, 'v) turn \<Rightarrow> ('d, 's, 'v) turn" where
  "send_msg m t =
     (if t_end t \<noteq> None then t
      else (case write_frame (msg_encode m) of
              Inl e \<Rightarrow> t\<lparr>t_end := Some (Err e)\<rparr>
            | Inr w \<Rightarrow> t\<lparr>t_frames := t_frames t @ [w]\<rparr>))"

definition send_opt :: "msg option \<Rightarrow> ('d, 's, 'v) turn \<Rightarrow> ('d, 's, 'v) turn" where
  "send_opt m t = (case m of None \<Rightarrow> t | Some x \<Rightarrow> send_msg x t)"

definition fire_changed :: "bool \<Rightarrow> ('d, 's, 'v) turn \<Rightarrow> ('d, 's, 'v) turn" where
  "fire_changed c t = (if t_end t = None then t\<lparr>t_changed := c\<rparr> else t)"

text \<open>Before the loop: the version, then the opening snapshot of the store.\<close>

definition drive_live_start ::
    "('d, 'v, 'f) vdoc \<Rightarrow> 's estore \<Rightarrow> 'd \<Rightarrow> 's \<Rightarrow> perms \<Rightarrow> presence_link option \<Rightarrow> ('d, 's, 'v) turn"
where
  "drive_live_start V E d st p link =
     (let s = \<lparr>ss_live = live_new V p, ss_link = link, ss_relayed = (link \<noteq> None)\<rparr>;
          t = send_msg (live_start V d) (idle_turn d st s)
      in (case link of None \<Rightarrow> t | Some _ \<Rightarrow> send_msg (Ephemeral (es_encode_all E st)) t))"

section \<open>The three arms\<close>

definition on_presence ::
    "'s estore \<Rightarrow> postcard \<Rightarrow> 'd \<Rightarrow> 's \<Rightarrow> 'v session \<Rightarrow> bytes \<Rightarrow> ('d, 's, 'v) turn" where
  "on_presence E P d st s bs =
     (case ss_link s of
        None \<Rightarrow> idle_turn d st s
      | Some link \<Rightarrow>
          (case link_apply E P link st bs of
             (st', sane) \<Rightarrow>
               (idle_turn d st' s)\<lparr>t_relay :=
                  (case (lk_owner link, sane) of (Some ns, Some b) \<Rightarrow> [(ns, b)] | _ \<Rightarrow> [])\<rparr>))"

definition on_frame ::
    "('d, 'v, 'f) vdoc \<Rightarrow> 's estore \<Rightarrow> postcard \<Rightarrow> 'd \<Rightarrow> 's \<Rightarrow> 'v session \<Rightarrow> net_error + bytes
       \<Rightarrow> ('d, 's, 'v) turn" where
  "on_frame V E P d st s fr =
     (case fr of
        Inl e \<Rightarrow> (idle_turn d st s)\<lparr>t_end := Some (Err e)\<rparr>
      | Inr body \<Rightarrow>
          (case decode_frame body of
             Inl e \<Rightarrow> (idle_turn d st s)\<lparr>t_end := Some (Err e)\<rparr>
           | Inr (Ephemeral bs) \<Rightarrow> on_presence E P d st s bs
           | Inr m \<Rightarrow>
               (case live_on V d (ss_live s) m of
                  (d', l', Inl e) \<Rightarrow>
                    (idle_turn d' st (s\<lparr>ss_live := l'\<rparr>))\<lparr>t_end := Some (Err (Protocol e))\<rparr>
                | (d', l', Inr out) \<Rightarrow>
                    fire_changed (live_changed out)
                      (send_opt (live_send out) (idle_turn d' st (s\<lparr>ss_live := l'\<rparr>))))))"

definition on_relayed ::
    "'s estore \<Rightarrow> 'd \<Rightarrow> 's \<Rightarrow> 'v session \<Rightarrow> relay_item \<Rightarrow> ('d, 's, 'v) turn" where
  "on_relayed E d st s item =
     (case ss_link s of
        None \<Rightarrow> idle_turn d st s
      | Some link \<Rightarrow>
          (if \<not> ss_relayed s then idle_turn d st s
           else (case item of
                   RelayItem origin bs \<Rightarrow>
                     (if lk_owner link \<noteq> Some origin
                      then send_msg (Ephemeral bs) (idle_turn d st s)
                      else idle_turn d st s)
                 | Lagged \<Rightarrow> send_msg (Ephemeral (es_encode_all E st)) (idle_turn d st s)
                 | RelayClosed \<Rightarrow> idle_turn d st (s\<lparr>ss_relayed := False\<rparr>))))"

definition on_nudge ::
    "('d, 'v, 'f) vdoc \<Rightarrow> 'd \<Rightarrow> 's \<Rightarrow> 'v session \<Rightarrow> bool \<Rightarrow> ('d, 's, 'v) turn" where
  "on_nudge V d st s closed =
     (if closed then (idle_turn d st s)\<lparr>t_end := Some (Ok ())\<rparr>
      else (case live_pending V d (ss_live s) of
              (l', Inl e) \<Rightarrow>
                (idle_turn d st (s\<lparr>ss_live := l'\<rparr>))\<lparr>t_end := Some (Err (Protocol e))\<rparr>
            | (l', Inr out) \<Rightarrow> send_opt out (idle_turn d st (s\<lparr>ss_live := l'\<rparr>))))"

definition drive_live_turn ::
    "('d, 'v, 'f) vdoc \<Rightarrow> 's estore \<Rightarrow> postcard \<Rightarrow> 'd \<Rightarrow> 's \<Rightarrow> 'v session \<Rightarrow> event \<Rightarrow> ('d, 's, 'v) turn"
where
  "drive_live_turn V E P d st s ev =
     (case ev of
        FrameRead fr \<Rightarrow> on_frame V E P d st s fr
      | Relayed item \<Rightarrow> on_relayed E d st s item
      | Nudge closed \<Rightarrow> on_nudge V d st s closed)"

text \<open>
  A session over its life: each turn meets whatever document and store the others have left, and
  the log collects what the turns wrote to the peer and to the relay.
\<close>

inductive session_run ::
    "('d, 'v, 'f) vdoc \<Rightarrow> 's estore \<Rightarrow> postcard \<Rightarrow> perms \<Rightarrow> presence_link option \<Rightarrow>
     'v session \<Rightarrow> ('d, 's, 'v) turn list \<Rightarrow> bool"
  for V E P p link where
  start: "t = drive_live_start V E d st p link \<Longrightarrow> session_run V E P p link (t_session t) [t]"
| turn: "session_run V E P p link s ts \<Longrightarrow> t_end (last ts) = None \<Longrightarrow>
         t = drive_live_turn V E P d st s ev \<Longrightarrow>
         session_run V E P p link (t_session t) (ts @ [t])"

section \<open>What a session lets through\<close>

lemma send_msg_simps [simp]:
  "t_doc (send_msg m t) = t_doc t" "t_store (send_msg m t) = t_store t"
  "t_session (send_msg m t) = t_session t" "t_relay (send_msg m t) = t_relay t"
  by (auto simp: send_msg_def split: sum.splits)

lemma send_opt_simps [simp]:
  "t_doc (send_opt m t) = t_doc t" "t_store (send_opt m t) = t_store t"
  "t_session (send_opt m t) = t_session t" "t_relay (send_opt m t) = t_relay t"
  by (auto simp: send_opt_def split: option.splits)

lemma fire_changed_simps [simp]:
  "t_doc (fire_changed c t) = t_doc t" "t_store (fire_changed c t) = t_store t"
  "t_session (fire_changed c t) = t_session t" "t_relay (fire_changed c t) = t_relay t"
  "t_frames (fire_changed c t) = t_frames t"
  by (auto simp: fire_changed_def)

lemma idle_turn_simps [simp]:
  "t_doc (idle_turn d st s) = d" "t_store (idle_turn d st s) = st" "t_session (idle_turn d st s) = s"
  "t_frames (idle_turn d st s) = []" "t_relay (idle_turn d st s) = []" "t_end (idle_turn d st s) = None"
  by (simp_all add: idle_turn_def)

text \<open>A frame that carries no update, whatever else it is.\<close>

definition no_updates :: "bytes \<Rightarrow> bool" where
  "no_updates w \<longleftrightarrow> (\<forall>bs. write_frame (msg_encode (Updates bs)) \<noteq> Ok w)"

lemma no_updates_send:
  assumes "\<forall>bs. m \<noteq> Updates bs" "write_frame (msg_encode m) = Ok w"
  shows "no_updates w"
proof -
  have "write_frame (msg_encode (Updates bs)) \<noteq> Ok w" for bs
  proof
    assume "write_frame (msg_encode (Updates bs)) = Ok w"
    with assms(2) have "be32 (length (msg_encode m)) @ msg_encode m =
        be32 (length (msg_encode (Updates bs))) @ msg_encode (Updates bs)"
      by (auto simp: write_frame_def split: if_splits)
    then have "msg_encode m = msg_encode (Updates bs)"
      using append_eq_append_conv [of "be32 (length (msg_encode m))"] by (metis be32_length)
    with assms(1) show False using msg_decode_encode by (metis sum.inject(2))
  qed
  then show ?thesis by (simp add: no_updates_def)
qed

definition quiet :: "('d, 's, 'v) turn \<Rightarrow> bool" where
  "quiet t \<longleftrightarrow> (\<forall>w \<in> set (t_frames t). no_updates w)"

lemma quiet_idle [simp]: "t_frames t = [] \<Longrightarrow> quiet t"
  by (simp add: quiet_def)

lemma quiet_send_msg: "quiet t \<Longrightarrow> \<forall>bs. m \<noteq> Updates bs \<Longrightarrow> quiet (send_msg m t)"
  using no_updates_send [of m] by (auto simp: quiet_def send_msg_def split: sum.splits)

lemma quiet_fire [simp]: "quiet (fire_changed c t) = quiet t"
  by (simp add: quiet_def)

lemma start_facts:
  "lv_perms (ss_live (t_session (drive_live_start V E d st p link))) = p"
  "ss_link (t_session (drive_live_start V E d st p link)) = link"
  "t_doc (drive_live_start V E d st p link) = d"
  "t_store (drive_live_start V E d st p link) = st"
  "t_relay (drive_live_start V E d st p link) = []"
  "quiet (drive_live_start V E d st p link)"
  by (simp_all add: drive_live_start_def Let_def live_new_def live_start_def quiet_send_msg
        split: option.split)

lemma on_presence_facts:
  "t_session (on_presence E P d st s bs) = s" "t_doc (on_presence E P d st s bs) = d"
  "t_frames (on_presence E P d st s bs) = []"
  by (simp_all add: on_presence_def split: option.split prod.split)

lemma on_relayed_facts:
  "lv_perms (ss_live (t_session (on_relayed E d st s i))) = lv_perms (ss_live s)"
  "ss_link (t_session (on_relayed E d st s i)) = ss_link s"
  "t_doc (on_relayed E d st s i) = d" "t_store (on_relayed E d st s i) = st"
  "t_relay (on_relayed E d st s i) = []" "quiet (on_relayed E d st s i)"
  by (simp_all add: on_relayed_def quiet_send_msg split: option.split relay_item.split)

lemma on_nudge_facts:
  "lv_perms (ss_live (t_session (on_nudge V d st s c))) = lv_perms (ss_live s)"
  "ss_link (t_session (on_nudge V d st s c)) = ss_link s"
  "t_doc (on_nudge V d st s c) = d" "t_store (on_nudge V d st s c) = st"
  "t_relay (on_nudge V d st s c) = []"
  by (auto simp: on_nudge_def dest: live_pending_perms split: prod.split sum.split)

lemma on_nudge_quiet: "\<not> pull (lv_perms (ss_live s)) \<Longrightarrow> quiet (on_nudge V d st s c)"
  by (simp add: on_nudge_def live_pending_no_pull send_opt_def)

text \<open>The frame arm, by what the frame decodes to.\<close>

lemma on_frame_cases:
  obtains (ended) e where "on_frame V E P d st s fr = (idle_turn d st s)\<lparr>t_end := Some (Err e)\<rparr>"
  | (eph) bs where "fr = Ok (msg_encode (Ephemeral bs))"
      "on_frame V E P d st s fr = on_presence E P d st s bs"
  | (err) m d' l' e where "live_on V d (ss_live s) m = (d', l', Err e)" "fr = Ok (msg_encode m)"
      "on_frame V E P d st s fr =
         (idle_turn d' st (s\<lparr>ss_live := l'\<rparr>))\<lparr>t_end := Some (Err (Protocol e))\<rparr>"
  | (live) m d' l' out where "live_on V d (ss_live s) m = (d', l', Ok out)" "fr = Ok (msg_encode m)"
      "on_frame V E P d st s fr = fire_changed (live_changed out)
         (send_opt (live_send out) (idle_turn d' st (s\<lparr>ss_live := l'\<rparr>)))"
proof (cases fr)
  case (Inl e)
  then show thesis using ended by (simp add: on_frame_def)
next
  case (Inr body)
  show thesis
  proof (cases "decode_frame body")
    case (Inl e)
    then show thesis using ended Inr by (simp add: on_frame_def)
  next
    case m: (Inr m)
    then have body: "body = msg_encode m" by (rule decode_frame_Ok)
    obtain d' l' r where l: "live_on V d (ss_live s) m = (d', l', r)" by (rule prod_cases3)
    show thesis
    proof (cases "\<exists>bs. m = Ephemeral bs")
      case True
      then obtain bs where "m = Ephemeral bs" ..
      then show thesis using eph [of bs] Inr m body by (simp add: on_frame_def)
    next
      case False
      show thesis
      proof (cases r)
        case (Inl e)
        with False l Inr m body show thesis
          by (intro err [of m d' l' e]) (auto simp: on_frame_def split: msg.split)
      next
        case o: (Inr out)
        with False l Inr m body show thesis
          by (intro live [of m d' l' out]) (auto simp: on_frame_def split: msg.split)
      qed
    qed
  qed
qed

lemma on_frame_perms:
  "lv_perms (ss_live (t_session (on_frame V E P d st s fr))) = lv_perms (ss_live s) \<and>
   ss_link (t_session (on_frame V E P d st s fr)) = ss_link s"
  by (rule on_frame_cases [of V E P d st s fr])
     (auto simp: on_presence_facts dest: live_on_perms)

lemma on_frame_no_push:
  "\<not> push (lv_perms (ss_live s)) \<Longrightarrow> t_doc (on_frame V E P d st s fr) = d"
  by (rule on_frame_cases [of V E P d st s fr])
     (auto simp: on_presence_facts dest: live_on_no_push)

lemma on_frame_quiet:
  "\<not> pull (lv_perms (ss_live s)) \<Longrightarrow> quiet (on_frame V E P d st s fr)"
  by (rule on_frame_cases [of V E P d st s fr])
     (auto simp: on_presence_facts send_opt_def dest: live_on_no_pull)

lemma turn_perms:
  "lv_perms (ss_live (t_session (drive_live_turn V E P d st s ev))) = lv_perms (ss_live s)"
  "ss_link (t_session (drive_live_turn V E P d st s ev)) = ss_link s"
  by (simp_all add: drive_live_turn_def on_frame_perms on_relayed_facts on_nudge_facts split: event.split)

lemma turn_no_push:
  "\<not> push (lv_perms (ss_live s)) \<Longrightarrow> t_doc (drive_live_turn V E P d st s ev) = d"
  by (simp add: drive_live_turn_def on_frame_no_push on_relayed_facts on_nudge_facts split: event.split)

lemma turn_no_pull:
  "\<not> pull (lv_perms (ss_live s)) \<Longrightarrow> quiet (drive_live_turn V E P d st s ev)"
  by (simp add: drive_live_turn_def on_frame_quiet on_relayed_facts on_nudge_quiet split: event.split)

lemma run_session:
  "session_run V E P p link s ts \<Longrightarrow> lv_perms (ss_live s) = p \<and> ss_link s = link \<and> ts \<noteq> []"
  by (induction rule: session_run.induct) (simp_all add: start_facts turn_perms)

text \<open>
  C8.  A session keeps to the permissions it was given for as long as it lives, against any
  frames a peer sends and any interleaving with other sessions: without pull no frame it
  writes carries an update, from the first one on; without push no frame, nudge or relayed
  item makes it change the document.
\<close>

theorem session_keeps_perms:
  assumes "session_run V E P p link s ts"
  shows "(\<not> pull p \<longrightarrow> (\<forall>t \<in> set ts. quiet t)) \<and>
         (\<not> push p \<longrightarrow> (\<forall>d st ev. t_doc (drive_live_turn V E P d st s ev) = d)) \<and>
         lv_perms (ss_live s) = p"
  using assms
proof (induction rule: session_run.induct)
  case (start t d st)
  then show ?case by (simp add: start_facts turn_no_push)
next
  case (turn s ts t d st ev)
  then show ?case by (auto simp: turn_perms turn_no_pull turn_no_push)
qed

text \<open>
  The witness: a read-only peer pushes an update and gets no update back.
\<close>

theorem session_keeps_perms_witness:
  "t_doc (drive_live_turn ref_vdoc ref_estore ref_postcard (0, 0) []
      (t_session (drive_live_start ref_vdoc ref_estore (0, 0) [] \<lparr>pull = False, push = False\<rparr> None))
      (FrameRead (Ok (msg_encode (Updates (enc4 0 2 0 1)))))) = (0, 0)"
  using session_keeps_perms [OF session_run.start [OF refl, of ref_vdoc ref_estore
      ref_postcard "\<lparr>pull = False, push = False\<rparr>" None "(0, 0)" "[]"]] by simp

section \<open>Presence on the relay\<close>

context presence_store
begin

lemma link_apply_foreign:
  "lk_owner link = Some ow \<Longrightarrow> link_apply E P link st bs = (st', out) \<Longrightarrow> \<not> owns_key ow k \<Longrightarrow>
     es_get E st' k = es_get E st k"
  using apply_from_foreign [of "owns_key ow" k st bs]
  by (auto simp: link_apply_def apply_owned_def split: prod.splits)

lemma link_apply_owned:
  assumes "lk_owner link = Some ow" "link_apply E P link st bs = (st', Some out)"
  shows "\<exists>es. decode_entries P out = Some es \<and> (\<forall>e \<in> set es. owns_key ow (e_key e))"
proof -
  from assms have "apply_from E P st bs (owns_key ow) = (st', Ok (Some out))"
    by (auto simp: link_apply_def apply_owned_def Option.bind_eq_Some_conv elim!: result_ok.elims
        split: prod.splits)
  from apply_from_relay [OF this] show ?thesis by auto
qed

end

lemma frame_relay_store:
  assumes "ss_link s = Some link"
  shows "(t_relay (on_frame V E P d st s fr) = [] \<and> t_store (on_frame V E P d st s fr) = st) \<or>
         (\<exists>bs. on_frame V E P d st s fr = on_presence E P d st s bs)"
  by (rule on_frame_cases [of V E P d st s fr]) auto

lemma turn_relay_store:
  assumes "ss_link s = Some link" "t = drive_live_turn V E P d st s ev"
  shows "(t_relay t = [] \<and> t_store t = st) \<or> (\<exists>bs. t = on_presence E P d st s bs)"
  using assms frame_relay_store [OF assms(1), of V E P d st]
  by (cases ev) (simp_all add: drive_live_turn_def on_relayed_facts on_nudge_facts)

text \<open>
  Presence never leaves its owner's name space: a turn of a session whose peer owns
  \<open>owner\<close> changes no key of the store outside it, relays only under that name, and what it
  relays decodes to entries the owner may write; an item that came from this peer is not
  written back to it, while every other item is.
\<close>

theorem presence_turn_scoped:
  assumes "presence_store E P" and "ss_link s = Some \<lparr>lk_owner = Some owner\<rparr>"
    and "ss_relayed s"
  shows "(t = drive_live_turn V E P d st s ev \<longrightarrow> \<not> owns_key owner k \<longrightarrow>
            es_get E (t_store t) k = es_get E st k) \<and>
         (t = drive_live_turn V E P d st s ev \<longrightarrow> (ns, out) \<in> set (t_relay t) \<longrightarrow> ns = owner \<and>
            (\<exists>es. decode_entries P out = Some es \<and> (\<forall>e \<in> set es. owns_key owner (e_key e)))) \<and>
         (write_frame (msg_encode (Ephemeral bs)) = Ok w \<longrightarrow>
            t_frames (drive_live_turn V E P d st s (Relayed (RelayItem origin bs))) =
              (if origin = owner then [] else [w]))"
proof (intro conjI impI)
  let ?link = "\<lparr>lk_owner = Some owner\<rparr> :: presence_link"
  note frame = presence_store.link_apply_foreign [OF assms(1), of ?link owner]
  note owned = presence_store.link_apply_owned [OF assms(1), of ?link owner]
  assume t: "t = drive_live_turn V E P d st s ev"
  note cases = turn_relay_store [OF assms(2) t]
  show "es_get E (t_store t) k = es_get E st k" if "\<not> owns_key owner k"
    using cases
  proof
    assume "\<exists>b. t = on_presence E P d st s b"
    then obtain b where "t = on_presence E P d st s b" ..
    with frame [of st b] that assms(2) show ?thesis
      by (auto simp: on_presence_def split: prod.splits)
  qed simp
  assume r: "(ns, out) \<in> set (t_relay t)"
  with cases obtain b where "t = on_presence E P d st s b" by auto
  with r assms(2) obtain st' where "link_apply E P ?link st b = (st', Some out)" "ns = owner"
    by (auto simp: on_presence_def split: prod.splits option.splits)
  with owned [of st b st' out] show "ns = owner"
    "\<exists>es. decode_entries P out = Some es \<and> (\<forall>e \<in> set es. owns_key owner (e_key e))" by simp_all
next
  assume "write_frame (msg_encode (Ephemeral bs)) = Ok w"
  then show "t_frames (drive_live_turn V E P d st s (Relayed (RelayItem origin bs))) =
              (if origin = owner then [] else [w])"
    using assms by (auto simp: drive_live_turn_def on_relayed_def send_msg_def)
qed

theorem presence_turn_scoped_witness:
  "t_frames (drive_live_turn ref_vdoc ref_estore ref_postcard (0, 0) []
      \<lparr>ss_live = live_new ref_vdoc perms_all, ss_link = Some \<lparr>lk_owner = Some ''bob''\<rparr>, ss_relayed = True\<rparr>
      (Relayed (RelayItem ''amy'' ''x''))) = [be32 2 @ msg_encode (Ephemeral ''x'')]"
proof -
  let ?s = "\<lparr>ss_live = live_new ref_vdoc perms_all, ss_link = Some \<lparr>lk_owner = Some ''bob''\<rparr>, ss_relayed = True\<rparr>"
  have "write_frame (msg_encode (Ephemeral ''x'')) = Ok (be32 2 @ msg_encode (Ephemeral ''x''))"
    by (simp add: write_frame_def) (metis One_nat_def Suc_1)
  note T = presence_turn_scoped [OF rp.presence_store_axioms, THEN conjunct2, THEN conjunct2, THEN mp,
      OF _ _ this]
  have "t_frames (drive_live_turn ref_vdoc ref_estore ref_postcard (0, 0) [] ?s
      (Relayed (RelayItem ''amy'' ''x''))) = (if ''amy'' = ''bob'' then [] else [be32 2 @ msg_encode (Ephemeral ''x'')])"
    by (rule T) simp_all
  then show ?thesis by simp
qed

end
