(* ===== verification/Dfs.thy ===== *)
theory Dfs
  imports Prelude
begin

text \<open>
  The depth-first loop that \<open>FileTree::walk\<close> and \<open>DocFs::walk\<close> share: an explicit stack, popped
  from its end, onto which the successors of the popped element are pushed in order.  The list
  \<open>stack\<close> here has the end of the vector first.  The loop ends when no successor chain is
  infinite, and then visits exactly what is reachable, each element once.
\<close>

partial_function (option) dfs :: "('a \<Rightarrow> 'a list) \<Rightarrow> 'a list \<Rightarrow> 'a list \<Rightarrow> 'a list option" where
  "dfs succs stack out =
     (case stack of [] \<Rightarrow> Some out | x # xs \<Rightarrow> dfs succs (rev (succs x) @ xs) (out @ [x]))"

lemma dfs_Nil [simp]: "dfs succs [] out = Some out"
  by (simp add: dfs.simps)

lemma dfs_Cons: "dfs succs (x # xs) out = dfs succs (rev (succs x) @ xs) (out @ [x])"
  by (subst dfs.simps) simp

text \<open>What holds of the stack and is passed on to successors holds of all that is visited.\<close>

lemma dfs_all:
  assumes "dfs succs stack out = Some l" "\<forall>x \<in> set stack \<union> set out. P x"
    and "\<And>x y. P x \<Longrightarrow> y \<in> set (succs x) \<Longrightarrow> P y"
  shows "\<forall>x \<in> set l. P x"
  using assms(1,2)
proof -
  let ?Q = "\<lambda>s stack out l. s = succs \<longrightarrow> (\<forall>x \<in> set stack \<union> set out. P x) \<longrightarrow> (\<forall>x \<in> set l. P x)"
  have "?Q succs stack out l"
  proof (rule dfs.raw_induct [of ?Q, OF _ assms(1)])
    fix f s st ou r
    assume ih: "\<And>s st ou r. f s st ou = Some r \<Longrightarrow> ?Q s st ou r"
      and r: "(case st of [] \<Rightarrow> Some ou | x # xs \<Rightarrow> f s (rev (s x) @ xs) (ou @ [x])) = Some r"
    show "?Q s st ou r"
    proof (cases st)
      case Nil
      with r show ?thesis by simp
    next
      case (Cons x xs)
      with r have f: "f s (rev (s x) @ xs) (ou @ [x]) = Some r" by simp
      have "\<forall>y \<in> set (rev (s x) @ xs) \<union> set (ou @ [x]). P y"
        if "s = succs" "\<forall>y \<in> set st \<union> set ou. P y"
        using that assms(3) [of x] by (auto simp: Cons)
      with ih [OF f] show ?thesis by blast
    qed
  qed
  with assms(2) show ?thesis by blast
qed

definition succ_rel :: "('a \<Rightarrow> 'a list) \<Rightarrow> 'a \<Rightarrow> 'a \<Rightarrow> bool" where
  "succ_rel succs x y \<longleftrightarrow> y \<in> set (succs x)"

locale forest =
  fixes succs :: "'a \<Rightarrow> 'a list" and P :: "'a \<Rightarrow> bool" and m :: "'a \<Rightarrow> nat"
  assumes closed: "P x \<Longrightarrow> y \<in> set (succs x) \<Longrightarrow> P y"
    and decreasing: "P x \<Longrightarrow> y \<in> set (succs x) \<Longrightarrow> m y < m x"
begin

abbreviation reach :: "'a \<Rightarrow> 'a \<Rightarrow> bool" where "reach \<equiv> (succ_rel succs)\<^sup>*\<^sup>*"

lemma reach_step: "{y. reach x y} = insert x (\<Union>c \<in> set (succs x). {y. reach c y})"
proof (intro set_eqI iffI)
  fix y assume "y \<in> {y. reach x y}"
  then have "reach x y" by simp
  then show "y \<in> insert x (\<Union>c \<in> set (succs x). {y. reach c y})"
    by (cases rule: converse_rtranclpE) (auto simp: succ_rel_def)
next
  fix y assume "y \<in> insert x (\<Union>c \<in> set (succs x). {y. reach c y})"
  then show "y \<in> {y. reach x y}"
    by (auto simp: succ_rel_def intro: converse_rtranclp_into_rtranclp)
qed

lemma visits:
  assumes "P x"
  shows "\<exists>l. (\<forall>rest out. dfs succs (x # rest) out = dfs succs rest (out @ l)) \<and> set l = {y. reach x y}"
  using assms
proof (induction "m x" arbitrary: x rule: less_induct)
  case less
  have "\<exists>l. (\<forall>rest out. dfs succs (ys @ rest) out = dfs succs rest (out @ l)) \<and>
            set l = (\<Union>c \<in> set ys. {y. reach c y})"
    if "set ys \<subseteq> set (succs x)" for ys
    using that
  proof (induction ys)
    case Nil
    show ?case by (intro exI [of _ "[]"]) simp
  next
    case (Cons y ys)
    then have "y \<in> set (succs x)" by simp
    then obtain l where l: "\<forall>rest out. dfs succs (y # rest) out = dfs succs rest (out @ l)"
      "set l = {z. reach y z}"
      using less.hyps [of y] closed decreasing less.prems by blast
    from Cons obtain l' where l': "\<forall>rest out. dfs succs (ys @ rest) out = dfs succs rest (out @ l')"
      "set l' = (\<Union>c \<in> set ys. {z. reach c z})" by auto
    show ?case by (intro exI [of _ "l @ l'"]) (simp add: l l')
  qed
  from this [of "rev (succs x)"] obtain l where
    l: "\<forall>rest out. dfs succs (rev (succs x) @ rest) out = dfs succs rest (out @ l)"
    "set l = (\<Union>c \<in> set (succs x). {y. reach c y})" by auto
  have "set (x # l) = {y. reach x y}" by (simp add: l(2) reach_step [of x])
  then show ?case using l(1) by (intro exI [of _ "x # l"]) (simp add: dfs_Cons)
qed

lemma visits_all:
  assumes "\<And>x. x \<in> set xs \<Longrightarrow> P x"
  shows "\<exists>l. dfs succs xs out = Some (out @ l) \<and> set l = (\<Union>x \<in> set xs. {y. reach x y})"
  using assms
proof (induction xs arbitrary: out)
  case Nil
  show ?case by simp
next
  case (Cons x xs)
  have "P x" using Cons.prems by simp
  then obtain l where l: "\<forall>rest out. dfs succs (x # rest) out = dfs succs rest (out @ l)"
    "set l = {y. reach x y}" using visits [of x] by blast
  have "\<And>x. x \<in> set xs \<Longrightarrow> P x" using Cons.prems by simp
  from Cons.IH [OF this, of "out @ l"] obtain l' where "dfs succs xs (out @ l) = Some ((out @ l) @ l')"
    "set l' = (\<Union>x \<in> set xs. {y. reach x y})" by blast
  with l show ?case by (intro exI [of _ "l @ l'"]) simp
qed

end

text \<open>A forest where an element has one predecessor, and no root has one, is visited without repetition.\<close>

locale unique_forest = forest +
  assumes distinct_next: "P x \<Longrightarrow> distinct (succs x)"
    and one_parent: "P x \<Longrightarrow> P y \<Longrightarrow> z \<in> set (succs x) \<Longrightarrow> z \<in> set (succs y) \<Longrightarrow> x = y"
begin

lemma reach_P: "reach x y \<Longrightarrow> P x \<Longrightarrow> P y"
  by (induction rule: rtranclp_induct) (auto simp: succ_rel_def intro: closed)

lemma reach_le: "reach x y \<Longrightarrow> P x \<Longrightarrow> m y \<le> m x"
proof (induction rule: rtranclp_induct)
  case (step y z)
  then have "P y" using reach_P by blast
  with step show ?case using decreasing [of y z] by (simp add: succ_rel_def)
qed simp

text \<open>Two elements above a common one are above each other.\<close>

lemma reach_linear:
  assumes "reach a z" "reach b z" "P a" "P b"
  shows "reach a b \<or> reach b a"
  using assms(1,2)
proof (induction rule: rtranclp_induct)
  case base
  then show ?case by simp
next
  case (step y z)
  from step(4) show ?case
  proof (cases rule: rtranclp.cases)
    case rtrancl_refl
    with rtranclp.rtrancl_into_rtrancl [OF step(1,2)] show ?thesis by simp
  next
    case (rtrancl_into_rtrancl y')
    have "P y" "P y'"
      using reach_P [OF step(1) assms(3)] reach_P [OF rtrancl_into_rtrancl(1) assms(4)] .
    then have "y' = y"
      using one_parent [of y' y z] step(2) rtrancl_into_rtrancl(2) by (simp add: succ_rel_def)
    with rtrancl_into_rtrancl(1) step(3) show ?thesis by simp
  qed
qed

lemma siblings_apart:
  assumes "P x" "c \<in> set (succs x)" "c' \<in> set (succs x)" "reach c c'"
  shows "c = c'"
  using assms(4)
proof (cases rule: rtranclp.cases)
  case (rtrancl_into_rtrancl y)
  have "P c" using assms closed by blast
  then have "P y" using rtrancl_into_rtrancl reach_P by blast
  then have "y = x" using one_parent assms(1,3) rtrancl_into_rtrancl by (auto simp: succ_rel_def)
  then have "m x \<le> m c" using rtrancl_into_rtrancl reach_le \<open>P c\<close> by blast
  with decreasing assms(1,2) show ?thesis by (meson not_less)
qed simp

lemma visits_distinct:
  assumes "P x"
  shows "\<exists>l. (\<forall>rest out. dfs succs (x # rest) out = dfs succs rest (out @ l)) \<and>
             set l = {y. reach x y} \<and> distinct l"
  using assms
proof (induction "m x" arbitrary: x rule: less_induct)
  case less
  have "\<exists>l. (\<forall>rest out. dfs succs (ys @ rest) out = dfs succs rest (out @ l)) \<and>
            set l = (\<Union>c \<in> set ys. {y. reach c y}) \<and> distinct l"
    if "set ys \<subseteq> set (succs x)" "distinct ys" for ys
    using that
  proof (induction ys)
    case Nil
    show ?case by (intro exI [of _ "[]"]) simp
  next
    case (Cons y ys)
    then have y: "y \<in> set (succs x)" by simp
    then obtain l where l: "\<forall>rest out. dfs succs (y # rest) out = dfs succs rest (out @ l)"
      "set l = {z. reach y z}" "distinct l"
      using less.hyps [of y] closed decreasing less.prems by blast
    from Cons obtain l' where l': "\<forall>rest out. dfs succs (ys @ rest) out = dfs succs rest (out @ l')"
      "set l' = (\<Union>c \<in> set ys. {z. reach c z})" "distinct l'" by auto
    have "reach y z \<Longrightarrow> reach c z \<Longrightarrow> c \<in> set ys \<Longrightarrow> False" for c z
      using reach_linear [of y z c] siblings_apart [OF less.prems] closed less.prems y Cons.prems
      by (metis distinct.simps(2) list.set_intros(2) subsetD)
    then have "set l \<inter> set l' = {}" using l(2) l'(2) by auto
    with l l' show ?case by (intro exI [of _ "l @ l'"]) simp
  qed
  from this [of "rev (succs x)"] distinct_next [OF less.prems] obtain l where
    l: "\<forall>rest out. dfs succs (rev (succs x) @ rest) out = dfs succs rest (out @ l)"
    "set l = (\<Union>c \<in> set (succs x). {y. reach c y})" "distinct l" by auto
  have "x \<notin> set l"
    using l(2) reach_le closed decreasing less.prems by (fastforce dest: leD)
  moreover have "set (x # l) = {y. reach x y}" by (simp add: l(2) reach_step [of x])
  ultimately show ?case using l(1,3) by (intro exI [of _ "x # l"]) (simp add: dfs_Cons)
qed

lemma visits_all_distinct:
  assumes "\<And>x. x \<in> set xs \<Longrightarrow> P x" "distinct xs"
    and "\<And>x y. x \<in> set xs \<Longrightarrow> P y \<Longrightarrow> x \<notin> set (succs y)"
  shows "\<exists>l. dfs succs xs out = Some (out @ l) \<and> set l = (\<Union>x \<in> set xs. {y. reach x y}) \<and> distinct l"
  using assms
proof (induction xs arbitrary: out)
  case Nil
  show ?case by simp
next
  case (Cons x xs)
  have "P x" using Cons.prems by simp
  then obtain l where l: "\<forall>rest out. dfs succs (x # rest) out = dfs succs rest (out @ l)"
    "set l = {y. reach x y}" "distinct l" using visits_distinct [of x] by blast
  have "\<And>x. x \<in> set xs \<Longrightarrow> P x" "distinct xs"
    "\<And>x y. x \<in> set xs \<Longrightarrow> P y \<Longrightarrow> x \<notin> set (succs y)" using Cons.prems by simp_all
  from Cons.IH [OF this, of "out @ l"] obtain l' where
    l': "dfs succs xs (out @ l) = Some ((out @ l) @ l')"
    "set l' = (\<Union>x \<in> set xs. {y. reach x y})" "distinct l'" by blast
  have root: "a = b" if "reach a b" "b \<in> set (x # xs)" "P a" for a b
    using that(1)
  proof (cases rule: rtranclp.cases)
    case (rtrancl_into_rtrancl y)
    then have "P y" using reach_P that(3) by blast
    with Cons.prems(3) [OF that(2)] rtrancl_into_rtrancl(2) show ?thesis by (simp add: succ_rel_def)
  qed simp
  have "False" if "reach x z" "reach c z" "c \<in> set xs" for c z
  proof -
    have "P c" using that(3) Cons.prems(1) by simp
    with reach_linear [OF that(1,2) \<open>P x\<close>] have "x = c"
      using root [of x c] root [of c x] that(3) \<open>P x\<close> by auto
    with that(3) Cons.prems(2) show False by simp
  qed
  then have "set l \<inter> set l' = {}" using l(2) l'(2) by auto
  with l l' show ?case by (intro exI [of _ "l @ l'"]) simp
qed

end

end
