(* ===== verification/File_Tree.thy ===== *)
theory File_Tree
  imports Loro_Api Dfs
begin

text \<open>
  \<open>crates/okayeg/src/tree.rs\<close>: the file tree held in a document, over Loro's movable tree and
  the metadata map of each node.  \<open>None\<close> is the panic of an \<open>expect\<close>.
\<close>

datatype node_kind = File | Dir | Boundary

definition kind_as_str :: "node_kind \<Rightarrow> string" where
  "kind_as_str k = (case k of File \<Rightarrow> ''file'' | Dir \<Rightarrow> ''dir'' | Boundary \<Rightarrow> ''boundary'')"

definition kind_from_str :: "string \<Rightarrow> node_kind option" where
  "kind_from_str s =
     (if s = ''file'' then Some File
      else if s = ''dir'' then Some Dir
      else if s = ''boundary'' then Some Boundary
      else None)"

lemma kind_from_as_str [simp]: "kind_from_str (kind_as_str k) = Some k"
  by (cases k) (simp_all add: kind_from_str_def kind_as_str_def)

section \<open>Reading a node\<close>

definition string_field :: "('d, 'n, 't, 'm) loro_ct \<Rightarrow> 'd \<Rightarrow> 'n \<Rightarrow> string \<Rightarrow> string option" where
  "string_field L d n key =
     (case tr_meta L d n of
        None \<Rightarrow> None
      | Some m \<Rightarrow> (case mp_get L d m key of Some (VVal (LString s)) \<Rightarrow> Some s | _ \<Rightarrow> None))"

definition ft_kind :: "('d, 'n, 't, 'm) loro_ct \<Rightarrow> 'd \<Rightarrow> 'n \<Rightarrow> node_kind option" where
  "ft_kind L d n = Option.bind (string_field L d n ''kind'') kind_from_str"

definition ft_name :: "('d, 'n, 't, 'm) loro_ct \<Rightarrow> 'd \<Rightarrow> 'n \<Rightarrow> string option" where
  "ft_name L d n = string_field L d n ''name''"

definition ft_reference :: "('d, 'n, 't, 'm) loro_ct \<Rightarrow> 'd \<Rightarrow> 'n \<Rightarrow> string option" where
  "ft_reference L d n = string_field L d n ''ref''"

definition ft_content :: "('d, 'n, 't, 'm) loro_ct \<Rightarrow> 'd \<Rightarrow> 'n \<Rightarrow> 't option" where
  "ft_content L d n =
     (case tr_meta L d n of
        None \<Rightarrow> None
      | Some m \<Rightarrow> (case mp_get L d m ''content'' of Some (VText t) \<Rightarrow> Some t | _ \<Rightarrow> None))"

definition ft_roots :: "('d, 'n, 't, 'm) loro_ct \<Rightarrow> 'd \<Rightarrow> 'n list" where
  "ft_roots L d = tr_roots L d"

definition ft_children :: "('d, 'n, 't, 'm) loro_ct \<Rightarrow> 'd \<Rightarrow> 'n \<Rightarrow> 'n list" where
  "ft_children L d n = (case tr_children L d n of None \<Rightarrow> [] | Some cs \<Rightarrow> cs)"

definition ft_alive :: "('d, 'n, 't, 'm) loro_ct \<Rightarrow> 'd \<Rightarrow> 'n \<Rightarrow> bool" where
  "ft_alive L d n = (tr_is_deleted L d n = Some False)"

section \<open>Editing\<close>

definition create_node ::
    "('d, 'n, 't, 'm) loro_ct \<Rightarrow> 'd \<Rightarrow> 'n option \<Rightarrow> string \<Rightarrow> node_kind \<Rightarrow> ('d \<times> 'n) option" where
  "create_node L d parent name kind =
     (case tr_create L d parent of
        None \<Rightarrow> None
      | Some (d1, n) \<Rightarrow>
          (case tr_meta L d1 n of
             None \<Rightarrow> None
           | Some m \<Rightarrow>
               (case mp_insert L d1 m ''name'' (LString name) of
                  None \<Rightarrow> None
                | Some d2 \<Rightarrow>
                    (case mp_insert L d2 m ''kind'' (LString (kind_as_str kind)) of
                       None \<Rightarrow> None
                     | Some d3 \<Rightarrow> Some (d3, n)))))"

definition ft_create_file ::
    "('d, 'n, 't, 'm) loro_ct \<Rightarrow> 'd \<Rightarrow> 'n option \<Rightarrow> string \<Rightarrow> ('d \<times> 'n) option" where
  "ft_create_file L d parent name =
     (case create_node L d parent name File of
        None \<Rightarrow> None
      | Some (d1, n) \<Rightarrow>
          (case tr_meta L d1 n of
             None \<Rightarrow> None
           | Some m \<Rightarrow>
               (case mp_insert_text L d1 m ''content'' of
                  None \<Rightarrow> None
                | Some (d2, _) \<Rightarrow> Some (d2, n))))"

definition ft_create_dir ::
    "('d, 'n, 't, 'm) loro_ct \<Rightarrow> 'd \<Rightarrow> 'n option \<Rightarrow> string \<Rightarrow> ('d \<times> 'n) option" where
  "ft_create_dir L d parent name = create_node L d parent name Dir"

definition ft_create_boundary ::
    "('d, 'n, 't, 'm) loro_ct \<Rightarrow> 'd \<Rightarrow> 'n option \<Rightarrow> string \<Rightarrow> string \<Rightarrow> ('d \<times> 'n) option" where
  "ft_create_boundary L d parent name reference =
     (case create_node L d parent name Boundary of
        None \<Rightarrow> None
      | Some (d1, n) \<Rightarrow>
          (case tr_meta L d1 n of
             None \<Rightarrow> None
           | Some m \<Rightarrow>
               (case mp_insert L d1 m ''ref'' (LString reference) of
                  None \<Rightarrow> None
                | Some d2 \<Rightarrow> Some (d2, n))))"

definition ft_mov :: "('d, 'n, 't, 'm) loro_ct \<Rightarrow> 'd \<Rightarrow> 'n \<Rightarrow> 'n option \<Rightarrow> 'd option" where
  "ft_mov L d n parent = tr_mov L d n parent"

text \<open>A node without metadata is left alone; a failed insert panics.\<close>

definition ft_rename :: "('d, 'n, 't, 'm) loro_ct \<Rightarrow> 'd \<Rightarrow> 'n \<Rightarrow> string \<Rightarrow> 'd option" where
  "ft_rename L d n name =
     (case tr_meta L d n of
        None \<Rightarrow> Some d
      | Some m \<Rightarrow> mp_insert L d m ''name'' (LString name))"

definition ft_delete :: "('d, 'n, 't, 'm) loro_ct \<Rightarrow> 'd \<Rightarrow> 'n \<Rightarrow> 'd option" where
  "ft_delete L d n = tr_delete L d n"

text \<open>A failed \<open>update\<close> is ignored, and the answer is still true.\<close>

definition set_content :: "('d, 'n, 't, 'm) loro_ct \<Rightarrow> 'd \<Rightarrow> 'n \<Rightarrow> string \<Rightarrow> 'd \<times> bool" where
  "set_content L d n s =
     (case ft_content L d n of
        None \<Rightarrow> (d, False)
      | Some t \<Rightarrow> (case tx_update L d t s of None \<Rightarrow> (d, True) | Some d' \<Rightarrow> (d', True)))"

text \<open>
  \<open>set_content_at\<close>: the edit is made on a fork pinned at \<open>base\<close>, and merged back as updates the
  live document lacks.
\<close>

definition set_content_at ::
    "('d, 'v, 'f) vdoc \<Rightarrow> ('d, 'n, 't, 'm) loro_ct \<Rightarrow> 'd \<Rightarrow> 'n \<Rightarrow> string \<Rightarrow> 'f \<Rightarrow> 'd \<times> bool" where
  "set_content_at V L d n s base =
     (case ld_fork_at V d base of
        None \<Rightarrow> (d, False)
      | Some fork \<Rightarrow>
          (case ft_content L fork n of
             None \<Rightarrow> (d, False)
           | Some t \<Rightarrow>
               (case tx_update L fork t s of
                  None \<Rightarrow> (d, False)
                | Some fork1 \<Rightarrow>
                    (case ld_export_updates V (ld_commit V fork1) (ld_state_vv V d) of
                       Inl _ \<Rightarrow> (d, False)
                     | Inr updates \<Rightarrow>
                         (case ld_import V d updates of (d', r) \<Rightarrow> (d', is_ok r))))))"

definition content_at ::
    "('d, 'v, 'f) vdoc \<Rightarrow> ('d, 'n, 't, 'm) loro_ct \<Rightarrow> 'd \<Rightarrow> 'n \<Rightarrow> 'f \<Rightarrow> string option" where
  "content_at V L d n base =
     (case ld_fork_at V d base of
        None \<Rightarrow> None
      | Some fork \<Rightarrow> map_option (tx_str L fork) (ft_content L fork n))"

section \<open>Walking\<close>

definition ft_succs :: "('d, 'n, 't, 'm) loro_ct \<Rightarrow> 'd \<Rightarrow> 'n \<Rightarrow> 'n list" where
  "ft_succs L d n = (if ft_kind L d n = Some Dir then ft_children L d n else [])"

text \<open>The stack is popped from its end, so the last root comes first.\<close>

definition ft_walk ::
    "('d, 'n, 't, 'm) loro_ct \<Rightarrow> 'd \<Rightarrow> 'n list \<Rightarrow> ('n \<times> node_kind option) list option" where
  "ft_walk L d roots =
     map_option (map (\<lambda>n. (n, ft_kind L d n))) (dfs (ft_succs L d) (rev roots) [])"

end
