(* ===== verification/Tree_Laws.thy ===== *)
theory Tree_Laws
  imports File_Tree
begin

text \<open>
  The documented laws of Loro's movable tree, of the metadata map of its nodes and of text
  containers, as a locale over the valid documents, and what they give for the operations of
  \<open>tree.rs\<close>.  A node is rooted when its chain of parents ends at the root; deleting a node marks
  only that node, so what is below it stops being rooted.
\<close>

section \<open>Vocabulary\<close>

inductive rooted :: "('d, 'n, 't, 'm) loro_ct \<Rightarrow> 'd \<Rightarrow> 'n \<Rightarrow> bool" for L d where
  root: "tr_parent L d n = Some PRoot \<Longrightarrow> rooted L d n"
| child: "tr_parent L d n = Some (PNode p) \<Longrightarrow> rooted L d p \<Longrightarrow> rooted L d n"

inductive_simps rooted_iff: "rooted L d n"

definition place :: "('d, 'n, 't, 'm) loro_ct \<Rightarrow> 'd \<Rightarrow> 'n option \<Rightarrow> bool" where
  "place L d q \<longleftrightarrow> (case q of None \<Rightarrow> True | Some p \<Rightarrow> rooted L d p)"

definition parent_of :: "'n option \<Rightarrow> 'n tree_parent" where
  "parent_of q = (case q of None \<Rightarrow> PRoot | Some p \<Rightarrow> PNode p)"

definition kids :: "('d, 'n, 't, 'm) loro_ct \<Rightarrow> 'd \<Rightarrow> 'n option \<Rightarrow> 'n list" where
  "kids L d q = (case q of None \<Rightarrow> ft_roots L d | Some p \<Rightarrow> ft_children L d p)"

text \<open>\<open>under L d n p\<close>: the node \<open>n\<close> is \<open>p\<close> or below it.\<close>

definition under :: "('d, 'n, 't, 'm) loro_ct \<Rightarrow> 'd \<Rightarrow> 'n \<Rightarrow> 'n \<Rightarrow> bool" where
  "under L d = (\<lambda>n p. tr_parent L d n = Some (PNode p))\<^sup>*\<^sup>*"

definition same_tree :: "('d, 'n, 't, 'm) loro_ct \<Rightarrow> 'd \<Rightarrow> 'd \<Rightarrow> bool" where
  "same_tree L d d' \<longleftrightarrow> (\<forall>n. tr_parent L d' n = tr_parent L d n) \<and> (\<forall>q. kids L d' q = kids L d q) \<and>
                       (\<forall>n. tr_meta L d' n = tr_meta L d n)"

definition same_maps :: "('d, 'n, 't, 'm) loro_ct \<Rightarrow> 'd \<Rightarrow> 'd \<Rightarrow> bool" where
  "same_maps L d d' \<longleftrightarrow> (\<forall>m k. mp_get L d' m k = mp_get L d m k)"

definition same_texts :: "('d, 'n, 't, 'm) loro_ct \<Rightarrow> 'd \<Rightarrow> 'd \<Rightarrow> bool" where
  "same_texts L d d' \<longleftrightarrow> (\<forall>t. tx_str L d' t = tx_str L d t)"

text \<open>Only one entry of one map changed.\<close>

definition map_put ::
    "('d, 'n, 't, 'm) loro_ct \<Rightarrow> 'd \<Rightarrow> 'd \<Rightarrow> 'm \<Rightarrow> string \<Rightarrow> ('t, 'm) voc \<Rightarrow> bool" where
  "map_put L d d' m k v \<longleftrightarrow>
     (\<forall>m' k'. mp_get L d' m' k' = (if m' = m \<and> k' = k then Some v else mp_get L d m' k'))"

text \<open>Only one node's place changed.\<close>

definition replaced :: "('d, 'n, 't, 'm) loro_ct \<Rightarrow> 'd \<Rightarrow> 'd \<Rightarrow> 'n \<Rightarrow> 'n tree_parent \<Rightarrow> bool" where
  "replaced L d d' n par \<longleftrightarrow>
     tr_parent L d' n = Some par \<and> (\<forall>k. k \<noteq> n \<longrightarrow> tr_parent L d' k = tr_parent L d k) \<and>
     (\<forall>q. place L d q \<longrightarrow> q \<noteq> Some n \<longrightarrow> filter (\<lambda>k. k \<noteq> n) (kids L d' q) = filter (\<lambda>k. k \<noteq> n) (kids L d q))"

section \<open>The laws\<close>

locale loro_tree =
  fixes L :: "('d, 'n, 't, 'm) loro_ct" and ok :: "'d \<Rightarrow> bool"
  assumes kids_distinct: "ok d \<Longrightarrow> place L d q \<Longrightarrow> distinct (kids L d q)"
    and kids_parent:
      "ok d \<Longrightarrow> place L d q \<Longrightarrow> n \<in> set (kids L d q) \<longleftrightarrow> tr_parent L d n = Some (parent_of q)"
    and acyclic_finite:
      "ok d \<Longrightarrow> \<exists>r N. (\<forall>n. r n \<le> (N :: nat)) \<and> (\<forall>n p. tr_parent L d n = Some (PNode p) \<longrightarrow> r p < r n)"
    and alive_rooted: "ok d \<Longrightarrow> tr_is_deleted L d n = Some False \<longleftrightarrow> rooted L d n"
    and meta_some: "ok d \<Longrightarrow> rooted L d n \<Longrightarrow> \<exists>m. tr_meta L d n = Some m"
    and meta_inj:
      "ok d \<Longrightarrow> rooted L d n \<Longrightarrow> rooted L d n' \<Longrightarrow> tr_meta L d n = tr_meta L d n' \<Longrightarrow> n = n'"
    and create:
      "ok d \<Longrightarrow> place L d q \<Longrightarrow>
       \<exists>d' n m. tr_create L d q = Some (d', n) \<and> ok d' \<and> \<not> rooted L d n \<and>
         replaced L d d' n (parent_of q) \<and> kids L d' (Some n) = [] \<and>
         tr_meta L d' n = Some m \<and> (\<forall>k. rooted L d k \<longrightarrow> tr_meta L d' k = tr_meta L d k) \<and>
         (\<forall>k. mp_get L d' m k = None) \<and>
         (\<forall>m' k. m' \<noteq> m \<longrightarrow> mp_get L d' m' k = mp_get L d m' k) \<and> same_texts L d d'"
    and insert_value:
      "ok d \<Longrightarrow> rooted L d n \<Longrightarrow> tr_meta L d n = Some m \<Longrightarrow>
       \<exists>d'. mp_insert L d m k v = Some d' \<and> ok d' \<and> same_tree L d d' \<and> map_put L d d' m k (VVal v) \<and>
            same_texts L d d'"
    and insert_text:
      "ok d \<Longrightarrow> rooted L d n \<Longrightarrow> tr_meta L d n = Some m \<Longrightarrow>
       \<exists>d' t. mp_insert_text L d m k = Some (d', t) \<and> ok d' \<and> same_tree L d d' \<and>
            map_put L d d' m k (VText t) \<and> (\<forall>m' k'. mp_get L d m' k' \<noteq> Some (VText t)) \<and>
            tx_str L d' t = [] \<and> (\<forall>t'. t' \<noteq> t \<longrightarrow> tx_str L d' t' = tx_str L d t')"
    and update_text:
      "ok d \<Longrightarrow> tx_update L d t s = Some d' \<Longrightarrow>
       ok d' \<and> same_tree L d d' \<and> same_maps L d d' \<and> tx_str L d' t = s \<and>
       (\<forall>t'. t' \<noteq> t \<longrightarrow> tx_str L d' t' = tx_str L d t')"
    and move_refused:
      "ok d \<Longrightarrow> rooted L d n \<Longrightarrow> place L d q \<Longrightarrow>
       tr_mov L d n q = None \<longleftrightarrow> (\<exists>p. q = Some p \<and> under L d p n)"
    and move:
      "ok d \<Longrightarrow> rooted L d n \<Longrightarrow> place L d q \<Longrightarrow> tr_mov L d n q = Some d' \<Longrightarrow>
       ok d' \<and> replaced L d d' n (parent_of q) \<and> kids L d' (Some n) = kids L d (Some n) \<and>
       (\<forall>k. tr_meta L d' k = tr_meta L d k) \<and> same_maps L d d' \<and> same_texts L d d'"
    and delete:
      "ok d \<Longrightarrow> rooted L d n \<Longrightarrow>
       \<exists>d'. tr_delete L d n = Some d' \<and> ok d' \<and> replaced L d d' n PDeleted \<and>
            (\<forall>k. rooted L d' k \<longrightarrow> tr_meta L d' k = tr_meta L d k) \<and> same_maps L d d' \<and> same_texts L d d'"
begin

lemma place_None [simp]: "place L d None"
  by (simp add: place_def)

lemma place_Some [simp]: "place L d (Some p) \<longleftrightarrow> rooted L d p"
  by (simp add: place_def)

lemma kid_rooted:
  assumes "ok d" "place L d q" "n \<in> set (kids L d q)"
  shows "rooted L d n"
proof -
  have "tr_parent L d n = Some (parent_of q)" using kids_parent [OF assms(1,2)] assms(3) by simp
  with assms(2) show ?thesis by (cases q) (auto simp: parent_of_def place_def intro: rooted.intros)
qed

lemma one_place:
  assumes "ok d" "place L d q" "place L d q'" "n \<in> set (kids L d q)" "n \<in> set (kids L d q')"
  shows "q = q'"
  using kids_parent [OF assms(1,2), of n] kids_parent [OF assms(1,3), of n] assms(4,5)
  by (auto simp: parent_of_def split: option.splits)

lemma same_tree_rooted: "same_tree L d d' \<Longrightarrow> rooted L d' n = rooted L d n"
proof -
  have "rooted L a n \<Longrightarrow> \<forall>n. tr_parent L b n = tr_parent L a n \<Longrightarrow> rooted L b n" for a b
    by (induction rule: rooted.induct) (auto intro: rooted.intros)
  then show "same_tree L d d' \<Longrightarrow> ?thesis" by (metis same_tree_def)
qed

lemma under_refl [simp]: "under L d n n"
  by (simp add: under_def)

lemma rooted_under: "rooted L d n \<Longrightarrow> under L d n p \<Longrightarrow> rooted L d p"
  unfolding under_def
  by (rotate_tac, induction rule: rtranclp_induct) (auto elim: rooted.cases)

text \<open>What is rooted after one node was put elsewhere.\<close>

lemma replaced_rooted_keep:
  assumes "replaced L d d' n par" "rooted L d k" "\<not> under L d k n"
  shows "rooted L d' k"
  using assms(2,3)
proof (induction rule: rooted.induct)
  case (root k)
  then have "k \<noteq> n" by auto
  with assms(1) root show ?case by (auto simp: replaced_def intro: rooted.root)
next
  case (child k p)
  then have "k \<noteq> n" by auto
  moreover have "\<not> under L d p n"
    using child(1,4) by (auto simp: under_def intro: converse_rtranclp_into_rtranclp)
  ultimately show ?case using assms(1) child by (auto simp: replaced_def intro: rooted.child)
qed

end

end
