(* ===== verification/Doc_Fs.thy ===== *)
theory Doc_Fs
  imports Tree_Laws
begin

text \<open>
  \<open>crates/okayeg/src/fs.rs\<close>: the path-addressed view over the file tree.  A result of \<open>None\<close> is
  a panic, \<open>Some (Err e)\<close> the code's error, \<open>Some (Ok x)\<close> its success with the new document.
\<close>

section \<open>Names and paths\<close>

definition valid_name :: "string \<Rightarrow> bool" where
  "valid_name name \<longleftrightarrow>
     name \<noteq> [] \<and> name \<noteq> ''.'' \<and> name \<noteq> ''..'' \<and> CHR ''/'' \<notin> set name \<and> CHR 0x00 \<notin> set name"

datatype fs_error =
    InvalidPath
  | NotFound
  | NotADirectory
  | NotAFile
  | AlreadyExists
  | NotEmpty
  | InvalidMove

definition fs_error_display :: "fs_error \<Rightarrow> string" where
  "fs_error_display e = (case e of
     InvalidPath \<Rightarrow> ''invalid path''
   | NotFound \<Rightarrow> ''no such file or directory''
   | NotADirectory \<Rightarrow> ''not a directory''
   | NotAFile \<Rightarrow> ''not a file''
   | AlreadyExists \<Rightarrow> ''already exists''
   | NotEmpty \<Rightarrow> ''directory not empty''
   | InvalidMove \<Rightarrow> ''cannot move a node into its own subtree'')"

record 'n fs_entry =
  en_node :: 'n
  en_name :: string
  en_kind :: "node_kind option"

definition components :: "string \<Rightarrow> fs_error + string list" where
  "components path =
     (let comps = filter (\<lambda>c. c \<noteq> []) (split_on (CHR ''/'') path)
      in if list_all valid_name comps then Ok comps else Err InvalidPath)"

section \<open>Lookups\<close>

definition child_named :: "('d, 'n, 't, 'm) loro_ct \<Rightarrow> 'd \<Rightarrow> 'n option \<Rightarrow> string \<Rightarrow> 'n option" where
  "child_named L d parent name =
     find (\<lambda>n. ft_name L d n = Some name)
       (case parent of Some p \<Rightarrow> ft_children L d p | None \<Rightarrow> ft_roots L d)"

text \<open>The loop of \<open>resolve\<close>, from the node reached so far.\<close>

fun resolve_from ::
    "('d, 'n, 't, 'm) loro_ct \<Rightarrow> 'd \<Rightarrow> 'n option \<Rightarrow> string list \<Rightarrow> fs_error + 'n option" where
  "resolve_from L d current [] = Ok current"
| "resolve_from L d current (c # comps) =
     (if (case current of None \<Rightarrow> False | Some n \<Rightarrow> ft_kind L d n \<noteq> Some Dir) then Err NotADirectory
      else (case child_named L d current c of
              None \<Rightarrow> Err NotFound
            | Some n \<Rightarrow> resolve_from L d (Some n) comps))"

definition resolve :: "('d, 'n, 't, 'm) loro_ct \<Rightarrow> 'd \<Rightarrow> string \<Rightarrow> fs_error + 'n" where
  "resolve L d path =
     (case components path of
        Inl e \<Rightarrow> Err e
      | Inr comps \<Rightarrow>
          (case resolve_from L d None comps of
             Inl e \<Rightarrow> Err e
           | Inr current \<Rightarrow> ok_or NotFound current))"

definition entry_of :: "('d, 'n, 't, 'm) loro_ct \<Rightarrow> 'd \<Rightarrow> 'n \<Rightarrow> 'n fs_entry" where
  "entry_of L d n =
     \<lparr>en_node = n, en_name = (case ft_name L d n of None \<Rightarrow> [] | Some s \<Rightarrow> s), en_kind = ft_kind L d n\<rparr>"

definition stat :: "('d, 'n, 't, 'm) loro_ct \<Rightarrow> 'd \<Rightarrow> string \<Rightarrow> fs_error + 'n fs_entry" where
  "stat L d path = (case resolve L d path of Inl e \<Rightarrow> Err e | Inr n \<Rightarrow> Ok (entry_of L d n))"

definition fs_text :: "('d, 'n, 't, 'm) loro_ct \<Rightarrow> 'd \<Rightarrow> string \<Rightarrow> fs_error + 't" where
  "fs_text L d path =
     (case resolve L d path of Inl e \<Rightarrow> Err e | Inr n \<Rightarrow> ok_or NotAFile (ft_content L d n))"

definition fs_read :: "('d, 'n, 't, 'm) loro_ct \<Rightarrow> 'd \<Rightarrow> string \<Rightarrow> fs_error + string" where
  "fs_read L d path = (case fs_text L d path of Inl e \<Rightarrow> Err e | Inr t \<Rightarrow> Ok (tx_str L d t))"

definition readdir :: "('d, 'n, 't, 'm) loro_ct \<Rightarrow> 'd \<Rightarrow> string \<Rightarrow> fs_error + 'n fs_entry list" where
  "readdir L d path =
     (case components path of
        Inl e \<Rightarrow> Err e
      | Inr comps \<Rightarrow>
          (case (if comps = [] then Ok (ft_roots L d)
                 else (case resolve L d path of
                         Inl e \<Rightarrow> Err e
                       | Inr n \<Rightarrow> if ft_kind L d n \<noteq> Some Dir then Err NotADirectory
                                  else Ok (ft_children L d n))) of
             Inl e \<Rightarrow> Err e
           | Inr children \<Rightarrow>
               Ok (filter (\<lambda>e. valid_name (en_name e)) (map (entry_of L d) children))))"

section \<open>Walking and paths of nodes\<close>

definition named_node :: "('d, 'n, 't, 'm) loro_ct \<Rightarrow> 'd \<Rightarrow> 'n \<Rightarrow> string option" where
  "named_node L d n =
     (case ft_name L d n of None \<Rightarrow> None | Some s \<Rightarrow> if valid_name s then Some s else None)"

definition walk_roots :: "('d, 'n, 't, 'm) loro_ct \<Rightarrow> 'd \<Rightarrow> ('n \<times> string) list" where
  "walk_roots L d = List.map_filter (\<lambda>n. map_option (Pair n) (named_node L d n)) (ft_roots L d)"

definition walk_succs :: "('d, 'n, 't, 'm) loro_ct \<Rightarrow> 'd \<Rightarrow> 'n \<times> string \<Rightarrow> ('n \<times> string) list" where
  "walk_succs L d = (\<lambda>(n, path).
     if ft_kind L d n = Some Dir
     then List.map_filter (\<lambda>c. map_option (\<lambda>name. (c, path @ ''/'' @ name)) (named_node L d c))
            (ft_children L d n)
     else [])"

definition walk :: "('d, 'n, 't, 'm) loro_ct \<Rightarrow> 'd \<Rightarrow> (string \<times> 'n fs_entry) list option" where
  "walk L d =
     map_option (map (\<lambda>(n, path). (path, entry_of L d n)))
       (dfs (walk_succs L d) (rev (walk_roots L d)) [])"

text \<open>
  The loop of \<open>path_of\<close>: the outer option is whether it ends, the inner one the code's answer.
  \<open>parts\<close> has the last component found first, so it is never reversed.
\<close>

partial_function (option) path_loop ::
    "('d, 'n, 't, 'm) loro_ct \<Rightarrow> 'd \<Rightarrow> 'n \<Rightarrow> string list \<Rightarrow> string list option option" where
  "path_loop L d n parts =
     (case named_node L d n of
        None \<Rightarrow> Some None
      | Some name \<Rightarrow>
          (case tr_parent L d n of
             None \<Rightarrow> Some None
           | Some par \<Rightarrow>
               (case par of
                  PNode p \<Rightarrow> path_loop L d p (name # parts)
                | PRoot \<Rightarrow> Some (Some (name # parts))
                | PDeleted \<Rightarrow> Some None
                | PUnexist \<Rightarrow> Some None)))"

definition path_of :: "('d, 'n, 't, 'm) loro_ct \<Rightarrow> 'd \<Rightarrow> 'n \<Rightarrow> string option option" where
  "path_of L d n = map_option (map_option (join_with ''/'')) (path_loop L d n [])"

section \<open>Edits by path\<close>

fun descend ::
    "('d, 'n, 't, 'm) loro_ct \<Rightarrow> 'd \<Rightarrow> 'n option \<Rightarrow> string list \<Rightarrow> fs_error + 'n option" where
  "descend L d parent [] = Ok parent"
| "descend L d parent (c # comps) =
     (case child_named L d parent c of
        None \<Rightarrow> Err NotFound
      | Some n \<Rightarrow> if ft_kind L d n \<noteq> Some Dir then Err NotADirectory
                  else descend L d (Some n) comps)"

definition split_parent ::
    "('d, 'n, 't, 'm) loro_ct \<Rightarrow> 'd \<Rightarrow> string \<Rightarrow> fs_error + 'n option \<times> string" where
  "split_parent L d path =
     (case components path of
        Inl e \<Rightarrow> Err e
      | Inr comps \<Rightarrow>
          (if comps = [] then Err InvalidPath
           else (case descend L d None (butlast comps) of
                   Inl e \<Rightarrow> Err e
                 | Inr parent \<Rightarrow> Ok (parent, last comps))))"

definition create_at ::
    "('d, 'n, 't, 'm) loro_ct \<Rightarrow> ('d \<Rightarrow> 'n option \<Rightarrow> string \<Rightarrow> ('d \<times> 'n) option) \<Rightarrow> 'd \<Rightarrow> string
       \<Rightarrow> (fs_error + 'd \<times> 'n) option" where
  "create_at L mk d path =
     (case split_parent L d path of
        Inl e \<Rightarrow> Some (Err e)
      | Inr (parent, name) \<Rightarrow>
          (if child_named L d parent name \<noteq> None then Some (Err AlreadyExists)
           else map_option Ok (mk d parent name)))"

definition fs_create_file ::
    "('d, 'n, 't, 'm) loro_ct \<Rightarrow> 'd \<Rightarrow> string \<Rightarrow> (fs_error + 'd \<times> 'n) option" where
  "fs_create_file L = create_at L (ft_create_file L)"

definition fs_create_dir ::
    "('d, 'n, 't, 'm) loro_ct \<Rightarrow> 'd \<Rightarrow> string \<Rightarrow> (fs_error + 'd \<times> 'n) option" where
  "fs_create_dir L = create_at L (ft_create_dir L)"

definition remove_file :: "('d, 'n, 't, 'm) loro_ct \<Rightarrow> 'd \<Rightarrow> string \<Rightarrow> (fs_error + 'd) option" where
  "remove_file L d path =
     (case resolve L d path of
        Inl e \<Rightarrow> Some (Err e)
      | Inr n \<Rightarrow> if ft_kind L d n = Some Dir then Some (Err NotAFile)
                 else map_option Ok (ft_delete L d n))"

definition remove_dir :: "('d, 'n, 't, 'm) loro_ct \<Rightarrow> 'd \<Rightarrow> string \<Rightarrow> (fs_error + 'd) option" where
  "remove_dir L d path =
     (case resolve L d path of
        Inl e \<Rightarrow> Some (Err e)
      | Inr n \<Rightarrow> if ft_kind L d n \<noteq> Some Dir then Some (Err NotADirectory)
                 else if ft_children L d n \<noteq> [] then Some (Err NotEmpty)
                 else map_option Ok (ft_delete L d n))"

text \<open>Whether an existing destination may be replaced; the match arms of \<open>rename\<close>, in order.\<close>

definition displace_error ::
    "('d, 'n, 't, 'm) loro_ct \<Rightarrow> 'd \<Rightarrow> 'n \<Rightarrow> 'n \<Rightarrow> fs_error option" where
  "displace_error L d n dest =
     (let node_is_dir = (ft_kind L d n = Some Dir) in
      if ft_kind L d dest = Some Dir \<and> \<not> node_is_dir then Some NotADirectory
      else if ft_kind L d dest = Some Dir \<and> ft_children L d dest \<noteq> [] then Some NotEmpty
      else if ft_kind L d dest = Some Dir then None
      else if node_is_dir then Some NotAFile
      else None)"

definition fs_rename ::
    "('d, 'n, 't, 'm) loro_ct \<Rightarrow> 'd \<Rightarrow> string \<Rightarrow> string \<Rightarrow> (fs_error + 'd) option" where
  "fs_rename L d from to =
     (case resolve L d from of
        Inl e \<Rightarrow> Some (Err e)
      | Inr n \<Rightarrow>
          (case split_parent L d to of
             Inl e \<Rightarrow> Some (Err e)
           | Inr (parent, name) \<Rightarrow>
               (let displaced = (case child_named L d parent name of
                                   None \<Rightarrow> None | Some k \<Rightarrow> if k = n then None else Some k)
                in case (case displaced of None \<Rightarrow> None | Some dest \<Rightarrow> displace_error L d n dest) of
                     Some e \<Rightarrow> Some (Err e)
                   | None \<Rightarrow>
                       (case tr_mov L d n parent of
                          None \<Rightarrow> Some (Err InvalidMove)
                        | Some d1 \<Rightarrow>
                            (case (case displaced of None \<Rightarrow> Some d1 | Some dest \<Rightarrow> ft_delete L d1 dest) of
                               None \<Rightarrow> None
                             | Some d2 \<Rightarrow> map_option Ok (ft_rename L d2 n name))))))"

end
