(* ===== verification/Tree_Ops.thy ===== *)
theory Tree_Ops
  imports Tree_Laws
begin

text \<open>
  What the operations of \<open>tree.rs\<close> do to the tree, from the laws of \<open>loro_tree\<close>: which nodes are
  rooted afterwards, which children each place has, and that no other node's name, kind or
  content changes.
\<close>

definition same_node :: "('d, 'n, 't, 'm) loro_ct \<Rightarrow> 'd \<Rightarrow> 'd \<Rightarrow> 'n \<Rightarrow> bool" where
  "same_node L d d' k \<longleftrightarrow>
     ft_name L d' k = ft_name L d k \<and> ft_kind L d' k = ft_kind L d k \<and>
     ft_content L d' k = ft_content L d k \<and>
     (\<forall>t. ft_content L d k = Some t \<longrightarrow> tx_str L d' t = tx_str L d t)"

lemma same_nodeD:
  assumes "same_node L d d' k"
  shows "ft_name L d' k = ft_name L d k" "ft_kind L d' k = ft_kind L d k"
    "ft_content L d' k = ft_content L d k"
  using assms by (simp_all add: same_node_def)

lemma same_node_frame:
  assumes "tr_meta L d' k = tr_meta L d k" "same_texts L d d'"
    and "\<And>m key. tr_meta L d k = Some m \<Longrightarrow> mp_get L d' m key = mp_get L d m key"
  shows "same_node L d d' k"
proof (cases "tr_meta L d k")
  case None
  with assms(1) show ?thesis by (simp add: same_node_def ft_name_def ft_kind_def string_field_def ft_content_def)
next
  case (Some m)
  with assms show ?thesis
    by (simp add: same_node_def ft_name_def ft_kind_def string_field_def ft_content_def same_texts_def)
qed

lemma same_node_trans: "same_node L a b k \<Longrightarrow> same_node L b c k \<Longrightarrow> same_node L a c k"
  by (simp add: same_node_def)

text \<open>The tree after a node \<open>n\<close> was added under \<open>q\<close>.\<close>

definition added ::
    "('d, 'n, 't, 'm) loro_ct \<Rightarrow> 'd \<Rightarrow> 'd \<Rightarrow> 'n \<Rightarrow> 'n option \<Rightarrow> string \<Rightarrow> node_kind \<Rightarrow> bool" where
  "added L d d' n q name kind \<longleftrightarrow>
     \<not> rooted L d n \<and> (\<forall>k. rooted L d' k \<longleftrightarrow> k = n \<or> rooted L d k) \<and>
     replaced L d d' n (parent_of q) \<and> kids L d' (Some n) = [] \<and>
     ft_name L d' n = Some name \<and> ft_kind L d' n = Some kind \<and>
     (\<forall>k. rooted L d k \<longrightarrow> same_node L d d' k)"

context loro_tree
begin

lemma created_rooted:
  assumes "ok d'" "place L d q" "\<not> rooted L d n" "replaced L d d' n (parent_of q)" "kids L d' (Some n) = []"
  shows "rooted L d' k \<longleftrightarrow> k = n \<or> rooted L d k"
proof
  have keep: "rooted L d' k" if "rooted L d k" for k
    using replaced_rooted_keep [OF assms(4) that] rooted_under [OF that] assms(3) by blast
  have n: "rooted L d' n"
    using assms(2,4) keep
    by (cases q) (auto simp: replaced_def parent_of_def intro: rooted.intros)
  show "k = n \<or> rooted L d k \<Longrightarrow> rooted L d' k" using keep n by blast
  have no_child: "tr_parent L d' k \<noteq> Some (PNode n)" for k
    using kids_parent [OF assms(1), of "Some n" k] n assms(5) by (simp add: parent_of_def)
  show "rooted L d' k \<Longrightarrow> k = n \<or> rooted L d k"
  proof (induction rule: rooted.induct)
    case (root k)
    with assms(4) show ?case by (cases "k = n") (auto simp: replaced_def intro: rooted.root)
  next
    case (child k p)
    then show ?case
      using assms(4) no_child by (cases "k = n") (auto simp: replaced_def intro: rooted.child)
  qed
qed

lemma create_node_added:
  assumes "ok d" "place L d q"
  shows "\<exists>d' n m. create_node L d q name kind = Some (d', n) \<and> ok d' \<and> added L d d' n q name kind \<and>
           tr_meta L d' n = Some m \<and> mp_get L d' m ''content'' = None \<and>
           (\<forall>k. rooted L d k \<longrightarrow> tr_meta L d' k \<noteq> Some m)"
proof -
  from create [OF assms] obtain d1 n m where c: "tr_create L d q = Some (d1, n)" "ok d1"
    "\<not> rooted L d n" "replaced L d d1 n (parent_of q)" "kids L d1 (Some n) = []"
    "tr_meta L d1 n = Some m" "\<forall>k. rooted L d k \<longrightarrow> tr_meta L d1 k = tr_meta L d k"
    "\<forall>k. mp_get L d1 m k = None" "\<forall>m' k. m' \<noteq> m \<longrightarrow> mp_get L d1 m' k = mp_get L d m' k"
    "same_texts L d d1" by metis
  note rt1 = created_rooted [OF c(2) assms(2) c(3-5)]
  then have n1: "rooted L d1 n" by simp
  from insert_value [OF c(2) n1 c(6)] obtain d2 where
    i: "mp_insert L d1 m ''name'' (LString name) = Some d2" "ok d2" "same_tree L d1 d2"
    "map_put L d1 d2 m ''name'' (VVal (LString name))" "same_texts L d1 d2" by metis
  have n2: "rooted L d2 n" "tr_meta L d2 n = Some m"
    using n1 same_tree_rooted [OF i(3)] c(6) i(3) by (simp_all add: same_tree_def)
  from insert_value [OF i(2) n2] obtain d3 where
    j: "mp_insert L d2 m ''kind'' (LString (kind_as_str kind)) = Some d3" "ok d3" "same_tree L d2 d3"
    "map_put L d2 d3 m ''kind'' (VVal (LString (kind_as_str kind)))" "same_texts L d2 d3" by metis
  have tree: "same_tree L d1 d3" using i(3) j(3) by (simp add: same_tree_def)
  have m: "tr_meta L d3 n = Some m" using tree c(6) by (simp add: same_tree_def)
  have get: "mp_get L d3 m' k = (if m' = m then (if k = ''kind'' then Some (VVal (LString (kind_as_str kind)))
      else if k = ''name'' then Some (VVal (LString name)) else None) else mp_get L d m' k)" for m' k
    using i(4) j(4) c(8,9) by (auto simp: map_put_def)
  have fresh: "tr_meta L d k \<noteq> Some m" if "rooted L d k" for k
    using meta_inj [OF c(2), of k n] that rt1 c(3,6,7) by auto
  have meta: "tr_meta L d3 k = tr_meta L d k" if "rooted L d k" for k
    using that tree c(7) by (simp add: same_tree_def)
  have "same_texts L d d3" using c(10) i(5) j(5) by (simp add: same_texts_def)
  then have "same_node L d d3 k" if "rooted L d k" for k
    using that fresh meta by (intro same_node_frame) (auto simp: get)
  moreover have "rooted L d3 k \<longleftrightarrow> k = n \<or> rooted L d k" for k
    using rt1 same_tree_rooted [OF tree] by simp
  moreover have "replaced L d d3 n (parent_of q)" "kids L d3 (Some n) = []"
    using c(4,5) tree by (simp_all add: replaced_def same_tree_def)
  moreover have "ft_name L d3 n = Some name" "ft_kind L d3 n = Some kind"
    using m by (simp_all add: ft_name_def ft_kind_def string_field_def get)
  ultimately have "added L d d3 n q name kind" using c(3) by (simp add: added_def)
  moreover have "create_node L d q name kind = Some (d3, n)"
    using c(1,6) i(1) j(1) by (simp add: create_node_def)
  moreover have "\<forall>k. rooted L d k \<longrightarrow> tr_meta L d3 k \<noteq> Some m" using meta fresh by simp
  moreover have "mp_get L d3 m ''content'' = None" by (simp add: get)
  ultimately show ?thesis using j(2) m by blast
qed

lemma ft_create_dir_added:
  assumes "ok d" "place L d q"
  shows "\<exists>d' n. ft_create_dir L d q name = Some (d', n) \<and> ok d' \<and> added L d d' n q name Dir"
  using create_node_added [OF assms, of name Dir] unfolding ft_create_dir_def by blast

text \<open>A new file has an empty content text of its own.\<close>

lemma ft_create_file_added:
  assumes "ok d" "place L d q"
  shows "\<exists>d' n t. ft_create_file L d q name = Some (d', n) \<and> ok d' \<and> added L d d' n q name File \<and>
           ft_content L d' n = Some t \<and> tx_str L d' t = [] \<and>
           (\<forall>k. rooted L d k \<longrightarrow> ft_content L d k \<noteq> Some t)"
proof -
  from create_node_added [OF assms, of name File] obtain d1 n m where
    c: "create_node L d q name File = Some (d1, n)" "ok d1" "added L d d1 n q name File"
    "tr_meta L d1 n = Some m" "mp_get L d1 m ''content'' = None"
    "\<forall>k. rooted L d k \<longrightarrow> tr_meta L d1 k \<noteq> Some m" by blast
  have n1: "rooted L d1 n" using c(3) by (simp add: added_def)
  from insert_text [OF c(2) n1 c(4), of "''content''"] obtain d2 t where
    i: "mp_insert_text L d1 m ''content'' = Some (d2, t)" "ok d2" "same_tree L d1 d2"
    "map_put L d1 d2 m ''content'' (VText t)" "\<forall>m' k'. mp_get L d1 m' k' \<noteq> Some (VText t)"
    "tx_str L d2 t = []" "\<forall>t'. t' \<noteq> t \<longrightarrow> tx_str L d2 t' = tx_str L d1 t'" by metis
  have content_ne: "ft_content L d1 k \<noteq> Some t" for k
    using i(5) by (auto simp: ft_content_def split: option.splits voc.splits)
  have meta: "tr_meta L d2 k = tr_meta L d1 k" for k using i(3) by (simp add: same_tree_def)
  have get: "mp_get L d2 m' key = (if m' = m \<and> key = ''content'' then Some (VText t) else mp_get L d1 m' key)"
    for m' key using i(4) by (simp add: map_put_def)
  have step: "same_node L d1 d2 k" if "rooted L d k" for k
  proof -
    have "tr_meta L d1 k \<noteq> Some m" using c(6) that by blast
    then have "ft_content L d2 k = ft_content L d1 k" "ft_name L d2 k = ft_name L d1 k"
      "ft_kind L d2 k = ft_kind L d1 k"
      by (auto simp: ft_content_def ft_name_def ft_kind_def string_field_def meta get split: option.splits)
    then show ?thesis using i(7) content_ne [of k] by (auto simp: same_node_def)
  qed
  have "same_node L d d2 k" if "rooted L d k" for k
    using same_node_trans [of L d d1 k d2] step [OF that] c(3) that by (simp add: added_def)
  moreover have "ft_name L d2 n = ft_name L d1 n" "ft_kind L d2 n = ft_kind L d1 n"
    by (simp_all add: ft_name_def ft_kind_def string_field_def meta c(4) get)
  ultimately have "added L d d2 n q name File"
    using c(3) same_tree_rooted [OF i(3)] i(3) by (simp add: added_def replaced_def same_tree_def)
  moreover have "ft_create_file L d q name = Some (d2, n)"
    using c(1,4) i(1) by (simp add: ft_create_file_def)
  moreover have "ft_content L d2 n = Some t" by (simp add: ft_content_def meta c(4) get)
  moreover have "ft_content L d k \<noteq> Some t" if "rooted L d k" for k
    using content_ne [of k] c(3) that by (simp add: added_def same_node_def)
  ultimately show ?thesis using i(2,6) by blast
qed

section \<open>Deleting, moving, renaming\<close>

lemma delete_rooted:
  assumes "replaced L d d' n PDeleted"
  shows "rooted L d' k \<Longrightarrow> rooted L d k \<and> k \<noteq> n"
proof (induction rule: rooted.induct)
  case (root k)
  with assms show ?case by (cases "k = n") (auto simp: replaced_def intro: rooted.root)
next
  case (child k p)
  with assms show ?case by (cases "k = n") (auto simp: replaced_def intro: rooted.child)
qed

lemma ft_delete_ok:
  assumes "ok d" "rooted L d n"
  shows "\<exists>d'. ft_delete L d n = Some d' \<and> ok d' \<and> replaced L d d' n PDeleted \<and>
              (\<forall>k. rooted L d' k \<longrightarrow> same_node L d d' k)"
proof -
  from delete [OF assms] obtain d' where d': "tr_delete L d n = Some d'" "ok d'"
    "replaced L d d' n PDeleted" "\<forall>k. rooted L d' k \<longrightarrow> tr_meta L d' k = tr_meta L d k"
    "same_maps L d d'" "same_texts L d d'" by blast
  then have "same_node L d d' k" if "rooted L d' k" for k
    using that by (intro same_node_frame) (auto simp: same_maps_def)
  with d' show ?thesis unfolding ft_delete_def by blast
qed

lemma move_rooted:
  assumes "replaced L d d' n (parent_of q)" "rooted L d n" "place L d q" "\<forall>p. q = Some p \<longrightarrow> \<not> under L d p n"
  shows "rooted L d' k \<longleftrightarrow> rooted L d k"
proof
  have "rooted L d' p" if "q = Some p" for p
    using replaced_rooted_keep [OF assms(1)] assms(3,4) that by auto
  then have n: "rooted L d' n"
    using assms(1) by (cases q) (auto simp: replaced_def parent_of_def intro: rooted.intros)
  show "rooted L d k \<Longrightarrow> rooted L d' k"
  proof (induction rule: rooted.induct)
    case (root k)
    with assms(1) n show ?case by (cases "k = n") (auto simp: replaced_def intro: rooted.root)
  next
    case (child k p)
    with assms(1) n show ?case by (cases "k = n") (auto simp: replaced_def intro: rooted.child)
  qed
  show "rooted L d' k \<Longrightarrow> rooted L d k"
  proof (induction rule: rooted.induct)
    case (root k)
    with assms(1,2) show ?case by (cases "k = n") (auto simp: replaced_def intro: rooted.root)
  next
    case (child k p)
    with assms(1,2) show ?case by (cases "k = n") (auto simp: replaced_def intro: rooted.child)
  qed
qed

lemma move_ok:
  assumes "ok d" "rooted L d n" "place L d q" "tr_mov L d n q = Some d'"
  shows "ok d'" "replaced L d d' n (parent_of q)" "kids L d' (Some n) = kids L d (Some n)"
    "rooted L d' k \<longleftrightarrow> rooted L d k" "same_node L d d' k"
proof -
  note mv = move [OF assms]
  then show "ok d'" and rp: "replaced L d d' n (parent_of q)"
    and "kids L d' (Some n) = kids L d (Some n)" by simp_all
  have "\<not> (\<exists>p. q = Some p \<and> under L d p n)" using move_refused [OF assms(1-3)] assms(4) by simp
  then show "rooted L d' k \<longleftrightarrow> rooted L d k" using move_rooted [OF rp assms(2,3)] by blast
  show "same_node L d d' k" using mv by (intro same_node_frame) (auto simp: same_maps_def)
qed

lemma ft_rename_ok:
  assumes "ok d" "rooted L d n"
  shows "\<exists>d'. ft_rename L d n name = Some d' \<and> ok d' \<and> same_tree L d d' \<and> ft_name L d' n = Some name \<and>
              ft_kind L d' n = ft_kind L d n \<and> ft_content L d' n = ft_content L d n \<and> same_texts L d d' \<and>
              (\<forall>k. rooted L d k \<longrightarrow> k \<noteq> n \<longrightarrow> same_node L d d' k)"
proof -
  obtain m where m: "tr_meta L d n = Some m" using meta_some [OF assms] by blast
  from insert_value [OF assms m, of "''name''" "LString name"] obtain d' where
    d': "mp_insert L d m ''name'' (LString name) = Some d'" "ok d'" "same_tree L d d'"
    "map_put L d d' m ''name'' (VVal (LString name))" "same_texts L d d'" by blast
  have meta: "tr_meta L d' k = tr_meta L d k" for k using d'(3) by (simp add: same_tree_def)
  have get: "mp_get L d' m' key = (if m' = m \<and> key = ''name'' then Some (VVal (LString name)) else mp_get L d m' key)"
    for m' key using d'(4) by (simp add: map_put_def)
  have "same_node L d d' k" if "rooted L d k" "k \<noteq> n" for k
  proof -
    have "tr_meta L d k \<noteq> Some m" using meta_inj [OF assms(1) that(1) assms(2)] m that(2) by auto
    then show ?thesis using d'(5) by (intro same_node_frame) (auto simp: meta get)
  qed
  moreover have "ft_name L d' n = Some name" "ft_kind L d' n = ft_kind L d n"
    "ft_content L d' n = ft_content L d n"
    by (simp_all add: ft_name_def ft_kind_def string_field_def ft_content_def meta m get)
  moreover have "ft_rename L d n name = Some d'" by (simp add: ft_rename_def m d'(1))
  ultimately show ?thesis using d' by blast
qed

end

end
