(* ===== verification/Doc_Fs_Spec.thy ===== *)
theory Doc_Fs_Spec
  imports Doc_Fs Tree_Ops
begin

text \<open>
  What the path view of \<open>fs.rs\<close> promises.  \<open>located\<close> says which nodes sit at which lists of
  components; when no two children of a place share a name (\<open>tidy\<close>), resolving is a partial map
  from component lists to nodes (\<open>fsview\<close>), and each edit is an edit of that map.
\<close>

inductive located :: "('d, 'n, 't, 'm) loro_ct \<Rightarrow> 'd \<Rightarrow> 'n \<Rightarrow> string list \<Rightarrow> bool" for L d where
  top: "n \<in> set (kids L d None) \<Longrightarrow> ft_name L d n = Some c \<Longrightarrow> located L d n [c]"
| sub: "located L d p cs \<Longrightarrow> ft_kind L d p = Some Dir \<Longrightarrow> n \<in> set (kids L d (Some p)) \<Longrightarrow>
          ft_name L d n = Some c \<Longrightarrow> located L d n (cs @ [c])"

text \<open>A place a path can continue from: the root, or a directory at \<open>cs\<close>.\<close>

definition site :: "('d, 'n, 't, 'm) loro_ct \<Rightarrow> 'd \<Rightarrow> 'n option \<Rightarrow> string list \<Rightarrow> bool" where
  "site L d q cs \<longleftrightarrow>
     (case q of None \<Rightarrow> cs = [] | Some p \<Rightarrow> located L d p cs \<and> ft_kind L d p = Some Dir)"

definition tidy :: "('d, 'n, 't, 'm) loro_ct \<Rightarrow> 'd \<Rightarrow> bool" where
  "tidy L d \<longleftrightarrow>
     (\<forall>q a b c. place L d q \<longrightarrow> a \<in> set (kids L d q) \<longrightarrow> b \<in> set (kids L d q) \<longrightarrow>
        ft_name L d a = Some c \<longrightarrow> ft_name L d b = Some c \<longrightarrow> a = b)"

definition fsview :: "('d, 'n, 't, 'm) loro_ct \<Rightarrow> 'd \<Rightarrow> string list \<Rightarrow> 'n option" where
  "fsview L d cs = (case resolve_from L d None cs of Inr (Some n) \<Rightarrow> Some n | _ \<Rightarrow> None)"

lemma located_ne: "located L d n cs \<Longrightarrow> cs \<noteq> []"
  by (induction rule: located.induct) auto

lemma located_Nil [simp]: "\<not> located L d n []"
  by (auto dest: located_ne)

lemma located_snoc:
  "located L d n (cs @ [c]) \<longleftrightarrow>
     (\<exists>q. site L d q cs \<and> n \<in> set (kids L d q) \<and> ft_name L d n = Some c)"
proof
  assume "located L d n (cs @ [c])"
  then show "\<exists>q. site L d q cs \<and> n \<in> set (kids L d q) \<and> ft_name L d n = Some c"
  proof cases
    case top
    then show ?thesis by (intro exI [of _ None]) (simp add: site_def)
  next
    case (sub p cs' c')
    then show ?thesis by (intro exI [of _ "Some p"]) (simp add: site_def)
  qed
next
  assume "\<exists>q. site L d q cs \<and> n \<in> set (kids L d q) \<and> ft_name L d n = Some c"
  then obtain q where q: "site L d q cs" "n \<in> set (kids L d q)" "ft_name L d n = Some c" by blast
  show "located L d n (cs @ [c])"
  proof (cases q)
    case None
    with q located.top [of n L d c] show ?thesis by (simp add: site_def)
  next
    case (Some p)
    with q located.sub [of L d p cs n c] show ?thesis by (simp add: site_def)
  qed
qed

lemma site_None [simp]: "site L d None cs \<longleftrightarrow> cs = []"
  by (simp add: site_def)

lemma site_Some: "site L d (Some p) cs \<longleftrightarrow> located L d p cs \<and> ft_kind L d p = Some Dir"
  by (simp add: site_def)

lemma resolve_from_append:
  "resolve_from L d q (cs @ ds) =
     (case resolve_from L d q cs of Inl e \<Rightarrow> Inl e | Inr r \<Rightarrow> resolve_from L d r ds)"
  by (induction L d q cs rule: resolve_from.induct) (auto split: option.splits)

lemma descend_append:
  "descend L d q (cs @ ds) =
     (case descend L d q cs of Inl e \<Rightarrow> Inl e | Inr r \<Rightarrow> descend L d r ds)"
  by (induction L d q cs rule: descend.induct) (auto split: option.splits)

lemma child_named_kids: "child_named L d q c = find (\<lambda>n. ft_name L d n = Some c) (kids L d q)"
  by (cases q) (simp_all add: child_named_def kids_def)

context loro_tree
begin

lemma located_rooted: "located L d n cs \<Longrightarrow> ok d \<Longrightarrow> rooted L d n"
proof (induction rule: located.induct)
  case (top n c)
  then show ?case using kid_rooted [of d None n] by simp
next
  case (sub p cs n c)
  then show ?case using kid_rooted [of d "Some p" n] by simp
qed

lemma site_place: "site L d q cs \<Longrightarrow> ok d \<Longrightarrow> place L d q"
  by (cases q) (auto simp: site_def dest: located_rooted)

lemma located_unique:
  assumes "ok d" "located L d n cs" "located L d n cs'"
  shows "cs = cs'"
  using assms(2,3)
proof (induction arbitrary: cs' rule: located.induct)
  case (top n c)
  from top(3) obtain ds c' where cs': "cs' = ds @ [c']"
    by (metis located_ne rev_exhaust)
  with top(3) obtain q where "site L d q ds" "n \<in> set (kids L d q)" "ft_name L d n = Some c'"
    by (auto simp: located_snoc)
  with one_place [OF assms(1) _ site_place [OF _ assms(1)] top(1)] top(2) cs' show ?case by fastforce
next
  case (sub p cs n c)
  from sub.prems obtain ds c' where cs': "cs' = ds @ [c']"
    by (metis located_ne rev_exhaust)
  with sub.prems obtain q where q: "site L d q ds" "n \<in> set (kids L d q)" "ft_name L d n = Some c'"
    by (auto simp: located_snoc)
  have "place L d (Some p)" using located_rooted [OF sub(1) assms(1)] by simp
  then have "q = Some p"
    using one_place [OF assms(1) _ site_place [OF q(1) assms(1)] sub(3) q(2)] by simp
  with q sub.IH [of ds] sub(4) cs' show ?case by (simp add: site_def)
qed

lemma child_named_Some: "child_named L d q c = Some n \<Longrightarrow> n \<in> set (kids L d q) \<and> ft_name L d n = Some c"
  unfolding child_named_kids by (drule find_Some_in) simp

lemma child_named_None: "child_named L d q c = None \<longleftrightarrow> (\<forall>n \<in> set (kids L d q). ft_name L d n \<noteq> Some c)"
  unfolding child_named_kids by (rule find_None)

lemma child_named_iff:
  assumes "tidy L d" "place L d q"
  shows "child_named L d q c = Some n \<longleftrightarrow> n \<in> set (kids L d q) \<and> ft_name L d n = Some c"
proof
  assume n: "n \<in> set (kids L d q) \<and> ft_name L d n = Some c"
  with assms show "child_named L d q c = Some n"
    unfolding child_named_kids tidy_def by (intro find_unique) blast+
qed (rule child_named_Some)

text \<open>Resolving finds a node at its components; a tidy tree has at most one there.\<close>

lemma resolve_from_site:
  "resolve_from L d None cs = Inr q \<Longrightarrow> (q = None \<and> cs = []) \<or> (\<exists>n. q = Some n \<and> located L d n cs)"
proof (induction cs arbitrary: q rule: rev_induct)
  case (snoc c cs)
  then obtain r where r: "resolve_from L d None cs = Inr r" "resolve_from L d r [c] = Inr q"
    by (auto simp: resolve_from_append split: sum.splits)
  then have "child_named L d r c = q" "q \<noteq> None"
    by (cases "child_named L d r c"; auto split: if_splits)+
  then obtain n where n: "q = Some n" "child_named L d r c = Some n" by auto
  have "site L d r cs" using snoc.IH [OF r(1)] r(2) by (auto simp: site_def split: if_splits)
  with n child_named_Some show ?case by (auto simp: located_snoc)
qed simp

lemma located_resolve_from:
  assumes "ok d" "tidy L d"
  shows "located L d n cs \<Longrightarrow> resolve_from L d None cs = Inr (Some n)"
proof (induction rule: located.induct)
  case (top n c)
  then show ?case using child_named_iff [OF assms(2), of None c n] by simp
next
  case (sub p cs n c)
  have "place L d (Some p)" using located_rooted [OF sub(1) assms(1)] by simp
  with sub show ?case using child_named_iff [OF assms(2), of "Some p" c n]
    by (simp add: resolve_from_append)
qed

lemma fsview_located:
  assumes "ok d" "tidy L d"
  shows "fsview L d cs = Some n \<longleftrightarrow> located L d n cs"
  using resolve_from_site [of d cs] located_resolve_from [OF assms, of n cs]
  by (auto simp: fsview_def split: sum.splits option.splits)

lemma located_same:
  assumes "ok d" "tidy L d" "located L d n cs" "located L d n' cs"
  shows "n = n'"
  using assms fsview_located [OF assms(1,2)] by (metis option.inject)

lemma resolve_Ok:
  "resolve L d path = Ok n \<Longrightarrow> \<exists>cs. components path = Ok cs \<and> located L d n cs"
  by (auto simp: resolve_def split: sum.splits dest!: resolve_from_site)

lemma resolve_iff:
  assumes "ok d" "tidy L d"
  shows "resolve L d path = Ok n \<longleftrightarrow> (\<exists>cs. components path = Ok cs \<and> fsview L d cs = Some n)"
  unfolding fsview_located [OF assms]
  using resolve_Ok located_resolve_from [OF assms] by (fastforce simp: resolve_def)

lemma descend_site: "descend L d None cs = Inr q \<Longrightarrow> site L d q cs"
proof (induction cs arbitrary: q rule: rev_induct)
  case (snoc c cs)
  then obtain r where r: "descend L d None cs = Inr r" "descend L d r [c] = Inr q"
    by (auto simp: descend_append split: sum.splits)
  then have "child_named L d r c = q" "q \<noteq> None" "ft_kind L d (the q) = Some Dir"
    by (cases "child_named L d r c"; auto split: if_splits)+
  then obtain n where n: "q = Some n" "child_named L d r c = Some n" "ft_kind L d n = Some Dir" by auto
  with snoc.IH [OF r(1)] child_named_Some show ?case by (auto simp: site_Some located_snoc)
qed simp

lemma split_parent_Ok:
  assumes "split_parent L d path = Ok (q, name)"
  shows "\<exists>cs. components path = Ok (cs @ [name]) \<and> site L d q cs"
proof -
  from assms obtain comps where c: "components path = Ok comps" "comps \<noteq> []"
    "descend L d None (butlast comps) = Inr q" "name = last comps"
    by (auto simp: split_parent_def split: sum.splits if_splits)
  then have "comps = butlast comps @ [name]" by simp
  with c descend_site show ?thesis by metis
qed

section \<open>Creating\<close>

lemma replaced_kids:
  assumes "ok d" "ok d'" "replaced L d d' n par" "place L d q" "place L d' q" "k \<noteq> n"
  shows "k \<in> set (kids L d' q) \<longleftrightarrow> k \<in> set (kids L d q)"
  using kids_parent [OF assms(1,4), of k] kids_parent [OF assms(2,5), of k] assms(3,6)
  by (simp add: replaced_def)

lemma replaced_kid:
  assumes "ok d'" "replaced L d d' n par" "place L d' q"
  shows "n \<in> set (kids L d' q) \<longleftrightarrow> par = parent_of q"
  using kids_parent [OF assms(1,3), of n] assms(2) by (auto simp: replaced_def)

lemma parent_of_inj [simp]: "parent_of q = parent_of q' \<longleftrightarrow> q = q'"
  by (auto simp: parent_of_def split: option.splits)

lemma added_located:
  assumes d: "ok d" "ok d'" and a: "added L d d' n q name kind" and s: "site L d q qs"
  shows "located L d' k cs \<longleftrightarrow> located L d k cs \<or> (k = n \<and> cs = qs @ [name])"
proof
  have rt: "rooted L d' x \<longleftrightarrow> x = n \<or> rooted L d x" for x using a by (simp add: added_def)
  have rp: "replaced L d d' n (parent_of q)" and nm: "ft_name L d' n = Some name"
    and nok: "kids L d' (Some n) = []" and fresh: "\<not> rooted L d n" using a by (simp_all add: added_def)
  have same: "same_node L d d' x" if "rooted L d x" for x using a that by (simp add: added_def)
  have pl: "place L d p \<Longrightarrow> place L d' p" for p using rt by (cases p) auto
  { show "located L d' k cs \<Longrightarrow> located L d k cs \<or> (k = n \<and> cs = qs @ [name])"
    proof (induction rule: located.induct)
      case (top k c)
      show ?case
      proof (cases "k = n")
        case True
        with top replaced_kid [OF d(2) rp, of None] nm have "q = None" "c = name" by auto
        with True s show ?thesis by simp
      next
        case False
        then have "k \<in> set (kids L d None)" using replaced_kids [OF d rp, of None k] top by simp
        moreover from this have "rooted L d k" using kid_rooted [OF d(1), of None] by simp
        ultimately show ?thesis using top(2) same_nodeD(1) [OF same] by (auto intro: located.top)
      qed
    next
      case (sub p cs k c)
      have "p \<noteq> n" using sub(3) nok by auto
      with sub.IH have p: "located L d p cs" by simp
      then have rp': "rooted L d p" using located_rooted d(1) by blast
      then have dir: "ft_kind L d p = Some Dir" using sub(2) same_nodeD(2) [OF same] by simp
      show ?case
      proof (cases "k = n")
        case True
        with sub replaced_kid [OF d(2) rp, of "Some p"] rp' rt nm have "q = Some p" "c = name" by auto
        with True s located_unique [OF d(1) p] show ?thesis by (auto simp: site_Some)
      next
        case False
        then have "k \<in> set (kids L d (Some p))"
          using replaced_kids [OF d rp, of "Some p" k] sub(3) rp' rt by simp
        moreover from this have "rooted L d k" using kid_rooted [OF d(1), of "Some p"] rp' by simp
        ultimately show ?thesis using sub(4) p dir same_nodeD(1) [OF same] by (auto intro: located.sub)
      qed
    qed }
  have old: "located L d k cs \<Longrightarrow> located L d' k cs" for k cs
  proof (induction rule: located.induct)
    case (top k c)
    then have r: "rooted L d k" using kid_rooted [OF d(1), of None] by simp
    then have "k \<in> set (kids L d' None)" using replaced_kids [OF d rp, of None k] top fresh by auto
    then show ?case using top(2) same_nodeD(1) [OF same [OF r]] by (simp add: located.top)
  next
    case (sub p cs k c)
    have p: "rooted L d p" using located_rooted [OF sub(1) d(1)] .
    then have r: "rooted L d k" using kid_rooted [OF d(1), of "Some p"] sub(3) by simp
    then have "k \<in> set (kids L d' (Some p))"
      using replaced_kids [OF d rp, of "Some p" k] sub(3) fresh p rt by auto
    then show ?case
      using sub same_nodeD(1) [OF same [OF r]] same_nodeD(2) [OF same [OF p]] by (simp add: located.sub)
  qed
  have "located L d' n (qs @ [name])"
  proof -
    have "place L d q" using site_place [OF s d(1)] .
    then have "n \<in> set (kids L d' q)" using replaced_kid [OF d(2) rp pl] by simp
    moreover have "site L d' q qs"
    proof (cases q)
      case (Some p)
      with s have p: "located L d p qs" "ft_kind L d p = Some Dir" by (simp_all add: site_Some)
      with old same_nodeD(2) [OF same [OF located_rooted [OF p(1) d(1)]]] Some show ?thesis
        by (simp add: site_Some)
    qed (use s in simp)
    ultimately show ?thesis using nm by (auto simp: located_snoc)
  qed
  then show "located L d k cs \<or> (k = n \<and> cs = qs @ [name]) \<Longrightarrow> located L d' k cs"
    using old by blast
qed

lemma added_tidy:
  assumes d: "ok d" "ok d'" and a: "added L d d' n q name kind"
    and "tidy L d" "child_named L d q name = None"
  shows "tidy L d'"
  unfolding tidy_def
proof (intro allI impI)
  fix p x y c
  assume p: "place L d' p" and x: "x \<in> set (kids L d' p)" "ft_name L d' x = Some c"
    and y: "y \<in> set (kids L d' p)" "ft_name L d' y = Some c"
  have rt: "rooted L d' z \<longleftrightarrow> z = n \<or> rooted L d z" for z using a by (simp add: added_def)
  have rp: "replaced L d d' n (parent_of q)" using a by (simp add: added_def)
  have pd: "place L d p"
  proof (cases p)
    case (Some z)
    with p rt x(1) a show ?thesis by (cases "z = n") (auto simp: added_def)
  qed simp
  have old: "z \<in> set (kids L d p) \<and> ft_name L d z = Some c"
    if "z \<in> set (kids L d' p)" "ft_name L d' z = Some c" "z \<noteq> n" for z
  proof -
    have "z \<in> set (kids L d p)" using replaced_kids [OF d rp pd p that(3)] that(1) by simp
    moreover from this have "same_node L d d' z" using a kid_rooted [OF d(1) pd] by (simp add: added_def)
    ultimately show ?thesis using that(2) same_nodeD(1) by metis
  qed
  have clash: False if "z \<in> set (kids L d p)" "ft_name L d z = Some c" "n \<in> set (kids L d' p)"
    "ft_name L d' n = Some c" for z
  proof -
    have "p = q" using replaced_kid [OF d(2) rp p] that(3) by simp
    moreover have "c = name" using a that(4) by (simp add: added_def)
    ultimately show False using assms(5) that(1,2) by (auto simp: child_named_None)
  qed
  show "x = y"
  proof (cases "x = n \<or> y = n")
    case True
    with old [OF x] old [OF y] clash x y show ?thesis by blast
  next
    case False
    with old [OF x] old [OF y] pd assms(4) show ?thesis unfolding tidy_def by blast
  qed
qed

end

end
