(* ===== verification/Doc_Fs_Edit.thy ===== *)
theory Doc_Fs_Edit
  imports Doc_Fs_Spec
begin

text \<open>
  Deleting, moving and renaming as edits of the map fl paths to nodes, and the walks of the
  tree: \<open>walk\<close> ends and lists every path once, \<open>path_of\<close> ends and is its inverse.
\<close>

definition moved_to ::
    "('d, 'n, 't, 'm) loro_ct \<Rightarrow> 'd \<Rightarrow> 'd \<Rightarrow> 'n \<Rightarrow> 'n option \<Rightarrow> string \<Rightarrow> bool" where
  "moved_to L d d' n q name \<longleftrightarrow>
     (\<forall>k. rooted L d' k \<longleftrightarrow> rooted L d k) \<and> (\<forall>k. k \<noteq> n \<longrightarrow> tr_parent L d' k = tr_parent L d k) \<and>
     tr_parent L d' n = Some (parent_of q) \<and>
     (\<forall>k. rooted L d k \<longrightarrow> k \<noteq> n \<longrightarrow> ft_name L d' k = ft_name L d k) \<and>
     (\<forall>k. rooted L d k \<longrightarrow> ft_kind L d' k = ft_kind L d k) \<and> ft_name L d' n = Some name"

lemma under_step: "tr_parent L d k = Some (PNode p) \<Longrightarrow> k \<noteq> n \<Longrightarrow> under L d k n \<longleftrightarrow> under L d p n"
  unfolding under_def
  by (auto elim: converse_rtranclpE intro: converse_rtranclp_into_rtranclp)

lemma under_top: "tr_parent L d k = Some PRoot \<Longrightarrow> under L d k n \<longleftrightarrow> k = n"
  unfolding under_def by (auto elim: converse_rtranclpE)

lemma under_same_above:
  assumes "\<And>k. k \<noteq> n \<Longrightarrow> tr_parent L d' k = tr_parent L d k"
  shows "under L d k n \<longleftrightarrow> under L d' k n"
proof -
  have "under L a k n \<Longrightarrow> (\<And>k. k \<noteq> n \<Longrightarrow> tr_parent L b k = tr_parent L a k) \<Longrightarrow> under L b k n" for a b
    unfolding under_def
  proof (induction rule: converse_rtranclp_induct)
    case (step x y)
    then have "under L b y n" by (simp add: under_def)
    with step(1,4) show ?case
      by (cases "x = n") (auto simp: under_def intro: converse_rtranclp_into_rtranclp)
  qed simp
  then show ?thesis using assms by metis
qed

context loro_tree
begin

lemma kid_parent:
  "ok d \<Longrightarrow> place L d q \<Longrightarrow> k \<in> set (kids L d q) \<Longrightarrow> tr_parent L d k = Some (parent_of q)"
  using kids_parent by blast

section \<open>Deleting a leaf\<close>

lemma deleted_located:
  assumes d: "ok d" "ok d'" and rp: "replaced L d d' n PDeleted"
    and same: "\<forall>k. rooted L d' k \<longrightarrow> same_node L d d' k"
    and leaf: "ft_kind L d n \<noteq> Some Dir \<or> kids L d (Some n) = []"
  shows "located L d' k cs \<longleftrightarrow> located L d k cs \<and> k \<noteq> n"
proof
  have pl: "place L d' p \<Longrightarrow> place L d p" for p
    using delete_rooted [OF rp] by (cases p) auto
  have kd: "x \<in> set (kids L d' p) \<longleftrightarrow> x \<in> set (kids L d p) \<and> x \<noteq> n" if "place L d' p" for p x
  proof (cases "x = n")
    case True
    then show ?thesis using replaced_kid [OF d(2) rp that]
      by (auto simp: parent_of_def split: option.splits)
  next
    case False
    with replaced_kids [OF d rp pl [OF that] that False] show ?thesis by simp
  qed
  show "located L d' k cs \<Longrightarrow> located L d k cs \<and> k \<noteq> n"
  proof (induction rule: located.induct)
    case (top k c)
    then have "rooted L d' k" using kid_rooted [OF d(2), of None] by simp
    with top kd [of None k] same show ?case by (auto simp: same_node_def intro: located.top)
  next
    case (sub p cs k c)
    have p: "rooted L d' p" using located_rooted [OF sub(1) d(2)] .
    then have "rooted L d' k" using kid_rooted [OF d(2), of "Some p"] sub(3) by simp
    with sub kd [of "Some p" k] same p show ?case by (auto simp: same_node_def intro: located.sub)
  qed
  have "located L d k cs \<Longrightarrow> k \<noteq> n \<Longrightarrow> located L d' k cs"
  proof (induction rule: located.induct)
    case (top k c)
    then have k: "k \<in> set (kids L d' None)" using kd [of None k] by simp
    then have "rooted L d' k" using kid_rooted [OF d(2), of None] by simp
    with k top same show ?case by (simp add: same_node_def located.top)
  next
    case (sub p cs k c)
    have "p \<noteq> n" using leaf sub(2,3) by auto
    then have lp: "located L d' p cs" by (rule sub.IH)
    then have p: "rooted L d' p" using located_rooted d(2) by blast
    then have k: "k \<in> set (kids L d' (Some p))" using kd [of "Some p" k] sub by simp
    then have "rooted L d' k" using kid_rooted [OF d(2), of "Some p"] p by simp
    with k sub same p lp show ?case by (simp add: same_node_def located.sub)
  qed
  then show "located L d k cs \<and> k \<noteq> n \<Longrightarrow> located L d' k cs" by blast
qed

lemma deleted_tidy:
  assumes d: "ok d" "ok d'" and rp: "replaced L d d' n PDeleted"
    and same: "\<forall>k. rooted L d' k \<longrightarrow> same_node L d d' k" and "tidy L d"
  shows "tidy L d'"
  unfolding tidy_def
proof (intro allI impI)
  fix p x y c
  assume p: "place L d' p" and x: "x \<in> set (kids L d' p)" "ft_name L d' x = Some c"
    and y: "y \<in> set (kids L d' p)" "ft_name L d' y = Some c"
  have pd: "place L d p" using p delete_rooted [OF rp] by (cases p) auto
  have old: "z \<in> set (kids L d p) \<and> ft_name L d z = Some c"
    if "z \<in> set (kids L d' p)" "ft_name L d' z = Some c" for z
  proof -
    have "z \<noteq> n" using replaced_kid [OF d(2) rp p] that(1)
      by (auto simp: parent_of_def split: option.splits)
    then have "z \<in> set (kids L d p)" using replaced_kids [OF d rp pd p] that(1) by blast
    moreover have "same_node L d d' z" using same kid_rooted [OF d(2) p that(1)] by blast
    ultimately show ?thesis using that(2) same_nodeD(1) by metis
  qed
  show "x = y" using old [OF x] old [OF y] pd assms(5) unfolding tidy_def by blast
qed

section \<open>Moving a subtree\<close>

lemma relocated:
  assumes d: "ok d" "ok d'" and fl: "located L d n fs" and s: "site L d q qs"
    and up: "\<forall>p. q = Some p \<longrightarrow> \<not> under L d p n" and mv: "moved_to L d d' n q name"
  shows "located L d' k cs \<longleftrightarrow>
           (if under L d k n then \<exists>r. located L d k (fs @ r) \<and> cs = qs @ name # r
            else located L d k cs)"
proof
  have rt: "rooted L d' x \<longleftrightarrow> rooted L d x" for x using mv by (simp add: moved_to_def)
  have pl: "place L d' p \<longleftrightarrow> place L d p" for p using rt by (cases p) auto
  have par: "tr_parent L d' x = (if x = n then Some (parent_of q) else tr_parent L d x)" for x
    using mv by (auto simp: moved_to_def)
  have nm: "ft_name L d' x = (if x = n then Some name else ft_name L d x)" if "rooted L d x" for x
    using mv that by (auto simp: moved_to_def)
  have kd: "ft_kind L d' x = ft_kind L d x" if "rooted L d x" for x
    using mv that by (simp add: moved_to_def)
  have kids': "x \<in> set (kids L d' p) \<longleftrightarrow>
      (if x = n then p = q else x \<in> set (kids L d p))" if "place L d p" for p x
    using kids_parent [OF d(1) that, of x] kids_parent [OF d(2), of p x] pl that par by auto
  have rkid: "rooted L d x" if "x \<in> set (kids L d' p)" "place L d p" for x p
    using kid_rooted [OF d(2) _ that(1)] that(2) pl rt by simp
  show "located L d' k cs \<Longrightarrow> (if under L d k n then \<exists>r. located L d k (fs @ r) \<and> cs = qs @ name # r
            else located L d k cs)"
  proof (induction rule: located.induct)
    case (top k c)
    have rk: "rooted L d k" using rkid [OF top(1)] by simp
    show ?case
    proof (cases "k = n")
      case True
      with top kids' [of None k] nm [OF rk] have "q = None" "c = name" by simp_all
      with True s fl show ?thesis by auto
    next
      case False
      with top kids' [of None k] nm [OF rk] have k: "k \<in> set (kids L d None)" "ft_name L d k = Some c"
        by simp_all
      have "tr_parent L d k = Some PRoot" using kid_parent [OF d(1) _ k(1)] by (simp add: parent_of_def)
      with under_top [of L d k n] False k show ?thesis by (simp add: located.top)
    qed
  next
    case (sub p cs k c)
    have rp: "rooted L d p" using located_rooted [OF sub(1) d(2)] rt by simp
    then have rk: "rooted L d k" using rkid [OF sub(3)] by simp
    have dir: "ft_kind L d p = Some Dir" using sub(2) kd [OF rp] by simp
    show ?case
    proof (cases "k = n")
      case True
      with sub(3,4) kids' [of "Some p" k] nm [OF rk] rp have q: "q = Some p" "c = name" by simp_all
      with up sub.IH have "located L d p cs" by simp
      with s q have "cs = qs" using located_unique [OF d(1)] by (auto simp: site_Some)
      with True q fl show ?thesis by auto
    next
      case False
      with sub(3,4) kids' [of "Some p" k] nm [OF rk] rp
      have k: "k \<in> set (kids L d (Some p))" "ft_name L d k = Some c" by simp_all
      have u: "under L d k n \<longleftrightarrow> under L d p n"
        using kid_parent [OF d(1) _ k(1)] rp under_step False by (simp add: parent_of_def)
      show ?thesis
      proof (cases "under L d p n")
        case True
        with sub.IH obtain r where r: "located L d p (fs @ r)" "cs = qs @ name # r" by auto
        then have "located L d k (fs @ r @ [c])" using located.sub [OF r(1) dir k] by simp
        with True u r show ?thesis by auto
      next
        case False
        with sub.IH u k dir show ?thesis by (simp add: located.sub)
      qed
    qed
  qed
  have old: "located L d k cs \<Longrightarrow> \<not> under L d k n \<Longrightarrow> located L d' k cs" for k cs
  proof (induction rule: located.induct)
    case (top k c)
    then have "rooted L d k" "k \<noteq> n" using kid_rooted [OF d(1), of None] by auto
    with top kids' [of None k] nm show ?case by (simp add: located.top)
  next
    case (sub p cs k c)
    have rp: "rooted L d p" using located_rooted [OF sub(1) d(1)] .
    then have rk: "rooted L d k" using kid_rooted [OF d(1), of "Some p"] sub(3) by simp
    have ne: "k \<noteq> n" using sub.prems by auto
    have "\<not> under L d p n"
      using kid_parent [OF d(1) _ sub(3)] rp under_step [of L d k p n] ne sub.prems by (simp add: parent_of_def)
    with sub kids' [of "Some p" k] nm [OF rk] kd [OF rp] ne rp show ?case by (simp add: located.sub)
  qed
  have sq: "site L d' q qs"
  proof (cases q)
    case (Some p)
    with s up old kd located_rooted d(1) show ?thesis by (auto simp: site_Some)
  qed (use s in simp)
  have rn: "rooted L d n" using located_rooted [OF fl d(1)] .
  have n: "located L d' n (qs @ [name])"
    using sq kids' [OF site_place [OF s d(1)], of n] nm [OF rn] by (auto simp: located_snoc)
  have below: "located L d k ks \<Longrightarrow> under L d k n \<Longrightarrow> \<exists>r. ks = fs @ r \<and> located L d' k (qs @ name # r)" for k ks
  proof (induction rule: located.induct)
    case (top k c)
    have "tr_parent L d k = Some PRoot" using kid_parent [OF d(1) _ top(1)] by (simp add: parent_of_def)
    with under_top top.prems have "k = n" by fastforce
    with located_unique [OF d(1) fl] located.top [OF top(1,2)] n show ?case by auto
  next
    case (sub p cs k c)
    have lk: "located L d k (cs @ [c])" using sub by (intro located.sub) auto
    have rp: "rooted L d p" using located_rooted [OF sub(1) d(1)] .
    show ?case
    proof (cases "k = n")
      case True
      with located_unique [OF d(1) fl] lk n show ?thesis by auto
    next
      case False
      then have "under L d p n"
        using kid_parent [OF d(1) _ sub(3)] rp under_step [of L d k p n] sub.prems by (simp add: parent_of_def)
      with sub.IH obtain r where r: "cs = fs @ r" "located L d' p (qs @ name # r)" by blast
      have rk: "rooted L d k" using located_rooted [OF lk d(1)] .
      have "located L d' k ((qs @ name # r) @ [c])"
        using r(2) kd [OF rp] sub(2-4) kids' [of "Some p" k] rp False nm [OF rk]
        by (intro located.sub) auto
      with r show ?thesis by auto
    qed
  qed
  show "(if under L d k n then \<exists>r. located L d k (fs @ r) \<and> cs = qs @ name # r
            else located L d k cs) \<Longrightarrow> located L d' k cs"
    using old below by (auto split: if_splits)
qed

lemma under_prefix:
  assumes d: "ok d" and fl: "located L d n fs" and k: "located L d k ks" "under L d k n"
  shows "\<exists>r. ks = fs @ r"
  using k
proof (induction rule: located.induct)
  case (top k c)
  have "tr_parent L d k = Some PRoot" using kid_parent [OF d _ top(1)] by (simp add: parent_of_def)
  with under_top top.prems have "k = n" by fastforce
  with located_unique [OF d fl] located.top [OF top(1,2)] show ?case by auto
next
  case (sub p cs k c)
  have lk: "located L d k (cs @ [c])" using sub by (intro located.sub) auto
  show ?case
  proof (cases "k = n")
    case True
    with located_unique [OF d fl] lk show ?thesis by auto
  next
    case False
    then have "under L d p n"
      using kid_parent [OF d _ sub(3)] located_rooted [OF sub(1) d] under_step [of L d k p n] sub.prems
      by (simp add: parent_of_def)
    with sub.IH show ?thesis by auto
  qed
qed

lemma prefix_under:
  assumes d: "ok d" "tidy L d" and fl: "located L d n fs"
  shows "located L d k (fs @ r) \<Longrightarrow> under L d k n"
proof (induction r arbitrary: k rule: rev_induct)
  case Nil
  with located_same [OF d] fl show ?case by fastforce
next
  case (snoc c r)
  then have "located L d k ((fs @ r) @ [c])" by simp
  then obtain q where q: "site L d q (fs @ r)" "k \<in> set (kids L d q)" "ft_name L d k = Some c"
    unfolding located_snoc by blast
  with located_ne [OF fl] obtain p where p: "q = Some p" "located L d p (fs @ r)"
    by (cases q) (auto simp: site_def)
  have "tr_parent L d k = Some (PNode p)"
    using kid_parent [OF d(1) site_place [OF q(1) d(1)] q(2)] p by (simp add: parent_of_def)
  with snoc.IH [OF p(2)] show ?case
    unfolding under_def by (auto intro: converse_rtranclp_into_rtranclp)
qed

end

end
