(* ===== verification/Doc_Fs_Refine.thy ===== *)
theory Doc_Fs_Refine
  imports Doc_Fs_Edit
begin

text \<open>
  The edits of \<open>fs.rs\<close> as edits of the abstract map: each operation of the code, run on a tidy
  tree, refines the operation on partial maps of the same name, keeps the tree tidy, leaves every
  other node's name, kind and content alone, and never panics.
\<close>

section \<open>The abstract file map\<close>

type_synonym 'n fsmap = "string list \<Rightarrow> 'n option"

definition abs_put :: "'n fsmap \<Rightarrow> string list \<Rightarrow> 'n \<Rightarrow> 'n fsmap" where
  "abs_put v cs n = v(cs \<mapsto> n)"

definition abs_remove :: "'n fsmap \<Rightarrow> string list \<Rightarrow> 'n fsmap" where
  "abs_remove v cs = v(cs := None)"

text \<open>Everything at or below \<open>fs\<close> is found at or below \<open>ts\<close> instead.\<close>

definition abs_rename :: "'n fsmap \<Rightarrow> string list \<Rightarrow> string list \<Rightarrow> 'n fsmap" where
  "abs_rename v fs ts = (\<lambda>cs. case strip_prefix ts cs of
       Some r \<Rightarrow> v (fs @ r)
     | None \<Rightarrow> if prefix fs cs then None else v cs)"

context loro_tree
begin

lemma fsview_eqI:
  assumes "ok d" "tidy L d" "\<And>cs n. located L d n cs \<longleftrightarrow> v cs = Some n"
  shows "fsview L d = v"
proof
  fix cs
  show "fsview L d cs = v cs"
    using fsview_located [OF assms(1,2), of cs] assms(3) [of _ cs]
    by (cases "v cs"; cases "fsview L d cs") auto
qed

section \<open>Creating and removing\<close>

lemma create_at_refines:
  assumes d: "ok d" "tidy L d"
    and mk: "\<And>q name. place L d q \<Longrightarrow> \<exists>d' n. mk d q name = Some (d', n) \<and> ok d' \<and> added L d d' n q name kind \<and> Q d' n"
  obtains (err) e where "create_at L mk d path = Some (Err e)"
      "e = AlreadyExists \<longrightarrow> (\<exists>cs n. components path = Ok cs \<and> fsview L d cs = Some n)"
  | (fine) d' n cs q name where "create_at L mk d path = Some (Ok (d', n))" "ok d'" "tidy L d'"
      "components path = Ok cs" "fsview L d cs = None" "fsview L d' = abs_put (fsview L d) cs n"
      "added L d d' n q name kind" "Q d' n"
proof (cases "split_parent L d path")
  case (Inl e)
  have "e \<noteq> AlreadyExists"
  proof -
    have "descend L d q cs \<noteq> Inl AlreadyExists" for q cs
      by (induction L d q cs rule: descend.induct) (auto split: option.splits)
    moreover have "components path \<noteq> Inl AlreadyExists" by (simp add: components_def Let_def)
    ultimately show ?thesis using Inl by (auto simp: split_parent_def split: sum.splits if_splits)
  qed
  then show thesis using err Inl by (simp add: create_at_def)
next
  case (Inr qn)
  obtain q name where qn: "qn = (q, name)" by (cases qn)
  obtain qs where c: "components path = Ok (qs @ [name])" and s: "site L d q qs"
    using split_parent_Ok Inr qn by blast
  have pq: "place L d q" using site_place [OF s d(1)] .
  show thesis
  proof (cases "child_named L d q name")
    case (Some k)
    then have "located L d k (qs @ [name])" using child_named_Some s by (auto simp: located_snoc)
    then have "fsview L d (qs @ [name]) = Some k" using fsview_located [OF d] by simp
    with Some c err Inr qn show thesis by (simp add: create_at_def)
  next
    case None
    obtain d' n where m: "mk d q name = Some (d', n)" "ok d'" "added L d d' n q name kind" "Q d' n"
      using mk [OF pq] by blast
    have t: "tidy L d'" using added_tidy [OF d(1) m(2,3) d(2) None] .
    have no: "\<not> located L d k (qs @ [name])" for k
    proof
      assume "located L d k (qs @ [name])"
      then obtain q' where q': "site L d q' qs" "k \<in> set (kids L d q')" "ft_name L d k = Some name"
        by (auto simp: located_snoc)
      have "q' = q" using q'(1) s located_same [OF d] by (cases q; cases q') (auto simp: site_def)
      with q' None show False by (auto simp: child_named_None)
    qed
    then have nv: "fsview L d (qs @ [name]) = None"
      using fsview_located [OF d, of "qs @ [name]"] by (cases "fsview L d (qs @ [name])") auto
    have "fsview L d' = abs_put (fsview L d) (qs @ [name]) n"
    proof (rule fsview_eqI [OF m(2) t])
      fix cs k
      show "located L d' k cs \<longleftrightarrow> abs_put (fsview L d) (qs @ [name]) n cs = Some k"
        using added_located [OF d(1) m(2,3) s, of k cs] no fsview_located [OF d, of cs k]
        by (auto simp: abs_put_def)
    qed
    moreover have "create_at L mk d path = Some (Ok (d', n))"
      using Inr qn None m(1) by (simp add: create_at_def)
    ultimately show thesis using fine m t c nv by blast
  qed
qed

lemma delete_refines:
  assumes d: "ok d" "tidy L d" and n: "located L d n cs"
    and leaf: "ft_kind L d n \<noteq> Some Dir \<or> ft_children L d n = []"
  shows "\<exists>d'. ft_delete L d n = Some d' \<and> ok d' \<and> tidy L d' \<and> fsview L d' = abs_remove (fsview L d) cs \<and>
              (\<forall>k. rooted L d' k \<longrightarrow> same_node L d d' k)"
proof -
  obtain d' where d': "ft_delete L d n = Some d'" "ok d'" "replaced L d d' n PDeleted"
    "\<forall>k. rooted L d' k \<longrightarrow> same_node L d d' k"
    using ft_delete_ok [OF d(1) located_rooted [OF n d(1)]] by blast
  have leaf': "ft_kind L d n \<noteq> Some Dir \<or> kids L d (Some n) = []" using leaf by (simp add: kids_def)
  have t: "tidy L d'" using deleted_tidy [OF d(1) d'(2-4) d(2)] .
  have "fsview L d' = abs_remove (fsview L d) cs"
  proof (rule fsview_eqI [OF d'(2) t])
    fix ds k
    have "located L d k ds \<and> k \<noteq> n \<longleftrightarrow> located L d k ds \<and> ds \<noteq> cs"
      using located_unique [OF d(1) n, of ds] located_same [OF d _ n, of k] n by blast
    then show "located L d' k ds \<longleftrightarrow> abs_remove (fsview L d) cs ds = Some k"
      using deleted_located [OF d(1) d'(2-4) leaf', of k ds] fsview_located [OF d, of ds k]
      by (simp add: abs_remove_def)
  qed
  with d' t show ?thesis by blast
qed

section \<open>Renaming\<close>

lemma move_moved_to:
  assumes d: "ok d" and rn: "rooted L d n" and pq: "place L d q" and mv: "tr_mov L d n q = Some d'"
    and nm: "ft_name L d n = Some old"
  shows "moved_to L d d' n q old"
  using move_ok [OF d rn pq mv] nm by (simp add: moved_to_def replaced_def same_node_def)

lemma rename_moved_to:
  assumes "ok d" "rooted L d n" "tr_parent L d n = Some (parent_of q)" "ft_rename L d n name = Some d'"
  shows "ok d' \<and> moved_to L d d' n q name \<and> (\<forall>k. rooted L d k \<longrightarrow> k \<noteq> n \<longrightarrow> same_node L d d' k)"
proof -
  from ft_rename_ok [OF assms(1,2), of name] assms(4) have
    r: "ok d'" "same_tree L d d'" "ft_name L d' n = Some name" "ft_kind L d' n = ft_kind L d n"
    "\<forall>k. rooted L d k \<longrightarrow> k \<noteq> n \<longrightarrow> same_node L d d' k" by auto
  moreover have "rooted L d' k \<longleftrightarrow> rooted L d k" for k using same_tree_rooted [OF r(2)] .
  moreover have "ft_kind L d' k = ft_kind L d k" if "rooted L d k" for k
    using r(4,5) that by (cases "k = n") (auto simp: same_node_def)
  ultimately show ?thesis using assms(3) by (auto simp: moved_to_def same_tree_def same_node_def)
qed

text \<open>Deleting a leaf outside a subtree does not change what is in the subtree.\<close>

lemma under_deleted:
  assumes "replaced L d d' x PDeleted" "\<not> under L d x n"
  shows "under L d' k n \<longleftrightarrow> under L d k n"
proof
  show "under L d' k n \<Longrightarrow> under L d k n"
    unfolding under_def
  proof (induction rule: converse_rtranclp_induct)
    case (step a b)
    then have "a \<noteq> x" using assms(1) by (auto simp: replaced_def)
    with step assms(1) show ?case by (auto simp: replaced_def intro: converse_rtranclp_into_rtranclp)
  qed simp
  show "under L d k n \<Longrightarrow> under L d' k n"
    unfolding under_def
  proof (induction rule: converse_rtranclp_induct)
    case (step a b)
    then have "under L d a n" by (simp add: under_def converse_rtranclp_into_rtranclp)
    then have "a \<noteq> x" using assms(2) by auto
    with step assms(1) show ?case by (auto simp: replaced_def intro: converse_rtranclp_into_rtranclp)
  qed simp
qed

text \<open>What may be displaced: nothing, or another node at the destination that is a leaf.\<close>

definition displaces ::
    "'d \<Rightarrow> 'n \<Rightarrow> 'n option \<Rightarrow> string \<Rightarrow> 'n option \<Rightarrow> bool" where
  "displaces d n q name displaced \<longleftrightarrow>
     (case displaced of
        None \<Rightarrow> child_named L d q name = None \<or> child_named L d q name = Some n
      | Some dest \<Rightarrow> child_named L d q name = Some dest \<and> dest \<noteq> n \<and>
                     (ft_kind L d dest \<noteq> Some Dir \<or> kids L d (Some dest) = []))"

text \<open>The node at the destination is gone, and the moved node is in its place.\<close>

lemma displaced_deleted:
  assumes d: "ok d" and n: "located L d n fs" and s: "site L d q qs"
    and disp: "displaces d n q name displaced" and mv: "tr_mov L d n q = Some d1"
  shows "\<exists>d2. (case displaced of None \<Rightarrow> Some d1 | Some dest \<Rightarrow> ft_delete L d1 dest) = Some d2 \<and> ok d2 \<and>
           (\<forall>k. rooted L d2 k \<longrightarrow> rooted L d1 k \<and> displaced \<noteq> Some k \<and> same_node L d1 d2 k) \<and>
           (\<forall>k cs. located L d2 k cs \<longleftrightarrow> located L d1 k cs \<and> displaced \<noteq> Some k) \<and>
           (\<forall>k. under L d2 k n \<longleftrightarrow> under L d k n) \<and> tr_parent L d2 n = Some (parent_of q) \<and>
           (\<forall>k. displaced \<noteq> Some k \<longrightarrow> k \<noteq> n \<longrightarrow> tr_parent L d2 k = tr_parent L d k)"
proof -
  have rn: "rooted L d n" and pq: "place L d q"
    using located_rooted [OF n d] site_place [OF s d] .
  note m = move_ok [OF d rn pq mv]
  have up: "\<not> (\<exists>p. q = Some p \<and> under L d p n)" using move_refused [OF d rn pq] mv by simp
  have u1: "under L d1 k n \<longleftrightarrow> under L d k n" for k
    using under_same_above [of n L d d1 k] m(2) by (auto simp: replaced_def)
  show ?thesis
  proof (cases displaced)
    case None
    with m u1 show ?thesis by (auto simp: replaced_def same_node_def)
  next
    case (Some dest)
    with disp have dest: "dest \<in> set (kids L d q)" "dest \<noteq> n"
      "ft_kind L d dest \<noteq> Some Dir \<or> kids L d (Some dest) = []"
      using child_named_Some by (auto simp: displaces_def)
    have rd: "rooted L d dest" using kid_rooted [OF d pq dest(1)] .
    have pd: "tr_parent L d dest = Some (parent_of q)" using kid_parent [OF d pq dest(1)] .
    have nu: "\<not> under L d dest n"
    proof (cases q)
      case None
      with pd under_top [of L d dest n] dest(2) show ?thesis by (simp add: parent_of_def)
    next
      case (Some p)
      with pd under_step [of L d dest p n] dest(2) up show ?thesis by (simp add: parent_of_def)
    qed
    obtain d2 where d2: "ft_delete L d1 dest = Some d2" "ok d2" "replaced L d1 d2 dest PDeleted"
      "\<forall>k. rooted L d2 k \<longrightarrow> same_node L d1 d2 k"
      using ft_delete_ok [OF m(1), of dest] m(4) rd by blast
    have "ft_kind L d1 dest \<noteq> Some Dir \<or> kids L d1 (Some dest) = []"
    proof (cases "ft_kind L d dest = Some Dir")
      case True
      have "k \<notin> set (kids L d1 (Some dest))" for k
      proof
        assume "k \<in> set (kids L d1 (Some dest))"
        then have k: "tr_parent L d1 k = Some (PNode dest)"
          using kid_parent [OF m(1), of "Some dest" k] m(4) rd by (simp add: parent_of_def)
        have "k \<noteq> n"
        proof
          assume "k = n"
          with k m(2) have "q = Some dest" by (auto simp: replaced_def parent_of_def split: option.splits)
          moreover obtain r :: "'n \<Rightarrow> nat" where
            "\<forall>n p. tr_parent L d n = Some (PNode p) \<longrightarrow> r p < r n" using acyclic_finite [OF d] by blast
          ultimately show False using pd by (auto simp: parent_of_def)
        qed
        with k m(2) have "tr_parent L d k = Some (PNode dest)" by (simp add: replaced_def)
        with kids_parent [OF d, of "Some dest" k] rd dest(3) True show False by (simp add: parent_of_def)
      qed
      then show ?thesis by (cases "kids L d1 (Some dest)") auto
    qed (use same_nodeD(2) [OF m(5), of dest] in simp)
    then have loc: "located L d2 k cs \<longleftrightarrow> located L d1 k cs \<and> k \<noteq> dest" for k cs
      using deleted_located [OF m(1) d2(2-4)] by blast
    have "\<not> under L d1 dest n" using nu u1 by simp
    then have u2: "under L d2 k n \<longleftrightarrow> under L d k n" for k
      using under_deleted [OF d2(3)] u1 by simp
    have "rooted L d2 k \<Longrightarrow> rooted L d1 k \<and> k \<noteq> dest" for k using delete_rooted [OF d2(3)] .
    moreover have "tr_parent L d2 n = Some (parent_of q)"
      "\<forall>k. k \<noteq> dest \<longrightarrow> k \<noteq> n \<longrightarrow> tr_parent L d2 k = tr_parent L d k"
      using d2(3) m(2) dest(2) by (auto simp: replaced_def)
    ultimately show ?thesis using Some d2 loc u2 by auto
  qed
qed

lemma renamed:
  assumes d: "ok d" "tidy L d" and n: "located L d n fs" and s: "site L d q qs"
    and disp: "displaces d n q name displaced" and mv: "tr_mov L d n q = Some d1"
  shows "\<exists>d2 d3. (case displaced of None \<Rightarrow> Some d1 | Some dest \<Rightarrow> ft_delete L d1 dest) = Some d2 \<and>
           ft_rename L d2 n name = Some d3 \<and> ok d3 \<and> tidy L d3 \<and>
           (\<forall>k cs. located L d3 k cs \<longleftrightarrow>
              (if under L d k n then \<exists>r. located L d k (fs @ r) \<and> cs = qs @ name # r
               else located L d k cs \<and> displaced \<noteq> Some k)) \<and>
           (\<forall>k. rooted L d3 k \<longrightarrow> k \<noteq> n \<longrightarrow> same_node L d d3 k)"
proof -
  have rn: "rooted L d n" and pq: "place L d q"
    using located_rooted [OF n d(1)] site_place [OF s d(1)] .
  note m = move_ok [OF d(1) rn pq mv]
  have up: "\<forall>p. q = Some p \<longrightarrow> \<not> under L d p n" using move_refused [OF d(1) rn pq] mv by simp
  obtain fs' old where fs: "fs = fs' @ [old]" using n located_ne rev_exhaust by metis
  have nm: "ft_name L d n = Some old" using n unfolding fs located_snoc by blast
  have l1: "located L d1 k cs \<longleftrightarrow> (if under L d k n then \<exists>r. located L d k (fs @ r) \<and> cs = qs @ old # r
            else located L d k cs)" for k cs
    using relocated [OF d(1) m(1) n s up move_moved_to [OF d(1) rn pq mv nm]] .
  obtain d2 where d2: "(case displaced of None \<Rightarrow> Some d1 | Some dest \<Rightarrow> ft_delete L d1 dest) = Some d2"
    "ok d2" "\<And>k. rooted L d2 k \<Longrightarrow> rooted L d1 k \<and> displaced \<noteq> Some k \<and> same_node L d1 d2 k"
    "\<And>k cs. located L d2 k cs \<longleftrightarrow> located L d1 k cs \<and> displaced \<noteq> Some k"
    "\<And>k. under L d2 k n \<longleftrightarrow> under L d k n" "tr_parent L d2 n = Some (parent_of q)"
    "\<And>k. displaced \<noteq> Some k \<Longrightarrow> k \<noteq> n \<Longrightarrow> tr_parent L d2 k = tr_parent L d k"
    using displaced_deleted [OF d(1) n s disp mv] by blast
  have nd: "displaced \<noteq> Some n" using disp by (auto simp: displaces_def)
  have nu: "\<not> under L d k n" if "displaced = Some k" for k
  proof -
    from that disp child_named_Some have k: "k \<in> set (kids L d q)" "k \<noteq> n" by (auto simp: displaces_def)
    have "tr_parent L d k = Some (parent_of q)" using kid_parent [OF d(1) pq k(1)] .
    then show ?thesis
      using under_top [of L d k n] under_step [of L d k _ n] k(2) up by (cases q) (auto simp: parent_of_def)
  qed
  have n2: "located L d2 n (qs @ [old])" using d2(4) l1 n nd by auto
  then have rn2: "rooted L d2 n" using located_rooted d2(2) by blast
  have up2: "\<forall>p. q = Some p \<longrightarrow> \<not> under L d2 p n" using up d2(5) by simp
  have notq: "displaced \<noteq> Some p" if "q = Some p" for p
  proof
    assume "displaced = Some p"
    with disp child_named_Some have "p \<in> set (kids L d q)" by (auto simp: displaces_def)
    then have "tr_parent L d p = Some (PNode p)" using kid_parent [OF d(1) pq] that by (simp add: parent_of_def)
    with acyclic_finite [OF d(1)] show False by (metis less_irrefl)
  qed
  have s2: "site L d2 q qs"
  proof (cases q)
    case (Some p)
    with s have p: "located L d p qs" "ft_kind L d p = Some Dir" by (simp_all add: site_Some)
    then have l: "located L d2 p qs" using d2(4) l1 up notq Some by simp
    then have "same_node L d1 d2 p" using d2(3) located_rooted d2(2) by blast
    with l p(2) m(5) [of p] Some show ?thesis by (simp add: site_Some same_node_def)
  qed (use s in simp)
  obtain d3 where d3: "ft_rename L d2 n name = Some d3"
    using ft_rename_ok [OF d2(2) rn2] by blast
  note r3 = rename_moved_to [OF d2(2) rn2 d2(6) d3]
  have l3: "located L d3 k cs \<longleftrightarrow> (if under L d2 k n then \<exists>r. located L d2 k ((qs @ [old]) @ r) \<and> cs = qs @ name # r
            else located L d2 k cs)" for k cs
    using relocated [OF d2(2) _ n2 s2 up2, of d3 name] r3 by blast
  have loc: "located L d3 k cs \<longleftrightarrow>
      (if under L d k n then \<exists>r. located L d k (fs @ r) \<and> cs = qs @ name # r
       else located L d k cs \<and> displaced \<noteq> Some k)" for k cs
    using nu by (auto simp: l3 d2(4,5) l1)
  have same: "same_node L d d3 k" if "rooted L d3 k" "k \<noteq> n" for k
  proof -
    have "rooted L d2 k" using that r3 by (simp add: moved_to_def)
    with d2(3) r3 that m(5) show ?thesis using same_node_trans by metis
  qed
  have ok3: "ok d3" and mv3: "moved_to L d2 d3 n q name" using r3 by simp_all
  have r31: "rooted L d3 k \<Longrightarrow> rooted L d2 k \<and> rooted L d k \<and> displaced \<noteq> Some k" for k
    using mv3 d2(3) m(4) by (simp add: moved_to_def)
  have "tidy L d3"
    unfolding tidy_def
  proof (intro allI impI)
    fix p x y c
    assume p: "place L d3 p" and x: "x \<in> set (kids L d3 p)" "ft_name L d3 x = Some c"
      and y: "y \<in> set (kids L d3 p)" "ft_name L d3 y = Some c"
    have pd: "place L d p" using p r31 by (cases p) auto
    have old: "z \<in> set (kids L d p) \<and> ft_name L d z = Some c \<and> displaced \<noteq> Some z"
      if "z \<in> set (kids L d3 p)" "ft_name L d3 z = Some c" "z \<noteq> n" for z
    proof -
      have r: "rooted L d3 z" using kid_rooted [OF ok3 p that(1)] .
      have "tr_parent L d3 z = Some (parent_of p)" using kid_parent [OF ok3 p that(1)] .
      then have "tr_parent L d z = Some (parent_of p)"
        using mv3 that(3) d2(7) [of z] r31 [OF r] by (simp add: moved_to_def)
      then have "z \<in> set (kids L d p)" using kids_parent [OF d(1) pd] by simp
      with that(2) same_nodeD(1) [OF same [OF r that(3)]] r31 [OF r] show ?thesis by simp
    qed
    have clash: False if "z \<in> set (kids L d p)" "ft_name L d z = Some c" "displaced \<noteq> Some z" "z \<noteq> n"
      "n \<in> set (kids L d3 p)" "ft_name L d3 n = Some c" for z
    proof -
      have "p = q" using kid_parent [OF ok3 p that(5)] mv3 by (simp add: moved_to_def)
      moreover have "c = name" using that(6) mv3 by (simp add: moved_to_def)
      ultimately have "child_named L d q name = Some z" using child_named_iff [OF d(2) pq] that(1,2) by simp
      with disp that(3,4) show False by (auto simp: displaces_def split: option.splits)
    qed
    show "x = y"
    proof (cases "x = n \<or> y = n")
      case True
      with old [OF x] old [OF y] clash x y show ?thesis by blast
    next
      case False
      with old [OF x] old [OF y] pd d(2) show ?thesis unfolding tidy_def by blast
    qed
  qed
  with d2(1) d3 r3 loc same show ?thesis by blast
qed

lemma located_above:
  assumes "ts \<noteq> []"
  shows "located L d k (ts @ r) \<Longrightarrow> r \<noteq> [] \<Longrightarrow>
           \<exists>p. located L d p ts \<and> ft_kind L d p = Some Dir \<and> kids L d (Some p) \<noteq> []"
proof (induction r arbitrary: k rule: rev_induct)
  case (snoc c r)
  then have "located L d k ((ts @ r) @ [c])" by simp
  then obtain q where q: "site L d q (ts @ r)" "k \<in> set (kids L d q)" unfolding located_snoc by blast
  with assms obtain p where p: "q = Some p" "located L d p (ts @ r)" "ft_kind L d p = Some Dir"
    by (cases q) (auto simp: site_def)
  show ?case
  proof (cases "r = []")
    case True
    with p q show ?thesis by auto
  next
    case False
    with snoc.IH p(2) show ?thesis by blast
  qed
qed simp

text \<open>At the destination there is nothing, the node itself, or the displaced leaf.\<close>

lemma at_destination:
  assumes d: "ok d" "tidy L d" and n: "located L d n fs" and s: "site L d q qs"
    and disp: "displaces d n q name displaced" and k: "located L d k ((qs @ [name]) @ r)"
  shows "under L d k n \<or> displaced = Some k"
proof -
  have "\<exists>x. located L d x (qs @ [name]) \<and> (r = [] \<longrightarrow> x = k) \<and>
      (r \<noteq> [] \<longrightarrow> ft_kind L d x = Some Dir \<and> kids L d (Some x) \<noteq> [])"
  proof (cases "r = []")
    case True
    with k show ?thesis by simp
  next
    case False
    from located_above [OF _ k False] False show ?thesis by simp
  qed
  then obtain x where x: "located L d x (qs @ [name])" "r = [] \<longrightarrow> x = k"
    "r \<noteq> [] \<longrightarrow> ft_kind L d x = Some Dir \<and> kids L d (Some x) \<noteq> []" by blast
  from x(1) [unfolded located_snoc]
  obtain q' where "site L d q' qs" "x \<in> set (kids L d q')" "ft_name L d x = Some name" by blast
  moreover from this have "q' = q"
    using s located_same [OF d] by (cases q; cases q') (auto simp: site_def)
  ultimately have c: "child_named L d q name = Some x"
    using child_named_iff [OF d(2) site_place [OF s d(1)]] by simp
  show ?thesis
  proof (cases displaced)
    case None
    with disp c have "x = n" by (simp add: displaces_def)
    with located_unique [OF d(1) n] x(1) have "fs = qs @ [name]" by simp
    with prefix_under [OF d n] k show ?thesis by simp
  next
    case (Some dest)
    with disp c have "dest = x" "ft_kind L d x \<noteq> Some Dir \<or> kids L d (Some x) = []"
      by (auto simp: displaces_def)
    with x Some show ?thesis by (cases "r = []") auto
  qed
qed

lemma renamed_view:
  assumes d: "ok d" "tidy L d" and n: "located L d n fs" and s: "site L d q qs"
    and disp: "displaces d n q name displaced"
  shows "abs_rename (fsview L d) fs (qs @ [name]) cs = Some k \<longleftrightarrow>
           (if under L d k n then \<exists>r. located L d k (fs @ r) \<and> cs = qs @ name # r
            else located L d k cs \<and> displaced \<noteq> Some k)"
proof (cases "strip_prefix (qs @ [name]) cs")
  case (Some r)
  then have cs: "cs = (qs @ [name]) @ r" by (simp only: strip_prefix_Some)
  have "abs_rename (fsview L d) fs (qs @ [name]) cs = Some k \<longleftrightarrow> located L d k (fs @ r)"
    using Some fsview_located [OF d] by (simp add: abs_rename_def)
  moreover have "located L d k (fs @ r) \<Longrightarrow> under L d k n" using prefix_under [OF d n] .
  moreover have "located L d k cs \<Longrightarrow> under L d k n \<or> displaced = Some k"
    using at_destination [OF d n s disp] cs by simp
  ultimately show ?thesis using cs by auto
next
  case None
  then have np: "cs \<noteq> qs @ name # r" for r using strip_prefix_append [of "qs @ [name]" r] by auto
  have "abs_rename (fsview L d) fs (qs @ [name]) cs = Some k \<longleftrightarrow> \<not> prefix fs cs \<and> located L d k cs"
    using None fsview_located [OF d] by (simp add: abs_rename_def)
  moreover have "located L d k cs \<Longrightarrow> prefix fs cs \<longleftrightarrow> under L d k n"
    using under_prefix [OF d(1) n, of k cs] prefix_under [OF d n, of k] by (auto simp: prefix_def)
  moreover have "displaced \<noteq> Some k" if "located L d k cs"
  proof
    assume "displaced = Some k"
    with disp child_named_Some s have "located L d k (qs @ [name])"
      by (auto simp: displaces_def located_snoc)
    with located_unique [OF d(1)] that np [of "[]"] show False by auto
  qed
  ultimately show ?thesis using np by auto
qed

lemma rename_refines:
  assumes d: "ok d" "tidy L d"
  obtains (err) e where "fs_rename L d path to = Some (Err e)"
  | (fine) d' n fs ts where "fs_rename L d path to = Some (Ok d')" "ok d'" "tidy L d'"
      "components path = Ok fs" "components to = Ok ts" "fsview L d fs = Some n"
      "fsview L d' = abs_rename (fsview L d) fs ts"
      "\<forall>k. rooted L d' k \<longrightarrow> k \<noteq> n \<longrightarrow> same_node L d d' k"
proof (cases "resolve L d path")
  case (Inl e)
  then show thesis using err by (simp add: fs_rename_def)
next
  case res: (Inr n)
  show thesis
  proof (cases "split_parent L d to")
    case (Inl e)
    then show thesis using err res by (simp add: fs_rename_def)
  next
    case (Inr qn)
    obtain q name where qn: "qn = (q, name)" by (cases qn)
    obtain qs where ts: "components to = Ok (qs @ [name])" and s: "site L d q qs"
      using split_parent_Ok Inr qn by blast
    obtain fs where fs: "components path = Ok fs" and n: "located L d n fs" using resolve_Ok [OF res] by blast
    define displaced where "displaced = (case child_named L d q name of None \<Rightarrow> None
        | Some k \<Rightarrow> if k = n then None else Some k)"
    define refused where "refused = (case displaced of None \<Rightarrow> None | Some dest \<Rightarrow> displace_error L d n dest)"
    have eq: "fs_rename L d path to =
        (case refused of Some e \<Rightarrow> Some (Err e)
         | None \<Rightarrow> (case tr_mov L d n q of None \<Rightarrow> Some (Err InvalidMove)
             | Some d1 \<Rightarrow> (case (case displaced of None \<Rightarrow> Some d1 | Some dest \<Rightarrow> ft_delete L d1 dest) of
                   None \<Rightarrow> None | Some d2 \<Rightarrow> map_option Ok (ft_rename L d2 n name))))"
      unfolding fs_rename_def res Inr qn refused_def displaced_def Let_def by simp
    show thesis
    proof (cases "refused = None \<and> tr_mov L d n q \<noteq> None")
      case False
      then show thesis using err eq by (auto split: option.splits)
    next
      case True
      then obtain d1 where mv: "tr_mov L d n q = Some d1" and rf: "refused = None" by auto
      have disp: "displaces d n q name displaced"
        using rf unfolding refused_def displaces_def displaced_def
        by (auto simp: displace_error_def Let_def kids_def split: option.splits if_splits)
      from renamed [OF d n s disp mv] obtain d2 d3 where
        r: "(case displaced of None \<Rightarrow> Some d1 | Some dest \<Rightarrow> ft_delete L d1 dest) = Some d2"
        "ft_rename L d2 n name = Some d3" "ok d3" "tidy L d3"
        "\<forall>k cs. located L d3 k cs \<longleftrightarrow>
              (if under L d k n then \<exists>r. located L d k (fs @ r) \<and> cs = qs @ name # r
               else located L d k cs \<and> displaced \<noteq> Some k)"
        "\<forall>k. rooted L d3 k \<longrightarrow> k \<noteq> n \<longrightarrow> same_node L d d3 k" by blast
      have "fsview L d3 = abs_rename (fsview L d) fs (qs @ [name])"
        by (rule fsview_eqI [OF r(3,4)])
           (unfold renamed_view [OF d n s disp], use r(5) in simp)
      moreover have "fsview L d fs = Some n" using fsview_located [OF d] n by simp
      moreover have "fs_rename L d path to = Some (Ok d3)" by (simp add: eq rf mv r(1,2))
      ultimately show thesis using fine r(3,4,6) fs ts by blast
    qed
  qed
qed

end

end
