(* ===== verification/Ref_Tree.thy ===== *)
theory Ref_Tree
  imports Tree_Laws Utf8
begin

text \<open>
  A concrete container store with the laws of \<open>loro_tree\<close>, on which the witnesses run: every node
  carries the list of its ancestors, nearest first, so that a parent's list is shorter than its
  child's; sibling order is the order of the node list.
\<close>

datatype rmap = MNode nat | MRoot string | MSub nat

record rtree =
  rt_nodes :: "(nat \<times> nat list \<times> bool) list"
  rt_maps :: "((rmap \<times> string) \<times> (nat, rmap) voc) list"
  rt_texts :: "(nat \<times> string) list"
  rt_next :: nat

definition rt_empty :: rtree where
  "rt_empty = \<lparr>rt_nodes = [], rt_maps = [], rt_texts = [], rt_next = 0\<rparr>"

definition rt_parent :: "rtree \<Rightarrow> nat \<Rightarrow> nat tree_parent option" where
  "rt_parent d n = (case map_of (rt_nodes d) n of
       None \<Rightarrow> None
     | Some (anc, del) \<Rightarrow> Some (if del then PDeleted else case anc of [] \<Rightarrow> PRoot | p # _ \<Rightarrow> PNode p))"

definition rt_at :: "nat tree_parent \<Rightarrow> nat \<times> nat list \<times> bool \<Rightarrow> bool" where
  "rt_at par = (\<lambda>(n, anc, del). \<not> del \<and> (case anc of [] \<Rightarrow> PRoot | p # _ \<Rightarrow> PNode p) = par)"

definition rt_roots :: "rtree \<Rightarrow> nat list" where
  "rt_roots d = map fst (filter (rt_at PRoot) (rt_nodes d))"

definition rt_children :: "rtree \<Rightarrow> nat \<Rightarrow> nat list option" where
  "rt_children d p = (if p \<in> fst ` set (rt_nodes d)
                      then Some (map fst (filter (rt_at (PNode p)) (rt_nodes d))) else None)"

definition rt_del :: "rtree \<Rightarrow> nat \<Rightarrow> bool" where
  "rt_del d n = (case map_of (rt_nodes d) n of None \<Rightarrow> True | Some (_, del) \<Rightarrow> del)"

definition rt_anc :: "rtree \<Rightarrow> nat \<Rightarrow> nat list" where
  "rt_anc d n = (case map_of (rt_nodes d) n of None \<Rightarrow> [] | Some (anc, _) \<Rightarrow> anc)"

definition rt_alive :: "rtree \<Rightarrow> nat \<Rightarrow> bool" where
  "rt_alive d n \<longleftrightarrow> \<not> rt_del d n \<and> (\<forall>a \<in> set (rt_anc d n). \<not> rt_del d a)"

definition rt_is_deleted :: "rtree \<Rightarrow> nat \<Rightarrow> bool option" where
  "rt_is_deleted d n = (if n \<in> fst ` set (rt_nodes d) then Some (\<not> rt_alive d n) else None)"

definition anc_of :: "rtree \<Rightarrow> nat option \<Rightarrow> nat list" where
  "anc_of d q = (case q of None \<Rightarrow> [] | Some p \<Rightarrow> p # rt_anc d p)"

definition rt_create :: "rtree \<Rightarrow> nat option \<Rightarrow> (rtree \<times> nat) option" where
  "rt_create d q = Some (d\<lparr>rt_nodes := rt_nodes d @ [(rt_next d, anc_of d q, False)],
                           rt_next := Suc (rt_next d)\<rparr>, rt_next d)"

definition rebase :: "nat \<Rightarrow> nat list \<Rightarrow> nat list \<Rightarrow> nat list" where
  "rebase n new anc = (if n \<in> set anc then takeWhile (\<lambda>a. a \<noteq> n) anc @ n # new else anc)"

definition rt_mov :: "rtree \<Rightarrow> nat \<Rightarrow> nat option \<Rightarrow> rtree option" where
  "rt_mov d n q =
     (if n \<in> set (anc_of d q) then None
      else Some (d\<lparr>rt_nodes :=
             map (\<lambda>(k, anc, del). (k, rebase n (anc_of d q) anc, del))
               (filter (\<lambda>e. fst e \<noteq> n) (rt_nodes d)) @ [(n, anc_of d q, False)]\<rparr>))"

definition rt_delete :: "rtree \<Rightarrow> nat \<Rightarrow> rtree option" where
  "rt_delete d n = Some (d\<lparr>rt_nodes :=
      map (\<lambda>(k, anc, del). if k = n then (k, [], True) else (k, anc, del)) (rt_nodes d)\<rparr>)"

definition rt_meta :: "rtree \<Rightarrow> nat \<Rightarrow> rmap option" where
  "rt_meta d n = (if n \<in> fst ` set (rt_nodes d) then Some (MNode n) else None)"

definition rt_get :: "rtree \<Rightarrow> rmap \<Rightarrow> string \<Rightarrow> (nat, rmap) voc option" where
  "rt_get d m k = map_of (rt_maps d) (m, k)"

definition rt_put :: "rtree \<Rightarrow> rmap \<Rightarrow> string \<Rightarrow> (nat, rmap) voc \<Rightarrow> rtree" where
  "rt_put d m k v = d\<lparr>rt_maps := ((m, k), v) # rt_maps d\<rparr>"

definition rt_str :: "rtree \<Rightarrow> nat \<Rightarrow> string" where
  "rt_str d t = (case map_of (rt_texts d) t of None \<Rightarrow> [] | Some s \<Rightarrow> s)"

definition rt_set :: "rtree \<Rightarrow> nat \<Rightarrow> string \<Rightarrow> rtree" where
  "rt_set d t s = d\<lparr>rt_texts := (t, s) # rt_texts d\<rparr>"

text \<open>Character boundaries of a UTF-8 string.\<close>

definition boundary :: "string \<Rightarrow> nat \<Rightarrow> bool" where
  "boundary s i \<longleftrightarrow> i = length s \<or> (i < length s \<and> \<not> cont (of_char (s ! i)))"

definition ref_ct :: "(rtree, nat, nat, rmap) loro_ct" where
  "ref_ct = \<lparr>
     tr_roots = rt_roots, tr_children = rt_children, tr_parent = rt_parent,
     tr_is_deleted = rt_is_deleted, tr_create = rt_create, tr_mov = rt_mov, tr_delete = rt_delete,
     tr_meta = rt_meta,
     mp_root = MRoot, mp_get = rt_get,
     mp_insert = (\<lambda>d m k v. Some (rt_put d m k (VVal v))),
     mp_insert_text = (\<lambda>d m k. Some (rt_set (rt_put (d\<lparr>rt_next := Suc (rt_next d)\<rparr>) m k (VText (rt_next d)))
                                       (rt_next d) [], rt_next d)),
     mp_insert_map = (\<lambda>d m k. Some (rt_put (d\<lparr>rt_next := Suc (rt_next d)\<rparr>) m k (VMap (MSub (rt_next d))),
                                    MSub (rt_next d))),
     mp_delete = (\<lambda>d m k. Some (d\<lparr>rt_maps := filter (\<lambda>e. fst e \<noteq> (m, k)) (rt_maps d)\<rparr>)),
     mp_keys = (\<lambda>d m. remdups (map (snd \<circ> fst) (filter (\<lambda>e. fst (fst e) = m) (rt_maps d)))),
     tx_str = rt_str,
     tx_update = (\<lambda>d t s. Some (rt_set d t s)),
     tx_insert = (\<lambda>d t i s. Some (rt_set d t (take i (rt_str d t) @ s @ drop i (rt_str d t)))),
     tx_delete = (\<lambda>d t i k. Some (rt_set d t (take i (rt_str d t) @ drop (i + k) (rt_str d t)))),
     tx_slice_bytes = (\<lambda>d t a b. if a \<le> b \<and> boundary (rt_str d t) a \<and> boundary (rt_str d t) b
                                 then Some [TInsert (take (b - a) (drop a (rt_str d t)))] else None)\<rparr>"

lemma ref_ct_simps [simp]:
  "tr_roots ref_ct = rt_roots" "tr_children ref_ct = rt_children" "tr_parent ref_ct = rt_parent"
  "tr_is_deleted ref_ct = rt_is_deleted" "tr_create ref_ct = rt_create" "tr_mov ref_ct = rt_mov"
  "tr_delete ref_ct = rt_delete" "tr_meta ref_ct = rt_meta" "mp_get ref_ct = rt_get"
  "mp_insert ref_ct d m k v = Some (rt_put d m k (VVal v))" "tx_str ref_ct = rt_str"
  "tx_update ref_ct d t s = Some (rt_set d t s)" "mp_root ref_ct = MRoot"
  "mp_insert_text ref_ct d m k = Some (rt_set (rt_put (d\<lparr>rt_next := Suc (rt_next d)\<rparr>) m k
      (VText (rt_next d))) (rt_next d) [], rt_next d)"
  by (simp_all add: ref_ct_def)

section \<open>Its invariant\<close>

definition coherent :: "(nat \<times> nat list \<times> bool) list \<Rightarrow> nat list \<Rightarrow> bool" where
  "coherent ns anc = (case anc of [] \<Rightarrow> True | p # rest \<Rightarrow>
     (\<exists>e \<in> set ns. fst e = p \<and> fst (snd e) = (if snd (snd e) then [] else rest)))"

definition entry_bounded :: "nat \<Rightarrow> (rmap \<times> string) \<times> (nat, rmap) voc \<Rightarrow> bool" where
  "entry_bounded b e =
     ((case fst (fst e) of MNode i \<Rightarrow> i < b | _ \<Rightarrow> True) \<and> (case snd e of VText t \<Rightarrow> t < b | _ \<Rightarrow> True))"

definition rt_ok :: "rtree \<Rightarrow> bool" where
  "rt_ok d \<longleftrightarrow>
     distinct (map fst (rt_nodes d)) \<and> (\<forall>e \<in> set (rt_nodes d). fst e < rt_next d) \<and>
     (\<forall>e \<in> set (rt_nodes d). \<not> snd (snd e) \<longrightarrow> coherent (rt_nodes d) (fst (snd e))) \<and>
     (\<forall>e \<in> set (rt_maps d). entry_bounded (rt_next d) e)"

lemma coherent_Nil [simp]: "coherent ns []"
  by (simp add: coherent_def)

lemma coherent_Cons:
  "coherent ns (p # rest) \<longleftrightarrow>
     (\<exists>ap dp. (p, ap, dp) \<in> set ns \<and> ap = (if dp then [] else rest))"
  by (simp add: coherent_def Bex_def split_paired_Ex)

lemma coherentI:
  assumes "map_of ns p = Some (if dp then [] else rest, dp)"
  shows "coherent ns (p # rest)"
  using map_of_SomeD [OF assms] unfolding coherent_Cons by blast

lemma rt_ok_coherent:
  assumes "rt_ok d" "(k, anc, False) \<in> set (rt_nodes d)"
  shows "coherent (rt_nodes d) anc"
proof -
  have "\<forall>e \<in> set (rt_nodes d). \<not> snd (snd e) \<longrightarrow> coherent (rt_nodes d) (fst (snd e))"
    using assms(1) by (simp add: rt_ok_def)
  from bspec [OF this assms(2)] show ?thesis by simp
qed

lemma rt_okI:
  assumes "distinct (map fst (rt_nodes d))" "\<And>n. n \<in> fst ` set (rt_nodes d) \<Longrightarrow> n < rt_next d"
    and "\<And>k anc. map_of (rt_nodes d) k = Some (anc, False) \<Longrightarrow> coherent (rt_nodes d) anc"
    and "\<And>e. e \<in> set (rt_maps d) \<Longrightarrow> entry_bounded (rt_next d) e"
  shows "rt_ok d"
  unfolding rt_ok_def
proof (intro conjI ballI impI)
  show "coherent (rt_nodes d) (fst (snd e))" if "e \<in> set (rt_nodes d)" "\<not> snd (snd e)" for e
  proof (cases e)
    case (fields k anc del)
    with that assms(1) have "map_of (rt_nodes d) k = Some (anc, False)" by simp
    with assms(3) fields show ?thesis by simp
  qed
qed (use assms in auto)

lemma rt_node_iff:
  "rt_ok d \<Longrightarrow> (n, anc, del) \<in> set (rt_nodes d) \<longleftrightarrow> map_of (rt_nodes d) n = Some (anc, del)"
  by (simp add: rt_ok_def)

lemma rt_coherent:
  assumes "rt_ok d" "map_of (rt_nodes d) n = Some (p # rest, False)"
  shows "\<exists>ap dp. map_of (rt_nodes d) p = Some (ap, dp) \<and> ap = (if dp then [] else rest)"
proof -
  have "(n, p # rest, False) \<in> set (rt_nodes d)" using assms rt_node_iff by blast
  from rt_ok_coherent [OF assms(1) this] show ?thesis
    unfolding coherent_Cons rt_node_iff [OF assms(1)] .
qed

lemma rt_parent_node:
  "rt_parent d n = Some (PNode p) \<longleftrightarrow> (\<exists>rest. map_of (rt_nodes d) n = Some (p # rest, False))"
  by (auto simp: rt_parent_def split: option.splits if_splits list.splits)

lemma rt_parent_root: "rt_parent d n = Some PRoot \<longleftrightarrow> map_of (rt_nodes d) n = Some ([], False)"
  by (auto simp: rt_parent_def split: option.splits if_splits list.splits)

text \<open>For a node with no deleted ancestor the recorded list is the true one.\<close>

lemma rt_anc_step:
  assumes "rt_ok d" "map_of (rt_nodes d) n = Some (p # rest, False)" "\<not> rt_del d p"
  shows "rt_anc d p = rest \<and> map_of (rt_nodes d) p = Some (rest, False)"
  using rt_coherent [OF assms(1,2)] assms(3) by (auto simp: rt_del_def rt_anc_def)

lemma rt_aliveE:
  assumes "rt_alive d n"
  obtains anc where "map_of (rt_nodes d) n = Some (anc, False)" "rt_anc d n = anc"
    "\<forall>a \<in> set anc. \<not> rt_del d a"
proof (cases "map_of (rt_nodes d) n")
  case None
  with assms show thesis by (simp add: rt_alive_def rt_del_def)
next
  case (Some x)
  obtain anc del where "x = (anc, del)" by (cases x)
  with Some assms that show thesis by (simp add: rt_alive_def rt_del_def [of d n] rt_anc_def)
qed

lemma rt_aliveI:
  "map_of (rt_nodes d) n = Some (anc, False) \<Longrightarrow> \<forall>a \<in> set anc. \<not> rt_del d a \<Longrightarrow> rt_alive d n"
  by (simp add: rt_alive_def rt_del_def [of d n] rt_anc_def)

lemma rooted_alive: "rooted ref_ct d n \<Longrightarrow> rt_ok d \<Longrightarrow> rt_alive d n"
proof (induction rule: rooted.induct)
  case (root n)
  then show ?case by (simp add: rt_parent_root rt_alive_def rt_del_def rt_anc_def)
next
  case (child n p)
  then obtain rest where n: "map_of (rt_nodes d) n = Some (p # rest, False)"
    by (auto simp: rt_parent_node)
  from child have p: "rt_alive d p" by simp
  then have "rt_anc d p = rest" using rt_anc_step [OF child.prems n] by (simp add: rt_alive_def)
  with p have "\<forall>a \<in> set (p # rest). \<not> rt_del d a" by (simp add: rt_alive_def)
  with n show ?case by (rule rt_aliveI)
qed

lemma alive_rooted: "rt_ok d \<Longrightarrow> rt_alive d n \<Longrightarrow> rooted ref_ct d n"
proof (induction "length (rt_anc d n)" arbitrary: n)
  case 0
  then have "map_of (rt_nodes d) n = Some ([], False)" by (auto elim: rt_aliveE)
  then show ?case by (intro rooted.root) (simp add: rt_parent_root)
next
  case (Suc i)
  from Suc.prems(2) obtain anc where a: "map_of (rt_nodes d) n = Some (anc, False)" "rt_anc d n = anc"
    "\<forall>a \<in> set anc. \<not> rt_del d a" by (rule rt_aliveE)
  with Suc.hyps(2) obtain p rest where pr: "anc = p # rest" by (cases anc) auto
  have n: "map_of (rt_nodes d) n = Some (p # rest, False)" and dp: "\<not> rt_del d p" "\<forall>a \<in> set rest. \<not> rt_del d a"
    using a by (simp_all add: pr)
  then have p: "rt_anc d p = rest" using rt_anc_step [OF Suc.prems(1) n] by simp
  have "rt_alive d p" using p dp by (simp add: rt_alive_def)
  moreover have "i = length (rt_anc d p)" using Suc.hyps(2) p a(2) pr by simp
  ultimately have "rooted ref_ct d p" using Suc.hyps(1) Suc.prems(1) by blast
  moreover have "tr_parent ref_ct d n = Some (PNode p)" using n by (simp add: rt_parent_node)
  ultimately show ?case by (rule rooted.child [rotated])
qed

lemma rooted_iff_alive: "rt_ok d \<Longrightarrow> rooted ref_ct d n \<longleftrightarrow> rt_alive d n"
  using rooted_alive alive_rooted by blast

lemma under_anc:
  "rt_ok d \<Longrightarrow> rt_alive d k \<Longrightarrow> under ref_ct d k n \<longleftrightarrow> n = k \<or> n \<in> set (rt_anc d k)"
proof (induction "length (rt_anc d k)" arbitrary: k)
  case 0
  then have "map_of (rt_nodes d) k = Some ([], False)" by (auto elim: rt_aliveE)
  then have "rt_parent d k = Some PRoot" by (simp add: rt_parent_root)
  with 0 show ?case by (auto simp: under_def elim: converse_rtranclpE)
next
  case (Suc i)
  from Suc.prems(2) obtain anc where a: "map_of (rt_nodes d) k = Some (anc, False)" "rt_anc d k = anc"
    "\<forall>a \<in> set anc. \<not> rt_del d a" by (rule rt_aliveE)
  with Suc.hyps(2) obtain p rest where pr: "anc = p # rest" by (cases anc) auto
  have k: "map_of (rt_nodes d) k = Some (p # rest, False)" and dp: "\<not> rt_del d p" "\<forall>a \<in> set rest. \<not> rt_del d a"
    using a by (simp_all add: pr)
  then have p: "rt_anc d p = rest" using rt_anc_step [OF Suc.prems(1) k] by simp
  have IH: "under ref_ct d p n \<longleftrightarrow> n = p \<or> n \<in> set rest"
    using Suc.hyps(1) [of p] Suc.hyps(2) Suc.prems(1) p dp a(2) pr by (simp add: rt_alive_def)
  have pk: "rt_parent d k = Some (PNode p)" using k by (auto simp: rt_parent_node)
  have "under ref_ct d k n \<longleftrightarrow> k = n \<or> under ref_ct d p n"
    using pk unfolding under_def
    by (auto elim: converse_rtranclpE intro: converse_rtranclp_into_rtranclp)
  with IH k show ?case by (auto simp: rt_anc_def)
qed

end
