(* ===== verification/Ref_Tree_Laws.thy ===== *)
theory Ref_Tree_Laws
  imports Ref_Tree
begin

text \<open>The concrete store of \<open>Ref_Tree\<close> has the laws of \<open>loro_tree\<close>.\<close>

lemma rt_kids:
  assumes "rt_ok d"
  shows "kids ref_ct d q = map fst (filter (rt_at (parent_of q)) (rt_nodes d))"
proof (cases q)
  case None
  then show ?thesis by (simp add: kids_def ft_roots_def rt_roots_def parent_of_def)
next
  case (Some p)
  show ?thesis
  proof (cases "p \<in> fst ` set (rt_nodes d)")
    case True
    with Some show ?thesis by (simp add: kids_def ft_children_def rt_children_def parent_of_def)
  next
    case False
    have "\<not> rt_at (PNode p) (n, anc, del)" if e: "(n, anc, del) \<in> set (rt_nodes d)" for n anc del
    proof
      assume at: "rt_at (PNode p) (n, anc, del)"
      then obtain rest where "anc = p # rest" "\<not> del" by (auto simp: rt_at_def split: list.splits)
      with e have "(n, p # rest, False) \<in> set (rt_nodes d)" by simp
      from rt_ok_coherent [OF assms this] have "coherent (rt_nodes d) (p # rest)" .
      with False show False by (force simp: coherent_Cons)
    qed
    then have "filter (rt_at (PNode p)) (rt_nodes d) = []" by (auto simp: filter_empty_conv)
    with False Some show ?thesis by (simp add: kids_def ft_children_def rt_children_def parent_of_def)
  qed
qed

lemma rt_at_parent:
  assumes "rt_ok d" "par \<noteq> PDeleted"
  shows "n \<in> set (map fst (filter (rt_at par) (rt_nodes d))) \<longleftrightarrow> rt_parent d n = Some par"
proof
  assume "n \<in> set (map fst (filter (rt_at par) (rt_nodes d)))"
  then obtain anc del where "(n, anc, del) \<in> set (rt_nodes d)" "rt_at par (n, anc, del)" by auto
  with rt_node_iff [OF assms(1)] show "rt_parent d n = Some par"
    by (auto simp: rt_parent_def rt_at_def split: list.splits)
next
  assume "rt_parent d n = Some par"
  then obtain anc where m: "map_of (rt_nodes d) n = Some (anc, False)" "rt_at par (n, anc, False)"
    using assms(2) by (auto simp: rt_parent_def rt_at_def split: option.splits if_splits)
  then have "(n, anc, False) \<in> set (rt_nodes d)" using rt_node_iff [OF assms(1)] by blast
  with m(2) show "n \<in> set (map fst (filter (rt_at par) (rt_nodes d)))" by force
qed

lemma parent_of_not_deleted [simp]: "parent_of q \<noteq> PDeleted"
  by (simp add: parent_of_def split: option.split)

lemma filter_fst: "filter (\<lambda>k. k \<noteq> n) (map fst xs) = map fst (filter (\<lambda>e. fst e \<noteq> n) xs)"
  by (induction xs) auto

lemma rt_ids: "rt_ok d \<Longrightarrow> rooted ref_ct d n \<Longrightarrow> n \<in> fst ` set (rt_nodes d)"
  by (force simp: rooted_iff_alive elim!: rt_aliveE dest: map_of_SomeD)

lemma rt_ids_less: "rt_ok d \<Longrightarrow> n \<in> fst ` set (rt_nodes d) \<Longrightarrow> n < rt_next d"
  unfolding rt_ok_def by blast

lemma entry_bounded_mono: "entry_bounded b e \<Longrightarrow> b \<le> c \<Longrightarrow> entry_bounded c e"
  by (auto simp: entry_bounded_def split: rmap.splits voc.splits)

lemma anc_of_place:
  assumes "rt_ok d" "place ref_ct d q"
  shows "case anc_of d q of [] \<Rightarrow> q = None | p # rest \<Rightarrow>
           q = Some p \<and> map_of (rt_nodes d) p = Some (rest, False) \<and> rt_anc d p = rest"
proof (cases q)
  case (Some p)
  with assms have "rt_alive d p" by (simp add: place_def rooted_iff_alive)
  then show ?thesis by (rule rt_aliveE) (simp add: Some anc_of_def)
qed (simp add: anc_of_def)

lemma rank_bound:
  assumes "rt_ok d"
  shows "\<exists>r N. (\<forall>n. r n \<le> (N :: nat)) \<and> (\<forall>n p. rt_parent d n = Some (PNode p) \<longrightarrow> r p < r n)"
proof (intro exI conjI allI impI)
  let ?N = "sum_list (map (\<lambda>(n, anc, del). length anc) (rt_nodes d))"
  fix n
  show "length (rt_anc d n) \<le> ?N"
  proof (cases "map_of (rt_nodes d) n")
    case (Some x)
    obtain anc del where x: "x = (anc, del)" by (cases x)
    with Some have "(n, anc, del) \<in> set (rt_nodes d)" by (simp add: map_of_SomeD)
    then have "length anc \<in> set (map (\<lambda>(n, anc, del). length anc) (rt_nodes d))" by force
    then have "length anc \<le> ?N" by (rule member_le_sum_list) simp
    with Some x show ?thesis by (simp add: rt_anc_def)
  qed (simp add: rt_anc_def)
  fix p assume "rt_parent d n = Some (PNode p)"
  then obtain rest where n: "map_of (rt_nodes d) n = Some (p # rest, False)" by (auto simp: rt_parent_node)
  from rt_coherent [OF assms n] show "length (rt_anc d p) < length (rt_anc d n)"
    using n by (auto simp: rt_anc_def split: if_splits)
qed

text \<open>Edits of maps and texts keep the tree.\<close>

lemma rt_same_nodes:
  assumes "rt_nodes d' = rt_nodes d"
  shows "same_tree ref_ct d d'"
  unfolding same_tree_def kids_def ft_roots_def ft_children_def
  by (simp add: assms rt_parent_def rt_roots_def rt_children_def rt_meta_def split: option.split)

section \<open>Creating\<close>

lemma rt_create_laws:
  assumes ok: "rt_ok d" and q: "place ref_ct d q"
  defines "d' \<equiv> fst (the (rt_create d q))" and "n \<equiv> rt_next d"
  shows "rt_ok d'" "\<not> rooted ref_ct d n" "replaced ref_ct d d' n (parent_of q)"
    "kids ref_ct d' (Some n) = []"
proof -
  have fresh: "n \<notin> fst ` set (rt_nodes d)" using ok by (auto simp: rt_ok_def n_def)
  have nodes: "rt_nodes d' = rt_nodes d @ [(n, anc_of d q, False)]" and nxt: "rt_next d' = Suc n"
    and maps: "rt_maps d' = rt_maps d" by (simp_all add: d'_def rt_create_def n_def)
  have ac: "case anc_of d q of [] \<Rightarrow> True | p # rest \<Rightarrow> (p, rest, False) \<in> set (rt_nodes d) \<and> p \<noteq> n"
    using anc_of_place [OF ok q] fresh by (force split: list.splits dest: map_of_SomeD)
  show ok': "rt_ok d'"
    unfolding rt_ok_def
  proof (intro conjI ballI impI)
    show "distinct (map fst (rt_nodes d'))" using ok fresh by (simp add: rt_ok_def nodes)
    show "fst e < rt_next d'" if "e \<in> set (rt_nodes d')" for e
      using that ok by (auto simp: rt_ok_def nodes nxt n_def less_Suc_eq)
    show "coherent (rt_nodes d') (fst (snd e))" if "e \<in> set (rt_nodes d')" "\<not> snd (snd e)" for e
    proof (cases "e \<in> set (rt_nodes d)")
      case True
      with ok that(2) have "coherent (rt_nodes d) (fst (snd e))" by (simp add: rt_ok_def)
      then show ?thesis unfolding coherent_def nodes by (force split: list.splits)
    next
      case False
      with that have "fst (snd e) = anc_of d q" by (auto simp: nodes)
      with ac show ?thesis by (force simp: coherent_Cons nodes split: list.splits)
    qed
    show "entry_bounded (rt_next d') e" if "e \<in> set (rt_maps d')" for e
      using that ok entry_bounded_mono [of "rt_next d" e "rt_next d'"] by (simp add: rt_ok_def maps nxt n_def)
  qed
  show "\<not> rooted ref_ct d n" using rt_ids [OF ok] fresh by blast
  have par: "rt_parent d' n = Some (parent_of q)"
  proof -
    have "map_of (rt_nodes d) n = None" using fresh by (simp add: map_of_eq_None_iff)
    then show ?thesis by (simp add: rt_parent_def nodes map_add_def parent_of_def anc_of_def split: option.split)
  qed
  have "k \<noteq> n \<Longrightarrow> rt_parent d' k = rt_parent d k" for k
    by (simp add: rt_parent_def nodes map_add_def split: option.splits)
  moreover have "filter (\<lambda>k. k \<noteq> n) (kids ref_ct d' p) = filter (\<lambda>k. k \<noteq> n) (kids ref_ct d p)" for p
    by (simp add: rt_kids [OF ok] rt_kids [OF ok'] nodes)
  ultimately show "replaced ref_ct d d' n (parent_of q)" using par by (simp add: replaced_def)
  have "rt_parent d' k \<noteq> Some (PNode n)" for k
  proof
    assume "rt_parent d' k = Some (PNode n)"
    then obtain rest where k: "map_of (rt_nodes d') k = Some (n # rest, False)" by (auto simp: rt_parent_node)
    then have "(k, n # rest, False) \<in> set (rt_nodes d')" by (rule map_of_SomeD)
    then have "(k, n # rest, False) \<in> set (rt_nodes d) \<or> anc_of d q = n # rest" by (auto simp: nodes)
    then show False
    proof
      assume "(k, n # rest, False) \<in> set (rt_nodes d)"
      from rt_ok_coherent [OF ok this] fresh show False by (force simp: coherent_Cons)
    qed (use ac in simp)
  qed
  then show "kids ref_ct d' (Some n) = []"
    using rt_at_parent [OF ok', of "PNode n"] by (auto simp: rt_kids [OF ok'] parent_of_def filter_empty_conv)
qed

section \<open>Moving\<close>

lemma rebase_Nil [simp]: "rebase n new [] = []"
  by (simp add: rebase_def)

lemma rebase_Cons: "rebase n new (p # rest) = (if p = n then n # new else p # rebase n new rest)"
  by (simp add: rebase_def)

lemma rebase_id: "n \<notin> set anc \<Longrightarrow> rebase n new anc = anc"
  by (simp add: rebase_def)

lemma rt_at_rebase: "rt_at par (k, rebase n new anc, del) = rt_at par (k, anc, del)"
  by (cases anc) (auto simp: rt_at_def rebase_Cons)

lemma filter_rebase:
  "map fst (filter (rt_at par) (map (\<lambda>(k, anc, del). (k, rebase n new anc, del)) es)) =
   map fst (filter (rt_at par) es)"
  by (induction es) (auto simp: rt_at_rebase)

lemma map_of_rebase:
  "map_of (map (\<lambda>(k, anc, del). (k, rebase n new anc, del)) (filter (\<lambda>e. fst e \<noteq> n) es)) k =
   (if k = n then None else map_option (\<lambda>(anc, del). (rebase n new anc, del)) (map_of es k))"
  by (induction es) auto

lemma rt_mov_refused:
  assumes "rt_ok d" "place ref_ct d q"
  shows "rt_mov d n q = None \<longleftrightarrow> (\<exists>p. q = Some p \<and> under ref_ct d p n)"
proof (cases q)
  case (Some p)
  with assms have "rt_alive d p" by (simp add: place_def rooted_iff_alive)
  from under_anc [OF assms(1) this] Some show ?thesis by (auto simp: rt_mov_def anc_of_def)
qed (simp add: rt_mov_def anc_of_def)

text \<open>What a move does to the entries.\<close>

definition moved_entries :: "rtree \<Rightarrow> nat \<Rightarrow> nat list \<Rightarrow> rtree \<Rightarrow> bool" where
  "moved_entries d n new d' \<longleftrightarrow>
     n \<notin> set new \<and> n \<in> fst ` set (rt_nodes d) \<and>
     d' = d\<lparr>rt_nodes := map (\<lambda>(k, anc, del). (k, rebase n new anc, del))
              (filter (\<lambda>e. fst e \<noteq> n) (rt_nodes d)) @ [(n, new, False)]\<rparr>"

lemma rt_mov_entries:
  assumes "rt_ok d" "rooted ref_ct d n" "rt_mov d n q = Some d'"
  shows "moved_entries d n (anc_of d q) d'"
  using assms rt_ids [OF assms(1,2)] by (simp add: rt_mov_def moved_entries_def split: if_splits)

lemma moved_look:
  assumes "moved_entries d n new d'"
  shows "map_of (rt_nodes d') k = (if k = n then Some (new, False)
      else map_option (\<lambda>(anc, del). (rebase n new anc, del)) (map_of (rt_nodes d) k))"
  using assms by (simp add: moved_entries_def map_add_def map_of_rebase split: option.split)

lemma moved_keys: "moved_entries d n new d' \<Longrightarrow> fst ` set (rt_nodes d') = fst ` set (rt_nodes d)"
  unfolding moved_entries_def by force

lemma moved_distinct:
  assumes "rt_ok d" "moved_entries d n new d'"
  shows "distinct (map fst (rt_nodes d'))"
proof -
  have "map fst (rt_nodes d') = map fst (filter (\<lambda>e. fst e \<noteq> n) (rt_nodes d)) @ [n]"
    using assms(2) by (simp add: moved_entries_def comp_def case_prod_unfold)
  moreover have "distinct (map fst (filter (\<lambda>e. fst e \<noteq> n) (rt_nodes d)))"
    using assms(1) by (simp add: rt_ok_def distinct_map_filter)
  ultimately show ?thesis by auto
qed

lemma moved_coherent:
  assumes ok: "rt_ok d" and q: "place ref_ct d q" and mv: "moved_entries d n (anc_of d q) d'"
    and k: "map_of (rt_nodes d') k = Some (anc, False)"
  shows "coherent (rt_nodes d') anc"
proof (cases "k = n")
  case True
  have nin: "n \<notin> set (anc_of d q)" using mv by (simp add: moved_entries_def)
  have "coherent (rt_nodes d') (anc_of d q)"
  proof (cases "anc_of d q")
    case (Cons p rest)
    with nin anc_of_place [OF ok q] have "map_of (rt_nodes d') p = Some (rest, False)"
      by (simp add: moved_look [OF mv] rebase_id)
    then show ?thesis unfolding Cons by (intro coherentI [where dp = False]) simp
  qed simp
  with k True show ?thesis by (simp add: moved_look [OF mv])
next
  case False
  with k obtain old where old: "map_of (rt_nodes d) k = Some (old, False)" "anc = rebase n (anc_of d q) old"
    by (auto simp: moved_look [OF mv])
  show ?thesis
  proof (cases old)
    case (Cons p rest)
    with old(1) have "map_of (rt_nodes d) k = Some (p # rest, False)" by simp
    from rt_coherent [OF ok this] obtain dp where
      "map_of (rt_nodes d) p = Some (if dp then [] else rest, dp)" by blast
    then have "p \<noteq> n \<Longrightarrow> map_of (rt_nodes d') p =
        Some (if dp then [] else rebase n (anc_of d q) rest, dp)"
      by (simp add: moved_look [OF mv])
    moreover have "map_of (rt_nodes d') n = Some (anc_of d q, False)" by (simp add: moved_look [OF mv])
    ultimately show ?thesis
      unfolding old(2) Cons rebase_Cons by (auto intro: coherentI coherentI [where dp = False])
  qed (use old in simp)
qed

lemma moved_ok:
  assumes ok: "rt_ok d" and q: "place ref_ct d q" and mv: "moved_entries d n (anc_of d q) d'"
  shows "rt_ok d'"
proof (rule rt_okI)
  have nxt: "rt_next d' = rt_next d" "rt_maps d' = rt_maps d" using mv by (simp_all add: moved_entries_def)
  show "k < rt_next d'" if "k \<in> fst ` set (rt_nodes d')" for k
    using rt_ids_less [OF ok, of k] that by (simp add: moved_keys [OF mv] nxt)
  show "entry_bounded (rt_next d') e" if "e \<in> set (rt_maps d')" for e
    using that ok by (simp add: rt_ok_def nxt)
qed (fact moved_distinct [OF ok mv], rule moved_coherent [OF assms])

lemma filter_map_fst:
  "filter (\<lambda>k. k \<noteq> n) (map fst (filter P xs)) = map fst (filter P (filter (\<lambda>e. fst e \<noteq> n) xs))"
  by (induction xs) auto

lemma moved_replaced:
  assumes ok: "rt_ok d" and q: "place ref_ct d q" and mv: "moved_entries d n (anc_of d q) d'"
  shows "replaced ref_ct d d' n (parent_of q)"
proof -
  have "rt_parent d' n = Some (parent_of q)"
    by (simp add: rt_parent_def moved_look [OF mv] parent_of_def anc_of_def split: option.split)
  moreover have "k \<noteq> n \<Longrightarrow> rt_parent d' k = rt_parent d k" for k
    by (cases "map_of (rt_nodes d) k")
       (auto simp: rt_parent_def moved_look [OF mv] rebase_Cons split: list.splits)
  moreover have "filter (\<lambda>k. k \<noteq> n) (kids ref_ct d' p) = filter (\<lambda>k. k \<noteq> n) (kids ref_ct d p)" for p
  proof -
    have "filter (\<lambda>e. fst e \<noteq> n) (rt_nodes d') =
        map (\<lambda>(k, anc, del). (k, rebase n (anc_of d q) anc, del)) (filter (\<lambda>e. fst e \<noteq> n) (rt_nodes d))"
      using mv by (auto simp: moved_entries_def filter_map comp_def case_prod_unfold intro: filter_True)
    then show ?thesis
      by (simp add: rt_kids [OF ok] rt_kids [OF moved_ok [OF assms]] filter_map_fst filter_rebase)
  qed
  ultimately show ?thesis by (simp add: replaced_def)
qed

lemma not_own_child:
  assumes ok: "rt_ok d" and e: "(n, anc, del) \<in> set (rt_nodes d)"
  shows "\<not> rt_at (PNode n) (n, anc, del)"
proof
  assume "rt_at (PNode n) (n, anc, del)"
  then obtain r where r: "anc = n # r" "\<not> del" by (auto simp: rt_at_def split: list.splits)
  with e have m: "map_of (rt_nodes d) n = Some (n # r, False)" using rt_node_iff [OF ok] by simp
  from rt_coherent [OF ok m] m show False by auto
qed

lemma moved_kids:
  assumes ok: "rt_ok d" and q: "place ref_ct d q" and mv: "moved_entries d n (anc_of d q) d'"
  shows "kids ref_ct d' (Some n) = kids ref_ct d (Some n)"
proof -
  have "\<not> rt_at (PNode n) e" if "e \<in> set (rt_nodes d)" "fst e = n" for e
    using not_own_child [OF ok, of n "fst (snd e)" "snd (snd e)"] that by auto
  then have "filter (rt_at (PNode n)) (filter (\<lambda>e. fst e \<noteq> n) (rt_nodes d)) =
      filter (rt_at (PNode n)) (rt_nodes d)"
    by (auto simp: filter_filter intro: filter_cong)
  moreover have "\<not> rt_at (PNode n) (n, anc_of d q, False)"
    using mv by (auto simp: moved_entries_def rt_at_def split: list.splits)
  moreover have "rt_nodes d' = map (\<lambda>(k, anc, del). (k, rebase n (anc_of d q) anc, del))
      (filter (\<lambda>e. fst e \<noteq> n) (rt_nodes d)) @ [(n, anc_of d q, False)]"
    using mv by (simp add: moved_entries_def)
  ultimately show ?thesis
    by (simp add: rt_kids [OF ok] rt_kids [OF moved_ok [OF assms]] parent_of_def filter_rebase)
qed

section \<open>Deleting\<close>

lemma rt_delete_laws:
  assumes ok: "rt_ok d" and n: "rooted ref_ct d n"
  defines "d' \<equiv> the (rt_delete d n)"
  shows "rt_ok d'" "replaced ref_ct d d' n PDeleted" "rt_meta d' k = rt_meta d k"
proof -
  let ?f = "\<lambda>(k, anc, del). if k = n then (k, [], True) else (k, anc, del)"
  have nodes: "rt_nodes d' = map ?f (rt_nodes d)" and rest: "rt_next d' = rt_next d" "rt_maps d' = rt_maps d"
    by (simp_all add: d'_def rt_delete_def)
  have fst: "map fst (map ?f es) = map fst es" for es :: "(nat \<times> nat list \<times> bool) list"
    by (induction es) auto
  have "fst ` set (map ?f es) = fst ` set es" for es :: "(nat \<times> nat list \<times> bool) list"
    by (induction es) auto
  then have keys: "fst ` set (rt_nodes d') = fst ` set (rt_nodes d)" unfolding nodes .
  have lk: "map_of (map ?f es) k =
      (if k = n then map_option (\<lambda>_. ([], True)) (map_of es k) else map_of es k)" for es k
    by (induction es) auto
  have look: "map_of (rt_nodes d') k =
      (if k = n then map_option (\<lambda>_. ([], True)) (map_of (rt_nodes d) k) else map_of (rt_nodes d) k)" for k
    unfolding nodes lk ..
  have dist: "distinct (map fst (rt_nodes d'))" unfolding nodes fst using ok by (simp add: rt_ok_def)
  show ok': "rt_ok d'"
  proof (rule rt_okI [OF dist])
    show "k < rt_next d'" if "k \<in> fst ` set (rt_nodes d')" for k
      using rt_ids_less [OF ok, of k] that by (simp add: keys rest)
    show "coherent (rt_nodes d') anc" if "map_of (rt_nodes d') k = Some (anc, False)" for k anc
    proof (cases anc)
      case (Cons p r)
      with that have "map_of (rt_nodes d) k = Some (p # r, False)" by (auto simp: look split: if_splits)
      from rt_coherent [OF ok this] obtain dp where
        "map_of (rt_nodes d) p = Some (if dp then [] else r, dp)" by blast
      then have "map_of (rt_nodes d') p = Some (if dp \<or> p = n then [] else r, dp \<or> p = n)"
        by (auto simp: look)
      then show ?thesis unfolding Cons by (rule coherentI)
    qed simp
    show "entry_bounded (rt_next d') e" if "e \<in> set (rt_maps d')" for e
      using that ok by (simp add: rt_ok_def rest)
  qed
  have "rt_parent d' n = Some PDeleted"
    using rt_ids [OF ok n] by (auto simp: rt_parent_def look dest!: weak_map_of_SomeI split: option.split)
  moreover have "k \<noteq> n \<Longrightarrow> rt_parent d' k = rt_parent d k" for k by (simp add: rt_parent_def look)
  moreover have "filter (\<lambda>e. fst e \<noteq> n) (map ?f es) = filter (\<lambda>e. fst e \<noteq> n) es"
    for es :: "(nat \<times> nat list \<times> bool) list" by (induction es) (auto split: if_splits)
  ultimately show "replaced ref_ct d d' n PDeleted"
    by (simp add: replaced_def rt_kids [OF ok] rt_kids [OF ok'] filter_map_fst nodes)
  show "rt_meta d' k = rt_meta d k" by (simp add: rt_meta_def keys)
qed

section \<open>The interpretation\<close>

lemma rt_put_ok:
  "rt_ok d \<Longrightarrow> entry_bounded (rt_next d) ((m, k), v) \<Longrightarrow> rt_ok (rt_put d m k v)"
  by (simp add: rt_ok_def rt_put_def)

lemma rt_set_ok: "rt_ok (rt_set d t s) \<longleftrightarrow> rt_ok d"
  by (simp add: rt_ok_def rt_set_def)

lemma rt_next_ok: "rt_ok d \<Longrightarrow> rt_ok (d\<lparr>rt_next := Suc (rt_next d)\<rparr>)"
  unfolding rt_ok_def by (auto simp: less_Suc_eq intro: entry_bounded_mono)

lemma rt_get_put: "rt_get (rt_put d m k v) m' k' = (if m' = m \<and> k' = k then Some v else rt_get d m' k')"
  by (simp add: rt_get_def rt_put_def)

lemma rt_get_fresh:
  assumes "rt_ok d"
  shows "rt_get d (MNode (rt_next d)) k = None" "rt_get d m k \<noteq> Some (VText (rt_next d))"
proof -
  have b: "entry_bounded (rt_next d) e" if "e \<in> set (rt_maps d)" for e using assms that by (simp add: rt_ok_def)
  then show "rt_get d (MNode (rt_next d)) k = None"
    by (force simp: rt_get_def map_of_eq_None_iff entry_bounded_def)
  show "rt_get d m k \<noteq> Some (VText (rt_next d))"
    by (auto simp: rt_get_def entry_bounded_def dest!: map_of_SomeD b)
qed

lemma rt_meta_rooted: "rt_ok d \<Longrightarrow> rooted ref_ct d n \<Longrightarrow> rt_meta d n = Some (MNode n)"
  by (simp add: rt_meta_def rt_ids)


lemma rt_insert_text_laws:
  fixes k :: string
  assumes "rt_ok d" "rt_meta d n = Some m"
  defines "d' \<equiv> rt_set (rt_put (d\<lparr>rt_next := Suc (rt_next d)\<rparr>) m k (VText (rt_next d))) (rt_next d) []"
  shows "rt_ok d'" "same_tree ref_ct d d'" "map_put ref_ct d d' m k (VText (rt_next d))"
    "rt_str d' t = (if t = rt_next d then [] else rt_str d t)"
proof -
  have m: "m = MNode n" "n < rt_next d"
    using assms(1,2) by (auto simp: rt_meta_def rt_ids_less split: if_splits)
  show "rt_ok d'" unfolding d'_def rt_set_ok
    by (rule rt_put_ok [OF rt_next_ok [OF assms(1)]]) (use m in \<open>simp add: entry_bounded_def\<close>)
  show "same_tree ref_ct d d'" by (rule rt_same_nodes) (simp add: d'_def rt_set_def rt_put_def)
  show "map_put ref_ct d d' m k (VText (rt_next d))"
    by (simp add: map_put_def d'_def rt_set_def rt_put_def rt_get_def)
  show "rt_str d' t = (if t = rt_next d then [] else rt_str d t)"
    by (simp add: d'_def rt_set_def rt_put_def rt_str_def)
qed

interpretation rt: loro_tree ref_ct rt_ok
proof (unfold_locales, goal_cases)
  case (1 d q)
  then show ?case by (simp add: rt_kids rt_ok_def distinct_map_filter)
next
  case (2 d q n)
  then show ?case using rt_at_parent [of d "parent_of q" n] by (simp add: rt_kids del: set_map set_filter)
next
  case (3 d)
  then show ?case using rank_bound by simp
next
  case (4 d n)
  then show ?case by (auto simp: rooted_iff_alive rt_is_deleted_def dest: rt_ids simp flip: rooted_iff_alive)
next
  case (5 d n)
  then show ?case by (simp add: rt_meta_rooted)
next
  case (6 d n n')
  then show ?case by (simp add: rt_meta_rooted)
next
  case (7 d q)
  let ?d = "fst (the (rt_create d q))" and ?n = "rt_next d"
  have "rt_create d q = Some (?d, ?n)" by (simp add: rt_create_def)
  moreover have "rt_meta ?d ?n = Some (MNode ?n)" by (simp add: rt_create_def rt_meta_def)
  moreover have "rooted ref_ct d k \<longrightarrow> rt_meta ?d k = rt_meta d k" for k
    using rt_ids [OF 7(1), of k] by (auto simp: rt_create_def rt_meta_def)
  moreover have "rt_get ?d m k = rt_get d m k" for m k by (simp add: rt_create_def rt_get_def)
  moreover have "same_texts ref_ct d ?d" by (simp add: same_texts_def rt_create_def rt_str_def)
  ultimately show ?case
    using rt_create_laws [OF 7] rt_get_fresh(1) [OF 7(1)]
    by (intro exI [of _ ?d] exI [of _ ?n] exI [of _ "MNode ?n"]) simp
next
  case (8 d n m k v)
  then have "m = MNode n" "n < rt_next d" by (simp_all add: rt_meta_rooted rt_ids_less rt_ids)
  then have "rt_ok (rt_put d m k (VVal v))"
    using 8(1) by (intro rt_put_ok) (simp_all add: entry_bounded_def)
  moreover have "same_tree ref_ct d (rt_put d m k (VVal v))" by (rule rt_same_nodes) (simp add: rt_put_def)
  moreover have "same_texts ref_ct d (rt_put d m k (VVal v))"
    by (simp add: same_texts_def rt_put_def rt_str_def)
  ultimately show ?case by (simp add: map_put_def rt_get_put)
next
  case (9 d n m k)
  then have "rt_meta d n = Some m" by simp
  from rt_insert_text_laws [OF 9(1) this, of k] rt_get_fresh(2) [OF 9(1)] show ?case by simp
next
  case (10 d t s d')
  then have "d' = rt_set d t s" by simp
  moreover have "same_tree ref_ct d (rt_set d t s)" by (rule rt_same_nodes) (simp add: rt_set_def)
  moreover have "rt_ok (rt_set d t s)" using 10(1) by (simp add: rt_set_ok)
  ultimately show ?case
    by (simp add: same_maps_def rt_set_def rt_get_def rt_str_def)
next
  case (11 d n q)
  then show ?case by (simp add: rt_mov_refused)
next
  case (12 d n q d')
  then have mv: "moved_entries d n (anc_of d q) d'" using rt_mov_entries by simp
  then have "rt_meta d' k = rt_meta d k" for k by (simp add: rt_meta_def moved_keys)
  moreover have "rt_maps d' = rt_maps d" "rt_texts d' = rt_texts d" using mv by (simp_all add: moved_entries_def)
  ultimately show ?case
    using moved_ok [OF 12(1,3) mv] moved_replaced [OF 12(1,3) mv] moved_kids [OF 12(1,3) mv]
    by (simp add: same_maps_def same_texts_def rt_get_def rt_str_def)
next
  case (13 d n)
  let ?d = "the (rt_delete d n)"
  have "rt_delete d n = Some ?d" "rt_maps ?d = rt_maps d" "rt_texts ?d = rt_texts d"
    by (simp_all add: rt_delete_def)
  with rt_delete_laws [OF 13] show ?case
    by (intro exI [of _ ?d]) (simp add: same_maps_def same_texts_def rt_get_def rt_str_def)
qed

lemma rt_empty_ok [simp]: "rt_ok rt_empty"
  by (simp add: rt_ok_def rt_empty_def)

end
