(* ===== verification/Doc_Fs_Props.thy ===== *)
theory Doc_Fs_Props
  imports Doc_Fs_Refine Ref_Tree_Laws
begin

text \<open>
  The edits of \<open>fs.rs\<close> against the abstract file map: exactly when each succeeds, and what the map
  is afterwards.  The witnesses run the edits on the concrete store of \<open>Ref_Tree\<close>.
\<close>

text \<open>The root, or a directory, is found at \<open>cs\<close>.\<close>

definition dir_at :: "('d, 'n, 't, 'm) loro_ct \<Rightarrow> 'd \<Rightarrow> string list \<Rightarrow> bool" where
  "dir_at L d cs \<longleftrightarrow>
     cs = [] \<or> (case fsview L d cs of None \<Rightarrow> False | Some p \<Rightarrow> ft_kind L d p = Some Dir)"

text \<open>A new node may be made at \<open>path\<close>: its parent is a directory and the place is free.\<close>

definition creatable :: "('d, 'n, 't, 'm) loro_ct \<Rightarrow> 'd \<Rightarrow> string \<Rightarrow> string list \<Rightarrow> bool" where
  "creatable L d path cs \<longleftrightarrow>
     components path = Ok cs \<and> cs \<noteq> [] \<and> dir_at L d (butlast cs) \<and> fsview L d cs = None"

text \<open>
  The node at \<open>fs\<close> may be renamed to \<open>ts\<close>: the destination's parent is a directory outside the moved
  subtree, and what is at the destination, if anything else, may be replaced.
\<close>

definition renamable :: "('d, 'n, 't, 'm) loro_ct \<Rightarrow> 'd \<Rightarrow> string list \<Rightarrow> string list \<Rightarrow> bool" where
  "renamable L d fs ts \<longleftrightarrow>
     (case fsview L d fs of
        None \<Rightarrow> False
      | Some n \<Rightarrow>
          ts \<noteq> [] \<and> dir_at L d (butlast ts) \<and> \<not> prefix fs (butlast ts) \<and>
          (case fsview L d ts of None \<Rightarrow> True | Some k \<Rightarrow> k = n \<or> displace_error L d n k = None))"

context loro_tree
begin

lemma located_descend:
  assumes "ok d" "tidy L d"
  shows "located L d n cs \<Longrightarrow> ft_kind L d n = Some Dir \<Longrightarrow> descend L d None cs = Inr (Some n)"
proof (induction rule: located.induct)
  case (top n c)
  then show ?case using child_named_iff [OF assms(2), of None c n] by simp
next
  case (sub p cs n c)
  have "place L d (Some p)" using located_rooted [OF sub(1) assms(1)] by simp
  with sub show ?case using child_named_iff [OF assms(2), of "Some p" c n]
    by (simp add: descend_append)
qed

lemma site_descend:
  assumes "ok d" "tidy L d"
  shows "descend L d None cs = Inr q \<longleftrightarrow> site L d q cs"
  using descend_site [of d cs q] located_descend [OF assms, of _ cs]
  by (cases q) (auto simp: site_def)

lemma dir_at_site:
  assumes "ok d" "tidy L d"
  shows "dir_at L d cs \<longleftrightarrow> (\<exists>q. site L d q cs)"
proof
  assume "dir_at L d cs"
  then consider "cs = []" | p where "fsview L d cs = Some p" "ft_kind L d p = Some Dir"
    by (auto simp: dir_at_def split: option.splits)
  then show "\<exists>q. site L d q cs"
  proof cases
    case 1
    then show ?thesis by (intro exI [of _ None]) simp
  next
    case 2
    then show ?thesis using fsview_located [OF assms] by (intro exI [of _ "Some p"]) (simp add: site_Some)
  qed
next
  assume "\<exists>q. site L d q cs"
  then obtain q where q: "site L d q cs" ..
  show "dir_at L d cs"
  proof (cases q)
    case (Some p)
    with q fsview_located [OF assms, of cs p] show ?thesis by (simp add: site_Some dir_at_def)
  qed (use q in \<open>simp add: dir_at_def\<close>)
qed

lemma split_parent_iff:
  assumes "ok d" "tidy L d"
  shows "split_parent L d path = Ok (q, name) \<longleftrightarrow>
           (\<exists>cs. components path = Ok (cs @ [name]) \<and> site L d q cs)"
proof
  assume "\<exists>cs. components path = Ok (cs @ [name]) \<and> site L d q cs"
  then obtain cs where "components path = Ok (cs @ [name])" "descend L d None cs = Inr q"
    using site_descend [OF assms] by blast
  then show "split_parent L d path = Ok (q, name)" by (simp add: split_parent_def)
qed (rule split_parent_Ok)

lemma child_at:
  assumes "ok d" "tidy L d" "site L d q qs"
  shows "child_named L d q name = fsview L d (qs @ [name])"
proof -
  have pq: "place L d q" using site_place [OF assms(3,1)] .
  have "child_named L d q name = Some n \<longleftrightarrow> fsview L d (qs @ [name]) = Some n" for n
  proof -
    have "located L d n (qs @ [name]) \<longleftrightarrow> n \<in> set (kids L d q) \<and> ft_name L d n = Some name"
    proof
      assume "located L d n (qs @ [name])"
      then obtain q' where q': "site L d q' qs" "n \<in> set (kids L d q')" "ft_name L d n = Some name"
        by (auto simp: located_snoc)
      have "q' = q"
        using q'(1) assms(3) located_same [OF assms(1,2)] by (cases q; cases q') (auto simp: site_def)
      with q' show "n \<in> set (kids L d q) \<and> ft_name L d n = Some name" by simp
    qed (use assms(3) in \<open>auto simp: located_snoc\<close>)
    then show ?thesis using child_named_iff [OF assms(2) pq] fsview_located [OF assms(1,2)] by simp
  qed
  then show ?thesis by (rule option_eqI)
qed

text \<open>A creation succeeds exactly at the creatable paths.\<close>

lemma create_at_iff:
  assumes d: "ok d" "tidy L d"
    and mk: "\<And>q name. place L d q \<Longrightarrow> \<exists>d' n. mk d q name = Some (d', n)"
  shows "\<exists>r. create_at L mk d path = Some r \<and> (is_ok r \<longleftrightarrow> (\<exists>cs. creatable L d path cs))"
proof (cases "split_parent L d path")
  case (Inl e)
  have "\<not> creatable L d path cs" for cs
  proof
    assume c: "creatable L d path cs"
    then obtain q where "site L d q (butlast cs)" using dir_at_site [OF d] by (auto simp: creatable_def)
    with c have "split_parent L d path = Ok (q, last cs)"
      using split_parent_iff [OF d] by (auto simp: creatable_def intro: exI [of _ "butlast cs"])
    with Inl show False by simp
  qed
  with Inl show ?thesis by (simp add: create_at_def)
next
  case (Inr qn)
  obtain q name where qn: "qn = (q, name)" by (cases qn)
  obtain qs where c: "components path = Ok (qs @ [name])" and s: "site L d q qs"
    using split_parent_Ok Inr qn by blast
  obtain d' n where "mk d q name = Some (d', n)" using mk [OF site_place [OF s d(1)]] by blast
  moreover have "dir_at L d qs" using dir_at_site [OF d] s by blast
  ultimately show ?thesis
    using Inr qn c child_at [OF d s, of name] by (auto simp: create_at_def creatable_def)
qed

text \<open>What a successful creation leaves behind.\<close>

lemma create_at_Ok:
  assumes d: "ok d" "tidy L d"
    and mk: "\<And>q name. place L d q \<Longrightarrow> \<exists>d' n. mk d q name = Some (d', n) \<and> ok d' \<and> added L d d' n q name kind \<and> Q d' n"
    and c: "create_at L mk d path = Some (Ok (d', n))"
  shows "\<exists>cs. components path = Ok cs \<and> ok d' \<and> tidy L d' \<and> fsview L d' = abs_put (fsview L d) cs n \<and>
           \<not> rooted L d n \<and> ft_kind L d' n = Some kind \<and> ft_children L d' n = [] \<and> Q d' n \<and>
           (\<forall>k. rooted L d k \<longrightarrow> same_node L d d' k)"
proof (rule create_at_refines [where path = path and mk = mk and kind = kind and Q = Q, OF d mk])
  fix e assume "create_at L mk d path = Some (Err e)"
  with c show ?thesis by simp
next
  fix d1 n1 cs q name
  assume *: "create_at L mk d path = Some (Ok (d1, n1))" "ok d1" "tidy L d1" "components path = Ok cs"
    "fsview L d cs = None" "fsview L d1 = abs_put (fsview L d) cs n1" "added L d d1 n1 q name kind" "Q d1 n1"
  from *(1) c have "d1 = d'" "n1 = n" by simp_all
  with * show ?thesis by (auto simp: added_def kids_def)
qed

lemma create_file_refines:
  assumes d: "ok d" "tidy L d"
  shows "\<exists>r. fs_create_file L d path = Some r \<and> (is_ok r \<longleftrightarrow> (\<exists>cs. creatable L d path cs)) \<and>
           (\<forall>d' n. r = Ok (d', n) \<longrightarrow>
              (\<exists>cs t. components path = Ok cs \<and> ok d' \<and> tidy L d' \<and> fsview L d' = abs_put (fsview L d) cs n \<and>
                \<not> rooted L d n \<and> ft_kind L d' n = Some File \<and> ft_content L d' n = Some t \<and> tx_str L d' t = [] \<and>
                (\<forall>k. rooted L d k \<longrightarrow> same_node L d d' k \<and> ft_content L d k \<noteq> Some t)))"
proof -
  have mk: "\<exists>d' n. ft_create_file L d q name = Some (d', n) \<and> ok d' \<and> added L d d' n q name File \<and>
      (\<exists>t. ft_content L d' n = Some t \<and> tx_str L d' t = [] \<and> (\<forall>k. rooted L d k \<longrightarrow> ft_content L d k \<noteq> Some t))"
    if "place L d q" for q name
    using ft_create_file_added [OF d(1) that, of name] by blast
  have "\<exists>r. fs_create_file L d path = Some r \<and> (is_ok r \<longleftrightarrow> (\<exists>cs. creatable L d path cs))"
    unfolding fs_create_file_def by (rule create_at_iff [OF d]) (use mk in blast)
  moreover have "fs_create_file L d path = Some (Ok (d', n)) \<Longrightarrow> ?thesis" for d' n
    using create_at_Ok [where mk = "ft_create_file L" and kind = File and
        Q = "\<lambda>d' n. \<exists>t. ft_content L d' n = Some t \<and> tx_str L d' t = [] \<and>
               (\<forall>k. rooted L d k \<longrightarrow> ft_content L d k \<noteq> Some t)", OF d mk, of path d' n]
      calculation unfolding fs_create_file_def by auto
  ultimately show ?thesis by metis
qed

lemma create_dir_refines:
  assumes d: "ok d" "tidy L d"
  shows "\<exists>r. fs_create_dir L d path = Some r \<and> (is_ok r \<longleftrightarrow> (\<exists>cs. creatable L d path cs)) \<and>
           (\<forall>d' n. r = Ok (d', n) \<longrightarrow>
              (\<exists>cs. components path = Ok cs \<and> ok d' \<and> tidy L d' \<and> fsview L d' = abs_put (fsview L d) cs n \<and>
                \<not> rooted L d n \<and> ft_kind L d' n = Some Dir \<and> ft_children L d' n = [] \<and>
                (\<forall>k. rooted L d k \<longrightarrow> same_node L d d' k)))"
proof -
  have mk: "\<exists>d' n. ft_create_dir L d q name = Some (d', n) \<and> ok d' \<and> added L d d' n q name Dir \<and> True"
    if "place L d q" for q name
    using ft_create_dir_added [OF d(1) that, of name] by blast
  have "\<exists>r. fs_create_dir L d path = Some r \<and> (is_ok r \<longleftrightarrow> (\<exists>cs. creatable L d path cs))"
    unfolding fs_create_dir_def by (rule create_at_iff [OF d]) (use mk in blast)
  moreover have "fs_create_dir L d path = Some (Ok (d', n)) \<Longrightarrow> ?thesis" for d' n
    using create_at_Ok [where mk = "ft_create_dir L" and kind = Dir and Q = "\<lambda>d' n. True",
        OF d mk, of path d' n]
      calculation unfolding fs_create_dir_def by auto
  ultimately show ?thesis by metis
qed

section \<open>Removing\<close>

lemma remove_file_total:
  assumes d: "ok d" "tidy L d"
  shows "\<exists>r. remove_file L d path = Some r \<and>
           (is_ok r \<longleftrightarrow> (\<exists>cs n. components path = Ok cs \<and> fsview L d cs = Some n \<and> ft_kind L d n \<noteq> Some Dir)) \<and>
           (\<forall>d'. r = Ok d' \<longrightarrow> ok d' \<and> tidy L d' \<and>
              (\<exists>cs. components path = Ok cs \<and> fsview L d' = abs_remove (fsview L d) cs) \<and>
              (\<forall>k. rooted L d' k \<longrightarrow> same_node L d d' k))"
proof (cases "resolve L d path")
  case (Inl e)
  with resolve_iff [OF d, of path] show ?thesis by (fastforce simp: remove_file_def)
next
  case (Inr n)
  then obtain cs where cs: "components path = Ok cs" "fsview L d cs = Some n"
    using resolve_iff [OF d, of path] by blast
  then have n: "located L d n cs" using fsview_located [OF d] by simp
  show ?thesis
  proof (cases "ft_kind L d n = Some Dir")
    case True
    with Inr cs show ?thesis by (simp add: remove_file_def)
  next
    case False
    with delete_refines [OF d n] obtain d' where "ft_delete L d n = Some d'" "ok d'" "tidy L d'"
      "fsview L d' = abs_remove (fsview L d) cs" "\<forall>k. rooted L d' k \<longrightarrow> same_node L d d' k" by blast
    with Inr cs False show ?thesis by (simp add: remove_file_def)
  qed
qed

lemma remove_dir_total:
  assumes d: "ok d" "tidy L d"
  shows "\<exists>r. remove_dir L d path = Some r \<and>
           (is_ok r \<longleftrightarrow> (\<exists>cs n. components path = Ok cs \<and> fsview L d cs = Some n \<and>
              ft_kind L d n = Some Dir \<and> ft_children L d n = [])) \<and>
           (\<forall>d'. r = Ok d' \<longrightarrow> ok d' \<and> tidy L d' \<and>
              (\<exists>cs. components path = Ok cs \<and> fsview L d' = abs_remove (fsview L d) cs) \<and>
              (\<forall>k. rooted L d' k \<longrightarrow> same_node L d d' k))"
proof (cases "resolve L d path")
  case (Inl e)
  with resolve_iff [OF d, of path] show ?thesis by (fastforce simp: remove_dir_def)
next
  case (Inr n)
  then obtain cs where cs: "components path = Ok cs" "fsview L d cs = Some n"
    using resolve_iff [OF d, of path] by blast
  then have n: "located L d n cs" using fsview_located [OF d] by simp
  show ?thesis
  proof (cases "ft_kind L d n = Some Dir \<and> ft_children L d n = []")
    case True
    with delete_refines [OF d n] obtain d' where "ft_delete L d n = Some d'" "ok d'" "tidy L d'"
      "fsview L d' = abs_remove (fsview L d) cs" "\<forall>k. rooted L d' k \<longrightarrow> same_node L d d' k" by blast
    with Inr cs True show ?thesis by (simp add: remove_dir_def)
  qed (use Inr cs in \<open>auto simp: remove_dir_def\<close>)
qed

section \<open>Renaming\<close>

text \<open>A destination below the source is one inside the moved subtree.\<close>

lemma move_refused_prefix:
  assumes d: "ok d" "tidy L d" and n: "located L d n fs" and s: "site L d q qs"
  shows "tr_mov L d n q = None \<longleftrightarrow> prefix fs qs"
proof -
  have "tr_mov L d n q = None \<longleftrightarrow> (\<exists>p. q = Some p \<and> under L d p n)"
    using move_refused [OF d(1) located_rooted [OF n d(1)] site_place [OF s d(1)]] .
  also have "\<dots> \<longleftrightarrow> prefix fs qs"
  proof (cases q)
    case None
    with s located_ne [OF n] show ?thesis by simp
  next
    case (Some p)
    with s have p: "located L d p qs" by (simp add: site_Some)
    have "under L d p n \<longleftrightarrow> prefix fs qs"
      using under_prefix [OF d(1) n p] prefix_under [OF d n, of p] p by (auto simp: prefix_def)
    with Some show ?thesis by simp
  qed
  finally show ?thesis .
qed

lemma rename_iff:
  assumes d: "ok d" "tidy L d"
  shows "\<exists>r. fs_rename L d path to = Some r \<and>
           (is_ok r \<longleftrightarrow> (\<exists>fs ts. components path = Ok fs \<and> components to = Ok ts \<and> renamable L d fs ts))"
proof (cases "resolve L d path")
  case (Inl e)
  then have "components path = Ok fs \<Longrightarrow> fsview L d fs = None" for fs
    using resolve_iff [OF d, of path] by (metis Inl_Inr_False option.exhaust)
  with Inl show ?thesis by (auto simp: fs_rename_def renamable_def)
next
  case res: (Inr n)
  then obtain fs where fs: "components path = Ok fs" "fsview L d fs = Some n"
    using resolve_iff [OF d, of path] by blast
  then have n: "located L d n fs" using fsview_located [OF d] by simp
  show ?thesis
  proof (cases "split_parent L d to")
    case (Inl e)
    have "\<not> renamable L d fs ts" if "components to = Ok ts" for ts
    proof
      assume r: "renamable L d fs ts"
      then have "ts \<noteq> []" "dir_at L d (butlast ts)" by (auto simp: renamable_def split: option.splits)
      with dir_at_site [OF d] that obtain q where
        "components to = Ok (butlast ts @ [last ts])" "site L d q (butlast ts)" by auto
      with split_parent_iff [OF d, of to q "last ts"] Inl show False by auto
    qed
    with Inl res fs(1) show ?thesis by (auto simp: fs_rename_def)
  next
    case (Inr qn)
    obtain q name where qn: "qn = (q, name)" by (cases qn)
    obtain qs where ts: "components to = Ok (qs @ [name])" and s: "site L d q qs"
      using split_parent_Ok Inr qn by blast
    note at = child_at [OF d s, of name] and mv = move_refused_prefix [OF d n s]
    have dir: "dir_at L d qs" using dir_at_site [OF d] s by blast
    show ?thesis
    proof (rule rename_refines [OF d, of path to])
      fix e assume e: "fs_rename L d path to = Some (Err e)"
      then have "\<not> renamable L d fs (qs @ [name])"
        unfolding fs_rename_def res Inr qn renamable_def fs(2) at Let_def
        using mv by (auto simp: at split: option.splits if_splits)
      with e fs(1) ts show ?thesis by auto
    next
      fix d'
      assume o: "fs_rename L d path to = Some (Ok d')"
      then have "renamable L d fs (qs @ [name])"
        unfolding fs_rename_def res Inr qn renamable_def fs(2) at Let_def
        using mv dir by (auto simp: at split: option.splits if_splits)
      with o fs(1) ts show ?thesis by auto
    qed
  qed
qed

end

section \<open>A concrete tree\<close>

definition demo_fs :: rtree where
  "demo_fs =
     (let d1 = fst (projr (the (fs_create_dir ref_ct rt_empty ''a'')));
          d2 = fst (projr (the (fs_create_file ref_ct d1 ''a/b'')));
          d3 = fst (projr (the (fs_create_dir ref_ct d2 ''c'')))
      in d3)"

lemma rt_tidyI:
  assumes "rt_ok d" "\<forall>q \<in> set (None # map (Some \<circ> fst) (rt_nodes d)).
      distinct (List.map_filter (ft_name ref_ct d) (kids ref_ct d q))"
  shows "tidy ref_ct d"
proof -
  have inj: "a = b" if "distinct (List.map_filter f xs)" "a \<in> set xs" "b \<in> set xs" "f a = Some c" "f b = Some c"
    for f :: "nat \<Rightarrow> string option" and xs a b c
    using that by (induction xs) (auto simp: List.map_filter_simps in_map_filter split: option.splits)
  show ?thesis
    unfolding tidy_def
  proof (intro allI impI)
    fix q a b c
    assume *: "place ref_ct d q" "a \<in> set (kids ref_ct d q)" "b \<in> set (kids ref_ct d q)"
      "ft_name ref_ct d a = Some c" "ft_name ref_ct d b = Some c"
    have "q \<in> set (None # map (Some \<circ> fst) (rt_nodes d))"
      using *(1) rt_ids [OF assms(1)] by (cases q) (auto simp: image_image)
    with assms(2) inj [OF _ *(2-5)] show "a = b" by blast
  qed
qed

lemma demo_fs_ok: "rt_ok demo_fs" by code_simp

lemma demo_fs_tidy: "tidy ref_ct demo_fs"
  by (rule rt_tidyI [OF demo_fs_ok]) code_simp

section \<open>Properties\<close>

text \<open>
  Over any store with Loro's laws and any document whose siblings have distinct names,
  \<open>create_file\<close> never panics; it succeeds exactly when the parent directory exists and the place is
  free; then the file map gains exactly the new node at that path, which is a file with an empty
  text of its own, and every node that was there keeps its name, kind and content.
\<close>

theorem fs_create_file_refines:
  assumes "loro_tree L dwf" "dwf d" "tidy L d"
  shows "\<exists>r. fs_create_file L d path = Some r \<and> (is_ok r \<longleftrightarrow> (\<exists>cs. creatable L d path cs)) \<and>
           (\<forall>d' n. r = Ok (d', n) \<longrightarrow>
              (\<exists>cs t. components path = Ok cs \<and> dwf d' \<and> tidy L d' \<and> fsview L d' = abs_put (fsview L d) cs n \<and>
                \<not> rooted L d n \<and> ft_kind L d' n = Some File \<and> ft_content L d' n = Some t \<and> tx_str L d' t = [] \<and>
                (\<forall>k. rooted L d k \<longrightarrow> same_node L d d' k \<and> ft_content L d k \<noteq> Some t)))"
  by (rule loro_tree.create_file_refines [OF assms])

theorem fs_create_file_refines_witness:
  "\<exists>d' n. fs_create_file ref_ct demo_fs ''a/x'' = Some (Ok (d', n)) \<and>
          fsview ref_ct d' = abs_put (fsview ref_ct demo_fs) [''a'', ''x''] n"
proof -
  have "creatable ref_ct demo_fs ''a/x'' [''a'', ''x'']" and c: "components ''a/x'' = Ok [''a'', ''x'']"
    by code_simp+
  then show ?thesis
    using fs_create_file_refines [OF rt.loro_tree_axioms demo_fs_ok demo_fs_tidy, of "''a/x''"]
    unfolding c by (auto simp: is_ok_iff)
qed

text \<open>
  \<open>create_dir\<close> likewise: it succeeds exactly at the creatable paths, and adds one empty directory
  to the file map.
\<close>

theorem fs_create_dir_refines:
  assumes "loro_tree L dwf" "dwf d" "tidy L d"
  shows "\<exists>r. fs_create_dir L d path = Some r \<and> (is_ok r \<longleftrightarrow> (\<exists>cs. creatable L d path cs)) \<and>
           (\<forall>d' n. r = Ok (d', n) \<longrightarrow>
              (\<exists>cs. components path = Ok cs \<and> dwf d' \<and> tidy L d' \<and> fsview L d' = abs_put (fsview L d) cs n \<and>
                \<not> rooted L d n \<and> ft_kind L d' n = Some Dir \<and> ft_children L d' n = [] \<and>
                (\<forall>k. rooted L d k \<longrightarrow> same_node L d d' k)))"
  by (rule loro_tree.create_dir_refines [OF assms])

theorem fs_create_dir_refines_witness:
  "\<exists>d' n. fs_create_dir ref_ct demo_fs ''c/d'' = Some (Ok (d', n)) \<and>
          fsview ref_ct d' = abs_put (fsview ref_ct demo_fs) [''c'', ''d''] n"
proof -
  have "creatable ref_ct demo_fs ''c/d'' [''c'', ''d'']" and c: "components ''c/d'' = Ok [''c'', ''d'']"
    by code_simp+
  then show ?thesis
    using fs_create_dir_refines [OF rt.loro_tree_axioms demo_fs_ok demo_fs_tidy, of "''c/d''"]
    unfolding c by (auto simp: is_ok_iff)
qed

text \<open>
  \<open>remove_file\<close> never panics; it succeeds exactly on paths of nodes that are not directories,
  and then the file map loses exactly that path, every remaining node unchanged.
\<close>

theorem remove_file_refines:
  assumes "loro_tree L dwf" "dwf d" "tidy L d"
  shows "\<exists>r. remove_file L d path = Some r \<and>
           (is_ok r \<longleftrightarrow> (\<exists>cs n. components path = Ok cs \<and> fsview L d cs = Some n \<and> ft_kind L d n \<noteq> Some Dir)) \<and>
           (\<forall>d'. r = Ok d' \<longrightarrow> dwf d' \<and> tidy L d' \<and>
              (\<exists>cs. components path = Ok cs \<and> fsview L d' = abs_remove (fsview L d) cs) \<and>
              (\<forall>k. rooted L d' k \<longrightarrow> same_node L d d' k))"
  by (rule loro_tree.remove_file_total [OF assms])

theorem remove_file_refines_witness:
  "\<exists>d'. remove_file ref_ct demo_fs ''a/b'' = Some (Ok d') \<and>
        fsview ref_ct d' = abs_remove (fsview ref_ct demo_fs) [''a'', ''b'']"
proof -
  have "fsview ref_ct demo_fs [''a'', ''b''] = Some 1" "ft_kind ref_ct demo_fs 1 = Some File"
    and c: "components ''a/b'' = Ok [''a'', ''b'']"
    by code_simp+
  then show ?thesis
    using remove_file_refines [OF rt.loro_tree_axioms demo_fs_ok demo_fs_tidy, of "''a/b''"]
    unfolding c by (auto simp: is_ok_iff)
qed

text \<open>
  \<open>remove_dir\<close> never panics; it succeeds exactly on paths of directories without children, so no
  content is lost with it, and then the file map loses exactly that path.
\<close>

theorem remove_dir_refines:
  assumes "loro_tree L dwf" "dwf d" "tidy L d"
  shows "\<exists>r. remove_dir L d path = Some r \<and>
           (is_ok r \<longleftrightarrow> (\<exists>cs n. components path = Ok cs \<and> fsview L d cs = Some n \<and>
              ft_kind L d n = Some Dir \<and> ft_children L d n = [])) \<and>
           (\<forall>d'. r = Ok d' \<longrightarrow> dwf d' \<and> tidy L d' \<and>
              (\<exists>cs. components path = Ok cs \<and> fsview L d' = abs_remove (fsview L d) cs) \<and>
              (\<forall>k. rooted L d' k \<longrightarrow> same_node L d d' k))"
  by (rule loro_tree.remove_dir_total [OF assms])

theorem remove_dir_refines_witness:
  "\<exists>d'. remove_dir ref_ct demo_fs ''c'' = Some (Ok d') \<and>
        fsview ref_ct d' = abs_remove (fsview ref_ct demo_fs) [''c'']"
proof -
  have "fsview ref_ct demo_fs [''c''] = Some 3" "ft_kind ref_ct demo_fs 3 = Some Dir"
    "ft_children ref_ct demo_fs 3 = []" and c: "components ''c'' = Ok [''c'']"
    by code_simp+
  then show ?thesis
    using remove_dir_refines [OF rt.loro_tree_axioms demo_fs_ok demo_fs_tidy, of "''c''"]
    unfolding c by (auto simp: is_ok_iff)
qed

text \<open>
  C9. In a document with distinct sibling names \<open>rename\<close> never panics; it succeeds exactly when
  the source exists, the destination's parent is a directory outside the moved subtree and what is at the
  destination may be replaced; then everything at or below the source is found at or below the destination,
  the displaced leaf is gone, nothing else moves, and names, kinds and contents of all other nodes are
  unchanged. Sibling names stay distinct.\<close>

theorem fs_rename_refines:
  assumes "loro_tree L dwf" "dwf d" "tidy L d"
  shows "\<exists>r. fs_rename L d path to = Some r \<and>
           (is_ok r \<longleftrightarrow> (\<exists>fs ts. components path = Ok fs \<and> components to = Ok ts \<and> renamable L d fs ts)) \<and>
           (\<forall>d'. r = Ok d' \<longrightarrow> dwf d' \<and> tidy L d' \<and>
              (\<exists>fs ts n. components path = Ok fs \<and> components to = Ok ts \<and> fsview L d fs = Some n \<and>
                 fsview L d' = abs_rename (fsview L d) fs ts \<and>
                 (\<forall>k. rooted L d' k \<longrightarrow> k \<noteq> n \<longrightarrow> same_node L d d' k)))"
proof -
  obtain r where r: "fs_rename L d path to = Some r"
    "is_ok r \<longleftrightarrow> (\<exists>fs ts. components path = Ok fs \<and> components to = Ok ts \<and> renamable L d fs ts)"
    using loro_tree.rename_iff [OF assms, of path to] by blast
  show ?thesis
    by (rule loro_tree.rename_refines [OF assms, of path to]) (use r in auto)
qed

theorem fs_rename_refines_witness:
  "\<exists>d'. fs_rename ref_ct demo_fs ''a'' ''c/a'' = Some (Ok d') \<and>
        fsview ref_ct d' = abs_rename (fsview ref_ct demo_fs) [''a''] [''c'', ''a'']"
proof -
  have "renamable ref_ct demo_fs [''a''] [''c'', ''a'']"
    and c: "components ''a'' = Ok [''a'']" "components ''c/a'' = Ok [''c'', ''a'']"
    by code_simp+
  then show ?thesis
    using fs_rename_refines [OF rt.loro_tree_axioms demo_fs_ok demo_fs_tidy, of "''a''" "''c/a''"]
    unfolding c by (auto simp: is_ok_iff)
qed

end
