(* ===== verification/Doc_Fs_Walk.thy ===== *)
theory Doc_Fs_Walk
  imports Doc_Fs_Props
begin

text \<open>
  \<open>walk\<close> and \<open>path_of\<close> of \<open>fs.rs\<close>: the loops end on every valid document, the walk lists each reachable
  path once, and \<open>path_of\<close> inverts \<open>resolve\<close>.
\<close>

section \<open>Paths of components\<close>

definition slash :: "string list \<Rightarrow> string" where
  "slash cs = join_with ''/'' cs"

lemma valid_name_ne: "valid_name c \<Longrightarrow> c \<noteq> [] \<and> CHR ''/'' \<notin> set c"
  by (simp add: valid_name_def)

lemma components_slash:
  assumes "cs \<noteq> []" "list_all valid_name cs"
  shows "components (slash cs) = Ok cs"
proof -
  have "split_on (CHR ''/'') (join_with [CHR ''/''] cs) = cs"
    using assms valid_name_ne by (intro split_join) (auto simp: list_all_iff)
  moreover have "filter (\<lambda>c. c \<noteq> []) cs = cs"
    using assms(2) valid_name_ne by (auto simp: list_all_iff intro: filter_True)
  ultimately show ?thesis using assms(2) by (simp add: components_def slash_def)
qed

lemma components_valid: "components path = Ok cs \<Longrightarrow> list_all valid_name cs"
  by (auto simp: components_def Let_def split: if_splits)

lemma slash_snoc: "cs \<noteq> [] \<Longrightarrow> slash (cs @ [c]) = slash cs @ ''/'' @ c"
  by (simp add: slash_def join_with_snoc)

lemma slash_single: "slash [c] = c"
  by (simp add: slash_def)

section \<open>The walk as a forest\<close>

locale walkable = loro_tree +
  fixes d :: 'a
  assumes okd: "ok d"
begin

definition reachable :: "'b \<times> string \<Rightarrow> bool" where
  "reachable = (\<lambda>(n, path). \<exists>cs. located L d n cs \<and> list_all valid_name cs \<and> path = slash cs)"

definition depth_left :: "'b \<times> string \<Rightarrow> nat" where
  "depth_left = (SOME m. \<forall>n p s t. tr_parent L d n = Some (PNode p) \<longrightarrow> m (n, t) < m (p, s))"

lemma depth_left_step: "tr_parent L d n = Some (PNode p) \<Longrightarrow> depth_left (n, t) < depth_left (p, s)"
proof -
  obtain r N where r: "\<forall>n. r n \<le> (N :: nat)" "\<forall>n p. tr_parent L d n = Some (PNode p) \<longrightarrow> r p < r n"
    using acyclic_finite [OF okd] by blast
  let ?m = "\<lambda>(n, path :: string). N - r n"
  have "\<forall>n p s t. tr_parent L d n = Some (PNode p) \<longrightarrow> ?m (n, t) < ?m (p, s)"
  proof (intro allI impI)
    fix n p s t assume "tr_parent L d n = Some (PNode p)"
    with r(2) have "r p < r n" by blast
    moreover have "r n \<le> N" using r(1) by blast
    ultimately show "?m (n, t) < ?m (p, s)" by simp
  qed
  then have "\<forall>n p s t. tr_parent L d n = Some (PNode p) \<longrightarrow> depth_left (n, t) < depth_left (p, s)"
    unfolding depth_left_def
    by (rule someI [where P = "\<lambda>m. \<forall>n p s t. tr_parent L d n = Some (PNode p) \<longrightarrow> m (n, t) < m (p, s)"])
  then show "tr_parent L d n = Some (PNode p) \<Longrightarrow> ?thesis" by blast
qed

lemma named_node_iff: "named_node L d n = Some c \<longleftrightarrow> ft_name L d n = Some c \<and> valid_name c"
  by (auto simp: named_node_def split: option.splits)

lemma in_walk_succs:
  "(k, s) \<in> set (walk_succs L d (n, path)) \<longleftrightarrow>
     ft_kind L d n = Some Dir \<and> k \<in> set (kids L d (Some n)) \<and>
     (\<exists>c. ft_name L d k = Some c \<and> valid_name c \<and> s = path @ ''/'' @ c)"
  by (auto simp: walk_succs_def in_map_filter kids_def named_node_iff)

lemma reachable_rooted: "reachable (n, path) \<Longrightarrow> rooted L d n"
  using located_rooted okd by (auto simp: reachable_def)

lemma distinct_map_filter_Pair:
  "distinct xs \<Longrightarrow> distinct (List.map_filter (\<lambda>n. map_option (\<lambda>v. (n, g v)) (f n)) xs)"
  by (induction xs) (auto simp: List.map_filter_simps in_map_filter split: option.splits)

end

sublocale walkable \<subseteq> tree_walk: unique_forest "walk_succs L d" reachable depth_left
proof (unfold_locales, goal_cases)
  case (1 x y)
  obtain n path k s where xy: "x = (n, path)" "y = (k, s)" by (cases x, cases y)
  from 1 xy obtain cs where cs: "located L d n cs" "list_all valid_name cs" "path = slash cs"
    by (auto simp: reachable_def)
  from 1(2) xy obtain c where c: "ft_kind L d n = Some Dir" "k \<in> set (kids L d (Some n))"
    "ft_name L d k = Some c" "valid_name c" "s = path @ ''/'' @ c"
    by (auto simp: in_walk_succs)
  have "located L d k (cs @ [c])" using located.sub [OF cs(1) c(1-3)] .
  moreover have "s = slash (cs @ [c])" using slash_snoc [OF located_ne [OF cs(1)]] cs(3) c(5) by simp
  ultimately show ?case using cs(2) c(4) xy(2) by (auto simp: reachable_def)
next
  case (2 x y)
  obtain n path k s where xy: "x = (n, path)" "y = (k, s)" by (cases x, cases y)
  have "place L d (Some n)" using 2(1) reachable_rooted xy(1) by simp
  then have "tr_parent L d k = Some (PNode n)"
    using kids_parent [OF okd, of "Some n" k] 2(2) xy by (simp add: in_walk_succs parent_of_def)
  then show ?case unfolding xy by (rule depth_left_step)
next
  case (3 x)
  obtain n path where x: "x = (n, path)" by (cases x)
  have "distinct (kids L d (Some n))"
    using kids_distinct [OF okd, of "Some n"] reachable_rooted [of n path] 3 x by simp
  then show ?case unfolding x walk_succs_def by (simp add: distinct_map_filter_Pair kids_def)
next
  case (4 x y z)
  obtain n path k s where xy: "x = (n, path)" "y = (k, s)" by (cases x, cases y)
  obtain w t where z: "z = (w, t)" by (cases z)
  have "place L d (Some n)" "place L d (Some k)" using 4(1,2) reachable_rooted xy by auto
  then have "n = k"
    using one_place [OF okd, of "Some n" "Some k" w] 4(3,4) xy z by (auto simp: in_walk_succs)
  moreover have "path = s" using 4(3,4) xy z by (auto simp: in_walk_succs)
  ultimately show ?case using xy by simp
qed

interpretation demo_walk: walkable ref_ct rt_ok demo_fs
  by unfold_locales (rule demo_fs_ok)

section \<open>What the walk lists\<close>

context walkable
begin

lemma walk_reach:
  "(\<exists>x \<in> set (walk_roots L d). tree_walk.reach x y) \<longleftrightarrow> reachable y"
proof
  assume "\<exists>x \<in> set (walk_roots L d). tree_walk.reach x y"
  then obtain n path where x: "(n, path) \<in> set (walk_roots L d)" "tree_walk.reach (n, path) y" by auto
  then have "n \<in> set (kids L d None)" "ft_name L d n = Some path" "valid_name path"
    by (auto simp: walk_roots_def in_map_filter kids_def named_node_iff)
  then have "reachable (n, path)"
    using located.top [of n L d path] slash_single [of path]
    by (auto simp: reachable_def intro: exI [of _ "[path]"])
  with x(2) show "reachable y" by (rule tree_walk.reach_P)
next
  assume y: "reachable y"
  obtain n path where ny: "y = (n, path)" by (cases y)
  with y obtain cs where "located L d n cs" "list_all valid_name cs" "path = slash cs"
    by (auto simp: reachable_def)
  then have "\<exists>x \<in> set (walk_roots L d). tree_walk.reach x (n, path)"
  proof (induction arbitrary: path rule: located.induct)
    case (top n c)
    then have "(n, path) \<in> set (walk_roots L d)"
      by (force simp: walk_roots_def in_map_filter kids_def named_node_iff slash_single)
    then show ?case by blast
  next
    case (sub p cs n c)
    then obtain x where x: "x \<in> set (walk_roots L d)" "tree_walk.reach x (p, slash cs)" by auto
    have "(n, path) \<in> set (walk_succs L d (p, slash cs))"
      using sub located_ne [OF sub(1)] by (simp add: in_walk_succs slash_snoc)
    then have "succ_rel (walk_succs L d) (p, slash cs) (n, path)" by (simp add: succ_rel_def)
    with x show ?case by (blast intro: rtranclp.rtrancl_into_rtrancl)
  qed
  with ny show "\<exists>x \<in> set (walk_roots L d). tree_walk.reach x y" by simp
qed

lemma roots_reachable: "x \<in> set (walk_roots L d) \<Longrightarrow> reachable x"
  using walk_reach by blast

lemma walk_roots_top:
  assumes "x \<in> set (walk_roots L d)" "reachable y"
  shows "x \<notin> set (walk_succs L d y)"
proof
  assume s: "x \<in> set (walk_succs L d y)"
  obtain n path k t where xy: "x = (n, path)" "y = (k, t)" by (cases x, cases y)
  have "n \<in> set (kids L d None)" using assms(1) xy by (auto simp: walk_roots_def in_map_filter kids_def)
  moreover have "n \<in> set (kids L d (Some k))" using s xy by (simp add: in_walk_succs)
  moreover have "place L d (Some k)" using assms(2) reachable_rooted xy by simp
  ultimately show False using one_place [OF okd, of None "Some k" n] by simp
qed

lemma walk_visits:
  "\<exists>l. dfs (walk_succs L d) (rev (walk_roots L d)) [] = Some l \<and> set l = {y. reachable y} \<and> distinct l"
proof -
  have "distinct (walk_roots L d)"
    using kids_distinct [OF okd, of None]
    unfolding walk_roots_def by (simp add: kids_def distinct_map_filter_Pair [where g = id, simplified])
  then have "\<exists>l. dfs (walk_succs L d) (rev (walk_roots L d)) [] = Some ([] @ l) \<and>
      set l = (\<Union>x \<in> set (rev (walk_roots L d)). {y. tree_walk.reach x y}) \<and> distinct l"
    using roots_reachable walk_roots_top by (intro tree_walk.visits_all_distinct) auto
  then show ?thesis using walk_reach by auto
qed

text \<open>On a tidy tree the pairs of the walk are a map from canonical paths.\<close>

lemma walk_lists:
  assumes "tidy L d"
  shows "\<exists>out. walk L d = Some out \<and> distinct (map fst out) \<and>
           (\<forall>path e. (path, e) \<in> set out \<longleftrightarrow>
              stat L d path = Ok e \<and> components path \<noteq> Ok [] \<and> (\<forall>cs. components path = Ok cs \<longrightarrow> path = slash cs))"
proof -
  obtain l where l: "dfs (walk_succs L d) (rev (walk_roots L d)) [] = Some l"
    "set l = {y. reachable y}" "distinct l" using walk_visits by blast
  let ?out = "map (\<lambda>(n, path). (path, entry_of L d n)) l"
  have same: "n = k" if "reachable (n, path)" "reachable (k, path)" for n k path
  proof -
    from that obtain cs ds where *: "located L d n cs" "list_all valid_name cs" "path = slash cs"
      "located L d k ds" "list_all valid_name ds" "path = slash ds" by (auto simp: reachable_def)
    have "components path = Ok cs" "components path = Ok ds"
      using components_slash [OF located_ne [OF *(1)] *(2)] components_slash [OF located_ne [OF *(4)] *(5)] *(3,6)
      by simp_all
    then have "cs = ds" by simp
    with * located_same [OF okd assms] show ?thesis by simp
  qed
  have "distinct (map fst ?out)"
    using l(2,3) same by (auto simp: distinct_map inj_on_def comp_def)
  moreover have "(path, e) \<in> set ?out \<longleftrightarrow> (\<exists>n. reachable (n, path) \<and> e = entry_of L d n)" for path e
    using l(2) by force
  moreover have "(\<exists>n. reachable (n, path) \<and> e = entry_of L d n) \<longleftrightarrow>
      stat L d path = Ok e \<and> components path \<noteq> Ok [] \<and> (\<forall>cs. components path = Ok cs \<longrightarrow> path = slash cs)" for path e
  proof -
    have "reachable (n, path) \<longleftrightarrow>
        resolve L d path = Ok n \<and> components path \<noteq> Ok [] \<and> (\<forall>cs. components path = Ok cs \<longrightarrow> path = slash cs)" for n
    proof
      assume "reachable (n, path)"
      then obtain cs where cs: "located L d n cs" "list_all valid_name cs" "path = slash cs"
        by (auto simp: reachable_def)
      then have "components path = Ok cs" "cs \<noteq> []"
        using components_slash [OF located_ne [OF cs(1)] cs(2)] located_ne by simp_all
      moreover have "resolve L d path = Ok n"
        using resolve_iff [OF okd assms] fsview_located [OF okd assms] calculation(1) cs(1) by blast
      ultimately show "resolve L d path = Ok n \<and> components path \<noteq> Ok [] \<and>
          (\<forall>cs. components path = Ok cs \<longrightarrow> path = slash cs)" using cs(3) by simp
    next
      assume r: "resolve L d path = Ok n \<and> components path \<noteq> Ok [] \<and>
          (\<forall>cs. components path = Ok cs \<longrightarrow> path = slash cs)"
      then obtain cs where "components path = Ok cs" "located L d n cs" using resolve_Ok by blast
      with r components_valid [of path cs] show "reachable (n, path)" by (auto simp: reachable_def)
    qed
    then show ?thesis by (auto simp: stat_def split: sum.splits)
  qed
  ultimately show ?thesis using l(1) by (intro exI [of _ ?out]) (simp add: walk_def)
qed

section \<open>Paths of nodes\<close>

lemma path_loop_step:
  "path_loop L d n parts =
     (case named_node L d n of
        None \<Rightarrow> Some None
      | Some name \<Rightarrow>
          (case tr_parent L d n of
             Some (PNode p) \<Rightarrow> path_loop L d p (name # parts)
           | Some PRoot \<Rightarrow> Some (Some (name # parts))
           | _ \<Rightarrow> Some None))"
  by (subst path_loop.simps) (auto split: option.split tree_parent.split)

lemma path_loop_ends: "\<exists>r. path_loop L d n parts = Some r \<and> (\<forall>ps. r = Some ps \<longrightarrow> rooted L d n)"
proof -
  obtain r N where r: "\<forall>n. r n \<le> (N :: nat)" "\<forall>n p. tr_parent L d n = Some (PNode p) \<longrightarrow> r p < r n"
    using acyclic_finite [OF okd] by blast
  show ?thesis
  proof (induction "r n" arbitrary: n parts rule: less_induct)
    case less
    show ?case
    proof (cases "tr_parent L d n")
      case (Some par)
      show ?thesis
      proof (cases par)
        case (PNode p)
        with Some r(2) have "r p < r n" by blast
        from less [OF this] show ?thesis
          using Some PNode by (subst path_loop_step) (fastforce split: option.splits intro: rooted.child)
      next
        case PRoot
        with Some show ?thesis by (subst path_loop_step) (auto split: option.split intro: rooted.root)
      qed (use Some in \<open>subst path_loop_step, auto split: option.split\<close>)+
    qed (subst path_loop_step, auto split: option.split)
  qed
qed

lemma located_path_loop:
  "located L d n cs \<Longrightarrow> list_all valid_name cs \<Longrightarrow> path_loop L d n parts = Some (Some (cs @ parts))"
proof (induction arbitrary: parts rule: located.induct)
  case (top n c)
  then have "tr_parent L d n = Some PRoot" "named_node L d n = Some c"
    using kids_parent [OF okd, of None n] by (simp_all add: parent_of_def named_node_iff)
  then show ?case by (subst path_loop_step) simp
next
  case (sub p cs n c)
  have "place L d (Some p)" using located_rooted [OF sub(1) okd] by simp
  then have "tr_parent L d n = Some (PNode p)" "named_node L d n = Some c"
    using kids_parent [OF okd, of "Some p" n] sub by (simp_all add: parent_of_def named_node_iff)
  then show ?case using sub by (subst path_loop_step) simp
qed

lemma path_of_resolves:
  assumes "tidy L d"
  shows "\<exists>r. path_of L d n = Some r \<and> (\<forall>path. r = Some path \<longrightarrow> rooted L d n) \<and>
           (\<forall>cs. fsview L d cs = Some n \<longrightarrow> list_all valid_name cs \<longrightarrow> r = Some (slash cs) \<and>
                 resolve L d (slash cs) = Ok n)"
proof -
  from path_loop_ends [of n "[]"] obtain r where
    r: "path_loop L d n [] = Some r" "\<forall>ps. r = Some ps \<longrightarrow> rooted L d n" by blast
  show ?thesis
  proof (intro exI [of _ "map_option (join_with ''/'') r"] conjI allI impI)
    show "path_of L d n = Some (map_option (join_with ''/'') r)" using r(1) by (simp add: path_of_def)
    show "rooted L d n" if "map_option (join_with ''/'') r = Some path" for path using r(2) that by auto
    fix cs assume cs: "fsview L d cs = Some n" "list_all valid_name cs"
    then have n: "located L d n cs" using fsview_located [OF okd assms] by simp
    show "map_option (join_with ''/'') r = Some (slash cs)"
      using located_path_loop [OF n cs(2), of "[]"] r(1) by (simp add: slash_def)
    show "resolve L d (slash cs) = Ok n"
      using resolve_iff [OF okd assms] components_slash [OF located_ne [OF n] cs(2)] cs(1) by blast
  qed
qed

end

section \<open>Properties\<close>

text \<open>
  C10. The walk ends on every valid document; when sibling names are distinct it lists every path in
  normal form on which \<open>stat\<close> succeeds, once each, with the entry \<open>stat\<close> returns, and nothing else.
\<close>

theorem walk_lists_paths:
  assumes "loro_tree L dwf" "dwf d" "tidy L d"
  shows "\<exists>out. walk L d = Some out \<and> distinct (map fst out) \<and>
           (\<forall>path e. (path, e) \<in> set out \<longleftrightarrow>
              stat L d path = Ok e \<and> components path \<noteq> Ok [] \<and>
              (\<forall>cs. components path = Ok cs \<longrightarrow> path = join_with ''/'' cs))"
proof -
  have "walkable L dwf d" using assms(1,2) by (simp add: walkable_def walkable_axioms_def)
  from walkable.walk_lists [OF this assms(3)] show ?thesis by (simp add: slash_def)
qed

theorem walk_lists_paths_witness:
  "\<exists>out. walk ref_ct demo_fs = Some out \<and> distinct (map fst out) \<and> (''a/b'', entry_of ref_ct demo_fs 1) \<in> set out"
proof -
  have s: "stat ref_ct demo_fs ''a/b'' = Ok (entry_of ref_ct demo_fs 1)"
    and c: "components ''a/b'' = Ok [''a'', ''b'']" and j: "join_with ''/'' [''a'', ''b''] = ''a/b''"
    by code_simp+
  obtain out where out: "walk ref_ct demo_fs = Some out" "distinct (map fst out)"
    "\<forall>path e. (path, e) \<in> set out \<longleftrightarrow>
       stat ref_ct demo_fs path = Ok e \<and> components path \<noteq> Ok [] \<and>
       (\<forall>cs. components path = Ok cs \<longrightarrow> path = join_with ''/'' cs)"
    using walk_lists_paths [OF rt.loro_tree_axioms demo_fs_ok demo_fs_tidy] by blast
  have "(''a/b'', entry_of ref_ct demo_fs 1) \<in> set out"
    unfolding out(3) [rule_format] using s by (simp add: c j)
  with out(1,2) show ?thesis by blast
qed

text \<open>
  C11. \<open>path_of\<close> ends for every node of a valid document.  It has an answer only for nodes that are not
  deleted, also through an ancestor; for a node found at a valid path the answer is that path in
  normal form, and resolving the answer gives the node back.
\<close>

theorem path_of_inverts_resolve:
  assumes "loro_tree L dwf" "dwf d" "tidy L d"
  shows "\<exists>r. path_of L d n = Some r \<and> (r \<noteq> None \<longrightarrow> ft_alive L d n) \<and>
           (\<forall>path cs. resolve L d path = Ok n \<and> components path = Ok cs \<longrightarrow>
              r = Some (join_with ''/'' cs) \<and> resolve L d (join_with ''/'' cs) = Ok n)"
proof -
  have "walkable L dwf d" using assms(1,2) by (simp add: walkable_def walkable_axioms_def)
  from walkable.path_of_resolves [OF this assms(3), of n] obtain r where
    r: "path_of L d n = Some r" "\<forall>path. r = Some path \<longrightarrow> rooted L d n"
    "\<forall>cs. fsview L d cs = Some n \<longrightarrow> list_all valid_name cs \<longrightarrow> r = Some (slash cs) \<and> resolve L d (slash cs) = Ok n"
    by blast
  have "r \<noteq> None \<longrightarrow> ft_alive L d n"
    using r(2) loro_tree.alive_rooted [OF assms(1,2)] by (auto simp: ft_alive_def)
  moreover have "resolve L d path = Ok n \<and> components path = Ok cs \<Longrightarrow>
      r = Some (join_with ''/'' cs) \<and> resolve L d (join_with ''/'' cs) = Ok n" for path cs
    using r(3) loro_tree.resolve_iff [OF assms, of path n] components_valid [of path cs] by (auto simp: slash_def)
  ultimately show ?thesis using r(1) by blast
qed

theorem path_of_inverts_resolve_witness:
  "path_of ref_ct demo_fs 1 = Some (Some ''a/b'')"
proof -
  have "resolve ref_ct demo_fs ''/a//b'' = Ok 1 \<and> components ''/a//b'' = Ok [''a'', ''b'']"
    and j: "join_with ''/'' [''a'', ''b''] = ''a/b''"
    by code_simp+
  with path_of_inverts_resolve [OF rt.loro_tree_axioms demo_fs_ok demo_fs_tidy, of 1] show ?thesis by metis
qed

end
