(* ===== verification/Doc_Fs_Events.thy ===== *)
theory Doc_Fs_Events
  imports Doc_Fs_Walk
begin

text \<open>
  The rest of \<open>fs.rs\<close>: the node-keyed changes \<open>DocFs::subscribe\<close> derives from Loro's diffs, and
  \<open>read_bytes\<close>, the read of an arbitrary byte range of a text.
\<close>

section \<open>Changes\<close>

datatype 'n change = Created 'n | Moved 'n | Removed 'n | Content 'n

text \<open>
  Loro's event, as far as it is looked at: \<open>Index\<close> of a path, the external tree diff, the updated keys
  of a map diff.
\<close>

datatype 'n index = IKey string | ISeq nat | INode 'n

datatype tree_action = ACreate | AMove | ADelete

datatype 'n diff = DTree "('n \<times> tree_action) list" | DMap "string list" | DText | DOther

record ('c, 'n) container_diff =
  cd_target :: 'c
  cd_path :: "('c \<times> 'n index) list"
  cd_diff :: "'n diff"

definition node_in_path :: "('c \<times> 'n index) list \<Rightarrow> 'n option" where
  "node_in_path path = find_map (\<lambda>(_, index). case index of INode n \<Rightarrow> Some n | _ \<Rightarrow> None) (rev path)"

definition in_tree :: "'c \<Rightarrow> ('c, 'n) container_diff \<Rightarrow> bool" where
  "in_tree flt df \<longleftrightarrow>
     cd_target df = flt \<or> (case cd_path df of [] \<Rightarrow> False | (i, _) # _ \<Rightarrow> i = flt)"

definition action_change :: "'n \<times> tree_action \<Rightarrow> 'n change" where
  "action_change = (\<lambda>(n, a). case a of ACreate \<Rightarrow> Created n | AMove \<Rightarrow> Moved n | ADelete \<Rightarrow> Removed n)"

definition diff_changes :: "('c, 'n) container_diff \<Rightarrow> 'n change list" where
  "diff_changes df =
     (case cd_diff df of
        DTree items \<Rightarrow> map action_change items
      | DMap updated \<Rightarrow>
          (case node_in_path (cd_path df) of
             Some n \<Rightarrow> if ''name'' \<in> set updated then [Moved n] else []
           | None \<Rightarrow> [])
      | DText \<Rightarrow> (case node_in_path (cd_path df) of Some n \<Rightarrow> [Content n] | None \<Rightarrow> [])
      | DOther \<Rightarrow> [])"

definition created_nodes :: "'n change list \<Rightarrow> 'n list" where
  "created_nodes cs = List.map_filter (\<lambda>c. case c of Created n \<Rightarrow> Some n | _ \<Rightarrow> None) cs"

definition retained :: "'n list \<Rightarrow> 'n change \<Rightarrow> bool" where
  "retained created c = (case c of
     Moved n \<Rightarrow> n \<notin> set created
   | Content n \<Rightarrow> n \<notin> set created
   | _ \<Rightarrow> True)"

definition event_changes :: "'c \<Rightarrow> ('c, 'n) container_diff list \<Rightarrow> 'n change list" where
  "event_changes flt events =
     (let changes = concat (map diff_changes (filter (in_tree flt) events))
      in dedup (filter (retained (created_nodes changes)) changes))"

text \<open>The callback's argument, when it is called.\<close>

definition subscribe_calls :: "'c \<Rightarrow> ('c, 'n) container_diff list \<Rightarrow> 'n change list option" where
  "subscribe_calls flt events =
     (let changes = event_changes flt events in if changes = [] then None else Some changes)"

section \<open>Byte ranges of a text\<close>

definition delta_bytes :: "text_delta list \<Rightarrow> bytes" where
  "delta_bytes delta = concat (map (\<lambda>p. case p of TInsert s \<Rightarrow> s | TOther \<Rightarrow> []) delta)"

text \<open>
  One candidate pair of boundaries.  The inner option is \<open>None\<close> where indexing the bytes would
  panic.
\<close>

definition read_widened ::
    "('d, 'n, 't, 'm) loro_ct \<Rightarrow> 'd \<Rightarrow> 't \<Rightarrow> nat \<Rightarrow> nat \<Rightarrow> nat \<times> nat \<Rightarrow> bytes option option" where
  "read_widened L d t offset finish = (\<lambda>(widen_start, widen_end).
     let start = offset - widen_start;
         stop = min (length (tx_str L d t)) (finish + widen_end)
     in case tx_slice_bytes L d t start stop of
          None \<Rightarrow> None
        | Some delta \<Rightarrow>
            (let bs = delta_bytes delta; a = offset - start; b = a + (finish - offset)
             in Some (if b \<le> length bs then Some (take (b - a) (drop a bs)) else None)))"

definition read_bytes ::
    "('d, 'n, 't, 'm) loro_ct \<Rightarrow> 'd \<Rightarrow> 't \<Rightarrow> nat \<Rightarrow> nat \<Rightarrow> bytes option" where
  "read_bytes L d t offset sz =
     (let len = length (tx_str L d t)
      in if offset \<ge> len \<or> sz = 0 then Some []
         else (case find_map (read_widened L d t offset (min len (offset + sz)))
                      (List.product [0..<4] [0..<4]) of
                 None \<Rightarrow> Some []
               | Some r \<Rightarrow> r))"

section \<open>Character boundaries\<close>

lemma block_back:
  assumes "\<forall>b \<in> set bs. b \<noteq> [] \<and> length b \<le> 4 \<and> \<not> P (hd b)" "i < length (concat bs)"
  shows "\<exists>k < 4. k \<le> i \<and> \<not> P (concat bs ! (i - k))"
  using assms
proof (induction bs arbitrary: i)
  case (Cons b bs)
  show ?case
  proof (cases "i < length b")
    case True
    then have "concat (b # bs) ! 0 = hd b" using Cons.prems(1) by (simp add: nth_append hd_conv_nth)
    with True Cons.prems(1) show ?thesis by (intro exI [of _ i]) auto
  next
    case False
    then have "i - length b < length (concat bs)" using Cons.prems(2) by simp
    with Cons.IH [of "i - length b"] Cons.prems(1) have
      "\<exists>k < 4. k \<le> i - length b \<and> \<not> P (concat bs ! (i - length b - k))" by simp
    then obtain k where "k < 4" "k \<le> i - length b" "\<not> P (concat bs ! (i - length b - k))" by blast
    moreover have "length b \<le> i - k" "i - k - length b = i - length b - k"
      using calculation(2) False by simp_all
    ultimately show ?thesis using False by (intro exI [of _ k]) (simp add: nth_append)
  qed
qed simp

lemma block_forward:
  assumes "\<forall>b \<in> set bs. b \<noteq> [] \<and> length b \<le> 4 \<and> \<not> P (hd b)" "i \<le> length (concat bs)"
  shows "\<exists>k < 4. i + k \<le> length (concat bs) \<and> (i + k < length (concat bs) \<longrightarrow> \<not> P (concat bs ! (i + k)))"
  using assms
proof (induction bs arbitrary: i)
  case (Cons b bs)
  have b: "0 < length b" "length b \<le> 4" "\<not> P (b ! 0)" using Cons.prems(1) by (auto simp: hd_conv_nth)
  show ?case
  proof (cases "i < length b")
    case True
    show ?thesis
    proof (cases "i = 0")
      case True
      with b show ?thesis by (intro exI [of _ 0]) (simp add: nth_append)
    next
      case False
      have "concat (b # bs) ! length b = hd (hd bs)" if "bs \<noteq> []"
        using that Cons.prems(1) by (cases bs) (auto simp: nth_append hd_conv_nth)
      moreover have "bs \<noteq> [] \<Longrightarrow> \<not> P (hd (hd bs))" using Cons.prems(1) by (cases bs) auto
      ultimately show ?thesis
        using True False b by (intro exI [of _ "length b - i"]) (cases "bs = []", auto)
    qed
  next
    case False
    then have "i - length b \<le> length (concat bs)" using Cons.prems(2) by simp
    with Cons.IH [of "i - length b"] Cons.prems(1) have
      "\<exists>k < 4. i - length b + k \<le> length (concat bs) \<and>
         (i - length b + k < length (concat bs) \<longrightarrow> \<not> P (concat bs ! (i - length b + k)))" by simp
    then obtain k where "k < 4" "i - length b + k \<le> length (concat bs)"
      "i - length b + k < length (concat bs) \<longrightarrow> \<not> P (concat bs ! (i - length b + k))" by blast
    with False show ?thesis by (intro exI [of _ k]) (auto simp: nth_append)
  qed
qed simp

lemma utf8_char_block: "scalar c \<Longrightarrow> utf8_char c \<noteq> [] \<and> length (utf8_char c) \<le> 4 \<and> \<not> cont (hd (utf8_char c))"
  by (auto simp: utf8_char_def cont_def scalar_def)

lemma valid_blocks:
  assumes "valid_utf8 s"
  obtains bs where "byte_list s = concat bs" "\<forall>b \<in> set bs. b \<noteq> [] \<and> length b \<le> 4 \<and> \<not> cont (hd b)"
proof -
  obtain cs where "list_all scalar cs" "s = utf8_encode cs"
    using assms chars_of_iff unfolding valid_utf8_def by blast
  then have "byte_list s = concat (map utf8_char cs)" using byte_list_encode by blast
  moreover have "\<forall>b \<in> set (map utf8_char cs). b \<noteq> [] \<and> length b \<le> 4 \<and> \<not> cont (hd b)"
    using utf8_char_block \<open>list_all scalar cs\<close> by (auto simp: list_all_iff)
  ultimately show thesis by (rule that)
qed

lemma boundary_near:
  assumes "valid_utf8 s" "i \<le> length s"
  shows "\<exists>k < 4. boundary s (i - k)" "\<exists>k < 4. boundary s (min (length s) (i + k))"
proof -
  obtain bs where bs: "byte_list s = concat bs" "\<forall>b \<in> set bs. b \<noteq> [] \<and> length b \<le> 4 \<and> \<not> cont (hd b)"
    using valid_blocks [OF assms(1)] by blast
  have len: "length (concat bs) = length s" using bs(1) by (metis byte_list_def length_map)
  have nth: "of_char (s ! j) = concat bs ! j" if "j < length s" for j
    using that by (simp add: bs(1) [symmetric] byte_list_def)
  show "\<exists>k < 4. boundary s (i - k)"
  proof (cases "i = length s")
    case True
    then show ?thesis by (intro exI [of _ 0]) (simp add: boundary_def)
  next
    case False
    with assms(2) len have "i < length (concat bs)" by simp
    from block_back [OF bs(2) this] obtain k where "k < 4" "k \<le> i" "\<not> cont (concat bs ! (i - k))" by blast
    moreover have "i - k < length s" using False assms(2) by simp
    ultimately show ?thesis using nth [of "i - k"] by (intro exI [of _ k]) (simp add: boundary_def)
  qed
  from block_forward [OF bs(2), of i] assms(2) len obtain k where
    "k < 4" "i + k \<le> length s" "i + k < length s \<longrightarrow> \<not> cont (concat bs ! (i + k))" by auto
  with nth [of "i + k"] show "\<exists>k < 4. boundary s (min (length s) (i + k))"
    by (intro exI [of _ k]) (auto simp: boundary_def)
qed

section \<open>What is read\<close>

text \<open>
  Loro cuts a text only at character boundaries; the pieces of a cut, with whatever attributes they
  carry, are the bytes of the range.
\<close>

lemma take_drop_within:
  assumes "a \<le> m" "m \<le> f" "f \<le> b"
  shows "take (f - m) (drop (m - a) (take (b - a) (drop a xs))) = take (f - m) (drop m xs)"
proof -
  have "drop (m - a) (take (b - a) (drop a xs)) = take (b - m) (drop m xs)"
    using assms by (simp add: drop_take)
  then show ?thesis using assms by (simp add: min_absorb1)
qed

locale sliced_text =
  fixes L :: "('d, 'n, 't, 'm) loro_ct" and d :: 'd and t :: 't
  assumes utf8: "valid_utf8 (tx_str L d t)"
    and slice: "a \<le> b \<Longrightarrow> b \<le> length (tx_str L d t) \<Longrightarrow>
      (case tx_slice_bytes L d t a b of
         None \<Rightarrow> \<not> (boundary (tx_str L d t) a \<and> boundary (tx_str L d t) b)
       | Some delta \<Rightarrow> delta_bytes delta = take (b - a) (drop a (tx_str L d t)))"
begin

lemma read_widened_exact:
  assumes "offset \<le> finish" "finish \<le> length (tx_str L d t)" "read_widened L d t offset finish w = Some r"
  shows "r = Some (take (finish - offset) (drop offset (tx_str L d t)))"
proof -
  obtain ws we where w: "w = (ws, we)" by (cases w)
  define s where "s = tx_str L d t"
  define a where "a = offset - ws"
  define b where "b = min (length s) (finish + we)"
  have ab: "a \<le> offset" "finish \<le> b" "a \<le> b" "b \<le> length s"
    using assms(1,2) by (auto simp: a_def b_def s_def)
  from assms(3) w obtain delta where delta: "tx_slice_bytes L d t a b = Some delta"
    by (auto simp: read_widened_def Let_def a_def b_def s_def split: option.splits)
  with slice [of a b] ab(3,4) have bs: "delta_bytes delta = take (b - a) (drop a s)" by (simp add: s_def)
  have len: "offset - a + (finish - offset) \<le> length (take (b - a) (drop a s))"
    using assms(1) ab by auto
  have "Some r = Some (if offset - a + (finish - offset) \<le> length (delta_bytes delta)
      then Some (take (offset - a + (finish - offset) - (offset - a)) (drop (offset - a) (delta_bytes delta)))
      else None)"
    using assms(3) delta unfolding w read_widened_def Let_def prod.case
      a_def [symmetric] s_def [symmetric] b_def [symmetric] by simp
  moreover have "offset - a + (finish - offset) - (offset - a) = finish - offset" by simp
  ultimately have "r = Some (take (finish - offset) (drop (offset - a) (take (b - a) (drop a s))))"
    unfolding bs using len by (simp del: length_take length_drop)
  moreover have "take (finish - offset) (drop (offset - a) (take (b - a) (drop a s))) =
      take (finish - offset) (drop offset s)"
    using assms(1) ab by (intro take_drop_within) auto
  ultimately show ?thesis by (simp add: s_def)
qed

lemma read_widened_some:
  assumes "offset \<le> finish" "finish \<le> length (tx_str L d t)"
  shows "\<exists>w \<in> set (List.product [0..<4] [0..<4]). read_widened L d t offset finish w \<noteq> None"
proof -
  obtain ws where ws: "ws < 4" "boundary (tx_str L d t) (offset - ws)"
    using boundary_near(1) [OF utf8, of offset] assms by auto
  obtain we where we: "we < 4" "boundary (tx_str L d t) (min (length (tx_str L d t)) (finish + we))"
    using boundary_near(2) [OF utf8, of finish] assms by auto
  have "offset - ws \<le> min (length (tx_str L d t)) (finish + we)" using assms by auto
  with slice [of "offset - ws" "min (length (tx_str L d t)) (finish + we)"] ws(2) we(2)
  have "tx_slice_bytes L d t (offset - ws) (min (length (tx_str L d t)) (finish + we)) \<noteq> None"
    by (auto split: option.splits)
  then have "read_widened L d t offset finish (ws, we) \<noteq> None"
    by (auto simp: read_widened_def Let_def)
  with ws(1) we(1) show ?thesis by force
qed

lemma read_bytes_exact: "read_bytes L d t offset sz = Some (take sz (drop offset (tx_str L d t)))"
proof (cases "offset \<ge> length (tx_str L d t) \<or> sz = 0")
  case False
  let ?finish = "min (length (tx_str L d t)) (offset + sz)"
  have le: "offset \<le> ?finish" "?finish \<le> length (tx_str L d t)" using False by auto
  obtain r where r: "find_map (read_widened L d t offset ?finish) (List.product [0..<4] [0..<4]) = Some r"
    using read_widened_some [OF le] find_map_None by (metis option.exhaust)
  from find_map_Some_in [OF this] read_widened_exact [OF le] have
    "r = Some (take (?finish - offset) (drop offset (tx_str L d t)))" by blast
  moreover have "take (?finish - offset) (drop offset (tx_str L d t)) = take sz (drop offset (tx_str L d t))"
    by (auto simp: min_def)
  ultimately show ?thesis using False r by (simp add: read_bytes_def Let_def)
qed (auto simp: read_bytes_def)

end

text \<open>A text of the concrete store, with characters of one to four bytes.\<close>

definition demo_text :: rtree where
  "demo_text = rt_set rt_empty 0 (utf8_encode [0x41, 0x20AC, 0xE9, 0x1F600])"

lemma demo_text_str: "rt_str demo_text 0 = utf8_encode [0x41, 0x20AC, 0xE9, 0x1F600]"
  by (simp add: demo_text_def rt_set_def rt_str_def)

interpretation demo_slice: sliced_text ref_ct demo_text 0
proof unfold_locales
  have "list_all scalar [0x41, 0x20AC, 0xE9, 0x1F600]" by (simp add: scalar_def)
  then show "valid_utf8 (tx_str ref_ct demo_text 0)"
    by (simp add: demo_text_str valid_utf8_def)
qed (simp add: ref_ct_def delta_bytes_def)

section \<open>Properties\<close>

text \<open>
  C12. Reading bytes of a text at any offset, also inside a character or past the end, gives exactly
  that range clamped to the text, and never panics: of the sixteen widened ranges one is cut at
  character boundaries, and the bytes trimmed from any that Loro accepts are the asked ones.
\<close>

theorem read_bytes_range:
  assumes "sliced_text L d t"
  shows "read_bytes L d t offset sz = Some (take sz (drop offset (tx_str L d t)))"
  by (rule sliced_text.read_bytes_exact [OF assms])

theorem read_bytes_range_witness:
  "read_bytes ref_ct demo_text 0 2 3 = Some (take 3 (drop 2 (utf8_encode [0x41, 0x20AC, 0xE9, 0x1F600])))"
  using read_bytes_range [OF demo_slice.sliced_text_axioms, of 2 3] by (simp add: demo_text_str)

lemma in_created_nodes: "n \<in> set (created_nodes cs) \<longleftrightarrow> Created n \<in> set cs"
proof
  assume "Created n \<in> set cs"
  then show "n \<in> set (created_nodes cs)"
    unfolding created_nodes_def in_map_filter by (intro bexI [of _ "Created n"]) simp_all
next
  assume "n \<in> set (created_nodes cs)"
  then obtain c where "c \<in> set cs" "(case c of Created n \<Rightarrow> Some n | _ \<Rightarrow> None) = Some n"
    unfolding created_nodes_def in_map_filter by blast
  then show "Created n \<in> set cs" by (auto split: change.splits)
qed

lemma in_changes:
  "c \<in> set (event_changes flt events) \<longleftrightarrow>
     (\<exists>df \<in> set events. in_tree flt df \<and> c \<in> set (diff_changes df)) \<and>
     (\<forall>n. c = Moved n \<or> c = Content n \<longrightarrow>
        \<not> (\<exists>df \<in> set events. in_tree flt df \<and> Created n \<in> set (diff_changes df)))"
  by (cases c) (auto simp: event_changes_def Let_def retained_def in_created_nodes)

lemma dedup_adjacent: "Suc i < length (dedup xs) \<Longrightarrow> dedup xs ! i \<noteq> dedup xs ! Suc i"
proof (induction xs arbitrary: i rule: dedup.induct)
  case (3 x y ys)
  have hd: "dedup (z # zs) ! 0 = z \<and> dedup (z # zs) \<noteq> []" for z :: 'a and zs
    by (induction zs arbitrary: z) auto
  show ?case
  proof (cases "x = y")
    case True
    with 3 show ?thesis by simp
  next
    case False
    with 3 hd [of y ys] show ?thesis by (cases i) auto
  qed
qed auto

text \<open>
  What a batch of diffs did to the file tree, read off the diffs alone: the node a diff below the tree is about
  is the one its path names last.
\<close>

definition about_tree :: "'c \<Rightarrow> ('c, 'n) container_diff \<Rightarrow> bool" where
  "about_tree flt df \<longleftrightarrow> cd_target df = flt \<or> (\<exists>index rest. cd_path df = (flt, index) # rest)"

definition about_node :: "('c, 'n) container_diff \<Rightarrow> 'n \<Rightarrow> bool" where
  "about_node df n \<longleftrightarrow>
     (\<exists>above c below. cd_path df = above @ (c, INode n) # below \<and> (\<forall>k. INode k \<notin> snd ` set below))"

inductive did :: "'c \<Rightarrow> ('c, 'n) container_diff list \<Rightarrow> 'n change \<Rightarrow> bool" for flt events where
  made: "df \<in> set events \<Longrightarrow> about_tree flt df \<Longrightarrow> cd_diff df = DTree items \<Longrightarrow> (n, ACreate) \<in> set items \<Longrightarrow>
           did flt events (Created n)"
| displaced: "df \<in> set events \<Longrightarrow> about_tree flt df \<Longrightarrow> cd_diff df = DTree items \<Longrightarrow> (n, AMove) \<in> set items \<Longrightarrow>
           did flt events (Moved n)"
| renamed: "df \<in> set events \<Longrightarrow> about_tree flt df \<Longrightarrow> cd_diff df = DMap ks \<Longrightarrow> ''name'' \<in> set ks \<Longrightarrow>
           about_node df n \<Longrightarrow> did flt events (Moved n)"
| deleted: "df \<in> set events \<Longrightarrow> about_tree flt df \<Longrightarrow> cd_diff df = DTree items \<Longrightarrow> (n, ADelete) \<in> set items \<Longrightarrow>
           did flt events (Removed n)"
| edited: "df \<in> set events \<Longrightarrow> about_tree flt df \<Longrightarrow> cd_diff df = DText \<Longrightarrow> about_node df n \<Longrightarrow>
           did flt events (Content n)"

lemma about_tree_iff: "in_tree flt df \<longleftrightarrow> about_tree flt df"
  by (auto simp: in_tree_def about_tree_def split: list.splits)

lemma last_named:
  "find_map (\<lambda>(_, index). case index of INode n \<Rightarrow> Some n | _ \<Rightarrow> None) (rev path) = Some n \<longleftrightarrow>
     (\<exists>above c below. path = above @ (c, INode n) # below \<and> (\<forall>k. INode k \<notin> snd ` set below))"
proof (induction path rule: rev_induct)
  case (snoc x path)
  obtain c index where x: "x = (c, index)" by (cases x)
  show ?case
  proof (cases "\<exists>k. index = INode k")
    case True
    then obtain k where k: "index = INode k" by blast
    have "n = k" if "path @ [x] = above @ (c', INode n) # below" "\<forall>k. INode k \<notin> snd ` set below" for above c' below
      using that x k by (cases below rule: rev_cases) auto
    moreover have "\<exists>above c' below. path @ [x] = above @ (c', INode k) # below \<and> (\<forall>k. INode k \<notin> snd ` set below)"
      using x k by (intro exI [of _ path] exI [of _ c] exI [of _ "[]"]) simp
    ultimately show ?thesis using x k by auto
  next
    case False
    have "(\<exists>above c' below. path @ [x] = above @ (c', INode n) # below \<and> (\<forall>k. INode k \<notin> snd ` set below)) \<longleftrightarrow>
          (\<exists>above c' below. path = above @ (c', INode n) # below \<and> (\<forall>k. INode k \<notin> snd ` set below))" (is "?l \<longleftrightarrow> ?r")
    proof
      assume ?l
      then obtain above c' below where *: "path @ [x] = above @ (c', INode n) # below" "\<forall>k. INode k \<notin> snd ` set below"
        by blast
      with x False obtain below' where "below = below' @ [x]" by (cases below rule: rev_cases) auto
      with * have "path = above @ (c', INode n) # below'" "\<forall>k. INode k \<notin> snd ` set below'" by auto
      then show ?r by blast
    next
      assume ?r
      then obtain above c' below where *: "path = above @ (c', INode n) # below" "\<forall>k. INode k \<notin> snd ` set below" by blast
      with x False have "path @ [x] = above @ (c', INode n) # (below @ [x])" "\<forall>k. INode k \<notin> snd ` set (below @ [x])" by auto
      then show ?l by blast
    qed
    moreover have "find_map (\<lambda>(_, index). case index of INode n \<Rightarrow> Some n | _ \<Rightarrow> None) (rev (path @ [x])) =
        find_map (\<lambda>(_, index). case index of INode n \<Rightarrow> Some n | _ \<Rightarrow> None) (rev path)"
      using False x by (cases index) auto
    ultimately show ?thesis using snoc.IH by simp
  qed
qed simp

lemma about_node_iff: "node_in_path (cd_path df) = Some n \<longleftrightarrow> about_node df n"
  unfolding node_in_path_def about_node_def by (rule last_named)

lemma did_changes: "did flt events c \<longleftrightarrow> (\<exists>df \<in> set events. in_tree flt df \<and> c \<in> set (diff_changes df))"
proof
  assume "did flt events c"
  then show "\<exists>df \<in> set events. in_tree flt df \<and> c \<in> set (diff_changes df)"
    by cases (force simp: about_tree_iff diff_changes_def action_change_def about_node_iff [symmetric])+
next
  assume "\<exists>df \<in> set events. in_tree flt df \<and> c \<in> set (diff_changes df)"
  then obtain df where df: "df \<in> set events" "about_tree flt df" "c \<in> set (diff_changes df)"
    by (auto simp: about_tree_iff)
  from df(3) consider (tree) items n a where "cd_diff df = DTree items" "(n, a) \<in> set items" "c = action_change (n, a)"
    | (map) ks n where "cd_diff df = DMap ks" "''name'' \<in> set ks" "about_node df n" "c = Moved n"
    | (str) n where "cd_diff df = DText" "about_node df n" "c = Content n"
    unfolding about_node_iff [symmetric]
    by (cases "node_in_path (cd_path df)") (auto simp: diff_changes_def split: diff.splits if_splits)
  then show "did flt events c"
  proof cases
    case tree
    with df show ?thesis by (cases a) (auto simp: action_change_def intro: did.intros)
  next
    case map
    with df show ?thesis by (auto intro: did.renamed)
  next
    case str
    with df show ?thesis by (auto intro: did.edited)
  qed
qed

text \<open>
  C13. A subscriber is called exactly when a batch of diffs creates, moves, renames, deletes or edits the text of
  some node of the file tree, and the call lists these and nothing else, each under the node it is about: a
  creation as created, a move or a new name as moved, a deletion as removed, a change of text as content.  A node
  that appeared is not also reported as moved or changed because of the metadata and content written with it, and
  no change is reported twice in a row.
\<close>

theorem subscribe_reports:
  "case subscribe_calls flt events of
     None \<Rightarrow> \<forall>c. \<not> did flt events c
   | Some changes \<Rightarrow>
       (\<forall>c. c \<in> set changes \<longleftrightarrow>
          did flt events c \<and> (\<forall>n. c = Moved n \<or> c = Content n \<longrightarrow> \<not> did flt events (Created n))) \<and>
       changes \<noteq> [] \<and> (\<forall>i. Suc i < length changes \<longrightarrow> changes ! i \<noteq> changes ! Suc i)"
proof -
  let ?cs = "event_changes flt events"
  have cs: "c \<in> set ?cs \<longleftrightarrow> did flt events c \<and> (\<forall>n. c = Moved n \<or> c = Content n \<longrightarrow> \<not> did flt events (Created n))" for c
    unfolding did_changes by (rule in_changes)
  show ?thesis
  proof (cases "?cs = []")
    case True
    then have no: "\<not> (did flt events c \<and> (\<forall>n. c = Moved n \<or> c = Content n \<longrightarrow> \<not> did flt events (Created n)))" for c
      using cs [of c] by simp
    have "\<not> did flt events c" for c
      using no [of c] no [of "Created n" for n] by blast
    with True show ?thesis by (simp add: subscribe_calls_def)
  next
    case False
    moreover have "Suc i < length ?cs \<Longrightarrow> ?cs ! i \<noteq> ?cs ! Suc i" for i
      unfolding event_changes_def Let_def by (rule dedup_adjacent)
    ultimately show ?thesis using cs unfolding subscribe_calls_def Let_def if_not_P [OF False] option.case by blast
  qed
qed

definition demo_batch :: "(string, nat) container_diff list" where
  "demo_batch =
     [\<lparr>cd_target = ''files'', cd_path = [], cd_diff = DTree [(7, ACreate), (8, AMove)]\<rparr>,
      \<lparr>cd_target = ''meta'', cd_path = [(''files'', IKey ''files''), (''meta'', INode 7)], cd_diff = DMap [''name'']\<rparr>,
      \<lparr>cd_target = ''text'', cd_path = [(''files'', IKey ''files''), (''text'', INode 9)], cd_diff = DText\<rparr>]"

theorem subscribe_reports_witness:
  "\<exists>changes. subscribe_calls ''files'' demo_batch = Some changes \<and> Created 7 \<in> set changes \<and> Moved 7 \<notin> set changes \<and>
     Content 9 \<in> set changes"
proof -
  have d: "did ''files'' demo_batch (Created 7)" "did ''files'' demo_batch (Content 9)"
    unfolding did_changes by code_simp+
  from d subscribe_reports [where flt = "''files''" and events = demo_batch]
  obtain changes where c: "subscribe_calls ''files'' demo_batch = Some changes"
    "\<forall>c. c \<in> set changes \<longleftrightarrow> did ''files'' demo_batch c \<and>
       (\<forall>n. c = Moved n \<or> c = Content n \<longrightarrow> \<not> did ''files'' demo_batch (Created n))"
    by (cases "subscribe_calls ''files'' demo_batch") auto
  have "\<not> did ''files'' demo_batch (Created 9)" unfolding did_changes by code_simp
  with c d show ?thesis by auto
qed

end
