(* ===== verification/Doc.thy ===== *)
theory Doc
  imports Loro_Ref_Hist
begin

text \<open>
  \<open>crates/okayeg/src/doc.rs\<close>: the wrapper around one Loro document.  Its one field of its own is
  the session counter that comment ids are minted from (\<open>Comments\<close>).
\<close>

record 'd doc =
  inner :: 'd
  comment_seq :: "64 word"

definition doc_new :: "('d, 'v, 'f) vdoc \<Rightarrow> 64 word \<Rightarrow> 'd doc" where
  "doc_new V peer = \<lparr>inner = ld_new V peer, comment_seq = 0\<rparr>"

text \<open>The result of the import is only looked at for an error.\<close>

definition doc_from_snapshot :: "('d, 'v, 'f) vdoc \<Rightarrow> 64 word \<Rightarrow> bytes \<Rightarrow> string + 'd doc" where
  "doc_from_snapshot V peer bs =
     (case ld_import V (ld_new V peer) bs of
        (_, Inl e) \<Rightarrow> Err e
      | (d, Inr _) \<Rightarrow> Ok \<lparr>inner = d, comment_seq = 0\<rparr>)"

definition doc_commit :: "('d, 'v, 'f) vdoc \<Rightarrow> 'd doc \<Rightarrow> 'd doc" where
  "doc_commit V d = d\<lparr>inner := ld_commit V (inner d)\<rparr>"

definition doc_version :: "('d, 'v, 'f) vdoc \<Rightarrow> 'd doc \<Rightarrow> 'v" where
  "doc_version V d = ld_state_vv V (inner d)"

definition doc_frontiers :: "('d, 'v, 'f) vdoc \<Rightarrow> 'd doc \<Rightarrow> 'f" where
  "doc_frontiers V d = ld_state_frontiers V (inner d)"

definition doc_peer_id :: "('d, 'v, 'f) vdoc \<Rightarrow> 'd doc \<Rightarrow> 64 word" where
  "doc_peer_id V d = ld_peer_id V (inner d)"

definition doc_snapshot :: "('d, 'v, 'f) vdoc \<Rightarrow> 'd doc \<Rightarrow> string + bytes" where
  "doc_snapshot V d = ld_export_snapshot V (inner d)"

definition doc_updates_since :: "('d, 'v, 'f) vdoc \<Rightarrow> 'd doc \<Rightarrow> 'v \<Rightarrow> string + bytes" where
  "doc_updates_since V d since = ld_export_updates V (inner d) since"

definition doc_import :: "('d, 'v, 'f) vdoc \<Rightarrow> 'd doc \<Rightarrow> bytes \<Rightarrow> 'd doc \<times> (string + bool)" where
  "doc_import V d bs =
     (case ld_import V (inner d) bs of (i, r) \<Rightarrow> (d\<lparr>inner := i\<rparr>, r))"

section \<open>Catching a peer up\<close>

text \<open>
  A document imports the updates another has since its own version: both histories are then in
  it, nothing is pending, and the other document is untouched.
\<close>

context loro_history
begin

lemma catch_up:
  assumes "wf (inner d)" "wf (inner s)"
  shows "\<exists>bs d'. doc_updates_since V s (doc_version V d) = Ok bs \<and> doc_import V d bs = (d', Ok False) \<and>
                 wf (inner d') \<and> hist (inner d') = hist (inner d) \<union> hist (inner s)"
proof -
  have "known (doc_version V d) \<subseteq> hist (inner d)"
    using assms(1) by (simp add: doc_version_def known_version)
  from import_since_known [OF assms this] obtain i where
    i: "ld_import V (inner d) (updates_of (inner s) (doc_version V d)) = (i, Ok False)" "wf i"
      "hist i = hist (inner d) \<union> hist (inner s)" by blast
  then show ?thesis
    using export_updates_of(1) [OF assms(2)]
    by (intro exI [of _ "updates_of (inner s) (doc_version V d)"] exI [of _ "d\<lparr>inner := i\<rparr>"])
       (simp add: doc_updates_since_def doc_import_def)
qed

text \<open>Importing what is already there is no change of version.\<close>

lemma import_known_idle:
  assumes "wf (inner d)" "wf (inner s)" "hist (inner s) \<subseteq> hist (inner d)"
  shows "\<exists>bs d'. doc_updates_since V s (doc_version V d) = Ok bs \<and>
                 doc_import V d bs = (d', Ok False) \<and> doc_version V d' = doc_version V d"
proof -
  obtain bs d' where "doc_updates_since V s (doc_version V d) = Ok bs" "doc_import V d bs = (d', Ok False)"
    "wf (inner d')" "hist (inner d') = hist (inner d) \<union> hist (inner s)"
    using catch_up [OF assms(1,2)] by blast
  moreover from this have "doc_version V d' = doc_version V d"
    using version_eq_iff [of "inner d'" "inner d"] assms by (auto simp: doc_version_def)
  ultimately show ?thesis by blast
qed

end

end
