(* ===== verification/Hex.thy ===== *)
theory Hex
  imports Prelude
begin

text \<open>
  Hexadecimal as Rust prints and reads it: \<open>{:02x}\<close> and \<open>{:016x}\<close>, \<open>char::to_digit(16)\<close> and
  \<open>u8::from_str_radix(_, 16)\<close>.
\<close>

definition hex_digit :: "nat \<Rightarrow> char" where
  "hex_digit n = (if n < 10 then char_of (48 + n) else char_of (87 + n))"

text \<open>The last \<open>w\<close> digits; a value below \<open>16 ^ w\<close> has no more.\<close>

fun hex_digits :: "nat \<Rightarrow> nat \<Rightarrow> string" where
  "hex_digits 0 n = []"
| "hex_digits (Suc w) n = hex_digits w (n div 16) @ [hex_digit (n mod 16)]"

definition to_digit16 :: "char \<Rightarrow> nat option" where
  "to_digit16 c =
     (let n = of_char c :: nat
      in if 48 \<le> n \<and> n \<le> 57 then Some (n - 48)
         else if 97 \<le> n \<and> n \<le> 102 then Some (n - 87)
         else if 65 \<le> n \<and> n \<le> 70 then Some (n - 55)
         else None)"

text \<open>The digits from the most significant one, \<open>None\<close> on a bad digit or when the value leaves \<open>u8\<close>.\<close>

fun u8_digits :: "nat \<Rightarrow> string \<Rightarrow> nat option" where
  "u8_digits acc [] = Some acc"
| "u8_digits acc (c # cs) =
     (case to_digit16 c of
        None \<Rightarrow> None
      | Some d \<Rightarrow> if acc * 16 + d < 256 then u8_digits (acc * 16 + d) cs else None)"

text \<open>A leading plus sign is skipped; an empty string or a lone sign is an error.\<close>

definition u8_from_hex :: "string \<Rightarrow> nat option" where
  "u8_from_hex s =
     (case s of
        [] \<Rightarrow> None
      | c # cs \<Rightarrow>
          if cs = [] \<and> (c = CHR ''+'' \<or> c = CHR ''-'') then None
          else if c = CHR ''+'' then u8_digits 0 cs
          else u8_digits 0 s)"

lemma hex_digit_inj: "m < 16 \<Longrightarrow> n < 16 \<Longrightarrow> hex_digit m = hex_digit n \<longleftrightarrow> m = n"
  by (auto simp: hex_digit_def of_char_eq_iff split: if_splits
        dest!: arg_cong [of _ _ "of_char :: char \<Rightarrow> nat"])

lemma length_hex_digits [simp]: "length (hex_digits w n) = w"
  by (induction w n rule: hex_digits.induct) simp_all

lemma hex_digits_inj:
  "m < 16 ^ w \<Longrightarrow> n < 16 ^ w \<Longrightarrow> hex_digits w m = hex_digits w n \<Longrightarrow> m = n"
proof (induction w arbitrary: m n)
  case (Suc w)
  then have "hex_digits w (m div 16) = hex_digits w (n div 16)" "m mod 16 = n mod 16"
    by (simp_all add: hex_digit_inj)
  moreover have "m div 16 < 16 ^ w" "n div 16 < 16 ^ w" using Suc.prems by (simp_all add: less_mult_imp_div_less)
  ultimately have "m div 16 = n div 16" using Suc.IH by blast
  with \<open>m mod 16 = n mod 16\<close> show ?case by (metis div_mult_mod_eq)
qed simp

lemma of_char_hex_digit: "n < 16 \<Longrightarrow> of_char (hex_digit n) = (if n < 10 then 48 + n else 87 + n)"
  by (simp add: hex_digit_def)

lemma to_digit16_hex_digit [simp]: "n < 16 \<Longrightarrow> to_digit16 (hex_digit n) = Some n"
  by (auto simp: to_digit16_def of_char_hex_digit Let_def)

lemma to_digit16_less: "to_digit16 c = Some d \<Longrightarrow> d < 16"
  by (auto simp: to_digit16_def Let_def split: if_splits)

lemma hex_digit_not_sign: "n < 16 \<Longrightarrow> hex_digit n \<noteq> CHR ''+'' \<and> hex_digit n \<noteq> CHR ''-''"
  using of_char_hex_digit [of n] by (auto split: if_splits)

lemma u8_digits_less: "u8_digits acc s = Some n \<Longrightarrow> acc < 256 \<Longrightarrow> n < 256"
  by (induction acc s rule: u8_digits.induct) (auto split: option.splits if_splits)

lemma u8_from_hex_less: "u8_from_hex s = Some n \<Longrightarrow> n < 256"
  using u8_digits_less [of 0 s n] u8_digits_less [of 0 "tl s" n]
  by (auto simp: u8_from_hex_def simp del: u8_digits.simps split: list.splits if_splits)

lemma hex2: "hex_digits 2 n = [hex_digit (n div 16 mod 16), hex_digit (n mod 16)]"
  by (simp add: numeral_2_eq_2)

lemma u8_from_hex_digits: "n < 256 \<Longrightarrow> u8_from_hex (hex_digits 2 n) = Some n"
  using hex_digit_not_sign [of "n div 16"] by (simp add: u8_from_hex_def hex2)

end
