(* ===== verification/Comments.thy ===== *)
theory Comments
  imports Doc Ref_Tree_Laws Hex
begin

text \<open>
  \<open>crates/okayeg/src/comment.rs\<close>: comments anchored to file content, in a top-level map keyed by
  comment id.  A result of \<open>None\<close> is the panic of an \<open>expect\<close>; ranges are pairs of codepoint
  positions.
\<close>

definition RESERVED :: "string list" where
  "RESERVED = [''file'', ''start'', ''end'', ''parent'', ''created_at'']"

record 'n comment =
  cm_id :: string
  cm_file :: "'n option"
  cm_parent :: "string option"
  cm_created_at :: "64 word"
  cm_range :: "(nat \<times> nat) option"
  cm_orphaned :: bool
  cm_fields :: "(string \<times> lvalue) list"

section \<open>Ids\<close>

definition comment_id :: "64 word \<Rightarrow> 64 word \<Rightarrow> string" where
  "comment_id peer n = hex_digits 16 (unat peer) @ ''-'' @ dec (unat n)"

definition next_id :: "('d, 'v, 'f) vdoc \<Rightarrow> 'd doc \<Rightarrow> 'd doc \<times> string" where
  "next_id V d = (d\<lparr>comment_seq := comment_seq d + 1\<rparr>, comment_id (doc_peer_id V d) (comment_seq d))"

section \<open>Containers\<close>

definition comments_map :: "('d, 'n, 't, 'm) loro_ct \<Rightarrow> 'm" where
  "comments_map L = mp_root L ''comments''"

definition comment_at :: "('d, 'n, 't, 'm) loro_ct \<Rightarrow> 'd \<Rightarrow> string \<Rightarrow> 'm option" where
  "comment_at L d cid = (case mp_get L d (comments_map L) cid of Some (VMap m) \<Rightarrow> Some m | _ \<Rightarrow> None)"

definition comment_string :: "('d, 'n, 't, 'm) loro_ct \<Rightarrow> 'd \<Rightarrow> 'm \<Rightarrow> string \<Rightarrow> string option" where
  "comment_string L d m key = (case mp_get L d m key of Some (VVal (LString s)) \<Rightarrow> Some s | _ \<Rightarrow> None)"

definition cursor_field ::
    "('d, 'n, 't, 'm) loro_ct \<Rightarrow> ('d, 'n, 't, 'k) loro_cur \<Rightarrow> 'd \<Rightarrow> 'm \<Rightarrow> string \<Rightarrow> 'k option" where
  "cursor_field L C d m key =
     (case mp_get L d m key of Some (VVal (LBinary bs)) \<Rightarrow> cu_decode C bs | _ \<Rightarrow> None)"

section \<open>Writing\<close>

text \<open>A run of \<open>insert(..).expect(..)\<close> on one map.\<close>

fun insert_all ::
    "('d, 'n, 't, 'm) loro_ct \<Rightarrow> 'd \<Rightarrow> 'm \<Rightarrow> (string \<times> lvalue) list \<Rightarrow> 'd option" where
  "insert_all L d m [] = Some d"
| "insert_all L d m ((k, v) # kvs) =
     (case mp_insert L d m k v of None \<Rightarrow> None | Some d' \<Rightarrow> insert_all L d' m kvs)"

definition new_comment ::
    "('d, 'v, 'f) vdoc \<Rightarrow> ('d, 'n, 't, 'm) loro_ct \<Rightarrow> 'd doc \<Rightarrow> (string \<times> lvalue) list
       \<Rightarrow> ('d doc \<times> string option) option" where
  "new_comment V L d kvs =
     (case next_id V d of (d1, cid) \<Rightarrow>
        (case mp_insert_map L (inner d1) (comments_map L) cid of
           None \<Rightarrow> None
         | Some (i, m) \<Rightarrow>
             (case insert_all L i m kvs of
                None \<Rightarrow> None
              | Some i' \<Rightarrow> Some (d1\<lparr>inner := i'\<rparr>, Some cid))))"

definition comment_add ::
    "('d, 'v, 'f) vdoc \<Rightarrow> ('d, 'n, 't, 'm) loro_ct \<Rightarrow> ('d, 'n, 't, 'k) loro_cur \<Rightarrow> 'd doc \<Rightarrow> 'n
       \<Rightarrow> nat \<times> nat \<Rightarrow> 64 word \<Rightarrow> (string \<times> lvalue) list \<Rightarrow> ('d doc \<times> string option) option" where
  "comment_add V L C d file = (\<lambda>(a, b) created_at extra.
     case ft_content L (inner d) file of
       None \<Rightarrow> Some (d, None)
     | Some t \<Rightarrow>
         (if a > b \<or> b > tx_len_unicode C (inner d) t then Some (d, None)
          else (case cu_get C (inner d) t a SLeft of
                  None \<Rightarrow> Some (d, None)
                | Some start \<Rightarrow>
                    (case cu_get C (inner d) t b SRight of
                       None \<Rightarrow> Some (d, None)
                     | Some finish \<Rightarrow>
                         new_comment V L d
                           ([(''file'', LString (tid_str C file)),
                             (''start'', LBinary (cu_encode C start)),
                             (''end'', LBinary (cu_encode C finish)),
                             (''created_at'', LI64 created_at)] @ extra)))))"

definition comment_reply ::
    "('d, 'v, 'f) vdoc \<Rightarrow> ('d, 'n, 't, 'm) loro_ct \<Rightarrow> 'd doc \<Rightarrow> string \<Rightarrow> 64 word
       \<Rightarrow> (string \<times> lvalue) list \<Rightarrow> ('d doc \<times> string option) option" where
  "comment_reply V L d parent created_at extra =
     (case comment_at L (inner d) parent of
        None \<Rightarrow> Some (d, None)
      | Some _ \<Rightarrow>
          new_comment V L d ([(''parent'', LString parent), (''created_at'', LI64 created_at)] @ extra))"

definition comment_set ::
    "('d, 'n, 't, 'm) loro_ct \<Rightarrow> 'd doc \<Rightarrow> string \<Rightarrow> string \<Rightarrow> lvalue \<Rightarrow> ('d doc \<times> bool) option" where
  "comment_set L d cid key v =
     (if key \<in> set RESERVED then Some (d, False)
      else (case comment_at L (inner d) cid of
              None \<Rightarrow> Some (d, False)
            | Some m \<Rightarrow> (case mp_insert L (inner d) m key v of
                           None \<Rightarrow> None
                         | Some i \<Rightarrow> Some (d\<lparr>inner := i\<rparr>, True))))"

definition comment_remove :: "('d, 'n, 't, 'm) loro_ct \<Rightarrow> 'd doc \<Rightarrow> string \<Rightarrow> 'd doc option" where
  "comment_remove L d cid =
     map_option (\<lambda>i. d\<lparr>inner := i\<rparr>) (mp_delete L (inner d) (comments_map L) cid)"

section \<open>Reading\<close>

definition resolve_anchor ::
    "('d, 'n, 't, 'k) loro_cur \<Rightarrow> 'd \<Rightarrow> 'k \<Rightarrow> 'k \<Rightarrow> (nat \<times> nat) option \<times> bool" where
  "resolve_anchor C d start finish =
     (case (cu_pos C d start, cu_pos C d finish) of
        (Some (s, su), Some (e, eu)) \<Rightarrow> (Some (s, max e s), su \<or> eu)
      | _ \<Rightarrow> (None, False))"

definition comment_fields ::
    "('d, 'n, 't, 'm) loro_ct \<Rightarrow> 'd \<Rightarrow> 'm \<Rightarrow> (string \<times> lvalue) list" where
  "comment_fields L d m =
     List.map_filter (\<lambda>key. if key \<in> set RESERVED then None
                            else (case mp_get L d m key of Some (VVal v) \<Rightarrow> Some (key, v) | _ \<Rightarrow> None))
       (mp_keys L d m)"

definition read_comment ::
    "('d, 'n, 't, 'm) loro_ct \<Rightarrow> ('d, 'n, 't, 'k) loro_cur \<Rightarrow> 'd \<Rightarrow> string \<Rightarrow> 'm \<Rightarrow> 'n comment" where
  "read_comment L C d cid m =
     (let (rng, orphaned) = (case (cursor_field L C d m ''start'', cursor_field L C d m ''end'') of
             (Some start, Some finish) \<Rightarrow> resolve_anchor C d start finish
           | _ \<Rightarrow> (None, False))
      in \<lparr>cm_id = cid,
          cm_file = Option.bind (comment_string L d m ''file'') (tid_parse C),
          cm_parent = comment_string L d m ''parent'',
          cm_created_at = (case mp_get L d m ''created_at'' of Some (VVal (LI64 w)) \<Rightarrow> w | _ \<Rightarrow> 0),
          cm_range = rng, cm_orphaned = orphaned,
          cm_fields = comment_fields L d m\<rparr>)"

definition comment_get ::
    "('d, 'n, 't, 'm) loro_ct \<Rightarrow> ('d, 'n, 't, 'k) loro_cur \<Rightarrow> 'd doc \<Rightarrow> string \<Rightarrow> 'n comment option" where
  "comment_get L C d cid = map_option (read_comment L C (inner d) cid) (comment_at L (inner d) cid)"

definition comment_list ::
    "('d, 'n, 't, 'm) loro_ct \<Rightarrow> ('d, 'n, 't, 'k) loro_cur \<Rightarrow> 'd doc \<Rightarrow> 'n option \<Rightarrow> 'n comment list" where
  "comment_list L C d file =
     filter (\<lambda>c. file = None \<or> cm_file c = file)
       (List.map_filter (comment_get L C d) (mp_keys L (inner d) (comments_map L)))"

end
