(* ===== verification/Comments_Laws.thy ===== *)
theory Comments_Laws
  imports Comments
begin

text \<open>
  What comments promise, over the documented laws of Loro's maps and cursors: a comment added to a
  file reads back with its anchor, later edits of consumer fields leave what core interprets alone,
  and ids never repeat.
\<close>

section \<open>Ids\<close>

text \<open>The value a run of decimal digits stands for.\<close>

definition dec_value :: "string \<Rightarrow> nat" where
  "dec_value s = foldl (\<lambda>v c. v * 10 + (of_char c - 48)) 0 s"

lemma dec_value_dec: "dec_value (dec n) = n"
proof (induction n rule: dec.induct)
  case (1 n)
  show ?case
  proof (cases "n < 10")
    case True
    then show ?thesis by (subst dec.simps) (simp add: dec_value_def)
  next
    case False
    with 1 have "dec_value (dec (n div 10)) = n div 10" by simp
    with False show ?thesis by (subst dec.simps) (simp add: dec_value_def)
  qed
qed

lemma dec_inj: "dec m = dec n \<longleftrightarrow> m = n"
  by (metis dec_value_dec)

lemma comment_id_inj: "comment_id p n = comment_id q m \<longleftrightarrow> p = q \<and> n = m"
proof
  assume "comment_id p n = comment_id q m"
  then have h: "hex_digits 16 (unat p) = hex_digits 16 (unat q)" and "dec (unat n) = dec (unat m)"
    by (simp_all add: comment_id_def)
  have "unat x < 2 ^ LENGTH(64)" for x :: "64 word" by (rule unsigned_less)
  then have "unat x < 16 ^ 16" for x :: "64 word" by simp
  then show "p = q \<and> n = m" using hex_digits_inj [OF _ _ h] \<open>dec (unat n) = dec (unat m)\<close> by (simp add: dec_inj unsigned_word_eqI)
qed simp

section \<open>Laws\<close>

definition same_cursors :: "('d, 'n, 't, 'k) loro_cur \<Rightarrow> 'd \<Rightarrow> 'd \<Rightarrow> bool" where
  "same_cursors C d d' \<longleftrightarrow> (\<forall>k. cu_pos C d' k = cu_pos C d k)"

text \<open>
  \<open>live L d m\<close>: the map container \<open>m\<close> is the comments map, or one of the maps in it.
\<close>

definition comment_map :: "('d, 'n, 't, 'm) loro_ct \<Rightarrow> 'd \<Rightarrow> 'm \<Rightarrow> bool" where
  "comment_map L d m \<longleftrightarrow> m = comments_map L \<or> (\<exists>cid. comment_at L d cid = Some m)"

lemma comment_at_iff: "comment_at L d x = Some m \<longleftrightarrow> mp_get L d (comments_map L) x = Some (VMap m)"
  by (auto simp: comment_at_def split: option.splits voc.splits)

locale loro_comments =
  fixes L :: "('d, 'n, 't, 'm) loro_ct" and C :: "('d, 'n, 't, 'k) loro_cur" and ok :: "'d \<Rightarrow> bool"
  assumes put_value:
      "ok d \<Longrightarrow> comment_map L d m \<Longrightarrow> \<exists>d'. mp_insert L d m k v = Some d' \<and> ok d' \<and>
         map_put L d d' m k (VVal v) \<and> same_texts L d d' \<and> same_cursors C d d'"
    and put_map:
      "ok d \<Longrightarrow> \<exists>d' m. mp_insert_map L d (comments_map L) k = Some (d', m) \<and> ok d' \<and>
         map_put L d d' (comments_map L) k (VMap m) \<and> (\<forall>x. mp_get L d m x = None) \<and>
         m \<noteq> comments_map L \<and> (\<forall>x y. mp_get L d x y \<noteq> Some (VMap m)) \<and>
         same_texts L d d' \<and> same_cursors C d d'"
    and no_self: "ok d \<Longrightarrow> mp_get L d (comments_map L) k \<noteq> Some (VMap (comments_map L))"
    and one_id: "ok d \<Longrightarrow> mp_get L d m k = Some (VMap x) \<Longrightarrow> mp_get L d m' k' = Some (VMap x) \<Longrightarrow> m = m' \<and> k = k'"
    and delete_key:
      "ok d \<Longrightarrow> \<exists>d'. mp_delete L d (comments_map L) k = Some d' \<and> ok d' \<and>
         (\<forall>m x. mp_get L d' m x = (if m = comments_map L \<and> x = k then None else mp_get L d m x)) \<and>
         same_texts L d d' \<and> same_cursors C d d'"
    and keys: "ok d \<Longrightarrow> distinct (mp_keys L d m) \<and> set (mp_keys L d m) = {k. mp_get L d m k \<noteq> None}"
    and cursor_some: "ok d \<Longrightarrow> i \<le> tx_len_unicode C d t \<Longrightarrow> \<exists>u. cu_get C d t i s = Some u"
    and cursor_pos: "ok d \<Longrightarrow> cu_get C d t i s = Some u \<Longrightarrow> cu_pos C d u = Some (i, False)"
    and cursor_code: "cu_decode C (cu_encode C u) = Some u"
    and node_code: "tid_parse C (tid_str C n) = Some n"
begin

text \<open>A run of inserts writes the last value of each key, and nothing else.\<close>

lemma insert_all_ok:
  assumes "ok d" "comment_map L d m"
  shows "\<exists>d'. insert_all L d m kvs = Some d' \<and> ok d' \<and> same_texts L d d' \<and> same_cursors C d d' \<and>
           (\<forall>k. mp_get L d' m k = (case map_of (rev kvs) k of Some v \<Rightarrow> Some (VVal v) | None \<Rightarrow> mp_get L d m k)) \<and>
           (\<forall>m' k. m' \<noteq> m \<longrightarrow> mp_get L d' m' k = mp_get L d m' k)"
  using assms
proof (induction kvs arbitrary: d)
  case Nil
  then show ?case by (simp add: same_texts_def same_cursors_def)
next
  case (Cons kv kvs)
  obtain k v where kv: "kv = (k, v)" by (cases kv)
  from put_value [OF Cons.prems, of k v] obtain d1 where
    d1: "mp_insert L d m k v = Some d1" "ok d1" "map_put L d d1 m k (VVal v)" "same_texts L d d1" "same_cursors C d d1"
    by blast
  have get1: "mp_get L d1 m' x = (if m' = m \<and> x = k then Some (VVal v) else mp_get L d m' x)" for m' x
    using d1(3) by (simp add: map_put_def)
  have "comment_map L d1 m"
    using Cons.prems(2) get1 by (cases "m = comments_map L") (auto simp: comment_map_def comment_at_def)
  from Cons.IH [OF d1(2) this] obtain d' where d': "insert_all L d1 m kvs = Some d'" "ok d'" "same_texts L d1 d'"
    "same_cursors C d1 d'"
    "\<forall>k. mp_get L d' m k = (case map_of (rev kvs) k of Some v \<Rightarrow> Some (VVal v) | None \<Rightarrow> mp_get L d1 m k)"
    "\<forall>m' k. m' \<noteq> m \<longrightarrow> mp_get L d' m' k = mp_get L d1 m' k" by blast
  have "mp_get L d' m x = (case map_of (rev (kv # kvs)) x of Some v \<Rightarrow> Some (VVal v) | None \<Rightarrow> mp_get L d m x)" for x
    using d'(5) get1 by (simp add: kv map_add_def split: option.split)
  moreover have "insert_all L d m (kv # kvs) = Some d'" using d1(1) d'(1) by (simp add: kv)
  ultimately show ?case
    using d1(4,5) d'(2-4,6) get1 by (intro exI [of _ d']) (simp add: same_texts_def same_cursors_def)
qed

lemma new_comment_ok:
  assumes "ok (inner d)"
  shows "\<exists>d' m. new_comment V L d kvs = Some (d', Some (comment_id (doc_peer_id V d) (comment_seq d))) \<and>
           comment_seq d' = comment_seq d + 1 \<and> ok (inner d') \<and>
           comment_at L (inner d') (comment_id (doc_peer_id V d) (comment_seq d)) = Some m \<and>
           (\<forall>k. mp_get L (inner d') m k = map_option VVal (map_of (rev kvs) k)) \<and>
           (\<forall>x. x \<noteq> comment_id (doc_peer_id V d) (comment_seq d) \<longrightarrow>
              comment_at L (inner d') x = comment_at L (inner d) x) \<and>
           (\<forall>x. comment_at L (inner d) x \<noteq> Some m) \<and>
           (\<forall>m'. m' \<noteq> m \<longrightarrow> m' \<noteq> comments_map L \<longrightarrow> (\<forall>k. mp_get L (inner d') m' k = mp_get L (inner d) m' k)) \<and>
           same_texts L (inner d) (inner d') \<and> same_cursors C (inner d) (inner d')"
proof -
  let ?cid = "comment_id (doc_peer_id V d) (comment_seq d)" and ?root = "comments_map L"
  from put_map [OF assms, of ?cid] obtain i m where i: "mp_insert_map L (inner d) ?root ?cid = Some (i, m)" "ok i"
    "map_put L (inner d) i ?root ?cid (VMap m)" "\<forall>x. mp_get L (inner d) m x = None" "m \<noteq> ?root"
    "\<forall>x y. mp_get L (inner d) x y \<noteq> Some (VMap m)" "same_texts L (inner d) i" "same_cursors C (inner d) i" by metis
  have get: "mp_get L i m' x = (if m' = ?root \<and> x = ?cid then Some (VMap m) else mp_get L (inner d) m' x)" for m' x
    using i(3) by (simp add: map_put_def)
  have at: "comment_at L i ?cid = Some m" by (simp add: comment_at_def get)
  then have "comment_map L i m" unfolding comment_map_def by blast
  from insert_all_ok [OF i(2) this, of kvs] obtain i' where i': "insert_all L i m kvs = Some i'" "ok i'"
    "same_texts L i i'" "same_cursors C i i'"
    "\<forall>k. mp_get L i' m k = (case map_of (rev kvs) k of Some v \<Rightarrow> Some (VVal v) | None \<Rightarrow> mp_get L i m k)"
    "\<forall>m' k. m' \<noteq> m \<longrightarrow> mp_get L i' m' k = mp_get L i m' k" by blast
  let ?d = "d\<lparr>comment_seq := comment_seq d + 1, inner := i'\<rparr>"
  have "new_comment V L d kvs = Some (?d, Some ?cid)"
    using i(1) i'(1) by (simp add: new_comment_def next_id_def)
  moreover have "mp_get L i' m k = map_option VVal (map_of (rev kvs) k)" for k
    using i'(5) i(4,5) by (simp add: get split: option.split)
  moreover have "comment_at L i' x = comment_at L i x" for x
    using i'(6) i(5) by (simp add: comment_at_def)
  moreover have "x \<noteq> ?cid \<Longrightarrow> comment_at L i x = comment_at L (inner d) x" for x
    by (simp add: comment_at_def get)
  moreover have "comment_at L (inner d) x \<noteq> Some m" for x
    using i(6) by (auto simp: comment_at_def split: option.splits voc.splits)
  ultimately show ?thesis
    using i(7,8) i'(2-4,6) at by (intro exI [of _ ?d] exI [of _ m]) (simp add: get same_texts_def same_cursors_def)
qed

text \<open>Reading depends only on the comment's own entries and on the cursors.\<close>

lemma comment_fields_iff:
  assumes "ok d"
  shows "distinct (map fst (comment_fields L d m))"
    "(k, v) \<in> set (comment_fields L d m) \<longleftrightarrow> k \<notin> set RESERVED \<and> mp_get L d m k = Some (VVal v)"
proof -
  let ?f = "\<lambda>key. if key \<in> set RESERVED then None
      else (case mp_get L d m key of Some (VVal v) \<Rightarrow> Some (key, v) | _ \<Rightarrow> None)"
  have fst: "?f key = Some kv \<Longrightarrow> fst kv = key" for key kv
    by (auto split: if_splits option.splits voc.splits)
  have "distinct ks \<Longrightarrow> distinct (map fst (List.map_filter ?f ks)) \<and> set (map fst (List.map_filter ?f ks)) \<subseteq> set ks" for ks
  proof (induction ks)
    case (Cons k ks)
    then show ?case using fst [of k] by (cases "?f k") auto
  qed simp
  then show "distinct (map fst (comment_fields L d m))"
    using keys [OF assms, of m] unfolding comment_fields_def by blast
  show "(k, v) \<in> set (comment_fields L d m) \<longleftrightarrow> k \<notin> set RESERVED \<and> mp_get L d m k = Some (VVal v)"
  proof
    assume "(k, v) \<in> set (comment_fields L d m)"
    then obtain key where "?f key = Some (k, v)" unfolding comment_fields_def in_map_filter by blast
    then show "k \<notin> set RESERVED \<and> mp_get L d m k = Some (VVal v)"
      by (auto split: if_splits option.splits voc.splits)
  next
    assume k: "k \<notin> set RESERVED \<and> mp_get L d m k = Some (VVal v)"
    then have "k \<in> set (mp_keys L d m)" using keys [OF assms, of m] by simp
    with k show "(k, v) \<in> set (comment_fields L d m)"
      unfolding comment_fields_def in_map_filter by (intro bexI [of _ k]) simp_all
  qed
qed

end

text \<open>The same comment, up to the order of its consumer fields.\<close>

definition comment_eqv :: "'n comment \<Rightarrow> 'n comment \<Rightarrow> bool" where
  "comment_eqv c c' \<longleftrightarrow> c\<lparr>cm_fields := []\<rparr> = c'\<lparr>cm_fields := []\<rparr> \<and> set (cm_fields c) = set (cm_fields c')"

context loro_comments
begin

lemma read_comment_same:
  assumes "ok d" "ok d'" "\<And>k. mp_get L d' m k = mp_get L d m k" "same_cursors C d d'"
  shows "comment_eqv (read_comment L C d' cid m) (read_comment L C d cid m)"
proof -
  have "set (comment_fields L d' m) = set (comment_fields L d m)"
    using comment_fields_iff(2) [OF assms(1)] comment_fields_iff(2) [OF assms(2)] assms(3) by auto
  moreover have ra: "resolve_anchor C d' = resolve_anchor C d"
    using assms(4) by (intro ext) (simp add: resolve_anchor_def same_cursors_def)
  moreover have cf: "cursor_field L C d' m = cursor_field L C d m"
    and cs: "comment_string L d' m = comment_string L d m"
    by (intro ext, simp add: cursor_field_def comment_string_def assms(3))+
  ultimately show ?thesis
    unfolding comment_eqv_def read_comment_def ra cf cs by (simp add: assms(3) split: prod.split)
qed

text \<open>No other comment changes when one is made.\<close>

lemma other_comments:
  assumes "ok (inner d)" "ok (inner d')" "\<forall>x. x \<noteq> cid \<longrightarrow> comment_at L (inner d') x = comment_at L (inner d) x"
    and "\<forall>x. comment_at L (inner d) x \<noteq> Some m"
    and "\<forall>m'. m' \<noteq> m \<longrightarrow> m' \<noteq> comments_map L \<longrightarrow> (\<forall>k. mp_get L (inner d') m' k = mp_get L (inner d) m' k)"
    and "same_cursors C (inner d) (inner d')" "x \<noteq> cid"
  shows "rel_option comment_eqv (comment_get L C d' x) (comment_get L C d x)"
proof (cases "comment_at L (inner d) x")
  case (Some m')
  then have "m' \<noteq> m" using assms(4) by auto
  moreover have "m' \<noteq> comments_map L" using no_self [OF assms(1), of x] Some by (auto simp: comment_at_def split: option.splits voc.splits)
  ultimately show ?thesis
    using Some assms read_comment_same [OF assms(1,2) _ assms(6), of m' x] by (simp add: comment_get_def)
qed (use assms(3,7) in \<open>simp add: comment_get_def\<close>)

lemma add_reads_back:
  assumes d: "ok (inner d)" and t: "ft_content L (inner d) file = Some t"
    and ab: "a \<le> b" "b \<le> tx_len_unicode C (inner d) t"
    and extra: "\<forall>(k, v) \<in> set extra. k \<notin> set RESERVED"
  shows "\<exists>d' cid c. comment_add V L C d file (a, b) created_at extra = Some (d', Some cid) \<and>
           ok (inner d') \<and> cid = comment_id (doc_peer_id V d) (comment_seq d) \<and> comment_seq d' = comment_seq d + 1 \<and>
           comment_get L C d' cid = Some c \<and>
           c\<lparr>cm_fields := []\<rparr> = \<lparr>cm_id = cid, cm_file = Some file, cm_parent = None, cm_created_at = created_at,
                                cm_range = Some (a, b), cm_orphaned = False, cm_fields = []\<rparr> \<and>
           (\<forall>k v. (k, v) \<in> set (cm_fields c) \<longleftrightarrow> map_of (rev extra) k = Some v) \<and>
           (\<forall>x. x \<noteq> cid \<longrightarrow> rel_option comment_eqv (comment_get L C d' x) (comment_get L C d x)) \<and>
           same_texts L (inner d) (inner d')"
proof -
  obtain s e where se: "cu_get C (inner d) t a SLeft = Some s" "cu_get C (inner d) t b SRight = Some e"
    using cursor_some [OF d, of a t SLeft] cursor_some [OF d, of b t SRight] ab by auto
  let ?core = "[(''file'', LString (tid_str C file)), (''start'', LBinary (cu_encode C s)),
      (''end'', LBinary (cu_encode C e)), (''created_at'', LI64 created_at)]"
  let ?cid = "comment_id (doc_peer_id V d) (comment_seq d)"
  from new_comment_ok [OF d, of V "?core @ extra"] obtain d' m where n:
    "new_comment V L d (?core @ extra) = Some (d', Some ?cid)" "comment_seq d' = comment_seq d + 1" "ok (inner d')"
    "comment_at L (inner d') ?cid = Some m"
    "\<forall>k. mp_get L (inner d') m k = map_option VVal (map_of (rev (?core @ extra)) k)"
    "\<forall>x. x \<noteq> ?cid \<longrightarrow> comment_at L (inner d') x = comment_at L (inner d) x"
    "\<forall>x. comment_at L (inner d) x \<noteq> Some m"
    "\<forall>m'. m' \<noteq> m \<longrightarrow> m' \<noteq> comments_map L \<longrightarrow> (\<forall>k. mp_get L (inner d') m' k = mp_get L (inner d) m' k)"
    "same_texts L (inner d) (inner d')" "same_cursors C (inner d) (inner d')" by metis
  have core: "map_of (rev extra) k = None" if "k \<in> set RESERVED" for k
    using extra that by (force simp: map_of_eq_None_iff)
  have get: "mp_get L (inner d') m k = map_option VVal
      (case map_of (rev extra) k of Some v \<Rightarrow> Some v | None \<Rightarrow> map_of (rev ?core) k)" for k
    using n(5) by (simp add: map_add_def split: option.split)
  have pos: "cu_pos C (inner d') s = Some (a, False)" "cu_pos C (inner d') e = Some (b, False)"
    using cursor_pos [OF d se(1)] cursor_pos [OF d se(2)] n(10) by (simp_all add: same_cursors_def)
  let ?c = "read_comment L C (inner d') ?cid m"
  have "?c\<lparr>cm_fields := []\<rparr> = \<lparr>cm_id = ?cid, cm_file = Some file, cm_parent = None, cm_created_at = created_at,
      cm_range = Some (a, b), cm_orphaned = False, cm_fields = []\<rparr>"
    using ab(1)
    by (simp add: read_comment_def comment_string_def cursor_field_def get core RESERVED_def cursor_code node_code
        resolve_anchor_def pos)
  then have c: "?c\<lparr>cm_fields := []\<rparr> = \<lparr>cm_id = ?cid, cm_file = Some file, cm_parent = None,
      cm_created_at = created_at, cm_range = Some (a, b), cm_orphaned = False, cm_fields = []\<rparr>" .
  have f: "(k, v) \<in> set (cm_fields ?c) \<longleftrightarrow> map_of (rev extra) k = Some v" for k v
  proof -
    have eq: "cm_fields ?c = comment_fields L (inner d') m" by (simp add: read_comment_def split: prod.split)
    note iff = comment_fields_iff(2) [OF n(3), of k v m, folded eq]
    show ?thesis
    proof (cases "map_of (rev extra) k")
      case None
      have "mp_get L (inner d') m k = map_option VVal (map_of (rev ?core) k)" unfolding get None by simp
      moreover have "k \<notin> set RESERVED \<Longrightarrow> map_of (rev ?core) k = None" by (auto simp: RESERVED_def)
      ultimately have "k \<notin> set RESERVED \<Longrightarrow> mp_get L (inner d') m k = None" by simp
      with iff None show ?thesis by auto
    next
      case (Some w)
      then have "k \<notin> set RESERVED" using core [of k] by auto
      moreover have "mp_get L (inner d') m k = Some (VVal w)" unfolding get Some by simp
      ultimately show ?thesis using iff Some by simp
    qed
  qed
  show ?thesis
  proof (intro exI conjI allI impI)
    show "comment_add V L C d file (a, b) created_at extra = Some (d', Some ?cid)"
      using t ab se n(1) by (simp add: comment_add_def)
    show "comment_get L C d' ?cid = Some ?c" using n(4) by (simp add: comment_get_def)
    show "rel_option comment_eqv (comment_get L C d' x) (comment_get L C d x)" if "x \<noteq> ?cid" for x
      using other_comments [OF d n(3) n(6-8) n(10) that] .
  qed (rule c f refl n(2) n(3) n(9))+
qed

lemma set_writes_field:
  assumes d: "ok (inner d)" and key: "key \<notin> set RESERVED" and c: "comment_get L C d cid = Some c"
  shows "\<exists>d' c'. comment_set L d cid key v = Some (d', True) \<and> ok (inner d') \<and>
           comment_get L C d' cid = Some c' \<and> c'\<lparr>cm_fields := []\<rparr> = c\<lparr>cm_fields := []\<rparr> \<and>
           (\<forall>k w. (k, w) \<in> set (cm_fields c') \<longleftrightarrow> (if k = key then w = v else (k, w) \<in> set (cm_fields c))) \<and>
           (\<forall>x. x \<noteq> cid \<longrightarrow> rel_option comment_eqv (comment_get L C d' x) (comment_get L C d x))"
proof -
  obtain m where m: "comment_at L (inner d) cid = Some m" and cc: "c = read_comment L C (inner d) cid m"
    using c by (auto simp: comment_get_def)
  have mr: "m \<noteq> comments_map L" using no_self [OF d] m by (auto simp: comment_at_iff)
  from m have "comment_map L (inner d) m" unfolding comment_map_def by blast
  from put_value [OF d this, of key v] obtain i where i: "mp_insert L (inner d) m key v = Some i" "ok i"
    "map_put L (inner d) i m key (VVal v)" "same_texts L (inner d) i" "same_cursors C (inner d) i" by blast
  have get: "mp_get L i m' x = (if m' = m \<and> x = key then Some (VVal v) else mp_get L (inner d) m' x)" for m' x
    using i(3) by (simp add: map_put_def)
  have at: "comment_at L i x = comment_at L (inner d) x" for x using mr by (simp add: comment_at_def get)
  have r: "key \<noteq> ''file''" "key \<noteq> ''start''" "key \<noteq> ''end''" "key \<noteq> ''parent''" "key \<noteq> ''created_at''"
    using key by (simp_all add: RESERVED_def)
  have ra: "resolve_anchor C i = resolve_anchor C (inner d)"
    using i(5) by (intro ext) (simp add: resolve_anchor_def same_cursors_def)
  let ?c = "read_comment L C i cid m"
  have core: "?c\<lparr>cm_fields := []\<rparr> = c\<lparr>cm_fields := []\<rparr>"
    unfolding cc read_comment_def ra using r
    by (simp add: comment_string_def cursor_field_def get split: prod.split)
  have eq: "cm_fields (read_comment L C d cid m) = comment_fields L d m" for d
    by (simp add: read_comment_def split: prod.split)
  have f: "(k, w) \<in> set (cm_fields ?c) \<longleftrightarrow> (if k = key then w = v else (k, w) \<in> set (cm_fields c))" for k w
    unfolding cc eq comment_fields_iff(2) [OF d] comment_fields_iff(2) [OF i(2)] using key by (auto simp: get)
  have other: "rel_option comment_eqv (comment_get L C (d\<lparr>inner := i\<rparr>) x) (comment_get L C d x)" if "x \<noteq> cid" for x
  proof (cases "comment_at L (inner d) x")
    case (Some m')
    with m that one_id [OF d] have "m' \<noteq> m" by (auto simp: comment_at_iff)
    then show ?thesis
      using Some read_comment_same [OF d i(2) _ i(5), of m' x] by (simp add: comment_get_def at get)
  qed (simp add: comment_get_def at)
  show ?thesis
    by (rule exI [of _ "d\<lparr>inner := i\<rparr>"], rule exI [of _ ?c])
       (use m key i(1,2) core f other in \<open>simp add: comment_set_def comment_get_def at\<close>)
qed

lemma reply_and_remove:
  assumes d: "ok (inner d)" and p: "comment_get L C d parent \<noteq> None"
    and new: "comment_get L C d (comment_id (doc_peer_id V d) (comment_seq d)) = None"
    and extra: "\<forall>(k, v) \<in> set extra. k \<notin> set RESERVED"
  shows "\<exists>d' cid c d''. comment_reply V L d parent created_at extra = Some (d', Some cid) \<and> ok (inner d') \<and>
           comment_get L C d' cid = Some c \<and> cm_parent c = Some parent \<and> cm_file c = None \<and> cm_range c = None \<and>
           cm_created_at c = created_at \<and> cid \<noteq> parent \<and>
           comment_remove L d' parent = Some d'' \<and> ok (inner d'') \<and> comment_get L C d'' parent = None \<and>
           (\<forall>x. x \<noteq> parent \<longrightarrow> rel_option comment_eqv (comment_get L C d'' x) (comment_get L C d' x))"
proof -
  let ?cid = "comment_id (doc_peer_id V d) (comment_seq d)"
  let ?core = "[(''parent'', LString parent), (''created_at'', LI64 created_at)]"
  obtain mp where mp: "comment_at L (inner d) parent = Some mp" using p by (auto simp: comment_get_def)
  from new_comment_ok [OF d, of V "?core @ extra"] obtain d' m where n:
    "new_comment V L d (?core @ extra) = Some (d', Some ?cid)" "ok (inner d')"
    "comment_at L (inner d') ?cid = Some m"
    "\<forall>k. mp_get L (inner d') m k = map_option VVal (map_of (rev (?core @ extra)) k)" by metis
  have core: "map_of (rev extra) k = None" if "k \<in> set RESERVED" for k
    using extra that by (force simp: map_of_eq_None_iff)
  have get: "mp_get L (inner d') m k = map_option VVal (map_of (rev ?core) k)" if "k \<in> set RESERVED" for k
    using n(4) core [OF that] by (simp add: map_add_def)
  let ?c = "read_comment L C (inner d') ?cid m"
  have c: "cm_parent ?c = Some parent" "cm_file ?c = None" "cm_range ?c = None" "cm_created_at ?c = created_at"
    by (simp_all add: read_comment_def comment_string_def cursor_field_def get RESERVED_def)
  from delete_key [OF n(2), of parent] obtain i where i: "mp_delete L (inner d') (comments_map L) parent = Some i" "ok i"
    "\<forall>m x. mp_get L i m x = (if m = comments_map L \<and> x = parent then None else mp_get L (inner d') m x)"
    "same_cursors C (inner d') i" by blast
  have other: "rel_option comment_eqv (comment_get L C (d'\<lparr>inner := i\<rparr>) x) (comment_get L C d' x)" if "x \<noteq> parent" for x
  proof (cases "comment_at L (inner d') x")
    case (Some m')
    then have "m' \<noteq> comments_map L" using no_self [OF n(2)] by (auto simp: comment_at_iff)
    then have "mp_get L i m' k = mp_get L (inner d') m' k" for k using i(3) by simp
    moreover have "comment_at L i x = Some m'" using Some that i(3) by (simp add: comment_at_iff)
    ultimately show ?thesis
      using Some read_comment_same [OF n(2) i(2) _ i(4), of m' x] by (simp add: comment_get_def)
  next
    case None
    with that i(3) have "comment_at L i x = None" by (simp add: comment_at_def)
    with None show ?thesis by (simp add: comment_get_def)
  qed
  have "comment_reply V L d parent created_at extra = Some (d', Some ?cid)"
    using mp n(1) by (simp add: comment_reply_def)
  moreover have "comment_get L C d' ?cid = Some ?c" using n(3) by (simp add: comment_get_def)
  moreover have "comment_remove L d' parent = Some (d'\<lparr>inner := i\<rparr>)" using i(1) by (simp add: comment_remove_def)
  moreover have "comment_get L C (d'\<lparr>inner := i\<rparr>) parent = None"
    using i(3) by (simp add: comment_get_def comment_at_def)
  moreover have "?cid \<noteq> parent" using p new by auto
  ultimately show ?thesis
    using c n(2) i(2) other
    by (intro exI [of _ d'] exI [of _ ?cid] exI [of _ ?c] exI [of _ "d'\<lparr>inner := i\<rparr>"]) simp
qed

end

end
