(* ===== verification/Comments_Props.thy ===== *)
theory Comments_Props
  imports Comments_Laws
begin

text \<open>
  Comments on the concrete store, and their properties.  A cursor of the concrete store is a fixed
  position, in a text of one-byte characters.
\<close>

section \<open>A concrete store for comments\<close>

definition ref_cur :: "(rtree, nat, nat, nat) loro_cur" where
  "ref_cur = \<lparr>
     tx_len_unicode = (\<lambda>d t. length (rt_str d t)),
     cu_get = (\<lambda>d t i s. if i \<le> length (rt_str d t) then Some i else None),
     cu_encode = (\<lambda>k. replicate k (CHR ''x'')), cu_decode = (\<lambda>bs. Some (length bs)),
     cu_pos = (\<lambda>d k. Some (k, False)),
     tid_str = (\<lambda>n. replicate n (CHR ''n'')), tid_parse = (\<lambda>s. Some (length s))\<rparr>"

definition sub_less :: "nat \<Rightarrow> rmap \<Rightarrow> bool" where
  "sub_less b m = (case m of MSub i \<Rightarrow> i < b | _ \<Rightarrow> True)"

definition note_bounded :: "nat \<Rightarrow> (rmap \<times> string) \<times> (nat, rmap) voc \<Rightarrow> bool" where
  "note_bounded b e \<longleftrightarrow>
     sub_less b (fst (fst e)) \<and> (case snd e of VMap m \<Rightarrow> (case m of MSub i \<Rightarrow> i < b | _ \<Rightarrow> False) | _ \<Rightarrow> True)"

definition is_sub :: "(nat, rmap) voc \<Rightarrow> bool" where
  "is_sub v = (case v of VMap _ \<Rightarrow> True | _ \<Rightarrow> False)"

text \<open>No map value is held under two keys.\<close>

definition held_once :: "((rmap \<times> string) \<times> (nat, rmap) voc) list \<Rightarrow> bool" where
  "held_once es \<longleftrightarrow>
     (\<forall>e \<in> set es. \<forall>e' \<in> set es. is_sub (snd e) \<longrightarrow> snd e = snd e' \<longrightarrow> fst e = fst e')"

definition nt_ok :: "rtree \<Rightarrow> bool" where
  "nt_ok d \<longleftrightarrow> (\<forall>e \<in> set (rt_maps d). note_bounded (rt_next d) e) \<and> held_once (rt_maps d)"

lemma held_onceD:
  assumes "held_once es" "(k, VMap x) \<in> set es" "(k', VMap x) \<in> set es"
  shows "k = k'"
  using bspec [OF bspec [OF assms(1) [unfolded held_once_def] assms(2)] assms(3)] by (simp add: is_sub_def)

lemma held_once_Cons:
  assumes "held_once es" "\<forall>e \<in> set es. is_sub v \<longrightarrow> snd e \<noteq> v"
  shows "held_once ((k, v) # es)"
  unfolding held_once_def
proof (intro ballI impI)
  fix e e' assume "e \<in> set ((k, v) # es)" "e' \<in> set ((k, v) # es)" "is_sub (snd e)" "snd e = snd e'"
  then show "fst e = fst e'"
    using assms(2) bspec [OF bspec [OF assms(1) [unfolded held_once_def], of e], of e'] by fastforce
qed

lemma held_once_filter: "held_once es \<Longrightarrow> held_once (filter P es)"
  unfolding held_once_def by (meson filter_is_subset subsetD)

lemma nt_get:
  assumes "nt_ok d" "rt_get d m k = Some v"
  shows "sub_less (rt_next d) m" "v = VMap x \<Longrightarrow> \<exists>i < rt_next d. x = MSub i"
proof -
  have "((m, k), v) \<in> set (rt_maps d)" using assms(2) by (auto simp: rt_get_def dest: map_of_SomeD)
  with assms(1) have b: "note_bounded (rt_next d) ((m, k), v)" unfolding nt_ok_def by blast
  then show "sub_less (rt_next d) m" by (simp add: note_bounded_def)
  show "v = VMap x \<Longrightarrow> \<exists>i < rt_next d. x = MSub i"
    using b by (cases x) (simp_all add: note_bounded_def)
qed

lemma nt_get_one:
  assumes "nt_ok d" "rt_get d m k = Some (VMap x)" "rt_get d m' k' = Some (VMap x)"
  shows "m = m' \<and> k = k'"
proof -
  have "((m, k), VMap x) \<in> set (rt_maps d)" "((m', k'), VMap x) \<in> set (rt_maps d)"
    using assms(2,3) by (auto simp: rt_get_def dest: map_of_SomeD)
  moreover have "held_once (rt_maps d)" using assms(1) by (simp add: nt_ok_def)
  ultimately have "(m, k) = (m', k')" using held_onceD by blast
  then show ?thesis by simp
qed

lemma note_bounded_mono: "note_bounded b e \<Longrightarrow> b \<le> c \<Longrightarrow> note_bounded c e"
  by (auto simp: note_bounded_def sub_less_def split: rmap.splits voc.splits)

lemma nt_ok_put_value: "nt_ok d \<Longrightarrow> sub_less (rt_next d) m \<Longrightarrow> nt_ok (rt_put d m k (VVal v))"
  by (simp add: nt_ok_def rt_put_def note_bounded_def held_once_Cons is_sub_def)

lemma nt_ok_put_map:
  assumes "nt_ok d"
  shows "nt_ok (rt_put (d\<lparr>rt_next := Suc (rt_next d)\<rparr>) (MRoot r) k (VMap (MSub (rt_next d))))"
proof -
  have b: "\<forall>e \<in> set (rt_maps d). note_bounded (rt_next d) e" using assms by (simp add: nt_ok_def)
  then have "\<forall>e \<in> set (rt_maps d). note_bounded (Suc (rt_next d)) e" using note_bounded_mono by fastforce
  moreover have "note_bounded (Suc (rt_next d)) ((MRoot r, k), VMap (MSub (rt_next d)))"
    by (simp add: note_bounded_def sub_less_def)
  moreover have "\<forall>e \<in> set (rt_maps d). snd e \<noteq> VMap (MSub (rt_next d))"
    using b by (fastforce simp: note_bounded_def)
  ultimately show ?thesis using assms by (simp add: nt_ok_def rt_put_def held_once_Cons)
qed

lemma comments_map_ref [simp]: "comments_map ref_ct = MRoot ''comments''"
  by (simp add: comments_map_def)

lemma nt_comment_map:
  assumes "nt_ok d" "comment_map ref_ct d m"
  shows "sub_less (rt_next d) m"
proof (cases "m = MRoot ''comments''")
  case False
  with assms(2) obtain cid where "rt_get d (MRoot ''comments'') cid = Some (VMap m)"
    by (auto simp: comment_map_def comment_at_iff)
  from nt_get(2) [OF assms(1) this, of m] show ?thesis by (auto simp: sub_less_def)
qed (simp add: sub_less_def)

lemma same_cursors_ref [simp]: "same_cursors ref_cur d d'"
  by (simp add: same_cursors_def ref_cur_def)

interpretation rnotes: loro_comments ref_ct ref_cur nt_ok
proof (unfold_locales, goal_cases)
  case (1 d m k v)
  then have "nt_ok (rt_put d m k (VVal v))" using nt_ok_put_value nt_comment_map by blast
  moreover have "same_texts ref_ct d (rt_put d m k (VVal v))"
    by (simp add: same_texts_def rt_put_def rt_str_def)
  ultimately show ?case by (simp add: map_put_def rt_get_put)
next
  case (2 d k)
  let ?d = "rt_put (d\<lparr>rt_next := Suc (rt_next d)\<rparr>) (MRoot ''comments'') k (VMap (MSub (rt_next d)))"
  have "mp_insert_map ref_ct d (comments_map ref_ct) k = Some (?d, MSub (rt_next d))"
    by (simp add: ref_ct_def comments_map_def)
  moreover have "nt_ok ?d" using nt_ok_put_map [OF 2] .
  moreover have "rt_get d (MSub (rt_next d)) x = None" for x
    using nt_get(1) [OF 2, of "MSub (rt_next d)" x]
    by (cases "rt_get d (MSub (rt_next d)) x") (auto simp: sub_less_def)
  moreover have "rt_get d y z \<noteq> Some (VMap (MSub (rt_next d)))" for y z
    using nt_get(2) [OF 2, of y z] by auto
  moreover have "map_put ref_ct d ?d (MRoot ''comments'') k (VMap (MSub (rt_next d)))"
    by (simp add: map_put_def rt_put_def rt_get_def)
  moreover have "same_texts ref_ct d ?d" by (simp add: same_texts_def rt_put_def rt_str_def)
  ultimately show ?case by (intro exI [of _ ?d] exI [of _ "MSub (rt_next d)"]) simp
next
  case (3 d k)
  then show ?case using nt_get(2) [OF 3, of "MRoot ''comments''" k] by auto
next
  case (4 d m k x m' k')
  then show ?case using nt_get_one by simp
next
  case (5 d k)
  let ?d = "d\<lparr>rt_maps := filter (\<lambda>e. fst e \<noteq> (MRoot ''comments'', k)) (rt_maps d)\<rparr>"
  have "mp_delete ref_ct d (comments_map ref_ct) k = Some ?d" by (simp add: ref_ct_def comments_map_def)
  moreover have "nt_ok ?d" using 5 by (simp add: nt_ok_def held_once_filter)
  moreover have "map_of (filter (\<lambda>e. fst e \<noteq> y) es) z = (if z = y then None else map_of es z)"
    for y z and es :: "((rmap \<times> string) \<times> (nat, rmap) voc) list" by (induction es) auto
  ultimately show ?case
    by (intro exI [of _ ?d]) (simp add: rt_get_def same_texts_def rt_str_def)
next
  case (6 d m)
  then show ?case
    by (force simp: ref_ct_def rt_get_def map_of_eq_None_iff)
next
  case (7 d i t s)
  then show ?case by (simp add: ref_cur_def)
next
  case (8 d t i s u)
  then show ?case by (simp add: ref_cur_def split: if_splits)
next
  case 9
  then show ?case by (simp add: ref_cur_def)
next
  case 10
  then show ?case by (simp add: ref_cur_def)
qed

text \<open>The concrete store with a peer id, without history: the comments only ask for the id.\<close>

definition note_vdoc :: "(rtree, unit, unit) vdoc" where
  "note_vdoc = \<lparr>
     ld_new = (\<lambda>_. rt_empty), ld_peer_id = (\<lambda>_. 1), ld_commit = (\<lambda>d. d),
     ld_state_vv = (\<lambda>_. ()), ld_state_frontiers = (\<lambda>_. ()),
     ld_export_snapshot = (\<lambda>_. Ok []), ld_export_updates = (\<lambda>_ _. Ok []),
     ld_import = (\<lambda>d _. (d, Ok False)), ld_fork_at = (\<lambda>d _. Some d),
     vv_default = (), vv_encode = (\<lambda>_. []), vv_decode = (\<lambda>_. Ok ())\<rparr>"

text \<open>A document with the file \<open>a.txt\<close> of eleven characters.\<close>

definition demo_notes :: "rtree doc" where
  "demo_notes =
     (let d1 = fst (the (ft_create_file ref_ct rt_empty None ''a.txt''));
          d2 = fst (set_content ref_ct d1 0 ''hello world'')
      in \<lparr>inner = d2, comment_seq = 0\<rparr>)"

lemma demo_notes_ok: "nt_ok (inner demo_notes)"
  by code_simp

section \<open>Properties\<close>

text \<open>
  C14. Adding a comment to a range that fits a file's content never panics and returns a fresh id; the
  comment reads back with the file, the creation time, exactly the range, not orphaned, and exactly
  the given fields when none of them is a key core interprets.  Every other comment and every text is
  unchanged.
\<close>

theorem comment_add_reads_back:
  assumes "loro_comments L C dok" "dok (inner d)" "ft_content L (inner d) file = Some t"
    and "a \<le> b" "b \<le> tx_len_unicode C (inner d) t" "\<forall>(k, v) \<in> set extra. k \<notin> set RESERVED"
  shows "\<exists>d' cid c. comment_add V L C d file (a, b) created_at extra = Some (d', Some cid) \<and>
           dok (inner d') \<and> cid = comment_id (doc_peer_id V d) (comment_seq d) \<and> comment_seq d' = comment_seq d + 1 \<and>
           comment_get L C d' cid = Some c \<and>
           c\<lparr>cm_fields := []\<rparr> = \<lparr>cm_id = cid, cm_file = Some file, cm_parent = None, cm_created_at = created_at,
                                cm_range = Some (a, b), cm_orphaned = False, cm_fields = []\<rparr> \<and>
           (\<forall>k v. (k, v) \<in> set (cm_fields c) \<longleftrightarrow> map_of (rev extra) k = Some v) \<and>
           (\<forall>x. x \<noteq> cid \<longrightarrow> rel_option comment_eqv (comment_get L C d' x) (comment_get L C d x)) \<and>
           same_texts L (inner d) (inner d')"
  by (rule loro_comments.add_reads_back [OF assms])

theorem comment_add_reads_back_witness:
  "\<exists>d' cid c. comment_add note_vdoc ref_ct ref_cur demo_notes 0 (6, 11) 1000 [(''body'', LString ''nice'')] =
     Some (d', Some cid) \<and> comment_get ref_ct ref_cur d' cid = Some c \<and> cm_range c = Some (6, 11)"
proof -
  have "ft_content ref_ct (inner demo_notes) 0 = Some 1" "11 \<le> tx_len_unicode ref_cur (inner demo_notes) 1"
    "\<forall>(k, v) \<in> set [(''body'', LString ''nice'')]. k \<notin> set RESERVED"
    by code_simp+
  from comment_add_reads_back [OF rnotes.loro_comments_axioms demo_notes_ok this(1) _ this(2,3), of 6 note_vdoc 1000]
  obtain d' cid c where c: "comment_add note_vdoc ref_ct ref_cur demo_notes 0 (6, 11) 1000 [(''body'', LString ''nice'')] =
      Some (d', Some cid)" "comment_get ref_ct ref_cur d' cid = Some c"
    "c\<lparr>cm_fields := []\<rparr> = \<lparr>cm_id = cid, cm_file = Some 0, cm_parent = None, cm_created_at = 1000,
        cm_range = Some (6, 11), cm_orphaned = False, cm_fields = []\<rparr>" by auto
  from arg_cong [OF c(3), of cm_range] have "cm_range c = Some (6, 11)" by simp
  with c show ?thesis by blast
qed

text \<open>
  Setting a field never panics.  It is refused, with nothing changed, exactly for a comment that
  does not exist or a key core interprets; otherwise that field has the new value, every other field,
  the anchor, the parent and the creation time stay, and no other comment changes.
\<close>

theorem comment_set_guarded:
  assumes "loro_comments L C dok" "dok (inner d)"
  shows "if key \<in> set RESERVED \<or> comment_get L C d cid = None then comment_set L d cid key v = Some (d, False)
         else \<exists>d' c c'. comment_get L C d cid = Some c \<and> comment_set L d cid key v = Some (d', True) \<and> dok (inner d') \<and>
           comment_get L C d' cid = Some c' \<and> c'\<lparr>cm_fields := []\<rparr> = c\<lparr>cm_fields := []\<rparr> \<and>
           (\<forall>k w. (k, w) \<in> set (cm_fields c') \<longleftrightarrow> (if k = key then w = v else (k, w) \<in> set (cm_fields c))) \<and>
           (\<forall>x. x \<noteq> cid \<longrightarrow> rel_option comment_eqv (comment_get L C d' x) (comment_get L C d x))"
proof (cases "key \<in> set RESERVED \<or> comment_get L C d cid = None")
  case True
  then show ?thesis by (auto simp: comment_set_def comment_get_def)
next
  case False
  then obtain c where c: "comment_get L C d cid = Some c" by auto
  from False have "key \<notin> set RESERVED" by simp
  from loro_comments.set_writes_field [OF assms this c, of v] show ?thesis
    unfolding if_not_P [OF False] using c by blast
qed

definition demo_noted :: "rtree doc" where
  "demo_noted = fst (the (comment_add note_vdoc ref_ct ref_cur demo_notes 0 (6, 11) 1000 []))"

lemma demo_noted_ok: "nt_ok (inner demo_noted)"
  by code_simp

theorem comment_set_guarded_witness:
  "\<exists>d' c'. comment_set ref_ct demo_noted ''0000000000000001-0'' ''resolved'' (LBool True) = Some (d', True) \<and>
     comment_get ref_ct ref_cur d' ''0000000000000001-0'' = Some c' \<and>
     (''resolved'', LBool True) \<in> set (cm_fields c')"
proof -
  have k: "\<not> (''resolved'' \<in> set RESERVED \<or> comment_get ref_ct ref_cur demo_noted ''0000000000000001-0'' = None)"
    by code_simp
  from comment_set_guarded [OF rnotes.loro_comments_axioms demo_noted_ok, of "''resolved''"
      "''0000000000000001-0''" "LBool True", unfolded if_not_P [OF k]]
  obtain d' and c c' :: "nat comment" where "comment_set ref_ct demo_noted ''0000000000000001-0'' ''resolved'' (LBool True) = Some (d', True)"
    "comment_get ref_ct ref_cur d' ''0000000000000001-0'' = Some c'"
    and f: "\<forall>k w. (k, w) \<in> set (cm_fields c') \<longleftrightarrow>
        (if k = ''resolved'' then w = LBool True else (k, w) \<in> set (cm_fields c))"
    by (elim exE conjE) (rule that, assumption+)
  moreover have "(''resolved'', LBool True) \<in> set (cm_fields c')" unfolding f [rule_format] by (simp only: if_True simp_thms)
  ultimately show ?thesis by blast
qed

text \<open>
  A reply to a comment that exists gets a fresh id and reads back with its parent and no anchor;
  removing the parent afterwards takes only the parent: the reply stays and keeps its link.
\<close>

theorem reply_survives_removal:
  assumes "loro_comments L C dok" "dok (inner d)" "comment_get L C d parent \<noteq> None"
    and "comment_get L C d (comment_id (doc_peer_id V d) (comment_seq d)) = None"
    and "\<forall>(k, v) \<in> set extra. k \<notin> set RESERVED"
  shows "\<exists>d' cid c d''. comment_reply V L d parent created_at extra = Some (d', Some cid) \<and> dok (inner d') \<and>
           comment_get L C d' cid = Some c \<and> cm_parent c = Some parent \<and> cm_file c = None \<and> cm_range c = None \<and>
           cm_created_at c = created_at \<and> cid \<noteq> parent \<and>
           comment_remove L d' parent = Some d'' \<and> dok (inner d'') \<and> comment_get L C d'' parent = None \<and>
           (\<forall>x. x \<noteq> parent \<longrightarrow> rel_option comment_eqv (comment_get L C d'' x) (comment_get L C d' x))"
  by (rule loro_comments.reply_and_remove [OF assms])

theorem reply_survives_removal_witness:
  "\<exists>d' cid. comment_reply note_vdoc ref_ct demo_noted ''0000000000000001-0'' 2 [] = Some (d', Some cid) \<and>
     cid \<noteq> ''0000000000000001-0''"
proof -
  have "comment_get ref_ct ref_cur demo_noted ''0000000000000001-0'' \<noteq> None"
    "comment_get ref_ct ref_cur demo_noted (comment_id (doc_peer_id note_vdoc demo_noted) (comment_seq demo_noted)) = None"
    by code_simp+
  from reply_survives_removal [OF rnotes.loro_comments_axioms demo_noted_ok this, of "[]" 2] show ?thesis by auto
qed

text \<open>
  Ids of comments never repeat: two ids are equal only when they were made by the same peer at the
  same count of its session.
\<close>

theorem comment_ids_distinct:
  "snd (next_id V d) = snd (next_id V e) \<longleftrightarrow>
     doc_peer_id V d = doc_peer_id V e \<and> comment_seq d = comment_seq e"
  by (simp add: next_id_def comment_id_inj)

text \<open>
  The fields given to \<open>add\<close> are written after what core interprets, and are not checked against it:
  here a comment made on one node reads back as anchored to another.
\<close>

lemma add_overwrites_core:
  "case comment_add note_vdoc ref_ct ref_cur demo_notes 0 (6, 11) 1000 [(''file'', LString ''nnn'')] of
     Some (d', Some cid) \<Rightarrow> map_option cm_file (comment_get ref_ct ref_cur d' cid) = Some (Some 3)
   | _ \<Rightarrow> False"
  by code_simp

end
