(* ===== verification/Workspace.thy ===== *)
theory Workspace
  imports Utf8
begin

text \<open>
  \<open>crates/eg/src/workspace.rs\<close>: the trait through which all file access of the command goes, as a
  record of operations over a state, and \<open>MemWorkspace\<close>, its implementation in memory.  A relative
  \<open>Path\<close> is its list of components, the empty list being the root.  \<open>CapWorkspace\<close> is cap-std's
  system calls, so it is only a value of the record.
\<close>

section \<open>Errors of the file system\<close>

datatype io_kind = IoNotFound | IoInvalidData | IoInvalidInput | IoNotEmpty | IoUnsupported | IoAlreadyExists | IoPermissionDenied | IoOther

type_synonym io_error = "io_kind \<times> string"

type_synonym path = "string list"

definition display_path :: "path \<Rightarrow> string" where
  "display_path = join_with ''/''"

section \<open>The trait\<close>

datatype fkind = KFile | KDir

datatype ws_entry = EFile string | EDir string

record 'w workspace =
  ws_read_dir :: "'w \<Rightarrow> path \<Rightarrow> io_error + ws_entry list"
  ws_read_file :: "'w \<Rightarrow> path \<Rightarrow> io_error + bytes"
  ws_write_file :: "'w \<Rightarrow> path \<Rightarrow> bytes \<Rightarrow> 'w \<times> (io_error + unit)"
  ws_write_private :: "'w \<Rightarrow> path \<Rightarrow> bytes \<Rightarrow> 'w \<times> (io_error + unit)"
  ws_create_dir :: "'w \<Rightarrow> path \<Rightarrow> 'w \<times> (io_error + unit)"
  ws_remove_file :: "'w \<Rightarrow> path \<Rightarrow> 'w \<times> (io_error + unit)"
  ws_remove_dir :: "'w \<Rightarrow> path \<Rightarrow> 'w \<times> (io_error + unit)"
  ws_kind :: "'w \<Rightarrow> path \<Rightarrow> io_error + fkind option"

text \<open>
  What every caller relies on: a file reads back as written, and nothing else changes.  A path names one file: a
  symbolic link that leads from one path of the workspace to another is left out.
\<close>

locale workspace_laws =
  fixes W :: "'w workspace"
  assumes write_read: "ws_write_file W w p c = (w', Ok ()) \<Longrightarrow> ws_read_file W w' p = Ok c"
    and write_other: "ws_write_file W w p c = (w', r) \<Longrightarrow> q \<noteq> p \<Longrightarrow> ws_read_file W w' q = ws_read_file W w q"
    and private_read: "ws_write_private W w p c = (w', Ok ()) \<Longrightarrow> ws_read_file W w' p = Ok c"
    and private_other:
      "ws_write_private W w p c = (w', r) \<Longrightarrow> q \<noteq> p \<Longrightarrow> ws_read_file W w' q = ws_read_file W w q"
    and create_dir_files: "ws_create_dir W w p = (w', r) \<Longrightarrow> ws_read_file W w' q = ws_read_file W w q"
    and remove_dir_files: "ws_remove_dir W w p = (w', r) \<Longrightarrow> ws_read_file W w' q = ws_read_file W w q"
    and remove_file_gone:
      "ws_remove_file W w p = (w', Ok ()) \<Longrightarrow> \<exists>e. ws_read_file W w' p = Err e \<and> fst e = IoNotFound"
    and remove_file_other:
      "ws_remove_file W w p = (w', r) \<Longrightarrow> q \<noteq> p \<Longrightarrow> ws_read_file W w' q = ws_read_file W w q"
    and remove_file_failed: "ws_remove_file W w p = (w', Err e) \<Longrightarrow> ws_read_file W w' p = ws_read_file W w p"

text \<open>Writing and creating bring about nothing but the path itself and the directories above it.\<close>

locale workspace_kinds = workspace_laws +
  assumes write_kind:
      "ws_write_file W w p c = (w', r) \<Longrightarrow> ws_kind W w' q \<noteq> ws_kind W w q \<Longrightarrow> q = p \<or> (q \<noteq> [] \<and> prefix q p)"
    and create_kind:
      "ws_create_dir W w p = (w', r) \<Longrightarrow> ws_kind W w' q \<noteq> ws_kind W w q \<Longrightarrow> q \<noteq> [] \<and> prefix q p"

section \<open>In memory\<close>

text \<open>\<open>BTreeMap\<close> and \<open>BTreeSet\<close>: lists sorted by key.\<close>

fun bt_insert :: "'k::linorder \<Rightarrow> 'v \<Rightarrow> ('k \<times> 'v) list \<Rightarrow> ('k \<times> 'v) list" where
  "bt_insert k v [] = [(k, v)]"
| "bt_insert k v ((k', v') # es) =
     (if k < k' then (k, v) # (k', v') # es
      else if k = k' then (k, v) # es
      else (k', v') # bt_insert k v es)"

definition bt_remove :: "'k \<Rightarrow> ('k \<times> 'v) list \<Rightarrow> ('k \<times> 'v) list" where
  "bt_remove k es = filter (\<lambda>e. fst e \<noteq> k) es"

lemma map_of_bt_insert [simp]: "map_of (bt_insert k v es) = (map_of es)(k \<mapsto> v)"
  by (induction k v es rule: bt_insert.induct) (auto simp: fun_eq_iff)

lemma set_bt_insert: "fst ` set (bt_insert k v es) = insert k (fst ` set es)"
  by (induction k v es rule: bt_insert.induct) auto

lemma sorted_bt_insert: "sorted_wrt (<) (map fst es) \<Longrightarrow> sorted_wrt (<) (map fst (bt_insert k v es))"
proof (induction k v es rule: bt_insert.induct)
  case (2 k v k' v' es)
  then show ?case using set_bt_insert [of k v es] by (auto simp: image_iff)
qed simp

lemma map_of_bt_remove [simp]: "map_of (bt_remove k es) = (map_of es)(k := None)"
  by (simp add: bt_remove_def map_of_filter_key)

record mem_workspace =
  mem_files :: "(path \<times> bytes) list"
  mem_dirs :: "path list"

definition mem_new :: mem_workspace where
  "mem_new = \<lparr>mem_files = [], mem_dirs = []\<rparr>"

text \<open>The direct child of a prefix a path belongs to, and whether the path is nested below it.\<close>

definition direct_child :: "path \<Rightarrow> path \<Rightarrow> (string \<times> bool) option" where
  "direct_child pre path =
     (case strip_prefix pre path of
        None \<Rightarrow> None
      | Some [] \<Rightarrow> None
      | Some (first # rest) \<Rightarrow> Some (first, rest \<noteq> []))"

fun mem_entries :: "mem_workspace \<Rightarrow> path \<Rightarrow> string list \<Rightarrow> path list \<Rightarrow> ws_entry list" where
  "mem_entries w rel seen [] = []"
| "mem_entries w rel seen (path # paths) =
     (case direct_child rel path of
        None \<Rightarrow> mem_entries w rel seen paths
      | Some (name, nested) \<Rightarrow>
          if name \<in> set seen then mem_entries w rel seen paths
          else (if nested \<or> rel @ [name] \<in> set (mem_dirs w) then EDir name else EFile name)
               # mem_entries w rel (name # seen) paths)"

definition mem_read_dir :: "mem_workspace \<Rightarrow> path \<Rightarrow> io_error + ws_entry list" where
  "mem_read_dir w rel = Ok (mem_entries w rel [] (mem_dirs w @ map fst (mem_files w)))"

definition mem_read_file :: "mem_workspace \<Rightarrow> path \<Rightarrow> io_error + bytes" where
  "mem_read_file w rel = ok_or (IoNotFound, display_path rel) (map_of (mem_files w) rel)"

definition mem_create_dir :: "mem_workspace \<Rightarrow> path \<Rightarrow> mem_workspace \<times> (io_error + unit)" where
  "mem_create_dir w rel =
     (if rel = [] then (w, Ok ())
      else (w\<lparr>mem_dirs := map fst (bt_insert rel () (map (\<lambda>p. (p, ())) (mem_dirs w)))\<rparr>, Ok ()))"

definition mem_write_file :: "mem_workspace \<Rightarrow> path \<Rightarrow> bytes \<Rightarrow> mem_workspace \<times> (io_error + unit)" where
  "mem_write_file w rel contents =
     (let w1 = (if rel \<noteq> [] \<and> butlast rel \<noteq> [] then fst (mem_create_dir w (butlast rel)) else w)
      in (w1\<lparr>mem_files := bt_insert rel contents (mem_files w1)\<rparr>, Ok ()))"

definition mem_write_private :: "mem_workspace \<Rightarrow> path \<Rightarrow> bytes \<Rightarrow> mem_workspace \<times> (io_error + unit)" where
  "mem_write_private = mem_write_file"

definition mem_remove_file :: "mem_workspace \<Rightarrow> path \<Rightarrow> mem_workspace \<times> (io_error + unit)" where
  "mem_remove_file w rel =
     (if map_of (mem_files w) rel \<noteq> None
      then (w\<lparr>mem_files := bt_remove rel (mem_files w)\<rparr>, Ok ())
      else (w, Err (IoNotFound, display_path rel)))"

definition mem_remove_dir :: "mem_workspace \<Rightarrow> path \<Rightarrow> mem_workspace \<times> (io_error + unit)" where
  "mem_remove_dir w rel =
     (if list_ex (\<lambda>p. prefix rel p \<and> p \<noteq> rel) (map fst (mem_files w)) \<or>
         list_ex (\<lambda>p. prefix rel p \<and> p \<noteq> rel) (mem_dirs w)
      then (w, Err (IoNotEmpty, display_path rel))
      else if rel \<in> set (mem_dirs w) then (w\<lparr>mem_dirs := removeAll rel (mem_dirs w)\<rparr>, Ok ())
      else (w, Err (IoNotFound, display_path rel)))"

definition mem_kind :: "mem_workspace \<Rightarrow> path \<Rightarrow> io_error + fkind option" where
  "mem_kind w rel =
     Ok (if map_of (mem_files w) rel \<noteq> None then Some KFile
         else if rel \<in> set (mem_dirs w) then Some KDir
         else None)"

definition mem_ops :: "mem_workspace workspace" where
  "mem_ops = \<lparr>ws_read_dir = mem_read_dir, ws_read_file = mem_read_file, ws_write_file = mem_write_file,
              ws_write_private = mem_write_private, ws_create_dir = mem_create_dir,
              ws_remove_file = mem_remove_file, ws_remove_dir = mem_remove_dir, ws_kind = mem_kind\<rparr>"

lemma mem_ops_simps [simp]:
  "ws_read_dir mem_ops = mem_read_dir" "ws_read_file mem_ops = mem_read_file"
  "ws_write_file mem_ops = mem_write_file" "ws_write_private mem_ops = mem_write_private"
  "ws_create_dir mem_ops = mem_create_dir" "ws_remove_file mem_ops = mem_remove_file"
  "ws_remove_dir mem_ops = mem_remove_dir" "ws_kind mem_ops = mem_kind"
  by (simp_all add: mem_ops_def)

lemma mem_create_dir_files [simp]: "mem_files (fst (mem_create_dir w p)) = mem_files w"
  by (simp add: mem_create_dir_def)

lemma mem_write_files: "mem_files (fst (mem_write_file w p c)) = bt_insert p c (mem_files w)"
  by (simp add: mem_write_file_def Let_def)

interpretation mem: workspace_laws mem_ops
proof (unfold_locales, goal_cases)
  case (1 w p c w')
  then show ?case using mem_write_files [of w p c] by (simp add: mem_read_file_def)
next
  case (2 w p c w' r q)
  then show ?case using mem_write_files [of w p c] by (simp add: mem_read_file_def)
next
  case (3 w p c w')
  then show ?case using mem_write_files [of w p c] by (simp add: mem_read_file_def mem_write_private_def)
next
  case (4 w p c w' r q)
  then show ?case using mem_write_files [of w p c] by (simp add: mem_read_file_def mem_write_private_def)
next
  case (5 w p w' r q)
  then show ?case using mem_create_dir_files [of w p] by (simp add: mem_read_file_def)
next
  case (6 w p w' r q)
  then show ?case by (auto simp: mem_remove_dir_def mem_read_file_def split: if_splits)
next
  case (7 w p w')
  then show ?case by (auto simp: mem_remove_file_def mem_read_file_def split: if_splits)
next
  case (8 w p w' r q)
  then show ?case by (auto simp: mem_remove_file_def mem_read_file_def split: if_splits)
next
  case (9 w p w' e)
  then show ?case by (auto simp: mem_remove_file_def mem_read_file_def split: if_splits)
qed

lemma mem_create_dir_dirs: "set (mem_dirs (fst (mem_create_dir w p))) = (if p = [] then set (mem_dirs w) else insert p (set (mem_dirs w)))"
proof -
  have "fst ` set (map (\<lambda>p. (p, ())) (mem_dirs w)) = set (mem_dirs w)" by (auto simp: image_image)
  then show ?thesis using set_bt_insert [of p "()" "map (\<lambda>p. (p, ())) (mem_dirs w)"] by (simp add: mem_create_dir_def)
qed

interpretation mem_kd: workspace_kinds mem_ops
proof (unfold_locales, goal_cases)
  case (1 w p c w' r q)
  then have w': "w' = fst (mem_write_file w p c)" by simp
  show ?case
  proof (rule ccontr)
    assume no: "\<not> (q = p \<or> q \<noteq> [] \<and> prefix q p)"
    then have "q \<noteq> p" "butlast p \<noteq> [] \<longrightarrow> q \<noteq> butlast p" using prefix_order.dual_order.refl
      by (auto simp: prefixeq_butlast)
    then have "q \<in> set (mem_dirs w') \<longleftrightarrow> q \<in> set (mem_dirs w)"
      using mem_create_dir_dirs [of w "butlast p"] by (auto simp: w' mem_write_file_def Let_def)
    with \<open>q \<noteq> p\<close> have "mem_kind w' q = mem_kind w q"
      using mem_write_files [of w p c] by (simp add: mem_kind_def w')
    with 1 show False by simp
  qed
next
  case (2 w p w' r q)
  then have w': "w' = fst (mem_create_dir w p)" by simp
  have "q \<in> set (mem_dirs w') \<longleftrightarrow> q \<in> set (mem_dirs w)" if "\<not> (q \<noteq> [] \<and> prefix q p)"
    using that by (auto simp: w' mem_create_dir_dirs)
  moreover have "mem_files w' = mem_files w" by (simp add: w')
  ultimately have "\<not> (q \<noteq> [] \<and> prefix q p) \<Longrightarrow> mem_kind w' q = mem_kind w q" by (simp add: mem_kind_def)
  with 2(2) show ?case by auto
qed

section \<open>Listings in memory\<close>

text \<open>The names below a prefix, each listed once.\<close>

definition entry_name :: "ws_entry \<Rightarrow> string" where
  "entry_name e = (case e of EDir n \<Rightarrow> n | EFile n \<Rightarrow> n)"

lemma direct_child_Some: "direct_child pre p = Some (n, b) \<longleftrightarrow> (\<exists>r. p = pre @ n # r \<and> b = (r \<noteq> []))"
  by (auto simp: direct_child_def strip_prefix_Some split: option.splits list.splits)

lemma mem_entries_names:
  "distinct (map entry_name (mem_entries w rel seen ps)) \<and>
   set (map entry_name (mem_entries w rel seen ps)) = {n. (\<exists>p \<in> set ps. \<exists>b. direct_child rel p = Some (n, b))} - set seen"
proof (induction w rel seen ps rule: mem_entries.induct)
  case (2 w rel seen path paths)
  show ?case
  proof (cases "direct_child rel path")
    case (Some nb)
    then obtain name nested where nb: "direct_child rel path = Some (name, nested)" by (cases nb) auto
    show ?thesis
    proof (cases "name \<in> set seen")
      case True
      with 2(2) [OF nb refl True] nb show ?thesis by auto
    next
      case False
      note IH = 2(3) [OF nb refl False]
      have "entry_name (if nested \<or> rel @ [name] \<in> set (mem_dirs w) then EDir name else EFile name) = name"
        by (simp add: entry_name_def)
      with IH nb False show ?thesis by auto
    qed
  qed (use 2(1) in auto)
qed simp

end
