(* ===== verification/Config.thy ===== *)
theory Config
  imports Workspace Hex
begin

text \<open>
  \<open>crates/eg/src/config.rs\<close>: the repository's and the machine's configuration, and the merge of
  their scopes.  The TOML parser is the \<open>toml\<close> crate, a parameter from text to a table; a table is
  the list of its entries in iteration order.  Warnings on stderr are left out.
\<close>

section \<open>TOML values\<close>

datatype tval =
    TStr string
  | TInt int
  | TFloat "64 word"
  | TBool bool
  | TDate string
  | TArr "tval list"
  | TTable "(string \<times> tval) list"

type_synonym ttable = "(string \<times> tval) list"

definition as_str :: "tval \<Rightarrow> string option" where
  "as_str v = (case v of TStr s \<Rightarrow> Some s | _ \<Rightarrow> None)"

definition as_array :: "tval \<Rightarrow> tval list option" where
  "as_array v = (case v of TArr a \<Rightarrow> Some a | _ \<Rightarrow> None)"

definition as_table :: "tval \<Rightarrow> ttable option" where
  "as_table v = (case v of TTable t \<Rightarrow> Some t | _ \<Rightarrow> None)"

text \<open>\<open>Value::get\<close> with a string finds nothing in a value that is not a table.\<close>

definition value_get :: "tval \<Rightarrow> string \<Rightarrow> tval option" where
  "value_get v key = (case v of TTable t \<Rightarrow> map_of t key | _ \<Rightarrow> None)"

section \<open>Errors\<close>

definition bad :: "string \<Rightarrow> io_error" where
  "bad msg = (IoInvalidData, ''.eg/config.toml: '' @ msg)"

definition bad_global :: "string \<Rightarrow> io_error" where
  "bad_global msg = (IoInvalidData, ''eg config.toml: '' @ msg)"

definition string_in ::
    "ttable \<Rightarrow> string \<Rightarrow> string \<Rightarrow> (string \<Rightarrow> io_error) \<Rightarrow> io_error + string option" where
  "string_in table key at err =
     (case map_of table key of
        None \<Rightarrow> Ok None
      | Some v \<Rightarrow> (case as_str v of
                     Some s \<Rightarrow> Ok (Some s)
                   | None \<Rightarrow> Err (err (at @ key @ '' must be a string''))))"

section \<open>Colors\<close>

datatype color_error = WrongLength | NonAscii | NotHex

definition color_io_error :: "color_error \<Rightarrow> io_error" where
  "color_io_error e = (case e of
     WrongLength \<Rightarrow> bad ''identity.color must be a 6-digit hex string''
   | _ \<Rightarrow> bad ''identity.color must be a valid hex string, e.g. #ff8800'')"

definition normalize_color :: "string \<Rightarrow> color_error + string" where
  "normalize_color color =
     (let hex = (case strip_prefix ''#'' color of Some r \<Rightarrow> r | None \<Rightarrow> color)
      in if length hex \<noteq> 6 then Err WrongLength
         else if \<not> list_all (\<lambda>c. (of_char c :: nat) < 128) hex then Err NonAscii
         else (case u8_from_hex (take 2 hex) of
                 None \<Rightarrow> Err NotHex
               | Some r \<Rightarrow>
                   (case u8_from_hex (take 2 (drop 2 hex)) of
                      None \<Rightarrow> Err NotHex
                    | Some g \<Rightarrow>
                        (case u8_from_hex (take 2 (drop 4 hex)) of
                           None \<Rightarrow> Err NotHex
                         | Some b \<Rightarrow> Ok (''#'' @ hex_digits 2 r @ hex_digits 2 g @ hex_digits 2 b)))))"

definition first_valid :: "string list \<Rightarrow> (string \<Rightarrow> 'e + 'a) \<Rightarrow> 'a option" where
  "first_valid values validator = find_map (\<lambda>c. result_ok (validator c)) values"

section \<open>The parsed configuration\<close>

record identity_config =
  id_name :: "string option"
  id_email :: "string option"
  id_color :: "string option"

definition identity_default :: identity_config where
  "identity_default = \<lparr>id_name = None, id_email = None, id_color = None\<rparr>"

record config =
  cf_authz_command :: "string list option"
  cf_identity :: identity_config
  cf_session_command :: "string list option"
  cf_remote :: "string option"
  cf_peer :: "string option"
  cf_key :: "string option"

definition config_default :: config where
  "config_default = \<lparr>cf_authz_command = None, cf_identity = identity_default, cf_session_command = None,
                     cf_remote = None, cf_peer = None, cf_key = None\<rparr>"

datatype keys_backend = FileBackend | SecretService

record remote =
  rm_peer :: "string option"
  rm_key :: "string option"
  rm_identity :: identity_config

record global_config =
  gc_identity :: identity_config
  gc_key :: "string option"
  gc_keys_backend :: keys_backend
  gc_remotes :: "(string \<times> remote) list"

definition global_default :: global_config where
  "global_default = \<lparr>gc_identity = identity_default, gc_key = None, gc_keys_backend = FileBackend,
                     gc_remotes = []\<rparr>"

datatype key_selector = KeyPath string | KeyNamed string | KeyRepoFile

record effective =
  ef_identity :: identity_config
  ef_key :: key_selector
  ef_authz_command :: "string list option"
  ef_session_command :: "string list option"

section \<open>Parsing\<close>

definition identity_parse :: "ttable \<Rightarrow> (string \<Rightarrow> io_error) \<Rightarrow> io_error + identity_config" where
  "identity_parse value err =
     (case map_of value ''identity'' of
        None \<Rightarrow> Ok identity_default
      | Some v \<Rightarrow>
          (case as_table v of
             None \<Rightarrow> Err (err ''identity must be a table'')
           | Some table \<Rightarrow>
               (case string_in table ''name'' ''identity.'' err of Inl e \<Rightarrow> Err e | Inr name \<Rightarrow>
               (case string_in table ''email'' ''identity.'' err of Inl e \<Rightarrow> Err e | Inr email \<Rightarrow>
               (case string_in table ''color'' ''identity.'' err of Inl e \<Rightarrow> Err e | Inr color \<Rightarrow>
                  Ok \<lparr>id_name = name, id_email = email, id_color = color\<rparr>)))))"

text \<open>\<open>collect::<Option<Vec<_>>>\<close> of the strings of an array.\<close>

definition all_strs :: "tval list \<Rightarrow> string list option" where
  "all_strs vs = (if list_all (\<lambda>v. as_str v \<noteq> None) vs then Some (map (the \<circ> as_str) vs) else None)"

definition command_field :: "ttable \<Rightarrow> string \<Rightarrow> io_error + string list option" where
  "command_field value table =
     (case Option.bind (map_of value table) (\<lambda>t. value_get t ''command'') of
        None \<Rightarrow> Ok None
      | Some v \<Rightarrow>
          (case Option.bind (as_array v) all_strs of
             None \<Rightarrow> Err (bad (table @ ''.command must be an array of strings''))
           | Some cmd \<Rightarrow>
               if cmd = [] then Err (bad (table @ ''.command must name a program''))
               else Ok (Some cmd)))"

definition config_parse :: "(string \<Rightarrow> string + ttable) \<Rightarrow> string \<Rightarrow> io_error + config" where
  "config_parse toml txt =
     (case toml txt of
        Inl e \<Rightarrow> Err (bad e)
      | Inr value \<Rightarrow>
          if Option.bind (map_of value ''remote'') as_table \<noteq> None
          then Err (bad (''remote must be a string, e.g. remote = '' @ [CHR 0x22] @ ''<name>'' @ [CHR 0x22] @ [CHR 0x0A] @
                         ''hint: [remote.<name>] blocks go in the global config''))
          else if Option.bind (map_of value ''keys'') as_table \<noteq> None
          then Err (bad (''unknown block [keys]'' @ [CHR 0x0A] @
                         ''hint: the keyring backend is configured in the global config''))
          else
            (case string_in value ''remote'' [] bad of Inl e \<Rightarrow> Err e | Inr remote \<Rightarrow>
            (case string_in value ''peer'' [] bad of Inl e \<Rightarrow> Err e | Inr peer \<Rightarrow>
            (case string_in value ''key'' [] bad of Inl e \<Rightarrow> Err e | Inr key \<Rightarrow>
               if remote \<noteq> None \<and> peer \<noteq> None
               then Err (bad ''remote and peer are both set; a repo binds by one or the other'')
               else
                 (case command_field value ''authz'' of Inl e \<Rightarrow> Err e | Inr authz \<Rightarrow>
                 (case command_field value ''session'' of Inl e \<Rightarrow> Err e | Inr session \<Rightarrow>
                 (case identity_parse value bad of Inl e \<Rightarrow> Err e | Inr identity \<Rightarrow>
                    Ok \<lparr>cf_authz_command = authz, cf_identity = identity, cf_session_command = session,
                        cf_remote = remote, cf_peer = peer, cf_key = key\<rparr>)))))))"

definition CONFIG_PATH :: path where "CONFIG_PATH = [''.eg'', ''config.toml'']"

text \<open>The text of a UTF-8 error is the parameter \<open>utf8_err\<close>.\<close>

definition config_load ::
    "'w workspace \<Rightarrow> (string \<Rightarrow> string + ttable) \<Rightarrow> (bytes \<Rightarrow> string) \<Rightarrow> 'w \<Rightarrow> io_error + config" where
  "config_load W toml utf8_err w =
     (case ws_read_file W w CONFIG_PATH of
        Inl e \<Rightarrow> if fst e = IoNotFound then Ok config_default else Err e
      | Inr bs \<Rightarrow> (case from_utf8 bs of
                     None \<Rightarrow> Err (bad (''not utf-8: '' @ utf8_err bs))
                   | Some s \<Rightarrow> config_parse toml s))"

definition parse_backend :: "ttable \<Rightarrow> io_error + keys_backend" where
  "parse_backend value =
     (case Option.bind (map_of value ''keys'') (\<lambda>t. value_get t ''backend'') of
        None \<Rightarrow> Ok FileBackend
      | Some v \<Rightarrow> if as_str v = Some ''file'' then Ok FileBackend
                  else if as_str v = Some ''secret-service'' then Ok SecretService
                  else Err (bad_global (''keys.backend must be '' @ [CHR 0x22] @ ''file'' @ [CHR 0x22] @ '' or '' @
                                        [CHR 0x22] @ ''secret-service'' @ [CHR 0x22])))"

definition parse_remote :: "string \<Rightarrow> tval \<Rightarrow> io_error + remote" where
  "parse_remote name v =
     (case as_table v of
        None \<Rightarrow> Err (bad_global (''remote.'' @ name @ '' must be a table''))
      | Some block \<Rightarrow>
          (let at = ''remote.'' @ name @ ''.''
           in case string_in block ''peer'' at bad_global of Inl e \<Rightarrow> Err e | Inr peer \<Rightarrow>
              (case string_in block ''key'' at bad_global of Inl e \<Rightarrow> Err e | Inr key \<Rightarrow>
              (case string_in block ''name'' at bad_global of Inl e \<Rightarrow> Err e | Inr nm \<Rightarrow>
              (case string_in block ''email'' at bad_global of Inl e \<Rightarrow> Err e | Inr email \<Rightarrow>
              (case string_in block ''color'' at bad_global of Inl e \<Rightarrow> Err e | Inr color \<Rightarrow>
                 Ok \<lparr>rm_peer = peer, rm_key = key,
                     rm_identity = \<lparr>id_name = nm, id_email = email, id_color = color\<rparr>\<rparr>))))))"

fun parse_remotes :: "ttable \<Rightarrow> (string \<times> remote) list \<Rightarrow> io_error + (string \<times> remote) list" where
  "parse_remotes [] acc = Ok acc"
| "parse_remotes ((name, block) # rest) acc =
     (case parse_remote name block of
        Inl e \<Rightarrow> Err e
      | Inr r \<Rightarrow> parse_remotes rest (bt_insert name r acc))"

definition unknown_block :: "ttable \<Rightarrow> string option" where
  "unknown_block value = find (\<lambda>t. map_of value t \<noteq> None) [''authz'', ''session'']"

definition global_parse :: "(string \<Rightarrow> string + ttable) \<Rightarrow> string \<Rightarrow> io_error + global_config" where
  "global_parse toml txt =
     (case toml txt of
        Inl e \<Rightarrow> Err (bad_global e)
      | Inr value \<Rightarrow>
          (case unknown_block value of
             Some t \<Rightarrow> Err (bad_global (''unknown block ['' @ t @ '']'' @ [CHR 0x0A] @
                                        ''hint: hooks go in the repo'' @ [CHR 0x27] @ ''s .eg/config.toml''))
           | None \<Rightarrow>
               (case string_in value ''key'' [] bad_global of Inl e \<Rightarrow> Err e | Inr key \<Rightarrow>
               (case identity_parse value bad_global of Inl e \<Rightarrow> Err e | Inr identity \<Rightarrow>
               (case parse_backend value of Inl e \<Rightarrow> Err e | Inr backend \<Rightarrow>
               (case (case map_of value ''remote'' of
                        None \<Rightarrow> Ok []
                      | Some v \<Rightarrow> (case as_table v of
                                     None \<Rightarrow> Err (bad_global ''remote must be a table of [remote.<name>] blocks'')
                                   | Some table \<Rightarrow> parse_remotes table [])) of
                  Inl e \<Rightarrow> Err e
                | Inr remotes \<Rightarrow>
                    Ok \<lparr>gc_identity = identity, gc_key = key, gc_keys_backend = backend,
                        gc_remotes = remotes\<rparr>))))))"

section \<open>Merging the scopes\<close>

definition identity_layer :: "identity_config list \<Rightarrow> identity_config" where
  "identity_layer layers =
     \<lparr>id_name = fold (\<lambda>l acc. opt_or acc (id_name l)) layers None,
      id_email = fold (\<lambda>l acc. opt_or acc (id_email l)) layers None,
      id_color = first_valid (List.map_filter id_color layers) normalize_color\<rparr>"

definition DEVICE_KEY :: string where "DEVICE_KEY = ''device''"

definition selector :: "string \<Rightarrow> key_selector" where
  "selector s = (if CHR ''/'' \<in> set s \<or> s = ''.'' \<or> s = ''..'' then KeyPath s else KeyNamed s)"

definition resolve_scopes ::
    "string option \<Rightarrow> string option \<Rightarrow> config \<Rightarrow> global_config \<Rightarrow> bool \<Rightarrow> io_error + effective" where
  "resolve_scopes cli_key env_key repo global repo_key_file =
     (case (case cf_remote repo of
              None \<Rightarrow> Ok None
            | Some name \<Rightarrow>
                (case map_of (gc_remotes global) name of
                   Some r \<Rightarrow> Ok (Some r)
                 | None \<Rightarrow> Err (bad_global (''no [remote.'' @ name @ ''] (referenced by .eg/config.toml)'')))) of
        Inl e \<Rightarrow> Err e
      | Inr remote \<Rightarrow>
          (let key = opt_or (opt_or (map_option selector (opt_or (opt_or cli_key env_key) (cf_key repo)))
                                    (if repo_key_file then Some KeyRepoFile else None))
                            (map_option selector (opt_or (Option.bind remote rm_key) (gc_key global)))
           in Ok \<lparr>ef_identity = identity_layer
                    [cf_identity repo,
                     (case remote of None \<Rightarrow> identity_default | Some r \<Rightarrow> rm_identity r),
                     gc_identity global],
                  ef_key = (case key of None \<Rightarrow> KeyNamed DEVICE_KEY | Some k \<Rightarrow> k),
                  ef_authz_command = cf_authz_command repo,
                  ef_session_command = cf_session_command repo\<rparr>))"

end
