(* ===== verification/Config_Props.thy ===== *)
theory Config_Props
  imports Config
begin

text \<open>What the configuration promises: canonical colors, the order of the scopes, no silent fallback.\<close>

section \<open>Colors\<close>

definition lower_hex :: "char \<Rightarrow> bool" where
  "lower_hex c \<longleftrightarrow> (\<exists>n < 16. c = hex_digit n)"

lemma lower_hex_digit: "n < 16 \<Longrightarrow> lower_hex (hex_digit n)"
  by (auto simp: lower_hex_def)

lemma lower_hex_ascii: "lower_hex c \<Longrightarrow> (of_char c :: nat) < 128"
  by (auto simp: lower_hex_def of_char_hex_digit)

lemma hex2_lower: "\<forall>c \<in> set (hex_digits 2 n). lower_hex c"
  using lower_hex_digit by (simp add: hex2)

text \<open>The text of three byte values.\<close>

definition color_of :: "nat \<Rightarrow> nat \<Rightarrow> nat \<Rightarrow> string" where
  "color_of r g b = ''#'' @ hex_digits 2 r @ hex_digits 2 g @ hex_digits 2 b"

lemma normalize_color_of:
  assumes "r < 256" "g < 256" "b < 256"
  shows "normalize_color (color_of r g b) = Ok (color_of r g b)"
proof -
  let ?h = "hex_digits 2 r @ hex_digits 2 g @ hex_digits 2 b"
  have "list_all (\<lambda>c. (of_char c :: nat) < 128) ?h"
    using hex2_lower lower_hex_ascii by (simp add: list_all_iff) blast
  moreover have "strip_prefix ''#'' (color_of r g b) = Some ?h" by (simp add: color_of_def)
  moreover have "take 2 ?h = hex_digits 2 r" "take 2 (drop 2 ?h) = hex_digits 2 g"
    "take 2 (drop 4 ?h) = hex_digits 2 b" by simp_all
  ultimately show ?thesis
    unfolding normalize_color_def Let_def using assms u8_from_hex_digits by (simp add: color_of_def)
qed

lemma normalize_color_Ok:
  assumes "normalize_color c = Ok s"
  shows "\<exists>r g b. r < 256 \<and> g < 256 \<and> b < 256 \<and> s = color_of r g b"
proof -
  from assms obtain r g b h1 h2 h3 where "u8_from_hex h1 = Some r" "u8_from_hex h2 = Some g"
    "u8_from_hex h3 = Some b" "s = color_of r g b"
    by (auto simp: normalize_color_def Let_def color_of_def split: option.splits if_splits)
  then show ?thesis using u8_from_hex_less by blast
qed

text \<open>
  A color that validates is put in one canonical form: a number sign and six lower-case hexadecimal
  digits, and normalizing it again changes nothing; so peers never get any other text as a color.
\<close>

theorem normalize_color_canonical:
  assumes "normalize_color c = Ok s"
  shows "normalize_color s = Ok s \<and> (\<exists>ds. s = ''#'' @ ds \<and> length ds = 6 \<and> (\<forall>d \<in> set ds. lower_hex d))"
proof -
  obtain r g b where *: "r < 256" "g < 256" "b < 256" "s = color_of r g b" using normalize_color_Ok [OF assms] by blast
  then have "normalize_color s = Ok s" using normalize_color_of by simp
  moreover have "\<exists>ds. s = ''#'' @ ds \<and> length ds = 6 \<and> (\<forall>d \<in> set ds. lower_hex d)"
    using hex2_lower unfolding *(4) color_of_def
    by (intro exI [of _ "hex_digits 2 r @ hex_digits 2 g @ hex_digits 2 b"]) auto
  ultimately show ?thesis by blast
qed

theorem normalize_color_canonical_witness:
  "normalize_color ''FF8800'' = Ok ''#ff8800'' \<and> normalize_color ''#ff8800'' = Ok ''#ff8800''"
proof -
  have n: "normalize_color ''FF8800'' = Ok ''#ff8800''" by code_simp
  with normalize_color_canonical [OF n] show ?thesis by blast
qed

text \<open>The three byte values are read with \<open>u8::from_str_radix\<close>, which skips a plus sign.\<close>

lemma normalize_color_plus: "normalize_color ''+1+2+3'' = Ok ''#010203''"
  by code_simp

section \<open>The scopes\<close>

text \<open>The value of the first scope that sets one.\<close>

definition first_set :: "'a option list \<Rightarrow> 'a option" where
  "first_set xs = find_map id xs"

lemma first_set_simps [simp]: "first_set [] = None" "first_set (x # xs) = opt_or x (first_set xs)"
  by (simp_all add: first_set_def opt_or_def)

lemma opt_or_assoc [simp]: "opt_or (opt_or x y) z = opt_or x (opt_or y z)"
  by (cases x) simp_all

lemma map_opt_or: "map_option f (opt_or x y) = opt_or (map_option f x) (map_option f y)"
  by (cases x) simp_all

lemma opt_or_case: "(case opt_or x y of None \<Rightarrow> d | Some k \<Rightarrow> k) = (case opt_or x (opt_or y (Some d)) of None \<Rightarrow> d | Some k \<Rightarrow> k)"
  by (cases x; cases y) simp_all

lemma first_valid_color: "first_valid cs normalize_color = Some c \<Longrightarrow> normalize_color c = Ok c"
proof -
  assume "first_valid cs normalize_color = Some c"
  then obtain x where "result_ok (normalize_color x) = Some c"
    unfolding first_valid_def by (blast dest: find_map_Some_in)
  then have "normalize_color x = Ok c" by (cases "normalize_color x") auto
  from normalize_color_Ok [OF this] normalize_color_of show "normalize_color c = Ok c" by blast
qed

text \<open>A color counts as set where it normalizes, and then as its canonical form.\<close>

definition set_color :: "string option \<Rightarrow> string option" where
  "set_color c = Option.bind c (\<lambda>c. result_ok (normalize_color c))"

lemma first_valid_layers:
  "first_valid (List.map_filter f layers) normalize_color = first_set (map (set_color \<circ> f) layers)"
  by (induction layers) (auto simp: first_valid_def set_color_def opt_or_def split: option.splits)

lemma layered_color: "id_color (identity_layer layers) = first_set (map (set_color \<circ> id_color) layers)"
  by (simp add: identity_layer_def first_valid_layers)

text \<open>
  C15. Merging the scopes fails exactly when the repository names a remote the machine does not define.
  Otherwise the key is the first one set of the command line, the environment, the repository's configuration,
  the repository's key file, the remote, the machine and the device key; name and email are the first set of
  repository, remote and machine; the color is the canonical form of the first color among repository, remote
  and machine that is one, a malformed color being passed over; and the two hooks are the repository's own,
  whatever the machine's configuration says.\<close>

theorem resolve_precedence:
  "case resolve_scopes cli_key env_key repo global repo_key_file of
     Inl e \<Rightarrow> (\<exists>name. cf_remote repo = Some name \<and> map_of (gc_remotes global) name = None)
   | Inr eff \<Rightarrow>
       (\<exists>remote. (case cf_remote repo of None \<Rightarrow> remote = None
                  | Some name \<Rightarrow> remote \<noteq> None \<and> map_of (gc_remotes global) name = remote) \<and>
          Some (ef_key eff) = first_set
            [map_option selector cli_key, map_option selector env_key, map_option selector (cf_key repo),
             (if repo_key_file then Some KeyRepoFile else None),
             map_option selector (Option.bind remote rm_key), map_option selector (gc_key global),
             Some (KeyNamed DEVICE_KEY)] \<and>
          id_name (ef_identity eff) = first_set
            [id_name (cf_identity repo), Option.bind remote (id_name \<circ> rm_identity), id_name (gc_identity global)] \<and>
          id_email (ef_identity eff) = first_set
            [id_email (cf_identity repo), Option.bind remote (id_email \<circ> rm_identity), id_email (gc_identity global)] \<and>
          id_color (ef_identity eff) = first_set
            [set_color (id_color (cf_identity repo)), set_color (Option.bind remote (id_color \<circ> rm_identity)),
             set_color (id_color (gc_identity global))] \<and>
          (\<forall>c. id_color (ef_identity eff) = Some c \<longrightarrow> normalize_color c = Ok c) \<and>
          ef_authz_command eff = cf_authz_command repo \<and> ef_session_command eff = cf_session_command repo)"
proof (cases "resolve_scopes cli_key env_key repo global repo_key_file")
  case (Inl e)
  then show ?thesis by (auto simp: resolve_scopes_def Let_def split: option.splits)
next
  case (Inr eff)
  then obtain remote where r: "case cf_remote repo of None \<Rightarrow> remote = None
      | Some name \<Rightarrow> remote \<noteq> None \<and> map_of (gc_remotes global) name = remote"
    and eff: "eff = \<lparr>ef_identity = identity_layer [cf_identity repo,
        (case remote of None \<Rightarrow> identity_default | Some r \<Rightarrow> rm_identity r), gc_identity global],
      ef_key = (case opt_or (opt_or (map_option selector (opt_or (opt_or cli_key env_key) (cf_key repo)))
                                    (if repo_key_file then Some KeyRepoFile else None))
                            (map_option selector (opt_or (Option.bind remote rm_key) (gc_key global)))
                of None \<Rightarrow> KeyNamed DEVICE_KEY | Some k \<Rightarrow> k),
      ef_authz_command = cf_authz_command repo, ef_session_command = cf_session_command repo\<rparr>"
    by (auto simp: resolve_scopes_def Let_def split: option.splits)
  have key: "Some (ef_key eff) = first_set
      [map_option selector cli_key, map_option selector env_key, map_option selector (cf_key repo),
       (if repo_key_file then Some KeyRepoFile else None),
       map_option selector (Option.bind remote rm_key), map_option selector (gc_key global),
       Some (KeyNamed DEVICE_KEY)]"
    unfolding eff map_opt_or
    by (cases cli_key; cases env_key; cases "cf_key repo"; cases repo_key_file; cases "Option.bind remote rm_key";
        cases "gc_key global") simp_all
  have "id_name (ef_identity eff) = first_set
      [id_name (cf_identity repo), Option.bind remote (id_name \<circ> rm_identity), id_name (gc_identity global)]"
    "id_email (ef_identity eff) = first_set
      [id_email (cf_identity repo), Option.bind remote (id_email \<circ> rm_identity), id_email (gc_identity global)]"
    unfolding eff by (cases remote; simp add: identity_layer_def identity_default_def)+
  moreover have "id_color (ef_identity eff) = Some c \<Longrightarrow> normalize_color c = Ok c" for c
    unfolding eff identity_layer_def by (simp add: first_valid_color)
  moreover have "id_color (ef_identity eff) = first_set
      [set_color (id_color (cf_identity repo)), set_color (Option.bind remote (id_color \<circ> rm_identity)),
       set_color (id_color (gc_identity global))]"
    by (cases remote) (simp_all add: eff layered_color identity_default_def)
  moreover have "ef_authz_command eff = cf_authz_command repo" "ef_session_command eff = cf_session_command repo"
    by (simp_all add: eff)
  ultimately show ?thesis using Inr r key by auto
qed

theorem resolve_precedence_witness:
  "\<not> is_ok (resolve_scopes None None (config_default\<lparr>cf_remote := Some ''thesis''\<rparr>) global_default False)"
proof
  let ?repo = "config_default\<lparr>cf_remote := Some ''thesis''\<rparr>"
  assume "is_ok (resolve_scopes None None ?repo global_default False)"
  then obtain eff where r: "resolve_scopes None None ?repo global_default False = Inr eff" by (auto simp: is_ok_iff)
  have "cf_remote ?repo = Some ''thesis''" "map_of (gc_remotes global_default) ''thesis'' = None"
    by (simp_all add: global_default_def)
  with resolve_precedence [where cli_key = None and env_key = None and global = global_default and
      repo = ?repo and repo_key_file = False, unfolded r sum.case] show False by auto
qed

section \<open>No silent fallback\<close>

lemma all_strs_Some: "all_strs vs = Some cmd \<longleftrightarrow> vs = map TStr cmd"
proof
  assume a: "all_strs vs = Some cmd"
  then have "\<forall>v \<in> set vs. as_str v \<noteq> None" "cmd = map (the \<circ> as_str) vs"
    by (auto simp: all_strs_def list_all_iff split: if_splits)
  moreover have "as_str v \<noteq> None \<Longrightarrow> v = TStr (the (as_str v))" for v by (cases v) (simp_all add: as_str_def)
  ultimately show "vs = map TStr cmd" by (auto intro!: map_idI [symmetric])
qed (auto simp: all_strs_def as_str_def list_all_iff comp_def)

lemma command_field_Ok:
  assumes "command_field value table = Ok cmd"
  shows "case Option.bind (map_of value table) (\<lambda>t. value_get t ''command'') of
           None \<Rightarrow> cmd = None
         | Some v \<Rightarrow> \<exists>argv. cmd = Some argv \<and> argv \<noteq> [] \<and> v = TArr (map TStr argv)"
  using assms
  by (auto simp: command_field_def as_array_def all_strs_Some split: option.splits if_splits tval.splits
      dest!: bind_eq_Some_conv [THEN iffD1])

text \<open>
  Loading the repository's configuration never degrades: a missing file is the defaults, a file that
  cannot be read, is not UTF-8 or is not TOML is an error.  When it loads, a hook written under
  \<open>[authz]\<close> or \<open>[session]\<close> is kept, as a command of at least one word, and the repository is not bound
  both by remote and by peer.
\<close>

theorem config_load_fails_closed:
  "case config_load W toml utf8_err w of
     Inl e \<Rightarrow> (\<forall>ferr. ws_read_file W w CONFIG_PATH = Err ferr \<longrightarrow> fst ferr \<noteq> IoNotFound \<and> e = ferr)
   | Inr cfg \<Rightarrow>
       (case ws_read_file W w CONFIG_PATH of
          Inl ferr \<Rightarrow> fst ferr = IoNotFound \<and> cfg = config_default
        | Inr bs \<Rightarrow> valid_utf8 bs \<and>
            (\<exists>value. toml bs = Ok value \<and> \<not> (cf_remote cfg \<noteq> None \<and> cf_peer cfg \<noteq> None) \<and>
               (\<forall>t v. (map_of value ''authz'' = Some (TTable t) \<and> map_of t ''command'' = Some v \<longrightarrow>
                         (\<exists>argv. cf_authz_command cfg = Some argv \<and> argv \<noteq> [] \<and> v = TArr (map TStr argv))) \<and>
                      (map_of value ''session'' = Some (TTable t) \<and> map_of t ''command'' = Some v \<longrightarrow>
                         (\<exists>argv. cf_session_command cfg = Some argv \<and> argv \<noteq> [] \<and> v = TArr (map TStr argv))))))"
proof (cases "ws_read_file W w CONFIG_PATH")
  case (Inl ferr)
  then show ?thesis by (simp add: config_load_def)
next
  case (Inr bs)
  show ?thesis
  proof (cases "config_load W toml utf8_err w")
    case (Inr cfg)
    then have u: "valid_utf8 bs" and p: "config_parse toml bs = Ok cfg"
      using \<open>ws_read_file W w CONFIG_PATH = Inr bs\<close>
      by (auto simp: config_load_def from_utf8_def split: if_splits)
    then obtain tbl authz session where v: "toml bs = Ok tbl"
      "command_field tbl ''authz'' = Ok authz" "command_field tbl ''session'' = Ok session"
      "cf_authz_command cfg = authz" "cf_session_command cfg = session"
      "\<not> (cf_remote cfg \<noteq> None \<and> cf_peer cfg \<noteq> None)"
      by (auto simp: config_parse_def split: sum.splits if_splits)
    have "\<exists>argv. authz = Some argv \<and> argv \<noteq> [] \<and> x = TArr (map TStr argv)"
      if "map_of tbl ''authz'' = Some (TTable t)" "map_of t ''command'' = Some x" for t x
      using command_field_Ok [OF v(2)] that by (simp add: value_get_def)
    moreover have "\<exists>argv. session = Some argv \<and> argv \<noteq> [] \<and> x = TArr (map TStr argv)"
      if "map_of tbl ''session'' = Some (TTable t)" "map_of t ''command'' = Some x" for t x
      using command_field_Ok [OF v(3)] that by (simp add: value_get_def)
    ultimately show ?thesis
      using Inr \<open>ws_read_file W w CONFIG_PATH = Inr bs\<close> u v by auto
  qed (use Inr in simp)
qed

theorem config_load_fails_closed_witness:
  "\<not> is_ok (config_load mem_ops (\<lambda>_. Ok [(''authz'', TTable [(''command'', TArr [])])]) (\<lambda>_. [])
     (fst (mem_write_file mem_new CONFIG_PATH ''x'')))"
proof
  let ?t = "\<lambda>_ :: string. Ok [(''authz'', TTable [(''command'', TArr [])])] :: string + ttable"
  let ?w = "fst (mem_write_file mem_new CONFIG_PATH ''x'')"
  assume "is_ok (config_load mem_ops ?t (\<lambda>_. []) ?w)"
  then obtain cfg where l: "config_load mem_ops ?t (\<lambda>_. []) ?w = Inr cfg" by (auto simp: is_ok_iff)
  have r: "ws_read_file mem_ops ?w CONFIG_PATH = Inr ''x''" by code_simp
  from config_load_fails_closed [where W = mem_ops and toml = ?t and utf8_err = "\<lambda>_. []" and w = ?w,
      unfolded l r sum.case] show False by auto
qed

text \<open>
  A value of \<open>authz\<close> that is not a table has no \<open>command\<close>, so it reads as no hook at all: the trust file
  then gates connections.
\<close>

lemma authz_not_a_table:
  "map_option cf_authz_command (result_ok (config_parse (\<lambda>_. Ok [(''authz'', TStr ''/usr/bin/gate'')]) txt)) = Some None"
  by (simp add: config_parse_def string_in_def command_field_def value_get_def identity_parse_def)

end
