(* ===== verification/Trust.thy ===== *)
theory Trust
  imports Workspace Sync Hex
begin

text \<open>
  \<open>crates/eg/src/trust.rs\<close>: the trust set of a repository and the command that edits it.  The endpoint
  ids and their text form, and the TOML reading and writing that serde derives for the file, are
  parameters.  \<open>println!\<close> is the list of lines an action prints.  Of the messages only the details are
  left out: what escapes \<open>Debug\<close> puts in a quoted id, and where a text stops being UTF-8.
\<close>

record grant_data =
  gd_perms :: perms
  gd_label :: "string option"

text \<open>The hash map of peers is a list of entries with distinct keys, in its iteration order.\<close>

record 'e trust =
  tr_peers :: "('e \<times> grant_data) list"

record 'e grant =
  gr_id :: 'e
  gr_perms :: perms
  gr_label :: "string option"

datatype access = APull | APush

datatype trust_action = TrustAdd string "access list" | TrustRemove string "access list" | TrustList

text \<open>A row of the file, and the file: a \<open>BTreeMap\<close>, so a list sorted by key.\<close>

record row =
  row_pull :: bool
  row_push :: bool
  row_label :: "string option"

type_synonym trust_file = "(string \<times> row) list"

record 'e trust_codec =
  ep_parse :: "string \<Rightarrow> string + 'e"
  ep_show :: "'e \<Rightarrow> string"
  tf_parse :: "string \<Rightarrow> string + trust_file"
  tf_print :: "trust_file \<Rightarrow> string + string"

definition TRUST_PATH :: path where "TRUST_PATH = [''.eg'', ''trust'']"

section \<open>Rights\<close>

definition perms_from :: "access list \<Rightarrow> perms" where
  "perms_from access =
     (if access = [] then perms_all else \<lparr>pull = (APull \<in> set access), push = (APush \<in> set access)\<rparr>)"

definition flags :: "perms \<Rightarrow> string" where
  "flags p = join_with '' '' ((if pull p then [''pull''] else []) @ (if push p then [''push''] else []))"

section \<open>The set\<close>

definition trust_default :: "'e trust" where
  "trust_default = \<lparr>tr_peers = []\<rparr>"

fun put_peer :: "'e \<Rightarrow> grant_data \<Rightarrow> ('e \<times> grant_data) list \<Rightarrow> ('e \<times> grant_data) list" where
  "put_peer i g [] = [(i, g)]"
| "put_peer i g ((j, h) # es) = (if j = i then (i, g) # es else (j, h) # put_peer i g es)"

definition trust_perms :: "'e trust \<Rightarrow> 'e \<Rightarrow> perms option" where
  "trust_perms t i =
     (case map_of (tr_peers t) i of
        None \<Rightarrow> None
      | Some g \<Rightarrow> if pull (gd_perms g) \<or> push (gd_perms g) then Some (gd_perms g) else None)"

definition grants :: "'e trust_codec \<Rightarrow> 'e trust \<Rightarrow> 'e grant list" where
  "grants K t =
     sort_key (\<lambda>g. ep_show K (gr_id g))
       (map (\<lambda>(i, g). \<lparr>gr_id = i, gr_perms = gd_perms g, gr_label = gd_label g\<rparr>) (tr_peers t))"

definition trust_set :: "'e trust \<Rightarrow> 'e \<Rightarrow> perms \<Rightarrow> 'e trust" where
  "trust_set t i p =
     t\<lparr>tr_peers := put_peer i (case map_of (tr_peers t) i of
                                 None \<Rightarrow> \<lparr>gd_perms = p, gd_label = None\<rparr>
                               | Some g \<Rightarrow> g\<lparr>gd_perms := p\<rparr>) (tr_peers t)\<rparr>"

definition forget :: "'e trust \<Rightarrow> 'e \<Rightarrow> 'e trust" where
  "forget t i = t\<lparr>tr_peers := filter (\<lambda>e. fst e \<noteq> i) (tr_peers t)\<rparr>"

definition drop_one :: "perms \<Rightarrow> access \<Rightarrow> perms" where
  "drop_one p a = (case a of APull \<Rightarrow> p\<lparr>pull := False\<rparr> | APush \<Rightarrow> p\<lparr>push := False\<rparr>)"

definition drop_perms :: "'e trust \<Rightarrow> 'e \<Rightarrow> access list \<Rightarrow> 'e trust \<times> perms option" where
  "drop_perms t i access =
     (case map_of (tr_peers t) i of
        None \<Rightarrow> (t, None)
      | Some g \<Rightarrow>
          (let p = foldl drop_one (gd_perms g) access
           in if pull p \<or> push p
              then (t\<lparr>tr_peers := put_peer i (g\<lparr>gd_perms := p\<rparr>) (tr_peers t)\<rparr>, Some p)
              else (forget t i, None)))"

section \<open>The file\<close>

definition invalid_trust :: "string \<Rightarrow> io_error" where
  "invalid_trust msg = (IoInvalidData, ''.eg/trust: '' @ msg)"

fun load_rows ::
    "'e trust_codec \<Rightarrow> trust_file \<Rightarrow> ('e \<times> grant_data) list \<Rightarrow> io_error + ('e \<times> grant_data) list" where
  "load_rows K [] peers = Ok peers"
| "load_rows K ((s, row) # rows) peers =
     (case ep_parse K s of
        Inl e \<Rightarrow> Err (invalid_trust (''bad endpoint id '' @ [CHR 0x22] @ s @ [CHR 0x22] @ '': '' @ e))
      | Inr i \<Rightarrow>
          load_rows K rows
            (put_peer i \<lparr>gd_perms = \<lparr>pull = row_pull row, push = row_push row\<rparr>, gd_label = row_label row\<rparr> peers))"

definition trust_parse :: "'e trust_codec \<Rightarrow> string \<Rightarrow> io_error + 'e trust" where
  "trust_parse K txt =
     (case tf_parse K txt of
        Inl e \<Rightarrow> Err (invalid_trust e)
      | Inr rows \<Rightarrow> (case load_rows K rows [] of Inl e \<Rightarrow> Err e | Inr peers \<Rightarrow> Ok \<lparr>tr_peers = peers\<rparr>))"

definition trust_load :: "'w workspace \<Rightarrow> 'e trust_codec \<Rightarrow> 'w \<Rightarrow> io_error + 'e trust" where
  "trust_load W K w =
     (case (case ws_read_file W w TRUST_PATH of
              Inl e \<Rightarrow> if fst e = IoNotFound then Ok [] else Err e
            | Inr bs \<Rightarrow> (case from_utf8 bs of None \<Rightarrow> Err (IoInvalidData, ''invalid utf-8'') | Some s \<Rightarrow> Ok s)) of
        Inl e \<Rightarrow> Err e
      | Inr txt \<Rightarrow> trust_parse K txt)"

definition trust_rows :: "'e trust_codec \<Rightarrow> 'e trust \<Rightarrow> trust_file" where
  "trust_rows K t =
     fold (\<lambda>(i, g). bt_insert (ep_show K i)
             \<lparr>row_pull = pull (gd_perms g), row_push = push (gd_perms g), row_label = gd_label g\<rparr>)
       (tr_peers t) []"

definition trust_save :: "'w workspace \<Rightarrow> 'e trust_codec \<Rightarrow> 'w \<Rightarrow> 'e trust \<Rightarrow> 'w \<times> (io_error + unit)" where
  "trust_save W K w t =
     (case tf_print K (trust_rows K t) of
        Inl e \<Rightarrow> (w, Err (IoOther, e))
      | Inr txt \<Rightarrow> ws_write_private W w TRUST_PATH txt)"

section \<open>The command\<close>

text \<open>\<open>open_repo\<close> on an open directory: \<open>.eg/\<close> is made if needed.\<close>

definition open_repo :: "'w workspace \<Rightarrow> 'w \<Rightarrow> 'w \<times> (io_error + unit)" where
  "open_repo W w = ws_create_dir W w [''.eg'']"

definition may_line :: "'e trust_codec \<Rightarrow> 'e \<Rightarrow> perms \<Rightarrow> string" where
  "may_line K i p = ''eg trust: '' @ ep_show K i @ '' may '' @ flags p"

definition list_lines :: "'e trust_codec \<Rightarrow> 'e trust \<Rightarrow> string list" where
  "list_lines K t =
     (let gs = grants K t
      in (if gs = [] then [''no peers trusted (grant access with eg trust add <id>)''] else []) @
         map (\<lambda>g. (let fl = flags (gr_perms g); fl = (if fl = [] then ''none'' else fl)
                   in case gr_label g of
                        Some label \<Rightarrow> ep_show K (gr_id g) @ ''  '' @ fl @ ''  '' @ label
                      | None \<Rightarrow> ep_show K (gr_id g) @ ''  '' @ fl)) gs)"

definition perform_action ::
    "'w workspace \<Rightarrow> 'e trust_codec \<Rightarrow> 'w \<Rightarrow> trust_action \<Rightarrow> 'w \<times> (io_error + string list)" where
  "perform_action W K w action =
     (case open_repo W w of
        (w1, Inl e) \<Rightarrow> (w1, Err e)
      | (w1, Inr _) \<Rightarrow>
          (case trust_load W K w1 of
             Inl e \<Rightarrow> (w1, Err e)
           | Inr t \<Rightarrow>
               (case action of
                  TrustAdd peer access \<Rightarrow>
                    (case ep_parse K peer of
                       Inl e \<Rightarrow> (w1, Err (IoOther, e))
                     | Inr i \<Rightarrow>
                         (case trust_save W K w1 (trust_set t i (perms_from access)) of
                            (w2, Inl e) \<Rightarrow> (w2, Err e)
                          | (w2, Inr _) \<Rightarrow> (w2, Ok [may_line K i (perms_from access)])))
                | TrustRemove peer access \<Rightarrow>
                    (case ep_parse K peer of
                       Inl e \<Rightarrow> (w1, Err (IoOther, e))
                     | Inr i \<Rightarrow>
                         (case (if access = [] then (forget t i, None) else drop_perms t i access) of
                            (t', remaining) \<Rightarrow>
                              (case trust_save W K w1 t' of
                                 (w2, Inl e) \<Rightarrow> (w2, Err e)
                               | (w2, Inr _) \<Rightarrow>
                                   (w2, Ok [case remaining of
                                              Some p \<Rightarrow> may_line K i p
                                            | None \<Rightarrow> ''eg trust: '' @ ep_show K i @ '' removed'']))))
                | TrustList \<Rightarrow> (w1, Ok (list_lines K t)))))"

end
