(* ===== verification/Trust_Props.thy ===== *)
theory Trust_Props
  imports Trust
begin

text \<open>
  The trust set as a map from ids to grants: what each edit does to the map, the round trip through the
  file, and the command as a whole.
\<close>

section \<open>The set as a map\<close>

definition grant_of :: "'e trust \<Rightarrow> 'e \<Rightarrow> grant_data option" where
  "grant_of t = map_of (tr_peers t)"

definition trust_ok :: "'e trust \<Rightarrow> bool" where
  "trust_ok t \<longleftrightarrow> distinct (map fst (tr_peers t))"

lemma map_of_put_peer [simp]: "map_of (put_peer i g es) = (map_of es)(i \<mapsto> g)"
  by (induction i g es rule: put_peer.induct) (auto simp: fun_eq_iff)

lemma set_put_peer: "fst ` set (put_peer i g es) = insert i (fst ` set es)"
  by (induction i g es rule: put_peer.induct) auto

lemma distinct_put_peer: "distinct (map fst es) \<Longrightarrow> distinct (map fst (put_peer i g es))"
  by (induction i g es rule: put_peer.induct) (auto simp: set_put_peer)

lemma trust_set_map:
  "grant_of (trust_set t i p) = (grant_of t)(i \<mapsto> \<lparr>gd_perms = p, gd_label = Option.bind (grant_of t i) gd_label\<rparr>)"
  by (auto simp: grant_of_def trust_set_def fun_eq_iff split: option.split)

lemma forget_map: "grant_of (forget t i) = (grant_of t)(i := None)"
  by (rule ext) (simp add: grant_of_def forget_def map_of_filter_key)

lemma trust_ok_edits:
  assumes "trust_ok t"
  shows "trust_ok (trust_set t i p)" "trust_ok (forget t i)" "trust_ok (fst (drop_perms t i access))"
  using assms
  by (auto simp: trust_ok_def trust_set_def forget_def drop_perms_def Let_def distinct_put_peer
      distinct_map_filter split: option.split)

lemma drop_fold:
  "pull (foldl drop_one p access) \<longleftrightarrow> pull p \<and> APull \<notin> set access"
  "push (foldl drop_one p access) \<longleftrightarrow> push p \<and> APush \<notin> set access"
  by (induction access arbitrary: p) (auto simp: drop_one_def split: access.splits)

lemma drop_perms_map:
  "grant_of (fst (drop_perms t i access)) =
     (case grant_of t i of
        None \<Rightarrow> grant_of t
      | Some g \<Rightarrow>
          (let p = foldl drop_one (gd_perms g) access
           in (grant_of t)(i := if pull p \<or> push p then Some (g\<lparr>gd_perms := p\<rparr>) else None)))"
  by (auto simp: grant_of_def drop_perms_def forget_def map_of_filter_key Let_def split: option.split)

section \<open>The file\<close>

text \<open>
  Ids print as text that parses back, and a file that was printed parses as what was printed, in UTF-8.
\<close>

locale trust_text =
  fixes K :: "'e trust_codec"
  assumes id_text: "ep_parse K (ep_show K i) = Ok i"
    and file_text: "sorted_wrt (<) (map fst rows) \<Longrightarrow>
      \<exists>s. tf_print K rows = Ok s \<and> valid_utf8 s \<and> tf_parse K s = Ok rows"
    and empty_text: "tf_parse K [] = Ok []"
begin

lemma show_inj: "ep_show K i = ep_show K j \<longleftrightarrow> i = j"
  by (metis id_text Inr_inject)

definition row_of :: "grant_data \<Rightarrow> row" where
  "row_of g = \<lparr>row_pull = pull (gd_perms g), row_push = push (gd_perms g), row_label = gd_label g\<rparr>"

definition data_of :: "row \<Rightarrow> grant_data" where
  "data_of r = \<lparr>gd_perms = \<lparr>pull = row_pull r, push = row_push r\<rparr>, gd_label = row_label r\<rparr>"

lemma data_row [simp]: "data_of (row_of g) = g"
  by (simp add: data_of_def row_of_def)

definition add_row :: "'e \<times> grant_data \<Rightarrow> trust_file \<Rightarrow> trust_file" where
  "add_row e = bt_insert (ep_show K (fst e)) (row_of (snd e))"

lemma map_of_add_row [simp]: "map_of (add_row e acc) = (map_of acc)(ep_show K (fst e) \<mapsto> row_of (snd e))"
  by (simp add: add_row_def)

lemma rows_sorted: "sorted_wrt (<) (map fst acc) \<Longrightarrow> sorted_wrt (<) (map fst (fold add_row es acc))"
  by (induction es arbitrary: acc) (simp_all add: add_row_def sorted_bt_insert)

lemma rows_keys: "fst ` set (fold add_row es acc) = ep_show K ` fst ` set es \<union> fst ` set acc"
  by (induction es arbitrary: acc) (auto simp: add_row_def set_bt_insert)

lemma rows_lookup:
  "distinct (map fst es) \<Longrightarrow>
     map_of (fold add_row es acc) (ep_show K i) =
       (case map_of es i of Some g \<Rightarrow> Some (row_of g) | None \<Rightarrow> map_of acc (ep_show K i))"
proof (induction es arbitrary: acc)
  case (Cons e es)
  have "map_of es (fst e) = None" using Cons.prems by (simp add: map_of_eq_None_iff)
  then show ?case using Cons.IH [of "add_row e acc"] Cons.prems
    by (cases e) (auto simp: show_inj split: option.split)
qed simp

lemma load_rows_ids:
  "load_rows K (map (\<lambda>(i, r). (ep_show K i, r)) irs) peers = Ok (fold (\<lambda>(i, r). put_peer i (data_of r)) irs peers)"
  by (induction irs arbitrary: peers) (auto simp: id_text data_of_def)

lemma put_all:
  "distinct (map fst irs) \<Longrightarrow>
     map_of (fold (\<lambda>(i, r). put_peer i (data_of r)) irs peers) i =
       (case map_of irs i of Some r \<Rightarrow> Some (data_of r) | None \<Rightarrow> map_of peers i)"
  "distinct (map fst peers) \<Longrightarrow> distinct (map fst (fold (\<lambda>(i, r). put_peer i (data_of r)) irs peers))"
proof (induction irs arbitrary: peers)
  case (Cons e irs)
  obtain j r where e: "e = (j, r)" by (cases e)
  { case 1
    then have "map_of irs j = None" by (simp add: e map_of_eq_None_iff)
    with Cons.IH(1) [of "put_peer j (data_of r) peers"] 1 show ?case by (simp add: e split: option.splits) }
  { case 2
    from Cons.IH(2) [OF distinct_put_peer [OF 2]] show ?case by (simp add: e) }
qed simp_all

lemma rows_are_ids:
  "\<forall>(s, r) \<in> set rows. s \<in> range (ep_show K) \<Longrightarrow> \<exists>irs. rows = map (\<lambda>(i, r). (ep_show K i, r)) irs"
proof (induction rows)
  case (Cons e rows)
  then obtain i r irs where "e = (ep_show K i, r)" "rows = map (\<lambda>(i, r). (ep_show K i, r)) irs" by (cases e) auto
  then show ?case by (intro exI [of _ "(i, r) # irs"]) simp
qed simp

lemma map_of_ids: "map_of (map (\<lambda>(i, r). (ep_show K i, r)) irs) (ep_show K i) = map_of irs i"
  by (induction irs) (auto simp: show_inj)

text \<open>What is saved loads as the same map.\<close>

lemma print_load:
  assumes "trust_ok t"
  shows "\<exists>s t'. tf_print K (trust_rows K t) = Ok s \<and> valid_utf8 s \<and> trust_parse K s = Ok t' \<and>
           trust_ok t' \<and> grant_of t' = grant_of t"
proof -
  let ?rows = "trust_rows K t"
  have rows: "?rows = fold add_row (tr_peers t) []"
    by (simp add: trust_rows_def row_of_def add_row_def [abs_def] case_prod_unfold)
  have sorted: "sorted_wrt (<) (map fst ?rows)" unfolding rows by (rule rows_sorted) simp
  have "fst ` set ?rows \<subseteq> range (ep_show K)" unfolding rows rows_keys by auto
  then have "\<forall>(s, r) \<in> set ?rows. s \<in> range (ep_show K)" by force
  from rows_are_ids [OF this] obtain irs where irs: "?rows = map (\<lambda>(i, r). (ep_show K i, r)) irs" by blast
  let ?peers = "fold (\<lambda>(i, r). put_peer i (data_of r)) irs []"
  have "distinct (map (ep_show K) (map fst irs))"
    using strict_sorted_distinct [OF sorted] by (simp add: irs case_prod_unfold o_def)
  then have d: "distinct (map fst irs)" by (rule distinct_map [THEN iffD1, THEN conjunct1])
  have "map_of irs i = map_option row_of (map_of (tr_peers t) i)" for i
    using rows_lookup [of "tr_peers t" "[]" i] assms map_of_ids [of irs i]
    by (simp add: rows [symmetric] irs trust_ok_def split: option.splits)
  then have "map_of ?peers = grant_of t"
    by (intro ext) (simp add: put_all(1) [OF d] grant_of_def split: option.split)
  moreover obtain s where "tf_print K ?rows = Ok s" "valid_utf8 s" "tf_parse K s = Ok ?rows"
    using file_text [OF sorted] by blast
  moreover have "load_rows K ?rows [] = Ok ?peers" unfolding irs by (rule load_rows_ids)
  moreover have "distinct (map fst ?peers)" by (rule put_all(2)) simp
  ultimately show ?thesis
    by (intro exI [of _ s] exI [of _ "\<lparr>tr_peers = ?peers\<rparr>"]) (simp add: trust_parse_def trust_ok_def grant_of_def)
qed

end

section \<open>A format for the witnesses\<close>

text \<open>
  Ids are their own text, a row is a line of hexadecimal strings: enough to check that what the theorems
  ask of the format can be had.
\<close>

definition hexes :: "string \<Rightarrow> string" where
  "hexes s = concat (map (\<lambda>c. hex_digits 2 (of_char c)) s)"

fun unhexes :: "string \<Rightarrow> string \<times> string" where
  "unhexes (a # b # s) =
     (case (to_digit16 a, to_digit16 b) of
        (Some x, Some y) \<Rightarrow> (char_of (x * 16 + y) # fst (unhexes s), snd (unhexes s))
      | _ \<Rightarrow> ([], a # b # s))"
| "unhexes s = ([], s)"

lemma unhexes_hexes: "to_digit16 x = None \<Longrightarrow> unhexes (hexes s @ x # r) = (s, x # r)"
proof (induction s)
  case Nil
  then show ?case by (cases r) (simp_all add: hexes_def)
next
  case (Cons c s)
  have "of_char c < (256 :: nat)" by (rule nat_of_char_less_256)
  then have "of_char c div 16 < (16 :: nat)" by (simp add: less_mult_imp_div_less)
  then show ?case using Cons by (simp add: hexes_def hex2)
qed

definition print_row :: "string \<times> row \<Rightarrow> string" where
  "print_row e =
     hexes (fst e) @ CHR ''>'' # CHR ''='' # (if row_pull (snd e) then ''p'' else ''-'') @
     (if row_push (snd e) then ''u'' else ''-'') @
     (case row_label (snd e) of None \<Rightarrow> ''.'' | Some l \<Rightarrow> CHR '':'' # hexes l @ '';'')"

fun parse_rows :: "nat \<Rightarrow> string \<Rightarrow> string + trust_file" where
  "parse_rows 0 s = (if s = [] then Ok [] else Err ''fuel'')"
| "parse_rows (Suc n) s =
     (if s = [] then Ok []
      else case unhexes s of
        (k, g # e # p # u # l # r) \<Rightarrow>
          (let lr = (if l = CHR '':'' then (case unhexes r of (lb, r') \<Rightarrow> (Some lb, tl r')) else (None, r))
           in case parse_rows n (snd lr) of
                Inl msg \<Rightarrow> Err msg
              | Inr rows \<Rightarrow>
                  Ok ((k, \<lparr>row_pull = (p = CHR ''p''), row_push = (u = CHR ''u''), row_label = fst lr\<rparr>) # rows))
      | _ \<Rightarrow> Err ''row'')"

definition demo_codec :: "string trust_codec" where
  "demo_codec = \<lparr>ep_parse = (\<lambda>s. Ok s), ep_show = (\<lambda>s. s), tf_parse = (\<lambda>s. parse_rows (length s) s),
                 tf_print = (\<lambda>rows. Ok (concat (map print_row rows)))\<rparr>"

lemma no_digits: "to_digit16 (CHR ''>'') = None" "to_digit16 (CHR '';'') = None"
  by code_simp+

lemma parse_print_row:
  "parse_rows n s = Ok rows \<Longrightarrow> parse_rows (Suc n) (print_row e @ s) = Ok (e # rows)"
  by (cases e; cases "snd e"; cases "row_label (snd e)")
     (simp_all add: print_row_def unhexes_hexes no_digits Let_def)

lemma parse_print_rows: "length rows \<le> n \<Longrightarrow> parse_rows n (concat (map print_row rows)) = Ok rows"
proof (induction rows arbitrary: n)
  case Nil
  then show ?case by (cases n) simp_all
next
  case (Cons e rows)
  then obtain m where "n = Suc m" "length rows \<le> m" by (cases n) auto
  with Cons.IH parse_print_row show ?case by (simp del: parse_rows.simps)
qed

lemma print_rows_length: "length rows \<le> length (concat (map print_row rows))"
  by (induction rows) (simp_all add: print_row_def)

lemma hex_digits_ascii: "n < 256 \<Longrightarrow> c \<in> set (hex_digits 2 n) \<Longrightarrow> of_char c < (128 :: nat)"
  by (auto simp: hex2 of_char_hex_digit)

lemma print_row_ascii: "c \<in> set (print_row e) \<Longrightarrow> of_char c < (128 :: nat)"
  by (auto simp: print_row_def hexes_def intro: hex_digits_ascii [OF nat_of_char_less_256] split: option.splits if_splits)

interpretation demo_trust: trust_text demo_codec
proof (unfold_locales, goal_cases)
  case (2 rows)
  show ?case using parse_print_rows [OF print_rows_length, of rows] print_row_ascii
    by (auto simp: demo_codec_def intro!: ascii_valid)
qed (simp_all add: demo_codec_def)

section \<open>Loading and saving in a workspace\<close>

lemma distinct_load_rows:
  "load_rows K rows peers = Ok peers' \<Longrightarrow> distinct (map fst peers) \<Longrightarrow> distinct (map fst peers')"
  by (induction K rows peers rule: load_rows.induct) (auto simp: distinct_put_peer split: sum.splits)

lemma trust_load_ok: "trust_load W K w = Ok t \<Longrightarrow> trust_ok t"
  using distinct_load_rows [of K _ "[]"]
  by (auto simp: trust_load_def trust_parse_def trust_ok_def split: sum.splits option.splits if_splits)

lemma trust_load_read: "ws_read_file W w' TRUST_PATH = ws_read_file W w TRUST_PATH \<Longrightarrow> trust_load W K w' = trust_load W K w"
  by (simp add: trust_load_def)

lemma save_load:
  assumes "workspace_laws W" "trust_text K" "trust_ok t" "trust_save W K w t = (w', Ok ())"
  shows "\<exists>t'. trust_load W K w' = Ok t' \<and> trust_ok t' \<and> grant_of t' = grant_of t"
proof -
  obtain s t' where s: "tf_print K (trust_rows K t) = Ok s" "valid_utf8 s" "trust_parse K s = Ok t'"
    "trust_ok t'" "grant_of t' = grant_of t"
    using trust_text.print_load [OF assms(2,3)] by blast
  with assms(4) have "ws_write_private W w TRUST_PATH s = (w', Ok ())" by (simp add: trust_save_def)
  then have "ws_read_file W w' TRUST_PATH = Ok s" by (rule workspace_laws.private_read [OF assms(1)])
  with s show ?thesis by (simp add: trust_load_def from_utf8_def)
qed

lemma save_other:
  "workspace_laws W \<Longrightarrow> trust_save W K w t = (w', r) \<Longrightarrow> q \<noteq> TRUST_PATH \<Longrightarrow>
     ws_read_file W w' q = ws_read_file W w q"
  by (auto simp: trust_save_def split: sum.splits dest: workspace_laws.private_other)

lemma rows_grant:
  "load_rows K rows peers = Ok peers' \<Longrightarrow> map_of peers' i = Some g \<Longrightarrow>
     map_of peers i = Some g \<or>
     (\<exists>(s, r) \<in> set rows. ep_parse K s = Ok i \<and> gd_perms g = \<lparr>pull = row_pull r, push = row_push r\<rparr>)"
  by (induction K rows peers rule: load_rows.induct) (fastforce split: sum.splits if_splits)+

section \<open>Properties of the trust set\<close>

text \<open>
  A saved trust set loads again with the same rights and labels for every id, and saving it
  changes no other file.\<close>

theorem trust_round_trip:
  assumes "workspace_laws W" "trust_text K" "trust_ok t" "trust_save W K w t = (w', Ok ())"
  shows "\<exists>t'. trust_load W K w' = Ok t' \<and> trust_ok t' \<and> grant_of t' = grant_of t \<and>
           (\<forall>i. trust_perms t' i = trust_perms t i) \<and>
           (\<forall>q. q \<noteq> TRUST_PATH \<longrightarrow> ws_read_file W w' q = ws_read_file W w q)"
  using save_load [OF assms] save_other [OF assms(1,4)]
  by (auto simp: trust_perms_def grant_of_def)

definition demo_trusted :: "string trust" where
  "demo_trusted = \<lparr>tr_peers = [(''b'', \<lparr>gd_perms = \<lparr>pull = True, push = False\<rparr>, gd_label = Some ''bob''\<rparr>),
                              (''a'', \<lparr>gd_perms = \<lparr>pull = False, push = False\<rparr>, gd_label = None\<rparr>)]\<rparr>"

theorem trust_round_trip_witness:
  "\<exists>t'. trust_load mem_ops demo_codec (fst (trust_save mem_ops demo_codec mem_new demo_trusted)) = Ok t' \<and>
        grant_of t' = grant_of demo_trusted"
proof -
  have "trust_ok demo_trusted" by (simp add: trust_ok_def demo_trusted_def)
  moreover have "trust_save mem_ops demo_codec mem_new demo_trusted =
      (fst (trust_save mem_ops demo_codec mem_new demo_trusted), Ok ())" by code_simp
  ultimately show ?thesis
    using trust_round_trip [OF mem.workspace_laws_axioms demo_trust.trust_text_axioms] by blast
qed

text \<open>What the command asks for, on the map of grants.\<close>

fun action_spec ::
    "'e trust_codec \<Rightarrow> ('e \<Rightarrow> grant_data option) \<Rightarrow> trust_action \<Rightarrow> 'e \<Rightarrow> grant_data option" where
  "action_spec K m (TrustAdd peer access) =
     (case ep_parse K peer of
        Inl e \<Rightarrow> m
      | Inr i \<Rightarrow> m(i \<mapsto> \<lparr>gd_perms = (if access = [] then perms_all
                                     else \<lparr>pull = (APull \<in> set access), push = (APush \<in> set access)\<rparr>),
                          gd_label = Option.bind (m i) gd_label\<rparr>))"
| "action_spec K m (TrustRemove peer access) =
     (case ep_parse K peer of
        Inl e \<Rightarrow> m
      | Inr i \<Rightarrow>
          (case m i of
             None \<Rightarrow> m
           | Some g \<Rightarrow>
               (let p = \<lparr>pull = (pull (gd_perms g) \<and> APull \<notin> set access), push = (push (gd_perms g) \<and> APush \<notin> set access)\<rparr>
                in m(i := if access \<noteq> [] \<and> (pull p \<or> push p) then Some (g\<lparr>gd_perms := p\<rparr>) else None))))"
| "action_spec K m TrustList = m"

lemma perms_eqI: "pull p = pull q \<Longrightarrow> push p = push q \<Longrightarrow> (p :: perms) = q"
  by (cases p; cases q) simp

lemma fold_drop_one:
  "foldl drop_one p access = \<lparr>pull = (pull p \<and> APull \<notin> set access), push = (push p \<and> APush \<notin> set access)\<rparr>"
  by (rule perms_eqI) (simp_all add: drop_fold)

lemma remove_map:
  "grant_of (fst (if access = [] then (forget t i, None) else drop_perms t i access)) =
     (case grant_of t i of
        None \<Rightarrow> grant_of t
      | Some g \<Rightarrow>
          (let p = \<lparr>pull = (pull (gd_perms g) \<and> APull \<notin> set access), push = (push (gd_perms g) \<and> APush \<notin> set access)\<rparr>
           in (grant_of t)(i := if access \<noteq> [] \<and> (pull p \<or> push p) then Some (g\<lparr>gd_perms := p\<rparr>) else None)))"
  by (auto simp: forget_map drop_perms_map fold_drop_one Let_def fun_eq_iff split: option.splits)

lemma perform_action_loads:
  assumes "workspace_laws W" "trust_text K" "trust_load W K w = Ok t" "perform_action W K w a = (w', Ok out)"
  shows "\<exists>t'. trust_load W K w' = Ok t' \<and> grant_of t' = action_spec K (grant_of t) a"
proof -
  obtain w1 where w1: "open_repo W w = (w1, Ok ())"
    using assms(4) by (auto simp: perform_action_def split: prod.splits sum.splits)
  then have "ws_read_file W w1 TRUST_PATH = ws_read_file W w TRUST_PATH"
    unfolding open_repo_def by (rule workspace_laws.create_dir_files [OF assms(1)])
  then have l: "trust_load W K w1 = Ok t" using assms(3) trust_load_read by metis
  note ok = trust_load_ok [OF l]
  show ?thesis
  proof (cases a)
    case (TrustAdd peer access)
    then obtain i where i: "ep_parse K peer = Ok i" "trust_save W K w1 (trust_set t i (perms_from access)) = (w', Ok ())"
      using assms(4) by (auto simp: perform_action_def w1 l split: sum.splits prod.splits)
    from save_load [OF assms(1,2) trust_ok_edits(1) [OF ok] this(2)]
    show ?thesis by (auto simp: TrustAdd i(1) trust_set_map perms_from_def)
  next
    case (TrustRemove peer access)
    let ?t' = "\<lambda>i. fst (if access = [] then (forget t i, None) else drop_perms t i access)"
    from TrustRemove obtain i where i: "ep_parse K peer = Ok i" "trust_save W K w1 (?t' i) = (w', Ok ())"
      using assms(4) by (fastforce simp: perform_action_def w1 l split: sum.splits prod.splits if_splits)
    have "trust_ok (?t' i)" using trust_ok_edits(2,3) [OF ok] by simp
    from save_load [OF assms(1,2) this i(2)] obtain t' where "trust_load W K w' = Ok t'" "grant_of t' = grant_of (?t' i)"
      by blast
    then show ?thesis by (intro exI [of _ t']) (simp add: TrustRemove i(1) remove_map)
  next
    case TrustList
    with assms(4) show ?thesis using l by (auto simp: perform_action_def w1)
  qed
qed

text \<open>
  C16. A command that succeeds leaves a trust file that loads as what the command asks for: an \<open>add\<close>
  sets the rights of the one id and keeps its label, a \<open>remove\<close> takes away the named rights and drops
  the id when none is left, and no other id changes.\<close>

theorem action_refines_spec:
  assumes "workspace_laws W" "trust_text K" "trust_load W K w = Ok t" "perform_action W K w a = (w', Ok out)"
  shows "\<exists>t'. trust_load W K w' = Ok t' \<and> grant_of t' = action_spec K (grant_of t) a"
  by (rule perform_action_loads [OF assms])

definition demo_home :: mem_workspace where
  "demo_home = fst (trust_save mem_ops demo_codec mem_new demo_trusted)"

definition demo_loaded :: "string trust" where
  "demo_loaded = (case trust_load mem_ops demo_codec demo_home of Inl e \<Rightarrow> demo_trusted | Inr t \<Rightarrow> t)"

lemma demo_loaded: "trust_load mem_ops demo_codec demo_home = Ok demo_loaded"
  by code_simp

theorem action_refines_spec_witness:
  "\<exists>t'. trust_load mem_ops demo_codec
           (fst (perform_action mem_ops demo_codec demo_home (TrustRemove ''b'' [APush]))) = Ok t' \<and>
        grant_of t' = action_spec demo_codec (grant_of demo_loaded) (TrustRemove ''b'' [APush])"
proof -
  have "perform_action mem_ops demo_codec demo_home (TrustRemove ''b'' [APush]) =
      (fst (perform_action mem_ops demo_codec demo_home (TrustRemove ''b'' [APush])), Ok [''eg trust: b may pull''])"
    by code_simp
  from action_refines_spec [OF mem.workspace_laws_axioms demo_trust.trust_text_axioms demo_loaded this]
  show ?thesis .
qed

text \<open>
  C17. The set fails closed: when an id may do anything, the trust file was read, is UTF-8 and a
  well-formed file, and one of its rows names that id and grants exactly those rights, at least one.\<close>

theorem trust_fails_closed:
  assumes "trust_text K" "trust_load W K w = Ok t" "trust_perms t i = Some p"
  shows "\<exists>bs rows s r. ws_read_file W w TRUST_PATH = Ok bs \<and> valid_utf8 bs \<and> tf_parse K bs = Ok rows \<and>
           (s, r) \<in> set rows \<and> ep_parse K s = Ok i \<and>
           p = \<lparr>pull = row_pull r, push = row_push r\<rparr> \<and> (row_pull r \<or> row_push r)"
proof -
  from assms(3) obtain g where g: "map_of (tr_peers t) i = Some g" "p = gd_perms g" "pull p \<or> push p"
    by (auto simp: trust_perms_def split: option.splits if_splits)
  obtain bs rows where b: "tf_parse K bs = Ok rows" "load_rows K rows [] = Ok (tr_peers t)"
    "bs = [] \<or> ws_read_file W w TRUST_PATH = Ok bs \<and> valid_utf8 bs"
    using assms(2) by (auto simp: trust_load_def trust_parse_def from_utf8_def split: sum.splits option.splits if_splits)
  from rows_grant [OF b(2) g(1)] obtain s r where "(s, r) \<in> set rows" "ep_parse K s = Ok i"
    "gd_perms g = \<lparr>pull = row_pull r, push = row_push r\<rparr>" by auto
  moreover from this(1) have "bs \<noteq> []" using b(1) trust_text.empty_text [OF assms(1)] by auto
  ultimately show ?thesis using b g by auto
qed

theorem trust_fails_closed_witness:
  "\<exists>bs rows s r. ws_read_file mem_ops demo_home TRUST_PATH = Ok bs \<and> tf_parse demo_codec bs = Ok rows \<and>
     (s, r) \<in> set rows \<and> ep_parse demo_codec s = Ok ''b'' \<and> row_pull r"
proof -
  have "trust_perms demo_loaded ''b'' = Some \<lparr>pull = True, push = False\<rparr>" by code_simp
  from trust_fails_closed [OF demo_trust.trust_text_axioms demo_loaded this] show ?thesis by fastforce
qed

end
