(* ===== verification/Bridge.thy ===== *)
theory Bridge
  imports Workspace Doc Doc_Fs
begin

text \<open>
  \<open>crates/eg/src/ignore.rs\<close> and \<open>crates/eg/src/bridge.rs\<close>: a directory becomes a document and back.  The
  \<open>ignore\<close> crate is a parameter, as Loro is.  \<open>None\<close> is a panic of the tree, or the end of the fuel that
  bounds the depth of the walk; warnings on standard error are left out.
\<close>

section \<open>Ignore patterns\<close>

record ('b, 'g) gitignore =
  gi_new :: 'b
  gi_add_line :: "'b \<Rightarrow> string \<Rightarrow> string + 'b"
  gi_build :: "'b \<Rightarrow> string + 'g"
  gi_ignored :: "'g \<Rightarrow> path \<Rightarrow> bool \<Rightarrow> bool"

definition EG_DIR :: string where "EG_DIR = ''.eg''"

definition IGNORE_PATH :: path where "IGNORE_PATH = [''.eg'', ''ignore'']"

text \<open>\<open>str::lines\<close> only looks at ASCII bytes, so it works on the bytes of the text.\<close>

definition str_lines :: "string \<Rightarrow> string list" where
  "str_lines s = map (map char_of) (lines_of (map of_char s))"

fun add_lines :: "('b, 'g) gitignore \<Rightarrow> 'b \<Rightarrow> string list \<Rightarrow> io_error + 'b" where
  "add_lines G b [] = Ok b"
| "add_lines G b (l # ls) =
     (case gi_add_line G b l of Inl e \<Rightarrow> Err (IoInvalidData, e) | Inr b' \<Rightarrow> add_lines G b' ls)"

definition ignorer_load :: "'w workspace \<Rightarrow> ('b, 'g) gitignore \<Rightarrow> 'w \<Rightarrow> io_error + 'g" where
  "ignorer_load W G w =
     (case (case ws_read_file W w IGNORE_PATH of
              Inl e \<Rightarrow> if fst e = IoNotFound then Ok [] else Err e
            | Inr bs \<Rightarrow> (case from_utf8 bs of None \<Rightarrow> Err (IoInvalidData, ''invalid utf-8'') | Some s \<Rightarrow> Ok s)) of
        Inl e \<Rightarrow> Err e
      | Inr txt \<Rightarrow>
          (case add_lines G (gi_new G) (str_lines txt) of
             Inl e \<Rightarrow> Err e
           | Inr b \<Rightarrow> (case gi_build G b of Inl e \<Rightarrow> Err (IoInvalidData, e) | Inr g \<Rightarrow> Ok g)))"

definition should_ignore :: "('b, 'g) gitignore \<Rightarrow> 'g \<Rightarrow> path \<Rightarrow> bool \<Rightarrow> bool" where
  "should_ignore G ig rel dir = gi_ignored G ig rel dir"

section \<open>Import\<close>

definition is_dir_entry :: "ws_entry \<Rightarrow> bool" where
  "is_dir_entry e = (case e of EDir _ \<Rightarrow> True | EFile _ \<Rightarrow> False)"

text \<open>
  The loop over the sorted entries of one directory; \<open>sub\<close> is the call for a directory below.  Of an
  insertion that fails only the kind of the error is kept.
\<close>

fun import_entries ::
    "('d, 'n, 't, 'm) loro_ct \<Rightarrow> 'w workspace \<Rightarrow> ('b, 'g) gitignore \<Rightarrow> 'w \<Rightarrow> 'g
       \<Rightarrow> ('d \<Rightarrow> path \<Rightarrow> 'n option \<Rightarrow> nat \<Rightarrow> (('d \<times> nat) \<times> (io_error + unit)) option)
       \<Rightarrow> path \<Rightarrow> 'n option \<Rightarrow> ws_entry list \<Rightarrow> 'd \<Rightarrow> nat \<Rightarrow> (('d \<times> nat) \<times> (io_error + unit)) option"
where
  "import_entries L W G w ig sub rel parent [] d files = Some ((d, files), Ok ())"
| "import_entries L W G w ig sub rel parent (e # es) d files =
     (if rel = [] \<and> entry_name e = EG_DIR then import_entries L W G w ig sub rel parent es d files
      else if should_ignore G ig (rel @ [entry_name e]) (is_dir_entry e)
      then import_entries L W G w ig sub rel parent es d files
      else (case e of
              EDir name \<Rightarrow>
                (case ft_create_dir L d parent name of
                   None \<Rightarrow> None
                 | Some (d1, n) \<Rightarrow>
                     (case sub d1 (rel @ [name]) (Some n) files of
                        None \<Rightarrow> None
                      | Some (st, Inl err) \<Rightarrow> Some (st, Err err)
                      | Some ((d2, files2), Inr _) \<Rightarrow> import_entries L W G w ig sub rel parent es d2 files2))
            | EFile name \<Rightarrow>
                (case ws_read_file W w (rel @ [name]) of
                   Inl err \<Rightarrow> Some ((d, files), Err err)
                 | Inr bs \<Rightarrow>
                     (case from_utf8 bs of
                        None \<Rightarrow> import_entries L W G w ig sub rel parent es d files
                      | Some txt \<Rightarrow>
                          (case ft_create_file L d parent name of
                             None \<Rightarrow> None
                           | Some (d1, n) \<Rightarrow>
                               (case ft_content L d1 n of
                                  None \<Rightarrow> import_entries L W G w ig sub rel parent es d1 (Suc files)
                                | Some t \<Rightarrow>
                                    (case tx_insert L d1 t 0 txt of
                                       None \<Rightarrow> Some ((d1, files), Err (IoOther, []))
                                     | Some d2 \<Rightarrow>
                                         import_entries L W G w ig sub rel parent es d2 (Suc files))))))))"

fun import_dir ::
    "('d, 'n, 't, 'm) loro_ct \<Rightarrow> 'w workspace \<Rightarrow> ('b, 'g) gitignore \<Rightarrow> 'w \<Rightarrow> 'g \<Rightarrow> nat
       \<Rightarrow> 'd \<Rightarrow> path \<Rightarrow> 'n option \<Rightarrow> nat \<Rightarrow> (('d \<times> nat) \<times> (io_error + unit)) option"
where
  "import_dir L W G w ig 0 d rel parent files = None"
| "import_dir L W G w ig (Suc k) d rel parent files =
     (case ws_read_dir W w rel of
        Inl e \<Rightarrow> Some ((d, files), Err e)
      | Inr es \<Rightarrow>
          import_entries L W G w ig (import_dir L W G w ig k) rel parent (sort_key entry_name es) d files)"

definition import_tree ::
    "('d, 'v, 'f) vdoc \<Rightarrow> ('d, 'n, 't, 'm) loro_ct \<Rightarrow> 'w workspace \<Rightarrow> ('b, 'g) gitignore \<Rightarrow> nat \<Rightarrow> 'w \<Rightarrow> 'd doc
       \<Rightarrow> ('d doc \<times> (io_error + nat)) option" where
  "import_tree V L W G fuel w d =
     (case ignorer_load W G w of
        Inl e \<Rightarrow> Some (d, Err e)
      | Inr ig \<Rightarrow>
          (case import_dir L W G w ig fuel (inner d) [] None 0 of
             None \<Rightarrow> None
           | Some ((i, files), Inl e) \<Rightarrow> Some (d\<lparr>inner := i\<rparr>, Err e)
           | Some ((i, files), Inr _) \<Rightarrow> Some (doc_commit V (d\<lparr>inner := i\<rparr>), Ok files)))"

section \<open>Export\<close>

record 'n export_plan =
  pl_files :: "(path \<times> 'n) list"
  pl_dirs :: "(path \<times> 'n) list"

definition materializable :: "('b, 'g) gitignore \<Rightarrow> 'g \<Rightarrow> string \<Rightarrow> path \<Rightarrow> bool \<Rightarrow> bool" where
  "materializable G ig name rel dir \<longleftrightarrow> valid_name name \<and> \<not> should_ignore G ig rel dir"

definition file_text :: "('d, 'n, 't, 'm) loro_ct \<Rightarrow> 'd \<Rightarrow> 'n \<Rightarrow> string" where
  "file_text L d n = (case ft_content L d n of None \<Rightarrow> [] | Some t \<Rightarrow> tx_str L d t)"

text \<open>The loop over siblings, and one node; \<open>sub\<close> is the call for a child.\<close>

fun export_nodes ::
    "('w \<Rightarrow> 'n \<Rightarrow> path \<Rightarrow> 'n export_plan \<Rightarrow> ('w \<times> (io_error + 'n export_plan)) option) \<Rightarrow> 'n list
       \<Rightarrow> path \<Rightarrow> 'w \<Rightarrow> 'n export_plan \<Rightarrow> ('w \<times> (io_error + 'n export_plan)) option"
where
  "export_nodes sub [] parent w plan = Some (w, Ok plan)"
| "export_nodes sub (c # cs) parent w plan =
     (case sub w c parent plan of
        None \<Rightarrow> None
      | Some (w1, Inl e) \<Rightarrow> Some (w1, Err e)
      | Some (w1, Inr plan1) \<Rightarrow> export_nodes sub cs parent w1 plan1)"

fun export_node ::
    "('d, 'n, 't, 'm) loro_ct \<Rightarrow> 'w workspace \<Rightarrow> ('b, 'g) gitignore \<Rightarrow> 'd \<Rightarrow> 'g \<Rightarrow> nat
       \<Rightarrow> 'w \<Rightarrow> 'n \<Rightarrow> path \<Rightarrow> 'n export_plan \<Rightarrow> ('w \<times> (io_error + 'n export_plan)) option"
where
  "export_node L W G d ig 0 w n parent plan = None"
| "export_node L W G d ig (Suc k) w n parent plan =
     (case ft_name L d n of
        None \<Rightarrow> Some (w, Ok plan)
      | Some name \<Rightarrow>
          (let rel = parent @ [name]; kind = ft_kind L d n
           in if \<not> materializable G ig name rel (kind = Some Dir) then Some (w, Ok plan)
              else (case kind of
                      None \<Rightarrow> Some (w, Ok plan)
                    | Some Boundary \<Rightarrow> Some (w, Ok plan)
                    | Some Dir \<Rightarrow>
                        (case ws_create_dir W w rel of
                           (w1, Inl e) \<Rightarrow> Some (w1, Err e)
                         | (w1, Inr _) \<Rightarrow>
                             export_nodes (export_node L W G d ig k) (ft_children L d n) rel w1
                               (plan\<lparr>pl_dirs := pl_dirs plan @ [(rel, n)]\<rparr>))
                    | Some File \<Rightarrow>
                        (case ws_write_file W w rel (file_text L d n) of
                           (w1, Inl e) \<Rightarrow> Some (w1, Err e)
                         | (w1, Inr _) \<Rightarrow> Some (w1, Ok (plan\<lparr>pl_files := pl_files plan @ [(rel, n)]\<rparr>))))))"

definition export_tree ::
    "('d, 'n, 't, 'm) loro_ct \<Rightarrow> 'w workspace \<Rightarrow> ('b, 'g) gitignore \<Rightarrow> nat \<Rightarrow> 'd \<Rightarrow> 'w
       \<Rightarrow> ('w \<times> (io_error + 'n export_plan)) option" where
  "export_tree L W G fuel d w =
     (case ignorer_load W G w of
        Inl e \<Rightarrow> Some (w, Err e)
      | Inr ig \<Rightarrow>
          export_nodes (export_node L W G d ig fuel)
            (filter (\<lambda>n. ft_name L d n \<noteq> Some EG_DIR) (ft_roots L d)) [] w
            \<lparr>pl_files = [], pl_dirs = []\<rparr>)"

end
