(* ===== verification/Bridge_Export.thy ===== *)
theory Bridge_Export
  imports Bridge Doc_Fs_Edit
begin

text \<open>
  What the export of \<open>bridge.rs\<close> writes: never outside the paths a document may show, whatever the
  document; and for a document with distinct sibling names exactly its visible files and directories.
\<close>

section \<open>Visible paths\<close>

text \<open>
  A path of valid names outside \<open>.eg\<close>, of which neither a directory above nor the path itself is
  ignored.
\<close>

definition visible :: "('b, 'g) gitignore \<Rightarrow> 'g \<Rightarrow> bool \<Rightarrow> path \<Rightarrow> bool" where
  "visible G ig dir cs \<longleftrightarrow>
     cs \<noteq> [] \<and> hd cs \<noteq> EG_DIR \<and> list_all valid_name cs \<and> \<not> should_ignore G ig cs dir \<and>
     list_all (\<lambda>p. p = [] \<or> p = cs \<or> \<not> should_ignore G ig p True) (prefixes cs)"

lemma visible_snoc:
  "visible G ig dir (cs @ [c]) \<longleftrightarrow>
     (if cs = [] then c \<noteq> EG_DIR else visible G ig True cs) \<and> materializable G ig c (cs @ [c]) dir"
  by (auto simp: visible_def materializable_def list_all_iff prefixes_snoc)

text \<open>Where the nodes below \<open>parent\<close> may be written.\<close>

definition shown_dir :: "('b, 'g) gitignore \<Rightarrow> 'g \<Rightarrow> path \<Rightarrow> bool" where
  "shown_dir G ig parent \<longleftrightarrow> parent = [] \<or> visible G ig True parent"

section \<open>Nothing else is touched\<close>

definition changes_within :: "'w workspace \<Rightarrow> (path \<Rightarrow> bool) \<Rightarrow> 'w \<Rightarrow> 'w \<Rightarrow> bool" where
  "changes_within W P w w' \<longleftrightarrow> (\<forall>q. ws_read_file W w' q \<noteq> ws_read_file W w q \<longrightarrow> P q)"

lemma changes_within_refl [simp]: "changes_within W P w w"
  by (simp add: changes_within_def)

lemma changes_within_trans:
  "changes_within W P w w1 \<Longrightarrow> changes_within W P w1 w2 \<Longrightarrow> changes_within W P w w2"
  unfolding changes_within_def by metis

text \<open>
  What every call of an export preserves and is passed on, the export preserves: it writes files at visible
  paths and creates directories at visible paths, and calls nothing else.
\<close>

definition kept_by_calls :: "'w workspace \<Rightarrow> ('b, 'g) gitignore \<Rightarrow> 'g \<Rightarrow> ('w \<Rightarrow> 'w \<Rightarrow> bool) \<Rightarrow> bool" where
  "kept_by_calls W G ig R \<longleftrightarrow>
     (\<forall>w. R w w) \<and> (\<forall>a b c. R a b \<longrightarrow> R b c \<longrightarrow> R a c) \<and>
     (\<forall>w p txt w' r. visible G ig False p \<longrightarrow> ws_write_file W w p txt = (w', r) \<longrightarrow> R w w') \<and>
     (\<forall>w p w' r. visible G ig True p \<longrightarrow> ws_create_dir W w p = (w', r) \<longrightarrow> R w w')"

lemma kept_by_callsD:
  assumes "kept_by_calls W G ig R"
  shows "R w w" "R a b \<Longrightarrow> R b c \<Longrightarrow> R a c"
    "visible G ig False p \<Longrightarrow> ws_write_file W w p txt = (w', r) \<Longrightarrow> R w w'"
    "visible G ig True p \<Longrightarrow> ws_create_dir W w p = (w', r) \<Longrightarrow> R w w'"
  using assms unfolding kept_by_calls_def by blast+

lemma nodes_keep:
  assumes R: "kept_by_calls W G ig R"
    and "\<And>c w plan w' r. c \<in> set cs \<Longrightarrow> sub w c parent plan = Some (w', r) \<Longrightarrow> R w w'"
  shows "export_nodes sub cs parent w plan = Some (w', r) \<Longrightarrow> R w w'"
  using assms(2)
proof (induction sub cs parent w plan rule: export_nodes.induct)
  case (1 sub parent w plan)
  then show ?case using kept_by_callsD(1) [OF R] by simp
next
  case (2 sub c cs parent w plan)
  then obtain w1 r1 where s: "sub w c parent plan = Some (w1, r1)" by (auto split: option.splits)
  then have "R w w1" by (rule 2(3) [rotated]) simp
  moreover have "R w1 w'"
  proof (cases r1)
    case (Inl e)
    then show ?thesis using 2(2) s kept_by_callsD(1) [OF R] by simp
  next
    case (Inr plan1)
    have rest: "R a b"
      if "c' \<in> set cs" "sub a c' parent pl = Some (b, res)" for c' a pl b res
      using that(2) by (rule 2(3) [rotated]) (simp add: that(1))
    show ?thesis using 2(1) [OF s refl] 2(2) s Inr rest by simp
  qed
  ultimately show ?case by (rule kept_by_callsD(2) [OF R])
qed

lemma node_keep:
  assumes R: "kept_by_calls W G ig R"
  shows "export_node L W G d ig k w n parent plan = Some (w', r) \<Longrightarrow> shown_dir G ig parent \<Longrightarrow>
           parent = [] \<longrightarrow> ft_name L d n \<noteq> Some EG_DIR \<Longrightarrow> R w w'"
proof (induction k arbitrary: w n parent plan w' r)
  case (Suc k)
  note refl = kept_by_callsD(1) [OF R]
  show ?case
  proof (cases "ft_name L d n")
    case None
    then show ?thesis using Suc.prems(1) refl by simp
  next
    case (Some name)
    let ?rel = "parent @ [name]"
    show ?thesis
    proof (cases "materializable G ig name ?rel (ft_kind L d n = Some Dir)")
      case False
      with Suc.prems(1) Some refl show ?thesis by (simp add: Let_def)
    next
      case True
      then have v: "visible G ig (ft_kind L d n = Some Dir) ?rel"
        using Suc.prems(2,3) Some by (auto simp: visible_snoc shown_dir_def)
      show ?thesis
      proof (cases "ft_kind L d n")
        case None
        with Suc.prems(1) Some refl show ?thesis by (simp add: Let_def split: if_splits)
      next
        case kind: (Some kd)
        show ?thesis
        proof (cases kd)
          case File
          obtain w1 r1 where c: "ws_write_file W w ?rel (file_text L d n) = (w1, r1)"
            by (cases "ws_write_file W w ?rel (file_text L d n)")
          then have "w' = w1"
            using Suc.prems(1) Some True kind File by (auto simp: Let_def split: sum.splits)
          with kept_by_callsD(3) [OF R _ c] v kind File show ?thesis by simp
        next
          case Dir
          obtain w1 r1 where c: "ws_create_dir W w ?rel = (w1, r1)" by (cases "ws_create_dir W w ?rel")
          have step: "R w w1" using kept_by_callsD(4) [OF R _ c] v kind Dir by simp
          show ?thesis
          proof (cases r1)
            case (Inl e)
            with Suc.prems(1) Some True kind Dir c step show ?thesis by (simp add: Let_def)
          next
            case (Inr u)
            let ?plan = "plan\<lparr>pl_dirs := pl_dirs plan @ [(?rel, n)]\<rparr>"
            have "export_nodes (export_node L W G d ig k) (ft_children L d n) ?rel w1 ?plan = Some (w', r)"
              using Suc.prems(1) Some True kind Dir c Inr by (simp add: Let_def)
            then have "R w1 w'"
              using v kind Dir by (rule_tac nodes_keep [OF R]) (auto intro!: Suc.IH simp: shown_dir_def)
            with step show ?thesis by (rule kept_by_callsD(2) [OF R])
          qed
        next
          case Boundary
          with Suc.prems(1) Some True kind refl show ?thesis by (simp add: Let_def)
        qed
      qed
    qed
  qed
qed simp

lemma export_keeps:
  assumes "kept_by_calls W G ig R" "ignorer_load W G w = Ok ig" "export_tree L W G fuel d w = Some (w', r)"
  shows "R w w'"
proof -
  have "R a b"
    if "n \<in> set (filter (\<lambda>n. ft_name L d n \<noteq> Some EG_DIR) (ft_roots L d))"
      "export_node L W G d ig fuel a n [] plan = Some (b, res)" for n a plan b res
    using node_keep [OF assms(1) that(2)] that(1) by (simp add: shown_dir_def)
  moreover have "export_nodes (export_node L W G d ig fuel) (filter (\<lambda>n. ft_name L d n \<noteq> Some EG_DIR) (ft_roots L d)) [] w
      \<lparr>pl_files = [], pl_dirs = []\<rparr> = Some (w', r)"
    using assms(2,3) by (simp add: export_tree_def)
  ultimately show ?thesis by (rule nodes_keep [OF assms(1)])
qed

lemma changes_kept:
  assumes "workspace_laws W"
  shows "kept_by_calls W G ig (changes_within W (visible G ig False))"
  unfolding kept_by_calls_def
proof (intro conjI allI impI)
  fix w p content w' r assume v: "visible G ig False p" "ws_write_file W w p content = (w', r)"
  show "changes_within W (visible G ig False) w w'"
    using v(1) workspace_laws.write_other [OF assms v(2)] unfolding changes_within_def by metis
next
  fix w p w' r assume "ws_create_dir W w p = (w', r)"
  from workspace_laws.create_dir_files [OF assms this] show "changes_within W (visible G ig False) w w'"
    by (simp add: changes_within_def)
qed (auto intro: changes_within_trans)

text \<open>The kinds of the paths: nothing comes or goes but at visible paths.\<close>

definition kinds_within :: "'w workspace \<Rightarrow> (path \<Rightarrow> bool) \<Rightarrow> 'w \<Rightarrow> 'w \<Rightarrow> bool" where
  "kinds_within W P w w' \<longleftrightarrow> (\<forall>q. ws_kind W w' q \<noteq> ws_kind W w q \<longrightarrow> P q)"

lemma visible_above: "visible G ig dir p \<Longrightarrow> q \<noteq> [] \<Longrightarrow> strict_prefix q p \<Longrightarrow> visible G ig True q"
proof (induction p arbitrary: dir rule: rev_induct)
  case (snoc c p)
  then have "prefix q p" "p \<noteq> []" by (auto simp: strict_prefix_def)
  moreover have "p \<noteq> [] \<Longrightarrow> visible G ig True p" using snoc.prems(1) by (simp add: visible_snoc split: if_splits)
  ultimately show ?case using snoc.IH [of True] snoc.prems(2) by (cases "q = p") (auto simp: strict_prefix_def prefix_Nil)
qed simp

lemma kinds_kept:
  assumes "workspace_kinds W"
  shows "kept_by_calls W G ig (kinds_within W (\<lambda>q. \<exists>dir. visible G ig dir q))"
  unfolding kept_by_calls_def
proof (intro conjI allI impI)
  fix w p content w' r assume v: "visible G ig False p" "ws_write_file W w p content = (w', r)"
  have "\<exists>dir. visible G ig dir q" if "ws_kind W w' q \<noteq> ws_kind W w q" for q
    using workspace_kinds.write_kind [OF assms v(2) that] v(1) visible_above [OF v(1)] by (auto simp: strict_prefix_def)
  then show "kinds_within W (\<lambda>q. \<exists>dir. visible G ig dir q) w w'" by (simp add: kinds_within_def)
next
  fix w p w' r assume v: "visible G ig True p" "ws_create_dir W w p = (w', r)"
  have "\<exists>dir. visible G ig dir q" if "ws_kind W w' q \<noteq> ws_kind W w q" for q
    using workspace_kinds.create_kind [OF assms v(2) that] v(1) visible_above [OF v(1)] by (auto simp: strict_prefix_def)
  then show "kinds_within W (\<lambda>q. \<exists>dir. visible G ig dir q) w w'" by (simp add: kinds_within_def)
qed (unfold kinds_within_def, simp, metis)

section \<open>What a node shows\<close>

inductive shown_from ::
    "('d, 'n, 't, 'm) loro_ct \<Rightarrow> ('b, 'g) gitignore \<Rightarrow> 'g \<Rightarrow> 'd \<Rightarrow> 'n \<Rightarrow> path \<Rightarrow> 'n \<Rightarrow> path \<Rightarrow> bool" for L G ig d where
  here: "materializable G ig (last cs) cs (ft_kind L d n = Some Dir) \<Longrightarrow> shown_from L G ig d n cs n cs"
| below: "materializable G ig (last cs) cs True \<Longrightarrow> ft_kind L d n = Some Dir \<Longrightarrow>
            c \<in> set (ft_children L d n) \<Longrightarrow> ft_name L d c = Some x \<Longrightarrow>
            shown_from L G ig d c (cs @ [x]) m p \<Longrightarrow> shown_from L G ig d n cs m p"

inductive_simps shown_from_iff: "shown_from L G ig d n cs m p"

lemma shown_from_snoc:
  "shown_from L G ig d n cs m p \<Longrightarrow> ft_kind L d m = Some Dir \<Longrightarrow> c \<in> set (ft_children L d m) \<Longrightarrow>
     ft_name L d c = Some x \<Longrightarrow> materializable G ig x (p @ [x]) (ft_kind L d c = Some Dir) \<Longrightarrow>
     shown_from L G ig d n cs c (p @ [x])"
proof (induction rule: shown_from.induct)
  case (here cs n)
  then show ?case by (intro shown_from.below [of G ig cs L d n c x]) (auto intro: shown_from.here)
qed (auto intro: shown_from.below)

definition shown :: "('d, 'n, 't, 'm) loro_ct \<Rightarrow> ('b, 'g) gitignore \<Rightarrow> 'g \<Rightarrow> 'd \<Rightarrow> 'n \<Rightarrow> path \<Rightarrow> bool" where
  "shown L G ig d m p \<longleftrightarrow>
     (\<exists>n x. n \<in> set (ft_roots L d) \<and> ft_name L d n = Some x \<and> x \<noteq> EG_DIR \<and> shown_from L G ig d n [x] m p)"

text \<open>A path is shown exactly where a node is located and the path is visible.\<close>

lemma shown_from_located:
  "shown_from L G ig d n cs m p \<Longrightarrow> located L d n cs \<Longrightarrow>
     (if butlast cs = [] then last cs \<noteq> EG_DIR else visible G ig True (butlast cs)) \<Longrightarrow>
     located L d m p \<and> visible G ig (ft_kind L d m = Some Dir) p"
proof (induction rule: shown_from.induct)
  case (here cs n)
  then have "cs = butlast cs @ [last cs]" by (simp add: located_ne)
  with here show ?case using visible_snoc [of G ig "ft_kind L d n = Some Dir" "butlast cs" "last cs"] by simp
next
  case (below cs n c x m p)
  then have "cs = butlast cs @ [last cs]" by (simp add: located_ne)
  with below have "visible G ig True cs" using visible_snoc [of G ig True "butlast cs" "last cs"] by simp
  moreover have "cs \<noteq> []" by (rule located_ne [OF below.prems(1)])
  moreover have "located L d c (cs @ [x])"
    using below by (intro located.sub [of L d n]) (auto simp: kids_def)
  ultimately show ?case using below.IH by simp
qed

lemma located_shown:
  "located L d m p \<Longrightarrow> visible G ig (ft_kind L d m = Some Dir) p \<Longrightarrow> shown L G ig d m p"
proof (induction rule: located.induct)
  case (top n c)
  then have "materializable G ig c [c] (ft_kind L d n = Some Dir)" "c \<noteq> EG_DIR"
    using visible_snoc [of G ig "ft_kind L d n = Some Dir" "[]" c] by simp_all
  with top show ?case
    unfolding shown_def kids_def
    by (intro exI [of _ n] exI [of _ c]) (auto intro: shown_from.here)
next
  case (sub p cs n c)
  have "cs \<noteq> []" using located_ne [OF sub(1)] .
  with sub(6) have v: "visible G ig True cs" "materializable G ig c (cs @ [c]) (ft_kind L d n = Some Dir)"
    by (simp_all add: visible_snoc)
  then have "shown L G ig d p cs" using sub by simp
  with sub v show ?case unfolding shown_def kids_def by (fastforce intro: shown_from_snoc)
qed

lemma shown_iff: "shown L G ig d m p \<longleftrightarrow> located L d m p \<and> visible G ig (ft_kind L d m = Some Dir) p"
proof
  assume "shown L G ig d m p"
  then obtain n x where n: "n \<in> set (ft_roots L d)" "ft_name L d n = Some x" "x \<noteq> EG_DIR"
    "shown_from L G ig d n [x] m p" unfolding shown_def by blast
  then have "located L d n [x]" by (intro located.top) (simp_all add: kids_def)
  with shown_from_located [OF n(4)] n(3) show "located L d m p \<and> visible G ig (ft_kind L d m = Some Dir) p"
    by simp
qed (simp add: located_shown)

section \<open>What an export writes\<close>

definition plan_true :: "('d, 'n, 't, 'm) loro_ct \<Rightarrow> 'w workspace \<Rightarrow> 'd \<Rightarrow> 'w \<Rightarrow> 'n export_plan \<Rightarrow> bool" where
  "plan_true L W d w plan \<longleftrightarrow>
     (\<forall>(p, n) \<in> set (pl_files plan). located L d n p \<and> ws_read_file W w p = Ok (file_text L d n))"

text \<open>The files and directories added to a plan by the nodes of a list of places.\<close>

definition plan_adds ::
    "('d, 'n, 't, 'm) loro_ct \<Rightarrow> ('b, 'g) gitignore \<Rightarrow> 'g \<Rightarrow> 'd \<Rightarrow> ('n \<Rightarrow> path \<Rightarrow> bool) \<Rightarrow> 'n export_plan \<Rightarrow> 'n export_plan \<Rightarrow> bool" where
  "plan_adds L G ig d S plan plan' \<longleftrightarrow>
     set (pl_files plan') = set (pl_files plan) \<union> {(p, m). S m p \<and> ft_kind L d m = Some File} \<and>
     set (pl_dirs plan') = set (pl_dirs plan) \<union> {(p, m). S m p \<and> ft_kind L d m = Some Dir}"

lemma plan_adds_trans:
  "plan_adds L G ig d S plan plan1 \<Longrightarrow> plan_adds L G ig d S' plan1 plan2 \<Longrightarrow>
     plan_adds L G ig d (\<lambda>m p. S m p \<or> S' m p) plan plan2"
  by (auto simp: plan_adds_def)

lemma plan_adds_none: "(\<And>m p. \<not> S m p) \<Longrightarrow> plan_adds L G ig d S plan plan"
  by (auto simp: plan_adds_def)

text \<open>One step of the export: if it succeeds, the plan grows by \<open>S\<close>, stays true, and only its files changed.\<close>

definition step_exact ::
    "('d, 'n, 't, 'm) loro_ct \<Rightarrow> 'w workspace \<Rightarrow> ('b, 'g) gitignore \<Rightarrow> 'g \<Rightarrow> 'd \<Rightarrow> 'w \<Rightarrow> 'n export_plan
       \<Rightarrow> ('n \<Rightarrow> path \<Rightarrow> bool) \<Rightarrow> ('w \<times> (io_error + 'n export_plan)) option \<Rightarrow> bool" where
  "step_exact L W G ig d w plan S out \<longleftrightarrow>
     (\<exists>w' res. out = Some (w', res) \<and>
        (\<forall>plan'. res = Ok plan' \<longrightarrow>
           plan_true L W d w' plan' \<and> plan_adds L G ig d S plan plan' \<and>
           changes_within W (\<lambda>q. q \<in> fst ` set (pl_files plan')) w w'))"

lemma changes_within_mono: "changes_within W P w w' \<Longrightarrow> (\<And>q. P q \<Longrightarrow> Q q) \<Longrightarrow> changes_within W Q w w'"
  by (auto simp: changes_within_def)

lemma nodes_exact:
  assumes "\<And>c w plan. c \<in> set cs \<Longrightarrow> plan_true L W d w plan \<Longrightarrow> step_exact L W G ig d w plan (S c) (sub w c parent plan)"
    and "plan_true L W d w plan"
  shows "step_exact L W G ig d w plan (\<lambda>m p. \<exists>c \<in> set cs. S c m p) (export_nodes sub cs parent w plan)"
  using assms
proof (induction cs arbitrary: w plan)
  case Nil
  then show ?case by (simp add: step_exact_def plan_adds_none)
next
  case (Cons c cs)
  from Cons.prems(1) [of c, OF _ Cons.prems(2)] obtain w1 res where s: "sub w c parent plan = Some (w1, res)"
    "\<forall>plan1. res = Ok plan1 \<longrightarrow> plan_true L W d w1 plan1 \<and> plan_adds L G ig d (S c) plan plan1 \<and>
       changes_within W (\<lambda>q. q \<in> fst ` set (pl_files plan1)) w w1"
    by (auto simp: step_exact_def)
  show ?case
  proof (cases res)
    case (Inl e)
    with s show ?thesis by (simp add: step_exact_def)
  next
    case (Inr plan1)
    with s(2) have 1: "plan_true L W d w1 plan1" "plan_adds L G ig d (S c) plan plan1"
      "changes_within W (\<lambda>q. q \<in> fst ` set (pl_files plan1)) w w1" by simp_all
    have "step_exact L W G ig d w1 plan1 (\<lambda>m p. \<exists>c \<in> set cs. S c m p) (export_nodes sub cs parent w1 plan1)"
      using Cons.IH [of w1 plan1] Cons.prems(1) 1(1) by simp
    then obtain w2 res2 where o: "export_nodes sub cs parent w1 plan1 = Some (w2, res2)" and
      2: "\<And>plan2. res2 = Ok plan2 \<Longrightarrow> plan_true L W d w2 plan2 \<and>
         plan_adds L G ig d (\<lambda>m p. \<exists>c \<in> set cs. S c m p) plan1 plan2 \<and>
         changes_within W (\<lambda>q. q \<in> fst ` set (pl_files plan2)) w1 w2"
      by (auto simp: step_exact_def)
    have "plan_true L W d w2 plan2 \<and> plan_adds L G ig d (\<lambda>m p. \<exists>c \<in> set (c # cs). S c m p) plan plan2 \<and>
         changes_within W (\<lambda>q. q \<in> fst ` set (pl_files plan2)) w w2" if "res2 = Ok plan2" for plan2
    proof (intro conjI)
      show "plan_true L W d w2 plan2" using 2 [OF that] by simp
      show "plan_adds L G ig d (\<lambda>m p. \<exists>c \<in> set (c # cs). S c m p) plan plan2"
        using plan_adds_trans [OF 1(2)] 2 [OF that] by auto
      have "fst ` set (pl_files plan1) \<subseteq> fst ` set (pl_files plan2)"
        using 2 [OF that] by (auto simp: plan_adds_def)
      then have "changes_within W (\<lambda>q. q \<in> fst ` set (pl_files plan2)) w w1"
        by (intro changes_within_mono [OF 1(3)]) auto
      then show "changes_within W (\<lambda>q. q \<in> fst ` set (pl_files plan2)) w w2"
        by (rule changes_within_trans) (use 2 [OF that] in simp)
    qed
    with o s(1) Inr show ?thesis by (auto simp: step_exact_def)
  qed
qed

lemma dir_step_exact:
  assumes "step_exact L W G ig d w1 (plan\<lparr>pl_dirs := pl_dirs plan @ [(rel, n)]\<rparr>) S out"
    and "ft_kind L d n = Some Dir" "\<And>q. ws_read_file W w1 q = ws_read_file W w q"
  shows "step_exact L W G ig d w plan (\<lambda>m p. (m, p) = (n, rel) \<or> S m p) out"
proof -
  from assms(1) obtain w' res where o: "out = Some (w', res)" "\<And>plan'. res = Ok plan' \<Longrightarrow>
      plan_true L W d w' plan' \<and> plan_adds L G ig d S (plan\<lparr>pl_dirs := pl_dirs plan @ [(rel, n)]\<rparr>) plan' \<and>
      changes_within W (\<lambda>q. q \<in> fst ` set (pl_files plan')) w1 w'"
    by (auto simp: step_exact_def)
  have "plan_adds L G ig d (\<lambda>m p. (m, p) = (n, rel) \<or> S m p) plan plan'"
    if "plan_adds L G ig d S (plan\<lparr>pl_dirs := pl_dirs plan @ [(rel, n)]\<rparr>) plan'" for plan'
    using that assms(2) by (auto simp: plan_adds_def)
  with o assms(3) show ?thesis by (simp add: step_exact_def changes_within_def)
qed

context loro_tree
begin

lemma export_node_exact:
  assumes d: "ok d" "tidy L d" and W: "workspace_laws W"
    and rank: "\<forall>n. r n \<le> (N :: nat)" "\<forall>n p. tr_parent L d n = Some (PNode p) \<longrightarrow> r p < r n"
  shows "N - r n < k \<Longrightarrow> rooted L d n \<Longrightarrow>
           (\<And>x. ft_name L d n = Some x \<Longrightarrow> located L d n (parent @ [x])) \<Longrightarrow> plan_true L W d w plan \<Longrightarrow>
           step_exact L W G ig d w plan
             (\<lambda>m p. \<exists>x. ft_name L d n = Some x \<and> shown_from L G ig d n (parent @ [x]) m p)
             (export_node L W G d ig k w n parent plan)"
proof (induction k arbitrary: n parent w plan)
  case (Suc k)
  show ?case
  proof (cases "ft_name L d n")
    case None
    with Suc.prems(4) show ?thesis by (simp add: step_exact_def plan_adds_none)
  next
    case (Some x)
    let ?rel = "parent @ [x]"
    have n: "located L d n ?rel" using Suc.prems(3) Some .
    note iff = shown_from_iff [of L G ig d n ?rel]
    show ?thesis
    proof (cases "materializable G ig x ?rel (ft_kind L d n = Some Dir)")
      case False
      then have "\<not> shown_from L G ig d n ?rel m p" for m p by (subst iff) auto
      with False Some Suc.prems(4) show ?thesis by (simp add: step_exact_def plan_adds_none Let_def)
    next
      case True
      show ?thesis
      proof (cases "ft_kind L d n = Some Dir")
        case dir: True
        obtain w1 r1 where c: "ws_create_dir W w ?rel = (w1, r1)" by (cases "ws_create_dir W w ?rel")
        show ?thesis
        proof (cases r1)
          case (Inl e)
          with Some True dir c show ?thesis by (simp add: step_exact_def Let_def)
        next
          case (Inr u)
          let ?plan = "plan\<lparr>pl_dirs := pl_dirs plan @ [(?rel, n)]\<rparr>"
          let ?S = "\<lambda>c m p. \<exists>y. ft_name L d c = Some y \<and> shown_from L G ig d c (?rel @ [y]) m p"
          have read: "ws_read_file W w1 q = ws_read_file W w q" for q
            using workspace_laws.create_dir_files [OF W c] .
          then have "plan_true L W d w1 ?plan" using Suc.prems(4) by (simp add: plan_true_def)
          moreover have "step_exact L W G ig d w' plan' (?S c) (export_node L W G d ig k w' c ?rel plan')"
            if "c \<in> set (ft_children L d n)" "plan_true L W d w' plan'" for c w' plan'
          proof (rule Suc.IH)
            have pl: "place L d (Some n)" using Suc.prems(2) by simp
            have cn: "c \<in> set (kids L d (Some n))" using that(1) by (simp add: kids_def)
            then have "tr_parent L d c = Some (PNode n)"
              using kids_parent [OF d(1) pl] by (simp add: parent_of_def)
            then have "r n < r c" "r c \<le> N" using rank by auto
            with Suc.prems(1) show "N - r c < k" by simp
            show "rooted L d c" using kid_rooted [OF d(1) pl cn] .
            show "located L d c (?rel @ [y])" if "ft_name L d c = Some y" for y
              using located.sub [OF n dir cn that] .
          qed (rule that(2))
          ultimately have s: "step_exact L W G ig d w1 ?plan (\<lambda>m p. \<exists>c \<in> set (ft_children L d n). ?S c m p)
              (export_nodes (export_node L W G d ig k) (ft_children L d n) ?rel w1 ?plan)"
            by (intro nodes_exact) auto
          have S: "(\<lambda>m p. \<exists>y. ft_name L d n = Some y \<and> shown_from L G ig d n (parent @ [y]) m p) =
              (\<lambda>m p. (m, p) = (n, ?rel) \<or> (\<exists>c \<in> set (ft_children L d n). ?S c m p))"
            using True dir by (intro ext, subst shown_from_iff) (auto simp: Some)
          have "export_node L W G d ig (Suc k) w n parent plan =
              export_nodes (export_node L W G d ig k) (ft_children L d n) ?rel w1 ?plan"
            using Some True dir c Inr by (simp add: Let_def)
          with dir_step_exact [OF s dir read] show ?thesis unfolding S by simp
        qed
      next
        case False
        have S: "(\<lambda>m p. \<exists>y. ft_name L d n = Some y \<and> shown_from L G ig d n (parent @ [y]) m p) =
            (\<lambda>m p. (m, p) = (n, ?rel))"
          using True False by (intro ext, subst shown_from_iff) (auto simp: Some)
        show ?thesis
        proof (cases "ft_kind L d n = Some File")
          case fl: True
          obtain w1 r1 where c: "ws_write_file W w ?rel (file_text L d n) = (w1, r1)"
            by (cases "ws_write_file W w ?rel (file_text L d n)")
          show ?thesis
          proof (cases r1)
            case (Inl e)
            with Some True fl c show ?thesis by (simp add: step_exact_def Let_def)
          next
            case (Inr u)
            let ?plan = "plan\<lparr>pl_files := pl_files plan @ [(?rel, n)]\<rparr>"
            have read: "ws_read_file W w1 q = (if q = ?rel then Ok (file_text L d n) else ws_read_file W w q)" for q
              using workspace_laws.write_read [OF W] workspace_laws.write_other [OF W c] c Inr by auto
            have "plan_true L W d w1 ?plan"
              unfolding plan_true_def
            proof (intro ballI, clarify)
              fix p m assume "(p, m) \<in> set (pl_files ?plan)"
              then consider "p = ?rel" "m = n" | "(p, m) \<in> set (pl_files plan)" by auto
              then show "located L d m p \<and> ws_read_file W w1 p = Ok (file_text L d m)"
              proof cases
                case 1
                show ?thesis unfolding 1 read using n by simp
              next
                case 2
                then have o: "located L d m p" "ws_read_file W w p = Ok (file_text L d m)"
                  using Suc.prems(4) by (auto simp: plan_true_def)
                have "m = n" if "p = ?rel" using located_same [OF d o(1) [unfolded that] n] .
                with o show ?thesis unfolding read by simp
              qed
            qed
            moreover have "plan_adds L G ig d (\<lambda>m p. (m, p) = (n, ?rel)) plan ?plan"
              using fl by (auto simp: plan_adds_def)
            moreover have "changes_within W (\<lambda>q. q \<in> fst ` set (pl_files ?plan)) w w1"
              by (simp add: changes_within_def read)
            moreover have "export_node L W G d ig (Suc k) w n parent plan = Some (w1, Ok ?plan)"
              using Some True fl c Inr by (simp add: Let_def)
            ultimately show ?thesis unfolding S by (simp add: step_exact_def)
          qed
        next
          case other: False
          then have "export_node L W G d ig (Suc k) w n parent plan = Some (w, Ok plan)"
            using Some True False by (auto simp: Let_def split: option.split node_kind.split)
          moreover have "plan_adds L G ig d (\<lambda>m p. (m, p) = (n, ?rel)) plan plan"
            using False other by (auto simp: plan_adds_def)
          ultimately show ?thesis unfolding S using Suc.prems(4) by (simp add: step_exact_def)
        qed
      qed
    qed
  qed
qed simp

end

end
