(* ===== verification/Bridge_Props.thy ===== *)
theory Bridge_Props
  imports Bridge_Export Doc_Fs_Props
begin

text \<open>
  The properties of the export, and the small store, workspace and ignore matcher their witnesses run on.
\<close>

text \<open>A matcher for the witnesses: a line names a component that is ignored wherever it occurs.\<close>

definition demo_ignore :: "(string list, string list) gitignore" where
  "demo_ignore = \<lparr>gi_new = [], gi_add_line = (\<lambda>b l. Ok (l # b)), gi_build = (\<lambda>b. Ok b),
                  gi_ignored = (\<lambda>g rel dir. list_ex (\<lambda>c. c \<in> set g) rel)\<rparr>"

section \<open>Properties of the export\<close>

lemma export_within:
  assumes "workspace_laws W" "export_tree L W G fuel d w = Some (w', r)"
    and "ws_read_file W w' q \<noteq> ws_read_file W w q"
  shows "\<exists>ig. ignorer_load W G w = Ok ig \<and> visible G ig False q"
proof (cases "ignorer_load W G w")
  case (Inl e)
  with assms(2,3) show ?thesis by (simp add: export_tree_def)
next
  case (Inr ig)
  from export_keeps [OF changes_kept [OF assms(1)] this assms(2)] assms(3) Inr show ?thesis
    by (auto simp: changes_within_def)
qed

lemma export_kinds:
  assumes "workspace_kinds W" "export_tree L W G fuel d w = Some (w', r)"
    and "ws_kind W w' q \<noteq> ws_kind W w q"
  shows "\<exists>ig dir. ignorer_load W G w = Ok ig \<and> visible G ig dir q"
proof (cases "ignorer_load W G w")
  case (Inl e)
  with assms(2,3) show ?thesis by (simp add: export_tree_def)
next
  case (Inr ig)
  from export_keeps [OF kinds_kept [OF assms(1)] this assms(2)] assms(3) Inr show ?thesis
    by (auto simp: kinds_within_def)
qed

text \<open>
  C19. Whatever the document holds, an export only writes files at visible paths, and only visible paths come
  or go or change between file and directory: every component is a valid name, the first is not \<open>.eg\<close>, and
  neither the path nor a directory above it is ignored.  So no document can reach the key, the trust set or the
  configuration, or make a directory at a hostile or an ignored path, even when the export fails half way.\<close>

theorem export_confined:
  assumes "workspace_kinds W" "export_tree L W G fuel d w = Some (w', r)"
  shows "(\<forall>q. ws_read_file W w' q \<noteq> ws_read_file W w q \<longrightarrow>
             (\<exists>ig. ignorer_load W G w = Ok ig \<and> visible G ig False q)) \<and>
         (\<forall>q. ws_kind W w' q \<noteq> ws_kind W w q \<longrightarrow>
             (\<exists>ig dir. ignorer_load W G w = Ok ig \<and> visible G ig dir q))"
  using export_within [OF workspace_kinds.axioms(1) [OF assms(1)] assms(2)] export_kinds [OF assms] by blast

definition demo_hostile :: rtree where
  "demo_hostile =
     (let d1 = fst (the (ft_create_file ref_ct rt_empty None ''../up''));
          d2 = fst (the (ft_create_dir ref_ct d1 None ''.eg''));
          d3 = fst (the (ft_create_file ref_ct d2 (Some 2) ''key''));
          d4 = fst (the (ft_create_file ref_ct d3 None ''ok''))
      in d4)"

theorem export_confined_witness:
  "\<exists>w' r. export_tree ref_ct mem_ops demo_ignore 3 demo_hostile mem_new = Some (w', r) \<and>
          ws_kind mem_ops w' [''ok''] = Ok (Some KFile) \<and> visible demo_ignore [] False [''ok''] \<and>
          ws_kind mem_ops w' [''.eg''] = Ok None"
proof -
  let ?o = "export_tree ref_ct mem_ops demo_ignore 3 demo_hostile mem_new"
  have o: "?o = Some (fst (the ?o), snd (the ?o))" by code_simp
  have r: "ws_read_file mem_ops (fst (the ?o)) [''ok''] \<noteq> ws_read_file mem_ops mem_new [''ok'']"
    "ws_kind mem_ops (fst (the ?o)) [''ok''] = Ok (Some KFile)" "ws_kind mem_ops mem_new [''.eg''] = Ok None" by code_simp+
  have ig: "ignorer_load mem_ops demo_ignore mem_new = Ok []" by code_simp
  note c = export_confined [OF mem_kd.workspace_kinds_axioms o]
  have "visible demo_ignore [] False [''ok'']" using c [THEN conjunct1, rule_format, OF r(1)] ig by simp
  moreover have "\<not> visible demo_ignore ig dir [''.eg'']" for ig dir by (simp add: visible_def EG_DIR_def)
  then have "ws_kind mem_ops (fst (the ?o)) [''.eg''] = ws_kind mem_ops mem_new [''.eg'']"
    using c [THEN conjunct2, rule_format, of "[''.eg'']"] by blast
  ultimately show ?thesis using o r by (metis (no_types, lifting))
qed

text \<open>A plan whose files are the visible file nodes and whose directories are the visible directory nodes,
  with every file on disk as its node's text and no other file changed.\<close>

definition plan_exact ::
    "('d, 'n, 't, 'm) loro_ct \<Rightarrow> 'w workspace \<Rightarrow> ('b, 'g) gitignore \<Rightarrow> 'd \<Rightarrow> 'w \<Rightarrow> 'w \<Rightarrow> 'n export_plan \<Rightarrow> bool" where
  "plan_exact L W G d w w' plan \<longleftrightarrow>
     (\<exists>ig. ignorer_load W G w = Ok ig \<and>
        (\<forall>p n. (p, n) \<in> set (pl_files plan) \<longleftrightarrow>
           located L d n p \<and> ft_kind L d n = Some File \<and> visible G ig False p) \<and>
        (\<forall>p n. (p, n) \<in> set (pl_dirs plan) \<longleftrightarrow>
           located L d n p \<and> ft_kind L d n = Some Dir \<and> visible G ig True p)) \<and>
     (\<forall>(p, n) \<in> set (pl_files plan). ws_read_file W w' p = Ok (file_text L d n)) \<and>
     (\<forall>p. p \<notin> fst ` set (pl_files plan) \<longrightarrow> ws_read_file W w' p = ws_read_file W w p)"

lemma export_exact:
  assumes "loro_tree L dwf" "dwf d" "tidy L d" "workspace_laws W"
  shows "\<exists>N. \<forall>fuel \<ge> N. \<exists>w' r. export_tree L W G fuel d w = Some (w', r) \<and>
           (\<forall>plan. r = Ok plan \<longrightarrow> plan_exact L W G d w w' plan)"
proof (cases "ignorer_load W G w")
  case (Inl e)
  then show ?thesis by (simp add: export_tree_def)
next
  case (Inr ig)
  obtain r N where rank: "\<forall>n. r n \<le> (N :: nat)" "\<forall>n p. tr_parent L d n = Some (PNode p) \<longrightarrow> r p < r n"
    using loro_tree.acyclic_finite [OF assms(1,2)] by blast
  let ?roots = "filter (\<lambda>n. ft_name L d n \<noteq> Some EG_DIR) (ft_roots L d)"
  let ?p0 = "\<lparr>pl_files = [], pl_dirs = []\<rparr>"
  let ?S = "\<lambda>n m p. \<exists>x. ft_name L d n = Some x \<and> shown_from L G ig d n ([] @ [x]) m p"
  have S: "(\<exists>n \<in> set ?roots. ?S n m p) \<longleftrightarrow> shown L G ig d m p" for m p
    by (auto simp: shown_def)
  have "step_exact L W G ig d w ?p0 (\<lambda>m p. \<exists>n \<in> set ?roots. ?S n m p) (export_tree L W G fuel d w)"
    if "Suc N \<le> fuel" for fuel
  proof -
    have step: "step_exact L W G ig d a plan (?S n) (export_node L W G d ig fuel a n [] plan)"
      if "n \<in> set ?roots" "plan_true L W d a plan" for n a plan
    proof (rule loro_tree.export_node_exact [OF assms(1-4) rank])
      have n: "n \<in> set (kids L d None)" using that(1) by (simp add: kids_def)
      then show "rooted L d n"
        using loro_tree.kid_rooted [OF assms(1,2), of None] by (simp add: place_def)
      show "located L d n ([] @ [x])" if "ft_name L d n = Some x" for x
        using located.top [OF n that] by simp
      show "N - r n < fuel" using \<open>Suc N \<le> fuel\<close> by simp
    qed (rule that(2))
    have "plan_true L W d w ?p0" by (simp add: plan_true_def)
    from nodes_exact [where S = ?S and sub = "export_node L W G d ig fuel" and parent = "[]" and cs = ?roots,
        OF step this] show ?thesis
      using Inr by (simp add: export_tree_def)
  qed
  then have exact: "step_exact L W G ig d w ?p0 (shown L G ig d) (export_tree L W G fuel d w)" if "Suc N \<le> fuel" for fuel
    using that unfolding S by blast
  show ?thesis
  proof (intro exI [of _ "Suc N"] allI impI)
    fix fuel assume "Suc N \<le> fuel"
    from exact [OF this] obtain w' res where o: "export_tree L W G fuel d w = Some (w', res)"
      "\<And>plan. res = Ok plan \<Longrightarrow> plan_true L W d w' plan \<and> plan_adds L G ig d (shown L G ig d) ?p0 plan \<and>
         changes_within W (\<lambda>q. q \<in> fst ` set (pl_files plan)) w w'"
      unfolding step_exact_def by blast
    have "(p, n) \<in> set (pl_files plan) \<longleftrightarrow> located L d n p \<and> ft_kind L d n = Some File \<and> visible G ig False p"
      "(p, n) \<in> set (pl_dirs plan) \<longleftrightarrow> located L d n p \<and> ft_kind L d n = Some Dir \<and> visible G ig True p"
      if "res = Ok plan" for plan p n
      using o(2) [OF that] by (auto simp: plan_adds_def shown_iff)
    moreover have "\<forall>(p, n) \<in> set (pl_files plan). ws_read_file W w' p = Ok (file_text L d n)"
      "\<forall>p. p \<notin> fst ` set (pl_files plan) \<longrightarrow> ws_read_file W w' p = ws_read_file W w p"
      if "res = Ok plan" for plan
      using o(2) [OF that] by (auto simp: plan_true_def changes_within_def)
    ultimately show "\<exists>w' r. export_tree L W G fuel d w = Some (w', r) \<and>
           (\<forall>plan. r = Ok plan \<longrightarrow> plan_exact L W G d w w' plan)"
      using o(1) Inr unfolding plan_exact_def by (intro exI [of _ w'] exI [of _ res]) blast
  qed
qed

text \<open>
  C20. With enough fuel for the depth of the tree, the export of a document whose siblings have distinct
  names always ends without a panic.  If no call of the workspace fails, the files of its plan are
  exactly the visible file nodes, the directories exactly the visible directory nodes, every file of
  the plan reads back as the text of its node, and no other file changes.\<close>

theorem export_materializes:
  assumes "loro_tree L dwf" "dwf d" "tidy L d" "workspace_laws W"
  shows "\<exists>N. \<forall>fuel \<ge> N. \<exists>w' r. export_tree L W G fuel d w = Some (w', r) \<and>
           (\<forall>plan. r = Ok plan \<longrightarrow> plan_exact L W G d w w' plan)"
  by (rule export_exact [OF assms])

text \<open>Small enough to evaluate: the tree of \<open>demo_fs\<close> with an ignored directory \<open>c\<close>.\<close>

definition demo_ignoring :: mem_workspace where
  "demo_ignoring = fst (mem_write_file mem_new IGNORE_PATH ''c'')"

lemma mem_nodes_fine:
  assumes "\<And>c w plan w' r. c \<in> set cs \<Longrightarrow> sub w c parent plan = Some (w', r) \<Longrightarrow> is_ok r"
  shows "export_nodes sub cs parent w plan = Some (w', r) \<Longrightarrow> is_ok r"
  using assms
proof (induction cs arbitrary: w plan)
  case (Cons c cs)
  then obtain w1 r1 where s: "sub w c parent plan = Some (w1, r1)" by (auto split: option.splits)
  moreover from this have "is_ok r1" using Cons.prems(2) [of c] by simp
  ultimately obtain plan1 where "export_nodes sub cs parent w1 plan1 = Some (w', r)"
    using Cons.prems(1) by (auto simp: is_ok_iff)
  with Cons.IH Cons.prems(2) show ?case by (metis list.set_intros(2))
qed (auto simp: is_ok_iff)

lemma mem_node_fine: "export_node L mem_ops G d ig k w n parent plan = Some (w', r) \<Longrightarrow> is_ok r"
proof (induction k arbitrary: w n parent plan w' r)
  case (Suc k)
  have io: "mem_create_dir w p \<noteq> (w1, Inl e)" "mem_write_file w p c \<noteq> (w1, Inl e)" for w w1 p c e
    by (simp_all add: mem_create_dir_def mem_write_file_def Let_def)
  have sub: "is_ok r" if "export_nodes (export_node L mem_ops G d ig k) cs p w plan = Some (w', r)" for cs p w plan w' r
    using mem_nodes_fine [OF Suc.IH that] .
  from Suc.prems io show ?case
    by (auto simp: Let_def is_ok_iff dest: sub [unfolded is_ok_iff]
        split: option.splits if_splits node_kind.splits prod.splits sum.splits)
qed simp

lemma mem_export_fine:
  "export_nodes (export_node L mem_ops G d ig k) ns parent w plan = Some (w', r) \<Longrightarrow> is_ok r"
  by (rule mem_nodes_fine [OF mem_node_fine])

theorem export_materializes_witness:
  "\<exists>fuel w' plan. export_tree ref_ct mem_ops demo_ignore fuel demo_fs demo_ignoring = Some (w', Ok plan) \<and>
     ([''a'', ''b''], 1) \<in> set (pl_files plan) \<and> ([''c''], 3) \<notin> set (pl_dirs plan) \<and>
     ws_read_file mem_ops w' [''a'', ''b''] = Ok (file_text ref_ct demo_fs 1)"
proof -
  obtain fuel w' r where o: "export_tree ref_ct mem_ops demo_ignore fuel demo_fs demo_ignoring = Some (w', r)"
    and ex: "\<And>plan. r = Ok plan \<Longrightarrow> plan_exact ref_ct mem_ops demo_ignore demo_fs demo_ignoring w' plan"
    using export_materializes [OF rt.loro_tree_axioms demo_fs_ok demo_fs_tidy mem.workspace_laws_axioms,
        of demo_ignore demo_ignoring] by blast
  have load: "ignorer_load mem_ops demo_ignore demo_ignoring = Ok [''c'']" by code_simp
  then have "is_ok r" using o by (auto simp: export_tree_def intro: mem_export_fine)
  then obtain plan where p: "r = Ok plan" by (auto simp: is_ok_iff)
  have "fsview ref_ct demo_fs [''a'', ''b''] = Some 1" "ft_kind ref_ct demo_fs 1 = Some File"
    "visible demo_ignore [''c''] False [''a'', ''b'']" "\<not> visible demo_ignore [''c''] True [''c'']" by code_simp+
  then have "([''a'', ''b''], 1) \<in> set (pl_files plan)" "([''c''], 3) \<notin> set (pl_dirs plan)"
    using ex [OF p] load loro_tree.fsview_located [OF rt.loro_tree_axioms demo_fs_ok demo_fs_tidy] by (auto simp: plan_exact_def)
  moreover from this(1) have "ws_read_file mem_ops w' [''a'', ''b''] = Ok (file_text ref_ct demo_fs 1)"
    using ex [OF p] unfolding plan_exact_def by blast
  ultimately show ?thesis using o p by blast
qed

end
