(* ===== verification/Bridge_Import.thy ===== *)
theory Bridge_Import
  imports Bridge_Props "HOL-Library.Multiset"
begin

text \<open>
  What the import of \<open>bridge.rs\<close> reads: the document holds exactly the text files and directories of the
  workspace that are not ignored, at their paths.
\<close>

section \<open>Texts\<close>

text \<open>A text container is held under one key of one map.\<close>

definition texts_once :: "('d, 'n, 't, 'm) loro_ct \<Rightarrow> 'd \<Rightarrow> bool" where
  "texts_once L d \<longleftrightarrow>
     (\<forall>m k m' k' t. mp_get L d m k = Some (VText t) \<longrightarrow> mp_get L d m' k' = Some (VText t) \<longrightarrow> m = m' \<and> k = k')"

lemma texts_onceD:
  assumes "texts_once L d" "mp_get L d m k = Some (VText t)" "mp_get L d m' k' = Some (VText t)"
  shows "m = m'"
  using assms unfolding texts_once_def by (elim allE [of _ m]) blast

lemma texts_once_same: "same_maps L d d' \<Longrightarrow> texts_once L d \<Longrightarrow> texts_once L d'"
  by (simp add: texts_once_def same_maps_def)

lemma texts_once_put_value: "map_put L d d' m k (VVal v) \<Longrightarrow> texts_once L d \<Longrightarrow> texts_once L d'"
  by (auto simp: texts_once_def map_put_def split: if_splits)

lemma texts_once_put_text:
  "map_put L d d' m k (VText t) \<Longrightarrow> \<forall>m' k'. mp_get L d m' k' \<noteq> Some (VText t) \<Longrightarrow> texts_once L d \<Longrightarrow> texts_once L d'"
  by (auto simp: texts_once_def map_put_def split: if_splits)

lemma texts_once_create:
  assumes "\<forall>k. mp_get L d' m k = None" "\<forall>m' k. m' \<noteq> m \<longrightarrow> mp_get L d' m' k = mp_get L d m' k" "texts_once L d"
  shows "texts_once L d'"
  using assms unfolding texts_once_def by (metis option.distinct(1))

text \<open>Every operation of a tree keeps it so.\<close>

context loro_tree
begin

lemma with_texts_once: "loro_tree L (\<lambda>d. ok d \<and> texts_once L d)"
proof (unfold_locales, goal_cases)
  case (1 d q) then show ?case using kids_distinct by simp
next
  case (2 d q n) then show ?case using kids_parent by simp
next
  case (3 d) then show ?case using acyclic_finite by simp
next
  case (4 d n) then show ?case using alive_rooted by simp
next
  case (5 d n) then show ?case using meta_some by simp
next
  case (6 d n n') then show ?case using meta_inj [of d n n'] by simp
next
  case (7 d q) then show ?case using create [of d q] texts_once_create [of L _ _ d] by metis
next
  case (8 d n m k v) then show ?case using insert_value [of d n m k v] texts_once_put_value by metis
next
  case (9 d n m k) then show ?case using insert_text [of d n m k] texts_once_put_text by metis
next
  case (10 d t s d') then show ?case using update_text [of d t s d'] texts_once_same by metis
next
  case (11 d n q) then show ?case using move_refused by simp
next
  case (12 d n q d') then show ?case using move [of d n q d'] texts_once_same by metis
next
  case (13 d n) then show ?case using delete [of d n] texts_once_same by metis
qed

end

locale loro_text_tree = loro_tree +
  assumes text_once: "ok d \<Longrightarrow> texts_once L d"
    and insert_chars:
      "ok d \<Longrightarrow> rooted L d n \<Longrightarrow> ft_content L d n = Some t \<Longrightarrow>
       \<exists>d'. tx_insert L d t 0 s = Some d' \<and> ok d' \<and> same_tree L d d' \<and> same_maps L d d' \<and>
            tx_str L d' t = s @ tx_str L d t \<and> (\<forall>t'. t' \<noteq> t \<longrightarrow> tx_str L d' t' = tx_str L d t')"
    and update_some: "ok d \<Longrightarrow> rooted L d n \<Longrightarrow> ft_content L d n = Some t \<Longrightarrow> tx_update L d t s \<noteq> None"
begin

lemma content_inj:
  assumes "ok d" "rooted L d n" "rooted L d n'" "ft_content L d n = Some t" "ft_content L d n' = Some t"
  shows "n = n'"
proof -
  have c: "\<exists>m. tr_meta L d k = Some m \<and> mp_get L d m ''content'' = Some (VText t)"
    if "ft_content L d k = Some t" for k
    using that by (auto simp: ft_content_def split: option.splits voc.splits)
  obtain m where m: "tr_meta L d n = Some m" "mp_get L d m ''content'' = Some (VText t)" using c [OF assms(4)] by blast
  obtain m' where m': "tr_meta L d n' = Some m'" "mp_get L d m' ''content'' = Some (VText t)" using c [OF assms(5)] by blast
  have "m = m'" using texts_onceD [OF text_once [OF assms(1)] m(2) m'(2)] .
  with m(1) m'(1) show ?thesis using meta_inj [OF assms(1-3)] by simp
qed

end

definition rtx_ok :: "rtree \<Rightarrow> bool" where
  "rtx_ok d \<longleftrightarrow> rt_ok d \<and> texts_once ref_ct d"

interpretation rtx: loro_text_tree ref_ct rtx_ok
proof -
  have "loro_tree ref_ct rtx_ok" using rt.with_texts_once by (simp add: rtx_ok_def [abs_def])
  moreover have "\<exists>d'. tx_insert ref_ct d t 0 s = Some d' \<and> rtx_ok d' \<and> same_tree ref_ct d d' \<and>
      same_maps ref_ct d d' \<and> tx_str ref_ct d' t = s @ tx_str ref_ct d t \<and>
      (\<forall>t'. t' \<noteq> t \<longrightarrow> tx_str ref_ct d' t' = tx_str ref_ct d t')" if "rtx_ok d" for d t s
  proof -
    let ?d = "rt_set d t (s @ rt_str d t)"
    have "tx_insert ref_ct d t 0 s = Some ?d" by (simp add: ref_ct_def)
    moreover have "tx_update ref_ct d t (s @ rt_str d t) = Some ?d" by simp
    from rt.update_text [OF _ this]
    have "rt_ok ?d \<and> same_tree ref_ct d ?d \<and> same_maps ref_ct d ?d \<and> tx_str ref_ct ?d t = s @ rt_str d t \<and>
      (\<forall>t'. t' \<noteq> t \<longrightarrow> tx_str ref_ct ?d t' = tx_str ref_ct d t')" using that by (simp add: rtx_ok_def)
    moreover from this have "texts_once ref_ct ?d"
      using texts_once_same [of ref_ct d ?d] that by (simp add: rtx_ok_def)
    ultimately show ?thesis by (auto simp: rtx_ok_def)
  qed
  ultimately show "loro_text_tree ref_ct rtx_ok"
    by (simp add: loro_text_tree_def loro_text_tree_axioms_def rtx_ok_def)
qed

lemma rtx_okI:
  assumes "rt_ok d"
    "list_all (\<lambda>e. case snd e of VText t \<Rightarrow> list_all (\<lambda>e'. snd e' = VText t \<longrightarrow> fst e' = fst e) (rt_maps d) | _ \<Rightarrow> True)
       (rt_maps d)"
  shows "rtx_ok d"
proof -
  have "(m, k) = (m', k')" if "rt_get d m k = Some (VText t)" "rt_get d m' k' = Some (VText t)" for m k m' k' t
  proof -
    have "((m, k), VText t) \<in> set (rt_maps d)" "((m', k'), VText t) \<in> set (rt_maps d)"
      using that by (auto simp: rt_get_def dest: map_of_SomeD)
    with assms(2) show ?thesis by (fastforce simp: list_all_iff)
  qed
  with assms(1) show ?thesis by (simp add: rtx_ok_def texts_once_def)
qed

section \<open>What the disk holds\<close>

definition accepted :: "('b, 'g) gitignore \<Rightarrow> 'g \<Rightarrow> path \<Rightarrow> ws_entry \<Rightarrow> bool" where
  "accepted G ig cs e \<longleftrightarrow>
     \<not> (cs = [] \<and> entry_name e = EG_DIR) \<and> \<not> should_ignore G ig (cs @ [entry_name e]) (is_dir_entry e)"

text \<open>\<open>None\<close> stands for a directory, \<open>Some s\<close> for a file with the text \<open>s\<close>.\<close>

definition entry_value :: "'w workspace \<Rightarrow> 'w \<Rightarrow> path \<Rightarrow> ws_entry \<Rightarrow> string option \<Rightarrow> bool" where
  "entry_value W w cs e v \<longleftrightarrow>
     (case e of
        EDir _ \<Rightarrow> v = None
      | EFile name \<Rightarrow> (\<exists>s. v = Some s \<and> ws_read_file W w (cs @ [name]) = Ok s \<and> valid_utf8 s))"

inductive on_disk :: "'w workspace \<Rightarrow> ('b, 'g) gitignore \<Rightarrow> 'g \<Rightarrow> 'w \<Rightarrow> path \<Rightarrow> path \<Rightarrow> string option \<Rightarrow> bool"
  for W G ig w where
  own: "ws_read_dir W w cs = Ok es \<Longrightarrow> e \<in> set es \<Longrightarrow> accepted G ig cs e \<Longrightarrow> entry_value W w cs e v \<Longrightarrow>
          on_disk W G ig w cs (cs @ [entry_name e]) v"
| deep: "ws_read_dir W w cs = Ok es \<Longrightarrow> EDir name \<in> set es \<Longrightarrow> accepted G ig cs (EDir name) \<Longrightarrow>
          on_disk W G ig w (cs @ [name]) p v \<Longrightarrow> on_disk W G ig w cs p v"

inductive_simps on_disk_iff: "on_disk W G ig w cs p v"

lemma dir_entry_iff: "is_dir_entry e \<longleftrightarrow> e = EDir (entry_name e)"
  by (cases e) (simp_all add: is_dir_entry_def entry_name_def)

lemma on_disk_below: "on_disk W G ig w cs p v \<Longrightarrow> strict_prefix cs p"
  by (induction rule: on_disk.induct) (auto simp: strict_prefix_def prefix_def)

lemma on_disk_snoc:
  "on_disk W G ig w cs p v \<Longrightarrow> v = None \<Longrightarrow> ws_read_dir W w p = Ok es \<Longrightarrow> EDir name \<in> set es \<Longrightarrow>
     accepted G ig p (EDir name) \<Longrightarrow> on_disk W G ig w cs (p @ [name]) None"
proof (induction rule: on_disk.induct)
  case (own cs es' e v)
  then have "e = EDir (entry_name e)" by (cases e) (simp_all add: entry_value_def entry_name_def)
  moreover have "on_disk W G ig w (cs @ [entry_name e]) ((cs @ [entry_name e]) @ [entry_name (EDir name)]) None"
    using own.prems by (intro on_disk.own [of W w _ es]) (simp_all add: entry_value_def)
  ultimately show ?case using own on_disk.deep [of W w cs es' "entry_name e"] by (simp add: entry_name_def)
qed (auto intro: on_disk.deep)

text \<open>What the entries of one directory bring.\<close>

definition brought ::
    "'w workspace \<Rightarrow> ('p, 'g) gitignore \<Rightarrow> 'g \<Rightarrow> 'w \<Rightarrow> path \<Rightarrow> ws_entry list \<Rightarrow> path \<Rightarrow> string option \<Rightarrow> bool" where
  "brought W G ig w rel es cs v \<longleftrightarrow>
     (\<exists>e \<in> set es. accepted G ig rel e \<and>
        (entry_value W w rel e v \<and> cs = rel @ [entry_name e] \<or>
         is_dir_entry e \<and> on_disk W G ig w (rel @ [entry_name e]) cs v))"

lemma on_disk_brought:
  assumes "ws_read_dir W w rel = Ok es"
  shows "on_disk W G ig w rel cs v \<longleftrightarrow> brought W G ig w rel es cs v"
proof
  assume "on_disk W G ig w rel cs v"
  then show "brought W G ig w rel es cs v"
  proof cases
    case (own es' e)
    with assms show ?thesis by (auto simp: brought_def)
  next
    case (deep es' name)
    moreover have "is_dir_entry (EDir name)" "entry_name (EDir name) = name"
      by (simp_all add: is_dir_entry_def entry_name_def)
    ultimately show ?thesis using assms unfolding brought_def by (intro bexI [of _ "EDir name"]) auto
  qed
next
  assume "brought W G ig w rel es cs v"
  then obtain e where e: "e \<in> set es" "accepted G ig rel e"
    "entry_value W w rel e v \<and> cs = rel @ [entry_name e] \<or>
     is_dir_entry e \<and> on_disk W G ig w (rel @ [entry_name e]) cs v"
    by (auto simp: brought_def)
  then show "on_disk W G ig w rel cs v"
    using on_disk.own [OF assms e(1,2)] on_disk.deep [OF assms, of "entry_name e"] dir_entry_iff by metis
qed

section \<open>What the document holds\<close>

definition shape :: "('d, 'n, 't, 'm) loro_ct \<Rightarrow> 'd \<Rightarrow> 'n \<Rightarrow> string option \<Rightarrow> bool" where
  "shape L d n v \<longleftrightarrow>
     (case v of
        None \<Rightarrow> ft_kind L d n = Some Dir
      | Some s \<Rightarrow> ft_kind L d n = Some File \<and> (\<exists>t. ft_content L d n = Some t \<and> tx_str L d t = s))"

definition in_doc :: "('d, 'n, 't, 'm) loro_ct \<Rightarrow> 'd \<Rightarrow> path \<Rightarrow> string option \<Rightarrow> bool" where
  "in_doc L d cs v \<longleftrightarrow> (\<exists>n. located L d n cs \<and> shape L d n v)"

definition shaped :: "('d, 'n, 't, 'm) loro_ct \<Rightarrow> 'd \<Rightarrow> bool" where
  "shaped L d \<longleftrightarrow> (\<forall>n cs. located L d n cs \<longrightarrow> (\<exists>v. shape L d n v))"

definition kept :: "('d, 'n, 't, 'm) loro_ct \<Rightarrow> 'd \<Rightarrow> 'd \<Rightarrow> bool" where
  "kept L d d' \<longleftrightarrow> (\<forall>n cs. located L d n cs \<longrightarrow> located L d' n cs \<and> ft_kind L d' n = ft_kind L d n)"

lemma kept_refl [simp]: "kept L d d"
  by (simp add: kept_def)

lemma kept_trans: "kept L a b \<Longrightarrow> kept L b c \<Longrightarrow> kept L a c"
  unfolding kept_def by metis

lemma kept_site: "kept L d d' \<Longrightarrow> site L d q cs \<Longrightarrow> site L d' q cs"
  by (cases q) (auto simp: kept_def site_Some)

lemma shape_same_node: "same_node L d d' n \<Longrightarrow> shape L d' n v = shape L d n v"
  unfolding shape_def same_node_def by (cases v) auto

lemma shape_unique: "shape L d n v \<Longrightarrow> shape L d n v' \<Longrightarrow> v = v'"
  by (auto simp: shape_def split: option.splits)

context loro_tree
begin

lemma created:
  assumes d: "ok d" "tidy L d" "ok d'" and a: "added L d d' n q name kind" and s: "site L d q qs"
    and free: "\<forall>v. \<not> in_doc L d (qs @ [name]) v" "shaped L d"
  shows "tidy L d'" "kept L d d'" "located L d' k cs \<longleftrightarrow> located L d k cs \<or> (k = n \<and> cs = qs @ [name])"
    "located L d k cs \<Longrightarrow> shape L d' k v = shape L d k v"
proof -
  have none: "\<not> located L d k (qs @ [name])" for k using free by (auto simp: in_doc_def shaped_def)
  have "child_named L d q name = None"
    using s none unfolding child_named_None by (auto simp: located_snoc)
  note fresh = this
  show loc: "located L d' k cs \<longleftrightarrow> located L d k cs \<or> (k = n \<and> cs = qs @ [name])" for k cs
    using added_located [OF d(1,3) a s] .
  show "tidy L d'" using added_tidy [OF d(1,3) a d(2) fresh] .
  have same: "located L d k cs \<Longrightarrow> same_node L d d' k" for k cs
    using a located_rooted [OF _ d(1)] by (auto simp: added_def)
  show "kept L d d'"
    unfolding kept_def
  proof (intro allI impI conjI)
    fix m cs assume l: "located L d m cs"
    then show "located L d' m cs" by (simp add: loc)
    show "ft_kind L d' m = ft_kind L d m" using same_nodeD(2) [OF same [OF l]] .
  qed
  show "located L d k cs \<Longrightarrow> shape L d' k v = shape L d k v" by (rule shape_same_node [OF same])
qed

lemma same_located:
  assumes "same_tree L d d'" "same_maps L d d'"
  shows "ft_name L d' k = ft_name L d k" "ft_kind L d' k = ft_kind L d k" "ft_content L d' k = ft_content L d k"
    "located L d' k cs = located L d k cs" "tidy L d' = tidy L d"
proof -
  have f: "ft_name L b k = ft_name L a k \<and> ft_kind L b k = ft_kind L a k \<and> ft_content L b k = ft_content L a k"
    if "same_tree L a b" "same_maps L a b" for a b k
    using that by (auto simp: ft_name_def ft_kind_def ft_content_def string_field_def same_tree_def same_maps_def
        split: option.split)
  have "located L a k cs \<Longrightarrow> located L b k cs" if "same_tree L a b" "same_maps L a b" for a b k cs
    by (induction rule: located.induct)
       (use that f [OF that] in \<open>auto simp: same_tree_def intro: located.intros\<close>)
  moreover have "same_tree L d' d" "same_maps L d' d" using assms by (simp_all add: same_tree_def same_maps_def)
  ultimately show "located L d' k cs = located L d k cs" using assms by blast
  show n: "ft_name L d' k = ft_name L d k" "ft_kind L d' k = ft_kind L d k" "ft_content L d' k = ft_content L d k" for k
    using f [OF assms] by simp_all
  have "place L d' q = place L d q" for q
    using same_tree_rooted [OF assms(1)] by (simp add: place_def split: option.split)
  then show "tidy L d' = tidy L d" using assms(1) n by (simp add: tidy_def same_tree_def)
qed

definition doc_inv :: "'d \<Rightarrow> bool" where
  "doc_inv d \<longleftrightarrow> ok d \<and> tidy L d \<and> shaped L d"

text \<open>The document gained exactly \<open>X\<close>.\<close>

definition grows :: "'d \<Rightarrow> 'd \<Rightarrow> (path \<Rightarrow> string option \<Rightarrow> bool) \<Rightarrow> bool" where
  "grows d d' X \<longleftrightarrow>
     doc_inv d' \<and> kept L d d' \<and> (\<forall>cs v. in_doc L d' cs v \<longleftrightarrow> in_doc L d cs v \<or> X cs v)"

lemma grows_refl: "doc_inv d \<Longrightarrow> (\<And>cs v. \<not> X cs v) \<Longrightarrow> grows d d X"
  by (simp add: grows_def)

lemma grows_trans: "grows d d1 X \<Longrightarrow> grows d1 d2 Y \<Longrightarrow> grows d d2 (\<lambda>cs v. X cs v \<or> Y cs v)"
  by (auto simp: grows_def elim: kept_trans)

lemma grows_one:
  assumes "doc_inv d" "ok d'" "tidy L d'" "kept L d d'" "shape L d' n v"
    and loc: "\<And>k cs. located L d' k cs \<longleftrightarrow> located L d k cs \<or> (k = n \<and> cs = ps)"
    and keep: "\<And>k cs u. located L d k cs \<Longrightarrow> shape L d' k u = shape L d k u"
  shows "grows d d' (\<lambda>cs u. cs = ps \<and> u = v)"
proof -
  have "shaped L d'" using assms(1,5) loc keep unfolding doc_inv_def shaped_def by metis
  moreover have "in_doc L d' cs u \<longleftrightarrow> in_doc L d cs u \<or> cs = ps \<and> u = v" for cs u
    using assms(5) loc keep shape_unique [OF assms(5)] unfolding in_doc_def by metis
  ultimately show ?thesis using assms(1-4) by (simp add: grows_def doc_inv_def)
qed

lemma dir_grows:
  assumes "doc_inv d" "site L d q rel" "\<forall>v. \<not> in_doc L d (rel @ [name]) v"
  shows "\<exists>d1 n. ft_create_dir L d q name = Some (d1, n) \<and> site L d1 (Some n) (rel @ [name]) \<and>
           grows d d1 (\<lambda>cs v. cs = rel @ [name] \<and> v = None)"
proof -
  have d: "ok d" "tidy L d" "shaped L d" using assms(1) by (simp_all add: doc_inv_def)
  obtain d1 n where c: "ft_create_dir L d q name = Some (d1, n)" "ok d1" "added L d d1 n q name Dir"
    using ft_create_dir_added [OF d(1) site_place [OF assms(2) d(1)]] by blast
  note cr = created [OF d(1,2) c(2,3) assms(2,3) d(3)]
  have k: "ft_kind L d1 n = Some Dir" using c(3) by (simp add: added_def)
  then have "grows d d1 (\<lambda>cs v. cs = rel @ [name] \<and> v = None)"
    using cr(4) by (intro grows_one [OF assms(1) c(2) cr(1,2) _ cr(3)]) (simp_all add: shape_def)
  moreover have "site L d1 (Some n) (rel @ [name])" using k cr(3) by (simp add: site_Some)
  ultimately show ?thesis using c(1) by blast
qed

end

context loro_text_tree
begin

lemma file_grows:
  assumes "doc_inv d" "site L d q rel" "\<forall>v. \<not> in_doc L d (rel @ [name]) v"
  shows "\<exists>d1 n t d2. ft_create_file L d q name = Some (d1, n) \<and> ft_content L d1 n = Some t \<and>
           tx_insert L d1 t 0 s = Some d2 \<and> grows d d2 (\<lambda>cs v. cs = rel @ [name] \<and> v = Some s)"
proof -
  have d: "ok d" "tidy L d" "shaped L d" using assms(1) by (simp_all add: doc_inv_def)
  obtain d1 n t where c: "ft_create_file L d q name = Some (d1, n)" "ok d1" "added L d d1 n q name File"
    "ft_content L d1 n = Some t" "tx_str L d1 t = []" "\<forall>k. rooted L d k \<longrightarrow> ft_content L d k \<noteq> Some t"
    using ft_create_file_added [OF d(1) site_place [OF assms(2) d(1)]] by blast
  note cr = created [OF d(1,2) c(2,3) assms(2,3) d(3)]
  have n: "rooted L d1 n" "ft_kind L d1 n = Some File" using c(3) by (simp_all add: added_def)
  obtain d2 where i: "tx_insert L d1 t 0 s = Some d2" "ok d2" "same_tree L d1 d2" "same_maps L d1 d2"
    "tx_str L d2 t = s @ tx_str L d1 t" "\<forall>t'. t' \<noteq> t \<longrightarrow> tx_str L d2 t' = tx_str L d1 t'"
    using insert_chars [OF c(2) n(1) c(4)] by blast
  note sl = same_located [OF i(3,4)]
  have "grows d d2 (\<lambda>cs v. cs = rel @ [name] \<and> v = Some s)"
  proof (rule grows_one [OF assms(1) i(2)])
    show "tidy L d2" using cr(1) sl(5) by simp
    show "kept L d d2" using cr(2) sl(2,4) by (simp add: kept_def)
    show "shape L d2 n (Some s)" using n(2) c(4,5) i(5) sl(2,3) by (simp add: shape_def)
    show "located L d2 k cs \<longleftrightarrow> located L d k cs \<or> (k = n \<and> cs = rel @ [name])" for k cs
      using cr(3) sl(4) by simp
    show "shape L d2 k u = shape L d k u" if "located L d k cs" for k cs u
    proof -
      have r: "rooted L d k" using located_rooted [OF that d(1)] .
      then have "same_node L d d1 k" using c(3) by (simp add: added_def)
      then have "ft_content L d1 k \<noteq> Some t" using c(6) r by (simp add: same_node_def)
      then have "shape L d2 k u = shape L d1 k u"
        using i(6) sl(2,3) unfolding shape_def by (cases u) auto
      with cr(4) [OF that] show ?thesis by simp
    qed
  qed
  with c(1,4) i(1) show ?thesis by blast
qed

lemma brought_Cons:
  "brought W G ig w rel (e # es) cs v \<longleftrightarrow>
     accepted G ig rel e \<and>
       (entry_value W w rel e v \<and> cs = rel @ [entry_name e] \<or>
        is_dir_entry e \<and> on_disk W G ig w (rel @ [entry_name e]) cs v) \<or>
     brought W G ig w rel es cs v"
  by (auto simp: brought_def)

lemma import_entries_grows:
  assumes sub: "\<And>d name n files. EDir name \<in> set es \<Longrightarrow> accepted G ig rel (EDir name) \<Longrightarrow> doc_inv d \<Longrightarrow>
      site L d (Some n) (rel @ [name]) \<Longrightarrow> \<forall>cs v. in_doc L d cs v \<longrightarrow> \<not> strict_prefix (rel @ [name]) cs \<Longrightarrow>
      \<exists>d' files' res. sub d (rel @ [name]) (Some n) files = Some ((d', files'), res) \<and>
        (res = Ok () \<longrightarrow> grows d d' (on_disk W G ig w (rel @ [name])))"
    and "distinct (map entry_name es)" "doc_inv d" "site L d q rel"
    and "\<forall>e \<in> set es. \<forall>cs v. in_doc L d cs v \<longrightarrow> \<not> prefix (rel @ [entry_name e]) cs"
  shows "\<exists>d' files' res. import_entries L W G w ig sub rel q es d files = Some ((d', files'), res) \<and>
           (res = Ok () \<longrightarrow> grows d d' (brought W G ig w rel es))"
  using assms
proof (induction es arbitrary: d files)
  case Nil
  then show ?case by (simp add: grows_refl brought_def)
next
  case (Cons e es)
  have rest: "\<exists>d' files' res. import_entries L W G w ig sub rel q es d1 files1 = Some ((d', files'), res) \<and>
           (res = Ok () \<longrightarrow> grows d d' (brought W G ig w rel (e # es)))"
    if g: "grows d d1 X" and X: "\<And>cs v. X cs v \<longleftrightarrow> accepted G ig rel e \<and>
       (entry_value W w rel e v \<and> cs = rel @ [entry_name e] \<or>
        is_dir_entry e \<and> on_disk W G ig w (rel @ [entry_name e]) cs v)"
      "\<And>cs v. X cs v \<Longrightarrow> prefix (rel @ [entry_name e]) cs" for d1 files1 X
  proof -
    have "\<not> prefix (rel @ [entry_name e']) cs" if "e' \<in> set es" "in_doc L d1 cs v" for e' cs v
    proof -
      have "in_doc L d cs v \<or> X cs v" using g that(2) by (simp add: grows_def)
      moreover have "entry_name e' \<noteq> entry_name e" using Cons.prems(2) that(1) by (metis distinct.simps(2) image_eqI list.simps(9) set_map)
      moreover have "\<not> prefix (rel @ [entry_name e']) cs" if "in_doc L d cs v"
        using Cons.prems(5) \<open>e' \<in> set es\<close> that by auto
      ultimately show ?thesis using X(2) [of cs v] by (auto simp: prefix_def)
    qed
    moreover have "site L d1 q rel" "doc_inv d1" using g kept_site Cons.prems(4) by (auto simp: grows_def)
    ultimately obtain d' files' res where
      o: "import_entries L W G w ig sub rel q es d1 files1 = Some ((d', files'), res)"
      "res = Ok () \<Longrightarrow> grows d1 d' (brought W G ig w rel es)"
      using Cons.IH [of d1 files1] Cons.prems(1,2) by auto
    have "grows d d' (brought W G ig w rel (e # es))" if "res = Ok ()"
      using grows_trans [OF g o(2) [OF that]] unfolding brought_Cons [abs_def] X(1) .
    with o(1) show ?thesis by blast
  qed
  have free: "\<forall>v. \<not> in_doc L d (rel @ [entry_name e]) v" using Cons.prems(5) by auto
  show ?case
  proof (cases "accepted G ig rel e")
    case False
    then have "import_entries L W G w ig sub rel q (e # es) d files = import_entries L W G w ig sub rel q es d files"
      by (auto simp: accepted_def)
    with rest [of d "\<lambda>cs v. False"] False Cons.prems(3) show ?thesis by (simp add: grows_refl)
  next
    case True
    then have run: "\<not> (rel = [] \<and> entry_name e = EG_DIR)"
      "\<not> should_ignore G ig (rel @ [entry_name e]) (is_dir_entry e)" by (auto simp: accepted_def)
    show ?thesis
    proof (cases e)
      case (EDir name)
      then have nm: "entry_name e = name" by (simp add: entry_name_def)
      obtain d1 n where c: "ft_create_dir L d q name = Some (d1, n)" "site L d1 (Some n) (rel @ [name])"
        "grows d d1 (\<lambda>cs v. cs = rel @ [name] \<and> v = None)"
        using dir_grows [OF Cons.prems(3,4), of name] free nm by auto
      have "\<not> strict_prefix (rel @ [name]) cs" if "in_doc L d1 cs v" for cs v
        using that c(3) Cons.prems(5) nm by (auto simp: grows_def strict_prefix_def)
      then obtain d2 files2 res where s: "sub d1 (rel @ [name]) (Some n) files = Some ((d2, files2), res)"
        "res = Ok () \<Longrightarrow> grows d1 d2 (on_disk W G ig w (rel @ [name]))"
        using Cons.prems(1) [of name d1 n files] c(2,3) True EDir by (auto simp: grows_def)
      show ?thesis
      proof (cases res)
        case (Inl err)
        with s(1) run EDir nm c(1) show ?thesis by auto
      next
        case (Inr u)
        have "grows d d2 (\<lambda>cs v. (cs = rel @ [name] \<and> v = None) \<or> on_disk W G ig w (rel @ [name]) cs v)"
          using grows_trans [OF c(3) s(2)] Inr by simp
        moreover have "(cs = rel @ [name] \<and> v = None) \<or> on_disk W G ig w (rel @ [name]) cs v \<longleftrightarrow>
            accepted G ig rel e \<and> (entry_value W w rel e v \<and> cs = rel @ [entry_name e] \<or>
              is_dir_entry e \<and> on_disk W G ig w (rel @ [entry_name e]) cs v)" for cs v
          using True EDir nm by (auto simp: is_dir_entry_def entry_value_def)
        moreover have "prefix (rel @ [entry_name e]) cs"
          if "(cs = rel @ [name] \<and> v = None) \<or> on_disk W G ig w (rel @ [name]) cs v" for cs v
          using that on_disk_below [of W G ig w "rel @ [name]" cs v] nm by (auto simp: strict_prefix_def)
        ultimately have "\<exists>d' files' res. import_entries L W G w ig sub rel q es d2 files2 = Some ((d', files'), res) \<and>
           (res = Ok () \<longrightarrow> grows d d' (brought W G ig w rel (e # es)))"
          by (rule rest)
        with run EDir nm c(1) s(1) Inr show ?thesis by auto
      qed
    next
      case (EFile name)
      then have nm: "entry_name e = name" by (simp add: entry_name_def)
      show ?thesis
      proof (cases "ws_read_file W w (rel @ [name])")
        case (Inl err)
        with run EFile nm show ?thesis by auto
      next
        case (Inr bs)
        show ?thesis
        proof (cases "valid_utf8 bs")
          case False
          have "import_entries L W G w ig sub rel q (e # es) d files = import_entries L W G w ig sub rel q es d files"
            using False run EFile nm Inr by (auto simp: from_utf8_def)
          moreover have "\<not> entry_value W w rel e v" for v
            using False EFile nm Inr by (simp add: entry_value_def)
          ultimately show ?thesis
            using rest [of d "\<lambda>cs v. False" files] Cons.prems(3) EFile by (simp add: grows_refl is_dir_entry_def)
        next
          case True
          obtain d1 n t d2 where c: "ft_create_file L d q name = Some (d1, n)" "ft_content L d1 n = Some t"
            "tx_insert L d1 t 0 bs = Some d2" "grows d d2 (\<lambda>cs v. cs = rel @ [name] \<and> v = Some bs)"
            using file_grows [OF Cons.prems(3,4), of name bs] free nm by auto
          have "import_entries L W G w ig sub rel q (e # es) d files =
              import_entries L W G w ig sub rel q es d2 (Suc files)"
            using run EFile nm Inr True c by (auto simp: from_utf8_def)
          with rest [OF c(4), of "Suc files"] show ?thesis
            using EFile nm Inr True \<open>accepted G ig rel e\<close> by (auto simp: is_dir_entry_def entry_value_def)
        qed
      qed
    qed
  qed
qed

text \<open>A directory brings what is on disk below it; the fuel must exceed the depth that is left.\<close>

lemma import_dir_grows:
  assumes names: "\<And>cs es. ws_read_dir W w cs = Ok es \<Longrightarrow> distinct (map entry_name es)"
    and depth: "\<And>p. on_disk W G ig w [] p None \<Longrightarrow> length p < N"
  shows "N < k + length rel \<Longrightarrow> rel = [] \<or> on_disk W G ig w [] rel None \<Longrightarrow> doc_inv d \<Longrightarrow> site L d q rel \<Longrightarrow>
           \<forall>cs v. in_doc L d cs v \<longrightarrow> \<not> strict_prefix rel cs \<Longrightarrow>
           \<exists>d' files' res. import_dir L W G w ig k d rel q files = Some ((d', files'), res) \<and>
             (res = Ok () \<longrightarrow> grows d d' (on_disk W G ig w rel))"
proof (induction k arbitrary: rel d q files)
  case 0
  then show ?case using depth [of rel] by auto
next
  case (Suc k)
  show ?case
  proof (cases "ws_read_dir W w rel")
    case (Inl e)
    then show ?thesis by simp
  next
    case (Inr es)
    have "\<exists>d' files' res. import_entries L W G w ig (import_dir L W G w ig k) rel q (sort_key entry_name es) d files =
        Some ((d', files'), res) \<and> (res = Ok () \<longrightarrow> grows d d' (brought W G ig w rel (sort_key entry_name es)))"
    proof (rule import_entries_grows [OF _ _ Suc.prems(3,4)])
      fix d1 name n files1
      assume e: "EDir name \<in> set (sort_key entry_name es)" "accepted G ig rel (EDir name)" and d1: "doc_inv d1"
        "site L d1 (Some n) (rel @ [name])" "\<forall>cs v. in_doc L d1 cs v \<longrightarrow> \<not> strict_prefix (rel @ [name]) cs"
      have "on_disk W G ig w [] (rel @ [name]) None"
        using Suc.prems(2) on_disk_snoc [of W G ig w "[]" rel None es name] Inr e
          on_disk.own [OF Inr _ e(2)] by (auto simp: entry_value_def entry_name_def)
      with Suc.IH [of "rel @ [name]" d1 "Some n" files1] Suc.prems(1) d1
      show "\<exists>d' files' res. import_dir L W G w ig k d1 (rel @ [name]) (Some n) files1 = Some ((d', files'), res) \<and>
          (res = Ok () \<longrightarrow> grows d1 d' (on_disk W G ig w (rel @ [name])))"
        by simp
    next
      have "distinct (map entry_name (sort_key entry_name es)) = distinct (map entry_name es)"
        using mset_eq_imp_distinct_iff [of "map entry_name (sort_key entry_name es)" "map entry_name es"]
        by (simp add: mset_map)
      then show "distinct (map entry_name (sort_key entry_name es))" using names [OF Inr] by simp
      show "\<forall>e \<in> set (sort_key entry_name es). \<forall>cs v. in_doc L d cs v \<longrightarrow> \<not> prefix (rel @ [entry_name e]) cs"
        using Suc.prems(5) by (auto simp: strict_prefix_def prefix_def)
    qed
    moreover have "brought W G ig w rel (sort_key entry_name es) = on_disk W G ig w rel"
      by (intro ext, subst on_disk_brought [OF Inr]) (simp add: brought_def)
    ultimately show ?thesis using Inr by simp
  qed
qed

lemma empty_inv:
  assumes "ok d" "ft_roots L d = []"
  shows "doc_inv d" "\<not> in_doc L d cs v"
proof -
  have none: "\<not> rooted L d n" for n
  proof
    assume "rooted L d n"
    then show False
    proof (induction rule: rooted.induct)
      case (root n)
      then show ?case
        using kids_parent [OF assms(1), of None n] assms(2) by (simp add: kids_def parent_of_def)
    qed
  qed
  then have "\<not> located L d n cs" for n cs using located_rooted assms(1) by blast
  moreover have "tidy L d" using none assms(2) by (auto simp: tidy_def place_def kids_def split: option.splits)
  ultimately show "doc_inv d" "\<not> in_doc L d cs v" using assms(1) by (simp_all add: doc_inv_def shaped_def in_doc_def)
qed

lemma import_grows:
  assumes "ok d" "ft_roots L d = []"
    and "\<And>cs es. ws_read_dir W w cs = Ok es \<Longrightarrow> distinct (map entry_name es)"
    and "\<And>p. on_disk W G ig w [] p None \<Longrightarrow> length p < N" "N < fuel"
  shows "\<exists>d' files' res. import_dir L W G w ig fuel d [] None files = Some ((d', files'), res) \<and>
           (res = Ok () \<longrightarrow> ok d' \<and> tidy L d' \<and> shaped L d' \<and> (\<forall>cs v. in_doc L d' cs v \<longleftrightarrow> on_disk W G ig w [] cs v))"
  using import_dir_grows [where W = W and w = w and G = G and ig = ig and N = N and k = fuel and rel = "[]" and
      d = d and q = None and files = files] assms(3-5) empty_inv [OF assms(1,2)]
  by (auto simp: grows_def doc_inv_def)

end

section \<open>The import\<close>

text \<open>
  C21. In a workspace whose listings name each entry once and whose directories are less deep than the
  fuel, importing into an empty document always ends without a panic.  If no call of the workspace and
  no ignore pattern fails, the document holds exactly what is on disk outside \<open>.eg\<close> and the ignored paths:
  at each path a directory where the disk has one, and a file where the disk has a file of valid UTF-8,
  with its bytes as text; and no two siblings share a name.\<close>

theorem import_reads_disk:
  assumes "loro_text_tree L dwf" "dwf (inner d)" "ft_roots L (inner d) = []"
    and "\<forall>cs es. ws_read_dir W w cs = Ok es \<longrightarrow> distinct (map entry_name es)"
    and "\<forall>ig p. on_disk W G ig w [] p None \<longrightarrow> length p < N" "N < fuel"
  shows "\<exists>d' r. import_tree V L W G fuel w d = Some (d', r) \<and>
           (\<forall>files. r = Ok files \<longrightarrow>
              (\<exists>ig i. ignorer_load W G w = Ok ig \<and> d' = doc_commit V (d\<lparr>inner := i\<rparr>) \<and> dwf i \<and> tidy L i \<and>
                 (\<forall>cs v. in_doc L i cs v \<longleftrightarrow> on_disk W G ig w [] cs v)))"
proof (cases "ignorer_load W G w")
  case (Inl e)
  then show ?thesis by (simp add: import_tree_def)
next
  case (Inr ig)
  obtain i files res where r: "import_dir L W G w ig fuel (inner d) [] None 0 = Some ((i, files), res)"
    "res = Ok () \<Longrightarrow> dwf i \<and> tidy L i \<and> (\<forall>cs v. in_doc L i cs v \<longleftrightarrow> on_disk W G ig w [] cs v)"
    using loro_text_tree.import_grows [OF assms(1-3), of W w G ig N fuel 0] assms(4-6) by blast
  show ?thesis
  proof (cases res)
    case (Inl e)
    with Inr r(1) show ?thesis by (simp add: import_tree_def)
  next
    case Ok: (Inr u)
    then have "import_tree V L W G fuel w d = Some (doc_commit V (d\<lparr>inner := i\<rparr>), Ok files)"
      using Inr r(1) by (simp add: import_tree_def)
    with Inr Ok r(2) show ?thesis by auto
  qed
qed

lemma mem_on_disk:
  "on_disk mem_ops G ig w cs p v \<Longrightarrow> \<exists>q \<in> set (mem_dirs w @ map fst (mem_files w)). prefix p q"
proof (induction rule: on_disk.induct)
  case (own cs es e v)
  then have "entry_name e \<in> set (map entry_name (mem_entries w cs [] (mem_dirs w @ map fst (mem_files w))))"
    by (auto simp: mem_read_dir_def)
  then obtain q b where "q \<in> set (mem_dirs w @ map fst (mem_files w))" "direct_child cs q = Some (entry_name e, b)"
    using mem_entries_names [of w cs "[]" "mem_dirs w @ map fst (mem_files w)"] by auto
  then show ?case by (auto simp: direct_child_Some prefix_def)
qed

lemma mem_depth:
  "on_disk mem_ops G ig w cs p v \<Longrightarrow> length p < Suc (sum_list (map length (mem_dirs w @ map fst (mem_files w))))"
proof -
  assume "on_disk mem_ops G ig w cs p v"
  from mem_on_disk [OF this] obtain q where q: "q \<in> set (mem_dirs w @ map fst (mem_files w))" "prefix p q" by blast
  then have "length q \<le> sum_list (map length (mem_dirs w @ map fst (mem_files w)))"
    using member_le_sum_list [of "length q" "map length (mem_dirs w @ map fst (mem_files w))"] by fastforce
  with prefix_length_le [OF q(2)] show ?thesis by simp
qed

definition demo_disk :: mem_workspace where
  "demo_disk = fst (mem_write_file (fst (mem_write_file mem_new [''a'', ''b''] ''hi'')) [''.eg'', ''key''] ''s'')"

definition demo_vdoc :: "(rtree, unit, unit) vdoc" where
  "demo_vdoc = \<lparr>ld_new = (\<lambda>p. rt_empty), ld_peer_id = (\<lambda>d. 0), ld_commit = (\<lambda>d. d), ld_state_vv = (\<lambda>d. ()),
     ld_state_frontiers = (\<lambda>d. ()), ld_export_snapshot = (\<lambda>d. Err []), ld_export_updates = (\<lambda>d v. Err []),
     ld_import = (\<lambda>d bs. (d, Err [])), ld_fork_at = (\<lambda>d f. Some d), vv_default = (), vv_encode = (\<lambda>v. []),
     vv_decode = (\<lambda>bs. Ok ())\<rparr>"

theorem import_reads_disk_witness:
  "\<exists>i files. import_tree demo_vdoc ref_ct mem_ops demo_ignore 8 demo_disk (doc_new demo_vdoc 0) =
       Some (doc_commit demo_vdoc ((doc_new demo_vdoc 0)\<lparr>inner := i\<rparr>), Ok files) \<and>
     in_doc ref_ct i [''a'', ''b''] (Some ''hi'')"
proof -
  let ?o = "import_tree demo_vdoc ref_ct mem_ops demo_ignore 8 demo_disk (doc_new demo_vdoc 0)"
  have names: "\<forall>cs es. ws_read_dir mem_ops demo_disk cs = Ok es \<longrightarrow> distinct (map entry_name es)"
    using mem_entries_names by (simp add: mem_read_dir_def)
  have depth: "\<forall>ig p. on_disk mem_ops demo_ignore ig demo_disk [] p None \<longrightarrow> length p < 7"
  proof (intro allI impI)
    fix ig p assume "on_disk mem_ops demo_ignore ig demo_disk [] p None"
    note mem_depth [OF this]
    also have "Suc (sum_list (map length (mem_dirs demo_disk @ map fst (mem_files demo_disk)))) = 7" by code_simp
    finally show "length p < 7" .
  qed
  have "rtx_ok (inner (doc_new demo_vdoc 0))" by (rule rtx_okI; code_simp)
  moreover have "ft_roots ref_ct (inner (doc_new demo_vdoc 0)) = []" by code_simp
  ultimately obtain d' r where
    o: "?o = Some (d', r)" "\<And>files. r = Ok files \<Longrightarrow>
        (\<exists>ig i. ignorer_load mem_ops demo_ignore demo_disk = Ok ig \<and> d' = doc_commit demo_vdoc ((doc_new demo_vdoc 0)\<lparr>inner := i\<rparr>) \<and>
           (\<forall>cs v. in_doc ref_ct i cs v \<longleftrightarrow> on_disk mem_ops demo_ignore ig demo_disk [] cs v))"
    using import_reads_disk [OF rtx.loro_text_tree_axioms _ _ names depth, where fuel = 8 and V = demo_vdoc and d = "doc_new demo_vdoc 0"]
    by auto
  have "is_ok (snd (the ?o))" by code_simp
  then obtain files where f: "r = Ok files" using o(1) by (auto simp: is_ok_iff)
  obtain i where i: "d' = doc_commit demo_vdoc ((doc_new demo_vdoc 0)\<lparr>inner := i\<rparr>)"
    "\<forall>cs v. in_doc ref_ct i cs v \<longleftrightarrow> on_disk mem_ops demo_ignore [] demo_disk [] cs v"
  proof -
    have "ignorer_load mem_ops demo_ignore demo_disk = Ok []" by code_simp
    with o(2) [OF f] that show thesis by auto
  qed
  have "mem_read_dir demo_disk [] = Ok [EDir ''.eg'', EDir ''a'']" "mem_read_dir demo_disk [''a''] = Ok [EFile ''b'']"
    "accepted demo_ignore [] [] (EDir ''a'')" "accepted demo_ignore [] [''a''] (EFile ''b'')"
    "entry_value mem_ops demo_disk [''a''] (EFile ''b'') (Some ''hi'')"
    by (code_simp, code_simp, code_simp, code_simp, simp add: entry_value_def demo_disk_def, code_simp)
  then have "on_disk mem_ops demo_ignore [] demo_disk [] [''a'', ''b''] (Some ''hi'')"
    using on_disk.deep [of mem_ops demo_disk "[]" "[EDir ''.eg'', EDir ''a'']" "''a''" demo_ignore "[]"]
      on_disk.own [of mem_ops demo_disk "[''a'']" "[EFile ''b'']" "EFile ''b''" demo_ignore "[]"]
    by (simp add: entry_name_def)
  with i(2) o(1) f i(1) show ?thesis by blast
qed

end
