(* ===== verification/Watch.thy ===== *)
theory Watch
  imports Bridge "HOL-Library.AList"
begin

text \<open>
  \<open>crates/eg/src/watch.rs\<close>: merging what changed on disk into a document, against the content disk and
  document last agreed on, and removing what a peer's delete or rename left on disk.  A hash map is a
  list of entries with distinct keys in its iteration order, a hash set a list without repetition.  A
  relative path has normal components only, in UTF-8.  Warnings are left out; \<open>None\<close> is a panic.
\<close>

record ('n, 'f) exported_base =
  eb_frontier :: 'f
  eb_node :: 'n

type_synonym ('n, 'f) file_bases = "(path \<times> ('n, 'f) exported_base) list"

type_synonym export_dirs = "path list"

section \<open>Seeding\<close>

text \<open>The stack holds nodes with their name and the path of their parent.\<close>

definition seed_roots :: "('d, 'n, 't, 'm) loro_ct \<Rightarrow> 'd \<Rightarrow> ('n \<times> string \<times> path) list" where
  "seed_roots L d =
     filter (\<lambda>(n, name, parent). name \<noteq> EG_DIR)
       (List.map_filter (\<lambda>n. map_option (\<lambda>name. (n, name, [])) (ft_name L d n)) (ft_roots L d))"

definition seed_succs ::
    "('d, 'n, 't, 'm) loro_ct \<Rightarrow> ('b, 'g) gitignore \<Rightarrow> 'd \<Rightarrow> 'g \<Rightarrow> 'n \<times> string \<times> path \<Rightarrow> ('n \<times> string \<times> path) list" where
  "seed_succs L G d ig = (\<lambda>(n, name, parent).
     (let path = parent @ [name]; kind = ft_kind L d n
      in if materializable G ig name path (kind = Some Dir) \<and> kind = Some Dir
         then List.map_filter (\<lambda>c. map_option (\<lambda>cname. (c, cname, path)) (ft_name L d c)) (ft_children L d n)
         else []))"

definition seed_visit ::
    "('d, 'n, 't, 'm) loro_ct \<Rightarrow> 'w workspace \<Rightarrow> ('b, 'g) gitignore \<Rightarrow> 'w \<Rightarrow> 'd \<Rightarrow> 'g \<Rightarrow> 'f
       \<Rightarrow> 'n \<times> string \<times> path \<Rightarrow> ('n, 'f) file_bases \<times> export_dirs \<Rightarrow> ('n, 'f) file_bases \<times> export_dirs" where
  "seed_visit L W G w d ig now = (\<lambda>(n, name, parent) (bases, dirs).
     (let path = parent @ [name]; kind = ft_kind L d n
      in if \<not> materializable G ig name path (kind = Some Dir) then (bases, dirs)
         else if kind = Some Dir
         then (bases, if ws_kind W w path = Ok (Some KDir) then List.insert path dirs else dirs)
         else if kind = Some File
         then (if ws_read_file W w path = Ok (file_text L d n)
               then AList.update path \<lparr>eb_frontier = now, eb_node = n\<rparr> bases else bases, dirs)
         else (bases, dirs)))"

definition seed ::
    "('d, 'v, 'f) vdoc \<Rightarrow> ('d, 'n, 't, 'm) loro_ct \<Rightarrow> 'w workspace \<Rightarrow> ('b, 'g) gitignore \<Rightarrow> 'w \<Rightarrow> 'd doc
       \<Rightarrow> (io_error + ('n, 'f) file_bases \<times> export_dirs) option" where
  "seed V L W G w d =
     (case ignorer_load W G w of
        Inl e \<Rightarrow> Some (Err e)
      | Inr ig \<Rightarrow>
          map_option (\<lambda>visited. Ok (fold (seed_visit L W G w (inner d) ig (doc_frontiers V d)) visited ([], [])))
            (dfs (seed_succs L G (inner d) ig) (rev (seed_roots L (inner d))) []))"

section \<open>Pruning\<close>

definition is_echo_of ::
    "('d, 'v, 'f) vdoc \<Rightarrow> ('d, 'n, 't, 'm) loro_ct \<Rightarrow> 'd \<Rightarrow> 'n \<Rightarrow> 'f \<Rightarrow> bytes \<Rightarrow> bool" where
  "is_echo_of V L d n frontier disk \<longleftrightarrow>
     (case content_at V L d n frontier of None \<Rightarrow> False | Some text \<Rightarrow> disk = text)"

text \<open>
  The file is read again just before it is removed.  Nothing runs between the two reads here, so they agree; the
  second one narrows the window for a program that writes the file meanwhile.
\<close>

definition prune_file ::
    "('d, 'v, 'f) vdoc \<Rightarrow> ('d, 'n, 't, 'm) loro_ct \<Rightarrow> 'w workspace \<Rightarrow> 'd \<Rightarrow> path
       \<Rightarrow> 'w \<times> ('n, 'f) file_bases \<Rightarrow> 'w \<times> ('n, 'f) file_bases" where
  "prune_file V L W d rel = (\<lambda>(w, bases).
     (case map_of bases rel of
        None \<Rightarrow> (w, bases)
      | Some base \<Rightarrow>
          (case ws_read_file W w rel of
             Inl _ \<Rightarrow> (w, AList.delete rel bases)
           | Inr disk \<Rightarrow>
               if \<not> is_echo_of V L d (eb_node base) (eb_frontier base) disk then (w, bases)
               else (case ws_read_file W w rel of
                       Inl _ \<Rightarrow> (w, bases)
                     | Inr again \<Rightarrow>
                         if is_echo_of V L d (eb_node base) (eb_frontier base) again
                         then (case ws_remove_file W w rel of
                                 (w1, Inl _) \<Rightarrow> (w1, bases)
                               | (w1, Inr _) \<Rightarrow> (w1, AList.delete rel bases))
                         else (w, bases)))))"

definition prune_dir :: "'w workspace \<Rightarrow> path \<Rightarrow> 'w \<times> export_dirs \<Rightarrow> 'w \<times> export_dirs" where
  "prune_dir W rel = (\<lambda>(w, dirs).
     (case ws_kind W w rel of
        Inl _ \<Rightarrow> (w, dirs)
      | Inr None \<Rightarrow> (w, removeAll rel dirs)
      | Inr (Some KFile) \<Rightarrow> (w, dirs)
      | Inr (Some KDir) \<Rightarrow>
          (if ws_read_dir W w rel = Ok []
           then (case ws_remove_dir W w rel of
                   (w1, Inl _) \<Rightarrow> (w1, dirs)
                 | (w1, Inr _) \<Rightarrow> (w1, removeAll rel dirs))
           else (w, dirs))))"

definition prune ::
    "('d, 'v, 'f) vdoc \<Rightarrow> ('d, 'n, 't, 'm) loro_ct \<Rightarrow> 'w workspace \<Rightarrow> 'd \<Rightarrow> path list \<Rightarrow> path list
       \<Rightarrow> 'w \<times> ('n, 'f) file_bases \<times> export_dirs \<Rightarrow> 'w \<times> ('n, 'f) file_bases \<times> export_dirs" where
  "prune V L W d written_files written_dirs = (\<lambda>(w, bases, dirs).
     (let candidates = filter (\<lambda>p. p \<notin> set written_files) (map fst bases);
          (w1, bases1) = fold (prune_file V L W d) candidates (w, bases);
          dir_candidates = sort_key (\<lambda>p. - int (length p)) (filter (\<lambda>p. p \<notin> set written_dirs) dirs);
          (w2, dirs2) = fold (prune_dir W) dir_candidates (w1, dirs)
      in (w2, bases1, dirs2)))"

definition advance_and_prune ::
    "('d, 'v, 'f) vdoc \<Rightarrow> ('d, 'n, 't, 'm) loro_ct \<Rightarrow> 'w workspace \<Rightarrow> 'd doc \<Rightarrow> 'n export_plan
       \<Rightarrow> 'w \<times> ('n, 'f) file_bases \<times> export_dirs \<Rightarrow> ('w \<times> ('n, 'f) file_bases \<times> export_dirs) \<times> nat" where
  "advance_and_prune V L W d plan = (\<lambda>(w, bases, dirs).
     (let now = doc_frontiers V d;
          written_files = remdups (map fst (pl_files plan));
          bases1 = fold (\<lambda>(path, n). AList.update path \<lparr>eb_frontier = now, eb_node = n\<rparr>) (pl_files plan) bases;
          written_dirs = remdups (map fst (pl_dirs plan));
          dirs1 = fold (\<lambda>(path, n). List.insert path) (pl_dirs plan) dirs
      in (prune V L W (inner d) written_files written_dirs (w, bases1, dirs1), length written_files)))"

section \<open>Paths in the document\<close>

definition watch_child :: "('d, 'n, 't, 'm) loro_ct \<Rightarrow> 'd \<Rightarrow> 'n option \<Rightarrow> string \<Rightarrow> 'n option" where
  "watch_child L d parent name =
     find (\<lambda>n. ft_name L d n = Some name)
       (case parent of Some p \<Rightarrow> ft_children L d p | None \<Rightarrow> ft_roots L d)"

fun node_from :: "('d, 'n, 't, 'm) loro_ct \<Rightarrow> 'd \<Rightarrow> 'n option \<Rightarrow> path \<Rightarrow> 'n option" where
  "node_from L d parent [] = parent"
| "node_from L d parent (c # comps) =
     (case watch_child L d parent c of None \<Rightarrow> None | Some n \<Rightarrow> node_from L d (Some n) comps)"

definition node_at :: "('d, 'n, 't, 'm) loro_ct \<Rightarrow> 'd \<Rightarrow> path \<Rightarrow> 'n option" where
  "node_at L d rel = node_from L d None rel"

fun ensure_from :: "('d, 'n, 't, 'm) loro_ct \<Rightarrow> 'd \<Rightarrow> 'n option \<Rightarrow> path \<Rightarrow> ('d \<times> 'n option) option" where
  "ensure_from L d parent [] = Some (d, parent)"
| "ensure_from L d parent (c # comps) =
     (case watch_child L d parent c of
        Some n \<Rightarrow> ensure_from L d (Some n) comps
      | None \<Rightarrow>
          (case ft_create_dir L d parent c of
             None \<Rightarrow> None
           | Some (d1, n) \<Rightarrow> ensure_from L d1 (Some n) comps))"

definition ensure_dir :: "('d, 'n, 't, 'm) loro_ct \<Rightarrow> 'd \<Rightarrow> path \<Rightarrow> ('d \<times> 'n option) option" where
  "ensure_dir L d rel = ensure_from L d None rel"

definition file_name :: "path \<Rightarrow> string" where
  "file_name rel = (if rel = [] then [] else last rel)"

section \<open>Merging from disk\<close>

text \<open>Against the base when there is one that works, otherwise against the live text.\<close>

definition merge_text ::
    "('d, 'v, 'f) vdoc \<Rightarrow> ('d, 'n, 't, 'm) loro_ct \<Rightarrow> 'd \<Rightarrow> 'n \<Rightarrow> string \<Rightarrow> ('n, 'f) exported_base option \<Rightarrow> 'd" where
  "merge_text V L d n txt base =
     (if (case ft_content L d n of None \<Rightarrow> False | Some t \<Rightarrow> tx_str L d t = txt) then d
      else (case base of
              None \<Rightarrow> fst (set_content L d n txt)
            | Some b \<Rightarrow>
                (case set_content_at V L d n txt (eb_frontier b) of
                   (d1, merged) \<Rightarrow> if merged then d1 else fst (set_content L d1 n txt))))"

definition apply_file ::
    "('d, 'v, 'f) vdoc \<Rightarrow> ('d, 'n, 't, 'm) loro_ct \<Rightarrow> 'd \<Rightarrow> path \<Rightarrow> string \<Rightarrow> ('n, 'f) file_bases \<Rightarrow> 'd option" where
  "apply_file V L d rel txt bases =
     (case (if rel \<noteq> [] \<and> butlast rel \<noteq> [] then ensure_dir L d (butlast rel) else Some (d, None)) of
        None \<Rightarrow> None
      | Some (d1, parent) \<Rightarrow>
          (case watch_child L d1 parent (file_name rel) of
             Some n \<Rightarrow> Some (merge_text V L d1 n txt (map_of bases rel))
           | None \<Rightarrow>
               if (case map_of bases rel of
                     None \<Rightarrow> False
                   | Some base \<Rightarrow> is_echo_of V L d1 (eb_node base) (eb_frontier base) txt)
               then Some d1
               else (case ft_create_file L d1 parent (file_name rel) of
                       None \<Rightarrow> None
                     | Some (d2, n) \<Rightarrow> Some (merge_text V L d2 n txt (map_of bases rel)))))"

definition apply_path ::
    "('d, 'v, 'f) vdoc \<Rightarrow> ('d, 'n, 't, 'm) loro_ct \<Rightarrow> 'w workspace \<Rightarrow> 'w \<Rightarrow> path \<Rightarrow> ('n, 'f) file_bases \<Rightarrow> 'd
       \<Rightarrow> ('d \<times> (io_error + unit)) option" where
  "apply_path V L W w rel bases d =
     (case ws_kind W w rel of
        Inl e \<Rightarrow> Some (d, Err e)
      | Inr (Some KDir) \<Rightarrow> map_option (\<lambda>(d1, _). (d1, Ok ())) (ensure_dir L d rel)
      | Inr (Some KFile) \<Rightarrow>
          (case ws_read_file W w rel of
             Inl e \<Rightarrow> Some (d, Err e)
           | Inr bs \<Rightarrow>
               (case from_utf8 bs of
                  None \<Rightarrow> Some (d, Ok ())
                | Some txt \<Rightarrow> map_option (\<lambda>d1. (d1, Ok ())) (apply_file V L d rel txt bases)))
      | Inr None \<Rightarrow>
          (case node_at L d rel of
             None \<Rightarrow> Some (d, Ok ())
           | Some n \<Rightarrow> map_option (\<lambda>d1. (d1, Ok ())) (ft_delete L d n)))"

fun apply_paths ::
    "('d, 'v, 'f) vdoc \<Rightarrow> ('d, 'n, 't, 'm) loro_ct \<Rightarrow> 'w workspace \<Rightarrow> 'w \<Rightarrow> ('n, 'f) file_bases \<Rightarrow> path list \<Rightarrow> 'd
       \<Rightarrow> ('d \<times> (io_error + unit)) option" where
  "apply_paths V L W w bases [] d = Some (d, Ok ())"
| "apply_paths V L W w bases (rel # rels) d =
     (case apply_path V L W w rel bases d of
        None \<Rightarrow> None
      | Some (d1, Inl e) \<Rightarrow> Some (d1, Err e)
      | Some (d1, Inr _) \<Rightarrow> apply_paths V L W w bases rels d1)"

fun advance_bases ::
    "('d, 'n, 't, 'm) loro_ct \<Rightarrow> 'w workspace \<Rightarrow> 'w \<Rightarrow> 'd \<Rightarrow> 'f \<Rightarrow> path list \<Rightarrow> ('n, 'f) file_bases
       \<Rightarrow> ('n, 'f) file_bases \<times> (io_error + unit)" where
  "advance_bases L W w d now [] bases = (bases, Ok ())"
| "advance_bases L W w d now (rel # rels) bases =
     (case ws_kind W w rel of
        Inl e \<Rightarrow> (bases, Err e)
      | Inr kind \<Rightarrow>
          advance_bases L W w d now rels
            (if kind = Some KFile
             then (case node_at L d rel of
                     None \<Rightarrow> bases
                   | Some n \<Rightarrow> AList.update rel \<lparr>eb_frontier = now, eb_node = n\<rparr> bases)
             else AList.delete rel bases))"

definition apply_batch ::
    "('d, 'v, 'f) vdoc \<Rightarrow> ('d, 'n, 't, 'm) loro_ct \<Rightarrow> 'w workspace \<Rightarrow> 'w \<Rightarrow> path list \<Rightarrow> 'd doc \<times> ('n, 'f) file_bases
       \<Rightarrow> (('d doc \<times> ('n, 'f) file_bases) \<times> (io_error + bool)) option"
where
  "apply_batch V L W w paths = (\<lambda>(d, bases).
     (let before = doc_version V d
      in case apply_paths V L W w bases paths (inner d) of
           None \<Rightarrow> None
         | Some (i, Inl e) \<Rightarrow> Some ((d\<lparr>inner := i\<rparr>, bases), Err e)
         | Some (i, Inr _) \<Rightarrow>
             (let d1 = doc_commit V (d\<lparr>inner := i\<rparr>)
              in case advance_bases L W w (inner d1) (doc_frontiers V d1) paths bases of
                   (bases1, Inl e) \<Rightarrow> Some ((d1, bases1), Err e)
                 | (bases1, Inr _) \<Rightarrow> Some ((d1, bases1), Ok (doc_version V d1 \<noteq> before)))))"

section \<open>The watch loop\<close>

text \<open>The paths of one batch of events, relative to the watched directory, each once.\<close>

definition changed_rels :: "path \<Rightarrow> path option \<Rightarrow> path list \<Rightarrow> path list" where
  "changed_rels base snapshot_path paths =
     foldl (\<lambda>changed p.
        if snapshot_path = Some p then changed
        else (case strip_prefix base p of
                None \<Rightarrow> changed
              | Some rel \<Rightarrow> if rel \<noteq> [] \<and> rel \<notin> set changed then changed @ [rel] else changed)) [] paths"

text \<open>One batch: the changes are merged and the snapshot, if it can be exported, is what is written out.\<close>

definition watch_batch ::
    "('d, 'v, 'f) vdoc \<Rightarrow> ('d, 'n, 't, 'm) loro_ct \<Rightarrow> 'w workspace \<Rightarrow> 'w \<Rightarrow> path \<Rightarrow> path option \<Rightarrow> path list
       \<Rightarrow> 'd doc \<times> ('n, 'f) file_bases \<Rightarrow> (('d doc \<times> ('n, 'f) file_bases) \<times> (io_error + bytes option)) option"
where
  "watch_batch V L W w base snapshot_path paths st =
     (let changed = changed_rels base snapshot_path paths
      in if changed = [] then Some (st, Ok None)
         else (case apply_batch V L W w changed st of
                 None \<Rightarrow> None
               | Some (st1, Inl e) \<Rightarrow> Some (st1, Err e)
               | Some (st1, Inr _) \<Rightarrow>
                   (case doc_snapshot V (fst st1) of
                      Inl e \<Rightarrow> Some (st1, Err (IoOther, e))
                    | Inr bs \<Rightarrow> Some (st1, Ok (Some bs)))))"

end
