(* ===== verification/Watch_Prune.thy ===== *)
theory Watch_Prune
  imports Watch Bridge_Import
begin

text \<open>
  Pruning after an export: nothing is removed from disk but an unmodified copy of what was exported
  before.
\<close>

section \<open>One step and many\<close>

text \<open>
  Between two states of disk and bases, a path is either as it was, or it lost its base and its file; and a
  file is only lost when its bytes were the content of its base.
\<close>

definition pruned_at ::
    "('d, 'v, 'f) vdoc \<Rightarrow> ('d, 'n, 't, 'm) loro_ct \<Rightarrow> 'w workspace \<Rightarrow> 'd \<Rightarrow> 'w \<times> ('n, 'f) file_bases
       \<Rightarrow> 'w \<times> ('n, 'f) file_bases \<Rightarrow> path \<Rightarrow> bool" where
  "pruned_at V L W d = (\<lambda>(w, bases) (w', bases') q.
     map_of bases' q = None \<and> (\<forall>bs. ws_read_file W w' q \<noteq> Ok bs) \<and>
     (\<forall>bs. ws_read_file W w q = Ok bs \<longrightarrow>
        (\<exists>base. map_of bases q = Some base \<and> content_at V L d (eb_node base) (eb_frontier base) = Some bs)))"

definition prunes ::
    "('d, 'v, 'f) vdoc \<Rightarrow> ('d, 'n, 't, 'm) loro_ct \<Rightarrow> 'w workspace \<Rightarrow> 'd \<Rightarrow> path set \<Rightarrow> 'w \<times> ('n, 'f) file_bases
       \<Rightarrow> 'w \<times> ('n, 'f) file_bases \<Rightarrow> bool" where
  "prunes V L W d C s s' \<longleftrightarrow>
     (\<forall>q. (ws_read_file W (fst s') q = ws_read_file W (fst s) q \<and> map_of (snd s') q = map_of (snd s) q) \<or>
          (q \<in> C \<and> pruned_at V L W d s s' q))"

lemma prunes_refl: "prunes V L W d C s s"
  by (simp add: prunes_def)

lemma prunes_trans:
  assumes "prunes V L W d C a b" "prunes V L W d C b c"
  shows "prunes V L W d C a c"
  unfolding prunes_def
proof (intro allI)
  fix q
  let ?same = "\<lambda>s s'. ws_read_file W (fst s') q = ws_read_file W (fst s) q \<and> map_of (snd s') q = map_of (snd s) q"
  have ab: "?same a b \<or> (q \<in> C \<and> pruned_at V L W d a b q)" and bc: "?same b c \<or> (q \<in> C \<and> pruned_at V L W d b c q)"
    using assms by (simp_all add: prunes_def)
  show "?same a c \<or> (q \<in> C \<and> pruned_at V L W d a c q)"
  proof (cases "?same a b")
    case True
    with bc show ?thesis by (auto simp: pruned_at_def split: prod.splits)
  next
    case False
    with ab have 1: "q \<in> C" "pruned_at V L W d a b q" by blast+
    then have n: "\<forall>bs. ws_read_file W (fst b) q \<noteq> Ok bs" "map_of (snd b) q = None"
      by (auto simp: pruned_at_def split: prod.splits)
    have "map_of (snd c) q = None \<and> (\<forall>bs. ws_read_file W (fst c) q \<noteq> Ok bs)"
      using bc
    proof
      assume "?same b c"
      with n show ?thesis by simp
    next
      assume "q \<in> C \<and> pruned_at V L W d b c q"
      then show ?thesis by (auto simp: pruned_at_def split: prod.splits)
    qed
    with 1 show ?thesis by (auto simp: pruned_at_def split: prod.splits)
  qed
qed

lemma prune_file_prunes:
  assumes "workspace_laws W" "rel \<in> C"
  shows "prunes V L W d C (w, bases) (prune_file V L W d rel (w, bases))"
proof (cases "map_of bases rel")
  case None
  then show ?thesis by (simp add: prune_file_def prunes_refl)
next
  case (Some base)
  show ?thesis
  proof (cases "ws_read_file W w rel")
    case (Inl e)
    with Some assms(2) show ?thesis
      by (simp add: prune_file_def prunes_def pruned_at_def delete_conv')
  next
    case (Inr disk)
    show ?thesis
    proof (cases "is_echo_of V L d (eb_node base) (eb_frontier base) disk")
      case False
      with Some Inr show ?thesis by (simp add: prune_file_def prunes_refl)
    next
      case True
      obtain w1 r where rm: "ws_remove_file W w rel = (w1, r)" by (cases "ws_remove_file W w rel")
      have other: "ws_read_file W w1 q = ws_read_file W w q" if "q \<noteq> rel" for q
        using workspace_laws.remove_file_other [OF assms(1) rm that] .
      show ?thesis
      proof (cases r)
        case err: (Inl e)
        have "ws_read_file W w1 q = ws_read_file W w q" for q
          using other workspace_laws.remove_file_failed [OF assms(1)] rm err by metis
        with Some Inr True rm err show ?thesis by (simp add: prune_file_def prunes_def)
      next
        case ok: (Inr u)
        have "ws_read_file W w1 rel \<noteq> Ok bs" for bs
          using workspace_laws.remove_file_gone [OF assms(1), of w rel w1] rm ok by auto
        moreover have "content_at V L d (eb_node base) (eb_frontier base) = Some disk"
          using True by (simp add: is_echo_of_def split: option.splits)
        ultimately show ?thesis using Some Inr True rm ok other assms(2)
          by (simp add: prune_file_def prunes_def pruned_at_def delete_conv')
      qed
    qed
  qed
qed

lemma prune_files_prunes:
  assumes "workspace_laws W"
  shows "set rels \<subseteq> C \<Longrightarrow> prunes V L W d C s (fold (prune_file V L W d) rels s)"
proof (induction rels arbitrary: s)
  case Nil
  show ?case by (simp add: prunes_refl)
next
  case (Cons rel rels)
  obtain w bases where s: "s = (w, bases)" by (cases s)
  have "prunes V L W d C s (prune_file V L W d rel s)"
    using prune_file_prunes [OF assms, of rel C V L d w bases] Cons.prems s by simp
  moreover have "prunes V L W d C (prune_file V L W d rel s) (fold (prune_file V L W d) rels (prune_file V L W d rel s))"
    using Cons.IH Cons.prems by simp
  ultimately show ?case using prunes_trans by (metis fold_simps(2))
qed

lemma prune_dirs_files:
  assumes "workspace_laws W"
  shows "ws_read_file W (fst (fold (prune_dir W) rels s)) q = ws_read_file W (fst s) q"
proof (induction rels arbitrary: s)
  case (Cons rel rels)
  obtain w dirs where s: "s = (w, dirs)" by (cases s)
  obtain w1 r where rm: "ws_remove_dir W w rel = (w1, r)" by (cases "ws_remove_dir W w rel")
  have "ws_read_file W (fst (prune_dir W rel s)) q = ws_read_file W w q"
    using workspace_laws.remove_dir_files [OF assms rm, of q]
    by (auto simp: s prune_dir_def rm split: sum.split option.split fkind.split)
  with Cons.IH s show ?case by simp
qed simp

lemma prune_prunes:
  assumes "workspace_laws W" "prune V L W d files ds (w, bases, dirs) = (w', bases', dirs')"
  shows "prunes V L W d (- set files) (w, bases) (w', bases')"
proof -
  let ?c = "filter (\<lambda>p. p \<notin> set files) (map fst bases)"
  obtain w1 b1 where f: "fold (prune_file V L W d) ?c (w, bases) = (w1, b1)" by fastforce
  have "prunes V L W d (- set files) (w, bases) (w1, b1)"
    using prune_files_prunes [OF assms(1), of ?c "- set files" V L d "(w, bases)"] f by auto
  moreover obtain w2 d2 where g: "fold (prune_dir W)
      (sort_key (\<lambda>p. - int (length p)) (filter (\<lambda>p. p \<notin> set ds) dirs)) (w1, dirs) = (w2, d2)" by fastforce
  moreover have "ws_read_file W w2 q = ws_read_file W w1 q" for q
    using prune_dirs_files [OF assms(1), of _ "(w1, dirs)" q] g by (metis fst_conv)
  moreover have "w' = w2" "bases' = b1" using assms(2) f g by (simp_all add: prune_def Let_def)
  ultimately show ?thesis by (simp add: prunes_def pruned_at_def)
qed

section \<open>What is called\<close>

text \<open>
  The calls a pruning may make, each judged by the disk it is made on: removing a file that is not in \<open>files\<close>
  and whose bytes are the content of its base, and removing a directory the exporter knows, which is not in
  \<open>made\<close> and has nothing in it.
\<close>

inductive prune_call ::
    "('d, 'v, 'f) vdoc \<Rightarrow> ('d, 'n, 't, 'm) loro_ct \<Rightarrow> 'w workspace \<Rightarrow> 'd \<Rightarrow> path set \<Rightarrow> (path \<rightharpoonup> ('n, 'f) exported_base)
       \<Rightarrow> path set \<Rightarrow> path set \<Rightarrow> 'w \<Rightarrow> 'w \<Rightarrow> bool" for V L W d files bases made known where
  unlink: "q \<notin> files \<Longrightarrow> bases q = Some b \<Longrightarrow> ws_read_file W w q = Ok bs \<Longrightarrow>
           content_at V L d (eb_node b) (eb_frontier b) = Some bs \<Longrightarrow> ws_remove_file W w q = (w', r) \<Longrightarrow>
           prune_call V L W d files bases made known w w'"
| rmdir: "q \<in> known \<Longrightarrow> q \<notin> made \<Longrightarrow> ws_kind W w q = Ok (Some KDir) \<Longrightarrow> ws_read_dir W w q = Ok [] \<Longrightarrow>
          ws_remove_dir W w q = (w', r) \<Longrightarrow> prune_call V L W d files bases made known w w'"

lemma prune_file_call:
  assumes "rel \<notin> files" "map_of b \<subseteq>\<^sub>m bases"
  shows "(prune_call V L W d files bases made known)\<^sup>*\<^sup>* w (fst (prune_file V L W d rel (w, b))) \<and>
         map_of (snd (prune_file V L W d rel (w, b))) \<subseteq>\<^sub>m bases"
proof (cases "map_of b rel")
  case None
  with assms(2) show ?thesis by (simp add: prune_file_def)
next
  case (Some base)
  have del: "map_of (AList.delete rel b) \<subseteq>\<^sub>m bases" using assms(2) by (auto simp: delete_conv' map_le_def)
  have base: "bases rel = Some base" using Some assms(2) by (metis domI map_le_def)
  show ?thesis
  proof (cases "ws_read_file W w rel")
    case (Inl e)
    with Some del show ?thesis by (simp add: prune_file_def)
  next
    case (Inr disk)
    show ?thesis
    proof (cases "is_echo_of V L d (eb_node base) (eb_frontier base) disk")
      case False
      with Some Inr assms(2) show ?thesis by (simp add: prune_file_def)
    next
      case True
      obtain w1 res where rm: "ws_remove_file W w rel = (w1, res)" by (cases "ws_remove_file W w rel")
      have "content_at V L d (eb_node base) (eb_frontier base) = Some disk"
        using True by (simp add: is_echo_of_def split: option.splits)
      from prune_call.unlink [where W = W and V = V and L = L and d = d, OF assms(1), of bases, OF base Inr this rm]
      have "prune_call V L W d files bases made known w w1" .
      with Some Inr True rm del assms(2) show ?thesis by (auto simp: prune_file_def split: sum.split)
    qed
  qed
qed

lemma prune_files_calls:
  "\<forall>rel \<in> set rels. rel \<notin> files \<Longrightarrow> map_of b \<subseteq>\<^sub>m bases \<Longrightarrow>
     (prune_call V L W d files bases made known)\<^sup>*\<^sup>* w (fst (fold (prune_file V L W d) rels (w, b)))"
proof (induction rels arbitrary: w b)
  case (Cons rel rels)
  obtain w1 b1 where s: "prune_file V L W d rel (w, b) = (w1, b1)" by fastforce
  from prune_file_call [of rel files b bases V L W d made known w] Cons.prems s
  have "(prune_call V L W d files bases made known)\<^sup>*\<^sup>* w w1" "map_of b1 \<subseteq>\<^sub>m bases" by simp_all
  with Cons.IH [of b1 w1] Cons.prems(1) s show ?case by simp
qed simp

lemma prune_dirs_calls:
  "\<forall>rel \<in> set rels. rel \<in> known \<and> rel \<notin> made \<Longrightarrow>
     (prune_call V L W d files bases made known)\<^sup>*\<^sup>* w (fst (fold (prune_dir W) rels (w, ds)))"
proof (induction rels arbitrary: w ds)
  case (Cons rel rels)
  obtain w1 res where rm: "ws_remove_dir W w rel = (w1, res)" by (cases "ws_remove_dir W w rel")
  have rel: "rel \<in> known" "rel \<notin> made" using Cons.prems by simp_all
  obtain w2 ds2 where s: "prune_dir W rel (w, ds) = (w2, ds2)" by fastforce
  then have "w2 = w \<or> (ws_kind W w rel = Ok (Some KDir) \<and> ws_read_dir W w rel = Ok [] \<and> w2 = w1)"
    by (auto simp: prune_dir_def rm split: sum.splits option.splits fkind.splits if_splits)
  with prune_call.rmdir [OF rel _ _ rm] have "(prune_call V L W d files bases made known)\<^sup>*\<^sup>* w w2"
    by (metis r_into_rtranclp rtranclp.rtrancl_refl)
  with Cons.IH [of w2 ds2] Cons.prems s show ?case by simp
qed simp

section \<open>Advancing\<close>

lemma map_of_advance:
  "map_of (fold (\<lambda>(path, n). AList.update path \<lparr>eb_frontier = now, eb_node = n\<rparr>) files bases) q =
     (case map_of (rev files) q of
        None \<Rightarrow> map_of bases q
      | Some n \<Rightarrow> Some \<lparr>eb_frontier = now, eb_node = n\<rparr>)"
  by (induction files arbitrary: bases) (auto simp: update_conv' map_add_def split: option.splits)

lemma advance_keeps:
  assumes "workspace_laws W"
    and "advance_and_prune V L W d plan (w, bases, dirs) = ((w', bases', dirs'), written)"
  shows "if q \<in> fst ` set (pl_files plan)
         then ws_read_file W w' q = ws_read_file W w q \<and>
              (\<exists>n. (q, n) \<in> set (pl_files plan) \<and>
                 map_of bases' q = Some \<lparr>eb_frontier = doc_frontiers V d, eb_node = n\<rparr>)
         else (ws_read_file W w' q = ws_read_file W w q \<and> map_of bases' q = map_of bases q) \<or>
              (map_of bases' q = None \<and> (\<forall>bs. ws_read_file W w' q \<noteq> Ok bs) \<and>
               (\<forall>bs. ws_read_file W w q = Ok bs \<longrightarrow>
                  (\<exists>base. map_of bases q = Some base \<and>
                     content_at V L (inner d) (eb_node base) (eb_frontier base) = Some bs)))"
proof -
  let ?b = "fold (\<lambda>(path, n). AList.update path \<lparr>eb_frontier = doc_frontiers V d, eb_node = n\<rparr>) (pl_files plan) bases"
  have p: "prunes V L W (inner d) (- fst ` set (pl_files plan)) (w, ?b) (w', bases')"
    using assms(2) prune_prunes [OF assms(1), of V L "inner d" "remdups (map fst (pl_files plan))"]
    by (auto simp: advance_and_prune_def Let_def)
  show ?thesis
  proof (cases "q \<in> fst ` set (pl_files plan)")
    case True
    then obtain n where "map_of (rev (pl_files plan)) q = Some n"
      by (metis image_set map_of_eq_None_iff not_None_eq set_rev)
    moreover from this have "(q, n) \<in> set (pl_files plan)" using map_of_SomeD by fastforce
    moreover have "q \<notin> - fst ` set (pl_files plan)" using True by simp
    with p have "ws_read_file W w' q = ws_read_file W w q" "map_of bases' q = map_of ?b q"
      unfolding prunes_def by (metis fst_conv, metis snd_conv)
    ultimately show ?thesis using True unfolding map_of_advance by auto
  next
    case False
    then have "map_of (rev (pl_files plan)) q = None" by (simp add: map_of_eq_None_iff)
    then have "map_of ?b q = map_of bases q" by (simp add: map_of_advance)
    with p [unfolded prunes_def, THEN spec, of q] False show ?thesis by (simp add: pruned_at_def)
  qed
qed

lemma advance_calls:
  assumes "advance_and_prune V L W d plan (w, bases, dirs) = ((w', bases', dirs'), written)"
  shows "(prune_call V L W (inner d) (fst ` set (pl_files plan)) (map_of bases) (fst ` set (pl_dirs plan)) (set dirs))\<^sup>*\<^sup>* w w'"
proof -
  let ?F = "fst ` set (pl_files plan)" and ?D = "fst ` set (pl_dirs plan)"
  let ?b = "fold (\<lambda>(path, n). AList.update path \<lparr>eb_frontier = doc_frontiers V d, eb_node = n\<rparr>) (pl_files plan) bases"
  let ?ds = "fold (\<lambda>(path, n). List.insert path) (pl_dirs plan) dirs"
  let ?call = "prune_call V L W (inner d) ?F (map_of ?b) ?D (set dirs)"
  let ?cs = "filter (\<lambda>p. p \<notin> set (remdups (map fst (pl_files plan)))) (map fst ?b)"
  let ?ps = "sort_key (\<lambda>p. - int (length p)) (filter (\<lambda>p. p \<notin> set (remdups (map fst (pl_dirs plan)))) ?ds)"
  have ds: "set (fold (\<lambda>(path, n). List.insert path) ps xs) = fst ` set ps \<union> set xs" for ps :: "(path \<times> 'b) list" and xs
    by (induction ps arbitrary: xs) auto
  obtain w1 b1 where f: "fold (prune_file V L W (inner d)) ?cs (w, ?b) = (w1, b1)" by fastforce
  have w': "w' = fst (fold (prune_dir W) ?ps (w1, ?ds))"
    using assms f by (auto simp: advance_and_prune_def prune_def Let_def split: prod.splits)
  have "?call\<^sup>*\<^sup>* w w1"
    using prune_files_calls [of ?cs ?F ?b "map_of ?b" V L W "inner d" ?D "set dirs" w] f by simp
  moreover have "?call\<^sup>*\<^sup>* w1 w'" unfolding w' by (rule prune_dirs_calls) (auto simp: ds)
  ultimately have "?call\<^sup>*\<^sup>* w w'" by simp
  moreover have "?call \<le> prune_call V L W (inner d) ?F (map_of bases) ?D (set dirs)"
  proof (intro predicate2I)
    fix a b assume "?call a b"
    then show "prune_call V L W (inner d) ?F (map_of bases) ?D (set dirs) a b"
    proof cases
      case (unlink q base bs r)
      have "map_of (rev (pl_files plan)) q = None" using unlink(1) by (simp add: map_of_eq_None_iff)
      then have "map_of bases q = Some base" using unlink(2) by (simp add: map_of_advance)
      with unlink show ?thesis by (blast intro: prune_call.unlink)
    next
      case (rmdir q r)
      then show ?thesis by (blast intro: prune_call.rmdir)
    qed
  qed
  ultimately show ?thesis using rtranclp_mono by blast
qed

text \<open>
  C25. After an export the disk changes only by removals, each of a file whose bytes on disk at that moment were
  exactly the content of its base and which the export did not write, or of a directory the exporter knew, the
  export did not make and which at that moment was empty.  So every file the export wrote has its new base and
  is left as written; any other file is either left alone with its base, or it has lost its base and is gone
  from disk, and no edit made on disk since the last agreement is ever deleted, nor a directory with anything
  in it.\<close>

theorem prune_keeps_edits:
  assumes "workspace_laws W"
    and "advance_and_prune V L W d plan (w, bases, dirs) = ((w', bases', dirs'), written)"
  shows "(prune_call V L W (inner d) (fst ` set (pl_files plan)) (map_of bases) (fst ` set (pl_dirs plan)) (set dirs))\<^sup>*\<^sup>* w w' \<and>
        (if q \<in> fst ` set (pl_files plan)
         then ws_read_file W w' q = ws_read_file W w q \<and>
              (\<exists>n. (q, n) \<in> set (pl_files plan) \<and>
                 map_of bases' q = Some \<lparr>eb_frontier = doc_frontiers V d, eb_node = n\<rparr>)
         else (ws_read_file W w' q = ws_read_file W w q \<and> map_of bases' q = map_of bases q) \<or>
              (map_of bases' q = None \<and> (\<forall>bs. ws_read_file W w' q \<noteq> Ok bs) \<and>
               (\<forall>bs. ws_read_file W w q = Ok bs \<longrightarrow>
                  (\<exists>base. map_of bases q = Some base \<and>
                     content_at V L (inner d) (eb_node base) (eb_frontier base) = Some bs))))"
  by (rule conjI [OF advance_calls [OF assms(2)] advance_keeps [OF assms]])

definition demo_stale :: mem_workspace where
  "demo_stale = fst (mem_write_file (fst (mem_write_file mem_new [''gone''] '''')) [''edited''] ''new'')"

definition demo_bases :: "(nat, unit) file_bases" where
  "demo_bases = [([''gone''], \<lparr>eb_frontier = (), eb_node = 1\<rparr>), ([''edited''], \<lparr>eb_frontier = (), eb_node = 1\<rparr>)]"

theorem prune_keeps_edits_witness:
  "\<exists>w' bases' dirs' k.
     advance_and_prune demo_vdoc ref_ct mem_ops \<lparr>inner = demo_fs, comment_seq = 0\<rparr> \<lparr>pl_files = [], pl_dirs = []\<rparr>
       (demo_stale, demo_bases, []) = ((w', bases', dirs'), k) \<and>
     ws_read_file mem_ops w' [''edited''] = Ok ''new'' \<and> ws_read_file mem_ops w' [''gone''] \<noteq> Ok ''''"
proof -
  let ?d = "\<lparr>inner = demo_fs, comment_seq = 0\<rparr> :: rtree doc"
  let ?o = "advance_and_prune demo_vdoc ref_ct mem_ops ?d \<lparr>pl_files = [], pl_dirs = []\<rparr> (demo_stale, demo_bases, [])"
  obtain w' bases' dirs' k where o: "?o = ((w', bases', dirs'), k)" by (metis prod.collapse)
  have c: "content_at demo_vdoc ref_ct demo_fs 1 () \<noteq> Some ''new''"
    "ws_read_file mem_ops demo_stale [''edited''] = Ok ''new''" "ws_read_file mem_ops (fst (fst ?o)) [''gone''] \<noteq> Ok ''''"
    "map_of demo_bases [''edited''] = Some \<lparr>eb_frontier = (), eb_node = 1\<rparr>" by code_simp+
  with prune_keeps_edits [OF mem.workspace_laws_axioms o, of "[''edited'']"]
  have "ws_read_file mem_ops w' [''edited''] = Ok ''new''" by auto
  with o c(3) show ?thesis by fastforce
qed

end
