(* ===== verification/Watch_Apply.thy ===== *)
theory Watch_Apply
  imports Watch Bridge_Import Doc_Fs_Refine
begin

text \<open>
  Merging one path from disk: with no base recorded, the document afterwards holds at the path what the disk
  holds; and a stale copy of a deleted file does not bring the file back.
\<close>

lemma watch_child_eq: "watch_child L d q c = child_named L d q c"
  by (simp add: watch_child_def child_named_def)

section \<open>Deleting a subtree\<close>

context loro_tree
begin

lemma subtree_located:
  assumes d: "ok d" "ok d'" and rp: "replaced L d d' n PDeleted"
    and same: "\<forall>k. rooted L d' k \<longrightarrow> same_node L d d' k"
  shows "located L d' k cs \<longleftrightarrow> located L d k cs \<and> \<not> under L d k n"
proof
  have kd: "x \<in> set (kids L d' p) \<longleftrightarrow> x \<in> set (kids L d p) \<and> x \<noteq> n" if "place L d' p" for p x
  proof (cases "x = n")
    case True
    then show ?thesis using replaced_kid [OF d(2) rp that] by (auto simp: parent_of_def split: option.splits)
  next
    case False
    moreover have "place L d p" using that delete_rooted [OF rp] by (cases p) auto
    ultimately show ?thesis using replaced_kids [OF d rp _ that False] by simp
  qed
  show "located L d' k cs \<Longrightarrow> located L d k cs \<and> \<not> under L d k n"
  proof (induction rule: located.induct)
    case (top k c)
    then have r: "rooted L d' k" and k: "k \<in> set (kids L d None)" "k \<noteq> n"
      using kid_rooted [OF d(2), of None] kd [of None k] by simp_all
    have "tr_parent L d k = Some PRoot" using kid_parent [OF d(1) _ k(1)] by (simp add: parent_of_def)
    with under_top k(2) have "\<not> under L d k n" by fastforce
    with top r same k show ?case by (auto simp: same_node_def intro: located.top)
  next
    case (sub p cs k c)
    have p: "rooted L d' p" using located_rooted [OF sub(1) d(2)] .
    then have r: "rooted L d' k" and k: "k \<in> set (kids L d (Some p))" "k \<noteq> n"
      using kid_rooted [OF d(2), of "Some p"] kd [of "Some p" k] sub(3) by simp_all
    have lp: "located L d p cs" "\<not> under L d p n" using sub by simp_all
    have "tr_parent L d k = Some (PNode p)"
      using kid_parent [OF d(1) _ k(1)] located_rooted [OF lp(1) d(1)] by (simp add: parent_of_def)
    with under_step k(2) lp(2) have "\<not> under L d k n" by fastforce
    with sub r same k p lp show ?case by (auto simp: same_node_def intro: located.sub)
  qed
  have keep: "rooted L d' k" if "located L d k cs" "\<not> under L d k n" for k cs
    using replaced_rooted_keep [OF rp located_rooted [OF that(1) d(1)] that(2)] .
  have "located L d k cs \<Longrightarrow> \<not> under L d k n \<Longrightarrow> located L d' k cs"
  proof (induction rule: located.induct)
    case (top k c)
    then have "k \<noteq> n" by auto
    moreover have "rooted L d' k" using keep located.top [OF top(1,2)] top(3) by blast
    ultimately show ?case using kd [of None k] top same by (simp add: same_node_def located.top)
  next
    case (sub p cs k c)
    have k: "k \<noteq> n" using sub.prems by auto
    have "tr_parent L d k = Some (PNode p)"
      using kid_parent [OF d(1) _ sub(3)] located_rooted [OF sub(1) d(1)] by (simp add: parent_of_def)
    with under_step k sub.prems have np: "\<not> under L d p n" by fastforce
    then have lp: "located L d' p cs" using sub.IH by blast
    have "rooted L d' p" "rooted L d' k"
      using keep sub(1) np located.sub [OF sub(1-4)] sub.prems by blast+
    with lp k kd [of "Some p" k] sub same show ?case by (simp add: same_node_def located.sub)
  qed
  then show "located L d k cs \<and> \<not> under L d k n \<Longrightarrow> located L d' k cs" by blast
qed

section \<open>Growing a tidy tree\<close>

text \<open>Nothing of the old tree changed, and what is new is a directory at a path of \<open>A\<close>.\<close>

definition extends :: "'d \<Rightarrow> 'd \<Rightarrow> (path \<Rightarrow> bool) \<Rightarrow> bool" where
  "extends d d' A \<longleftrightarrow>
     ok d' \<and> tidy L d' \<and> (\<forall>k. rooted L d k \<longrightarrow> rooted L d' k \<and> same_node L d d' k) \<and>
     (\<forall>k cs. located L d k cs \<longrightarrow> located L d' k cs) \<and>
     (\<forall>k cs. located L d' k cs \<longrightarrow> located L d k cs \<or> (A cs \<and> ft_kind L d' k = Some Dir))"

lemma extends_refl: "ok d \<Longrightarrow> tidy L d \<Longrightarrow> extends d d A"
  by (simp add: extends_def same_node_def)

lemma extends_trans:
  assumes "extends a b A" "extends b c A"
  shows "extends a c A"
proof -
  have "ft_kind L c k = ft_kind L b k" if "located L b k cs" for k cs
    using assms located_rooted [OF that] by (auto simp: extends_def same_node_def)
  with assms show ?thesis unfolding extends_def by (metis same_node_trans)
qed

lemma extends_site: "extends d d' A \<Longrightarrow> ok d \<Longrightarrow> site L d q cs \<Longrightarrow> site L d' q cs"
  by (cases q) (auto simp: site_Some extends_def same_node_def dest: located_rooted)

lemma ensure_from_extends:
  assumes "ok d" "tidy L d" "site L d q ps"
    and "\<forall>p n. p \<noteq> [] \<longrightarrow> prefix p cs \<longrightarrow> located L d n (ps @ p) \<longrightarrow> ft_kind L d n = Some Dir"
  shows "\<exists>d' q'. ensure_from L d q cs = Some (d', q') \<and> site L d' q' (ps @ cs) \<and>
           extends d d' (\<lambda>r. \<exists>p. p \<noteq> [] \<and> prefix p cs \<and> r = ps @ p)"
  using assms
proof (induction cs arbitrary: d q ps)
  case Nil
  then show ?case by (simp add: extends_refl)
next
  case (Cons c cs)
  let ?A = "\<lambda>r. \<exists>p. p \<noteq> [] \<and> prefix p (c # cs) \<and> r = ps @ p"
  let ?B = "\<lambda>r. \<exists>p. p \<noteq> [] \<and> prefix p cs \<and> r = (ps @ [c]) @ p"
  have widen: "extends a b ?B \<Longrightarrow> extends a b ?A" for a b
    unfolding extends_def by (metis Cons_prefix_Cons append.assoc append_Cons append_Nil list.distinct(1))
  have step: "\<exists>d' q'. ensure_from L d1 (Some n) cs = Some (d', q') \<and> site L d' q' (ps @ c # cs) \<and> extends d d' ?A"
    if e: "extends d d1 ?A" and s: "site L d1 (Some n) (ps @ [c])" for d1 n
  proof -
    have d1: "ok d1" "tidy L d1" using e by (simp_all add: extends_def)
    have dirs: "ft_kind L d1 k = Some Dir" if "p \<noteq> []" "prefix p cs" "located L d1 k ((ps @ [c]) @ p)" for p k
    proof (cases "located L d k ((ps @ [c]) @ p)")
      case True
      then have "ft_kind L d k = Some Dir" using Cons.prems(4) that(2) by (metis Cons_prefix_Cons append.assoc append_Cons append_Nil list.distinct(1))
      moreover have "same_node L d d1 k" using e located_rooted [OF True Cons.prems(1)] by (simp add: extends_def)
      ultimately show ?thesis by (simp add: same_node_def)
    next
      case False
      with e that(3) show ?thesis unfolding extends_def by blast
    qed
    obtain d' q' where o: "ensure_from L d1 (Some n) cs = Some (d', q')"
      "site L d' q' ((ps @ [c]) @ cs)" "extends d1 d' ?B"
      using Cons.IH [OF d1 s] dirs by blast
    with extends_trans [OF e widen] show ?thesis by auto
  qed
  show ?case
  proof (cases "child_named L d q c")
    case (Some n)
    then have "n \<in> set (kids L d q)" "ft_name L d n = Some c" using child_named_Some by blast+
    then have l: "located L d n (ps @ [c])" using Cons.prems(3) by (auto simp: located_snoc)
    then have "site L d (Some n) (ps @ [c])" using Cons.prems(4) [THEN spec, of "[c]"] by (simp add: site_Some)
    with step [OF extends_refl [OF Cons.prems(1,2)]] Some show ?thesis by (simp add: watch_child_eq)
  next
    case None
    obtain d1 n where c: "ft_create_dir L d q c = Some (d1, n)" "ok d1" "added L d d1 n q c Dir"
      using ft_create_dir_added [OF Cons.prems(1) site_place [OF Cons.prems(3,1)]] by blast
    have loc: "located L d1 k r \<longleftrightarrow> located L d k r \<or> (k = n \<and> r = ps @ [c])" for k r
      using added_located [OF Cons.prems(1) c(2,3) Cons.prems(3)] .
    have k: "ft_kind L d1 n = Some Dir" using c(3) by (simp add: added_def)
    have "tidy L d1" using added_tidy [OF Cons.prems(1) c(2,3) Cons.prems(2) None] .
    then have "extends d d1 ?A" using c(2,3) loc k by (auto simp: extends_def added_def)
    moreover have "site L d1 (Some n) (ps @ [c])" using loc k by (simp add: site_Some)
    ultimately show ?thesis using step [of d1 n] None c(1) by (simp add: watch_child_eq)
  qed
qed

lemma extends_view:
  assumes "ok d" "extends d d' A" "\<And>cs. A cs \<Longrightarrow> \<exists>k. located L d' k cs \<and> ft_kind L d' k = Some Dir"
  shows "in_doc L d' cs v \<longleftrightarrow> in_doc L d cs v \<or> (A cs \<and> v = None)"
proof
  assume "in_doc L d' cs v"
  then obtain k where k: "located L d' k cs" "shape L d' k v" by (auto simp: in_doc_def)
  show "in_doc L d cs v \<or> (A cs \<and> v = None)"
  proof (cases "located L d k cs")
    case True
    then have "same_node L d d' k" using assms(2) located_rooted [OF True assms(1)] by (simp add: extends_def)
    from shape_same_node [OF this] k(2) True show ?thesis by (auto simp: in_doc_def)
  next
    case False
    with k(1) assms(2) have "A cs" "shape L d' k None" by (auto simp: extends_def shape_def)
    with shape_unique [OF k(2)] show ?thesis by blast
  qed
next
  assume "in_doc L d cs v \<or> (A cs \<and> v = None)"
  then show "in_doc L d' cs v"
  proof
    assume "in_doc L d cs v"
    then obtain k where k: "located L d k cs" "shape L d k v" by (auto simp: in_doc_def)
    then have "same_node L d d' k" "located L d' k cs"
      using assms(2) located_rooted [OF k(1) assms(1)] by (auto simp: extends_def)
    with shape_same_node [OF this(1)] k(2) show ?thesis by (auto simp: in_doc_def)
  next
    assume "A cs \<and> v = None"
    with assms(3) show ?thesis by (force simp: in_doc_def shape_def)
  qed
qed

lemma site_above:
  assumes "site L d q (p @ r)" "p \<noteq> []"
  shows "\<exists>k. located L d k p \<and> ft_kind L d k = Some Dir"
proof (cases q)
  case None
  with assms show ?thesis by simp
next
  case (Some n)
  then have n: "located L d n (p @ r)" "ft_kind L d n = Some Dir" using assms(1) by (simp_all add: site_Some)
  show ?thesis
  proof (cases "r = []")
    case True
    with n show ?thesis by auto
  next
    case False
    with located_above [OF assms(2) n(1)] show ?thesis by blast
  qed
qed

lemma ensure_dir_view:
  assumes "ok d" "tidy L d" "\<forall>p n. p \<noteq> [] \<longrightarrow> prefix p cs \<longrightarrow> located L d n p \<longrightarrow> ft_kind L d n = Some Dir"
  shows "\<exists>d' q. ensure_dir L d cs = Some (d', q) \<and> site L d' q cs \<and>
           extends d d' (\<lambda>r. r \<noteq> [] \<and> prefix r cs) \<and>
           (\<forall>r v. in_doc L d' r v \<longleftrightarrow> in_doc L d r v \<or> (r \<noteq> [] \<and> prefix r cs \<and> v = None))"
proof -
  have "site L d None []" by simp
  from ensure_from_extends [OF assms(1,2) this, of cs] assms(3) obtain d' q where
    o: "ensure_from L d None cs = Some (d', q)" "site L d' q cs" "extends d d' (\<lambda>r. r \<noteq> [] \<and> prefix r cs)"
    by auto
  have "\<exists>k. located L d' k r \<and> ft_kind L d' k = Some Dir" if "r \<noteq> [] \<and> prefix r cs" for r
    using that o(2) site_above by (auto simp: prefix_def)
  from extends_view [OF assms(1) o(3) this] o show ?thesis by (auto simp: ensure_dir_def)
qed

lemma site_same:
  assumes "ok d" "tidy L d" "site L d q cs" "site L d q' cs"
  shows "q = q'"
  using assms(3,4) located_same [OF assms(1,2)]
  by (cases q; cases q') (auto simp: site_Some dest: located_ne)

lemma no_child:
  assumes "ok d" "tidy L d" "site L d q ps" "child_named L d q c = None"
  shows "\<not> located L d k (ps @ [c])"
proof
  assume "located L d k (ps @ [c])"
  then obtain q' where q': "site L d q' ps" "k \<in> set (kids L d q')" "ft_name L d k = Some c"
    unfolding located_snoc by blast
  with site_same [OF assms(1-3) q'(1)] assms(4) show False by (simp add: child_named_None)
qed

lemma a_child:
  assumes "site L d q ps" "child_named L d q c = Some n"
  shows "located L d n (ps @ [c])"
  using child_named_Some [OF assms(2)] assms(1) by (auto simp: located_snoc)

lemma node_from_located:
  assumes "ok d" "tidy L d"
  shows "site L d q ps \<Longrightarrow> cs \<noteq> [] \<Longrightarrow>
           \<forall>p k. p \<noteq> [] \<longrightarrow> strict_prefix p cs \<longrightarrow> located L d k (ps @ p) \<longrightarrow> ft_kind L d k = Some Dir \<Longrightarrow>
           node_from L d q cs = Some n \<longleftrightarrow> located L d n (ps @ cs)"
proof (induction cs arbitrary: q ps)
  case (Cons c cs)
  show ?case
  proof (cases "child_named L d q c")
    case None
    have none: "\<not> located L d k (ps @ [c])" for k using no_child [OF assms Cons.prems(1) None] .
    have "\<not> located L d n ((ps @ [c]) @ cs)"
    proof (cases "cs = []")
      case True
      with none show ?thesis by simp
    next
      case False
      with located_above [of "ps @ [c]" d n cs] none show ?thesis by blast
    qed
    with None show ?thesis by (simp add: watch_child_eq)
  next
    case (Some m)
    note m = a_child [OF Cons.prems(1) Some]
    show ?thesis
    proof (cases "cs = []")
      case True
      have "located L d n (ps @ [c]) \<longleftrightarrow> m = n" using m located_same [OF assms m, of n] by blast
      with True Some show ?thesis by (simp add: watch_child_eq)
    next
      case False
      then have "ft_kind L d m = Some Dir"
        using Cons.prems(3) [THEN spec, of "[c]"] m by (cases cs) simp_all
      then have "site L d (Some m) (ps @ [c])" using m by (simp add: site_Some)
      moreover have "\<forall>p k. p \<noteq> [] \<longrightarrow> strict_prefix p cs \<longrightarrow> located L d k ((ps @ [c]) @ p) \<longrightarrow> ft_kind L d k = Some Dir"
      proof (intro allI impI)
        fix p k assume "p \<noteq> []" "strict_prefix p cs" "located L d k ((ps @ [c]) @ p)"
        then show "ft_kind L d k = Some Dir" using Cons.prems(3) [THEN spec, of "c # p", THEN spec, of k] by simp
      qed
      ultimately have "node_from L d (Some m) cs = Some n \<longleftrightarrow> located L d n ((ps @ [c]) @ cs)"
        using Cons.IH False by blast
      with Some show ?thesis by (simp add: watch_child_eq)
    qed
  qed
qed simp

lemma delete_view:
  assumes "ok d" "tidy L d" "located L d n rel"
  shows "\<exists>d'. ft_delete L d n = Some d' \<and> ok d' \<and> tidy L d' \<and>
              (\<forall>cs v. in_doc L d' cs v \<longleftrightarrow> in_doc L d cs v \<and> \<not> prefix rel cs)"
proof -
  obtain d' where d': "ft_delete L d n = Some d'" "ok d'" "replaced L d d' n PDeleted"
    "\<forall>k. rooted L d' k \<longrightarrow> same_node L d d' k"
    using ft_delete_ok [OF assms(1) located_rooted [OF assms(3,1)]] by blast
  have loc: "located L d' k cs \<longleftrightarrow> located L d k cs \<and> \<not> prefix rel cs" for k cs
  proof -
    have "under L d k n \<longleftrightarrow> prefix rel cs" if "located L d k cs"
      using under_prefix [OF assms(1,3) that] prefix_under [OF assms, of k] that by (auto simp: prefix_def)
    with subtree_located [OF assms(1) d'(2-4), of k cs] show ?thesis by blast
  qed
  have "shape L d' k v = shape L d k v" if "located L d' k cs" for k cs v
    using shape_same_node d'(4) located_rooted [OF that d'(2)] by metis
  then have "in_doc L d' cs v \<longleftrightarrow> in_doc L d cs v \<and> \<not> prefix rel cs" for cs v
    unfolding in_doc_def using loc by metis
  with d' deleted_tidy [OF assms(1) d'(2-4) assms(2)] show ?thesis by blast
qed

end

section \<open>Putting a text at a path\<close>

context loro_text_tree
begin

lemma update_view:
  assumes "ok d" "tidy L d" "located L d n rel" "ft_kind L d n = Some File" "ft_content L d n = Some t"
  shows "ok (merge_text V L d n s None) \<and> tidy L (merge_text V L d n s None) \<and>
    (\<forall>cs v. in_doc L (merge_text V L d n s None) cs v \<longleftrightarrow> (if cs = rel then v = Some s else in_doc L d cs v))"
proof (cases "tx_str L d t = s")
  case True
  have "in_doc L d rel v \<longleftrightarrow> v = Some s" for v
  proof -
    have sh: "shape L d n (Some s)" using assms(4,5) True by (simp add: shape_def)
    show ?thesis
    proof
      assume "in_doc L d rel v"
      then obtain k where k: "located L d k rel" "shape L d k v" by (auto simp: in_doc_def)
      have "k = n" using located_same [OF assms(1,2) k(1) assms(3)] .
      with shape_unique [OF _ sh] k(2) show "v = Some s" by blast
    next
      assume "v = Some s"
      with sh assms(3) show "in_doc L d rel v" by (auto simp: in_doc_def)
    qed
  qed
  with True assms show ?thesis by (simp add: merge_text_def)
next
  case False
  have r: "rooted L d n" using located_rooted [OF assms(3,1)] .
  obtain d' where u: "tx_update L d t s = Some d'" using update_some [OF assms(1) r assms(5)] by blast
  have m: "merge_text V L d n s None = d'" using False assms(5) u by (simp add: merge_text_def set_content_def)
  have d': "ok d'" "same_tree L d d'" "same_maps L d d'" "tx_str L d' t = s"
    "\<forall>t'. t' \<noteq> t \<longrightarrow> tx_str L d' t' = tx_str L d t'" using update_text [OF assms(1) u] by blast+
  note sl = same_located [OF d'(2,3)]
  have shn: "shape L d' n v \<longleftrightarrow> v = Some s" for v
    using assms(4,5) d'(4) sl(2,3) by (auto simp: shape_def split: option.splits)
  have shk: "shape L d' k v \<longleftrightarrow> shape L d k v" if "located L d k cs" "k \<noteq> n" for k cs v
  proof -
    have "ft_content L d k \<noteq> Some t"
      using content_inj [OF assms(1) r located_rooted [OF that(1) assms(1)] assms(5)] that(2) by blast
    with d'(5) sl(2,3) show ?thesis unfolding shape_def by (cases v) auto
  qed
  have "in_doc L d' cs v \<longleftrightarrow> (if cs = rel then v = Some s else in_doc L d cs v)" for cs v
  proof (cases "cs = rel")
    case True
    have "located L d k rel \<longleftrightarrow> k = n" for k using assms(3) located_same [OF assms(1,2)] by blast
    with True shn sl(4) show ?thesis by (simp add: in_doc_def)
  next
    case False
    have "k \<noteq> n" if "located L d k cs" for k
      using located_unique [OF assms(1,3)] that False by blast
    with shk sl(4) False show ?thesis unfolding in_doc_def by auto
  qed
  with m d'(1) sl(5) assms(2) show ?thesis by simp
qed

lemma new_file_view:
  assumes "ok d" "tidy L d" "site L d q ps" "child_named L d q c = None"
  shows "\<exists>d' n t. ft_create_file L d q c = Some (d', n) \<and> ok d' \<and> tidy L d' \<and> located L d' n (ps @ [c]) \<and>
           ft_kind L d' n = Some File \<and> ft_content L d' n = Some t \<and>
           (\<forall>cs v. cs \<noteq> ps @ [c] \<longrightarrow> in_doc L d' cs v = in_doc L d cs v)"
proof -
  obtain d' n t where c: "ft_create_file L d q c = Some (d', n)" "ok d'" "added L d d' n q c File"
    "ft_content L d' n = Some t"
    using ft_create_file_added [OF assms(1) site_place [OF assms(3,1)]] by blast
  have loc: "located L d' k cs \<longleftrightarrow> located L d k cs \<or> (k = n \<and> cs = ps @ [c])" for k cs
    using added_located [OF assms(1) c(2,3) assms(3)] .
  have "shape L d' k v = shape L d k v" if "located L d k cs" for k cs v
    using c(3) located_rooted [OF that assms(1)] by (intro shape_same_node) (simp add: added_def)
  then have "in_doc L d' cs v = in_doc L d cs v" if "cs \<noteq> ps @ [c]" for cs v
    using loc that unfolding in_doc_def by metis
  moreover have "ft_kind L d' n = Some File" using c(3) by (simp add: added_def)
  ultimately show ?thesis
    using c loc added_tidy [OF assms(1) c(2,3) assms(2,4)] by blast
qed

lemma apply_file_view:
  assumes "ok d" "tidy L d" "rel \<noteq> []" "map_of bases rel = None"
    and above: "\<forall>p k. p \<noteq> [] \<longrightarrow> strict_prefix p rel \<longrightarrow> located L d k p \<longrightarrow> ft_kind L d k = Some Dir"
    and at: "\<forall>k. located L d k rel \<longrightarrow> ft_kind L d k = Some File \<and> ft_content L d k \<noteq> None"
  shows "\<exists>d'. apply_file V L d rel s bases = Some d' \<and> ok d' \<and> tidy L d' \<and>
    (\<forall>cs v. in_doc L d' cs v \<longleftrightarrow>
       (if cs = rel then v = Some s else in_doc L d cs v \<or> (cs \<noteq> [] \<and> strict_prefix cs rel \<and> v = None)))"
proof -
  obtain ps c where rel: "rel = ps @ [c]" using assms(3) by (cases rel rule: rev_cases) auto
  have anc: "prefix p ps \<longleftrightarrow> strict_prefix p rel" for p using rel by (auto simp: strict_prefix_def dest: prefix_length_le)
  have "\<forall>p n. p \<noteq> [] \<longrightarrow> prefix p ps \<longrightarrow> located L d n p \<longrightarrow> ft_kind L d n = Some Dir" using above anc by simp
  from ensure_dir_view [OF assms(1,2) this] obtain d1 q where
    e: "ensure_dir L d ps = Some (d1, q)" "site L d1 q ps" "extends d d1 (\<lambda>r. r \<noteq> [] \<and> prefix r ps)"
    "\<forall>r v. in_doc L d1 r v \<longleftrightarrow> in_doc L d r v \<or> (r \<noteq> [] \<and> prefix r ps \<and> v = None)" by blast
  have d1: "ok d1" "tidy L d1" using e(3) by (simp_all add: extends_def)
  have start: "(if rel \<noteq> [] \<and> butlast rel \<noteq> [] then ensure_dir L d (butlast rel) else Some (d, None)) = Some (d1, q)"
    using e(1) rel by (cases "ps = []") (simp_all add: ensure_dir_def)
  have nm: "file_name rel = c" by (simp add: file_name_def rel)
  have final: "in_doc L d1 cs v \<longleftrightarrow> in_doc L d cs v \<or> (cs \<noteq> [] \<and> strict_prefix cs rel \<and> v = None)" for cs v
    using e(4) anc by simp
  show ?thesis
  proof (cases "child_named L d1 q c")
    case (Some n)
    have n1: "located L d1 n rel" using a_child [OF e(2) Some] rel by simp
    moreover have "\<not> prefix rel ps" using rel by (auto simp: prefix_def)
    ultimately have n: "located L d n rel" using e(3) by (auto simp: extends_def)
    then have "same_node L d d1 n" using e(3) located_rooted [OF n assms(1)] by (simp add: extends_def)
    then have "ft_kind L d1 n = Some File" "ft_content L d1 n \<noteq> None" using at n by (auto simp: same_node_def)
    then obtain t where "ft_content L d1 n = Some t" by blast
    note u = update_view [OF d1 n1 \<open>ft_kind L d1 n = Some File\<close> this, of V s]
    have "apply_file V L d rel s bases = Some (merge_text V L d1 n s None)"
      unfolding apply_file_def start using Some nm assms(4) by (simp add: watch_child_eq)
    with u final show ?thesis by auto
  next
    case None
    obtain d2 n t where c: "ft_create_file L d1 q c = Some (d2, n)" "ok d2" "tidy L d2" "located L d2 n rel"
      "ft_kind L d2 n = Some File" "ft_content L d2 n = Some t"
      "\<forall>cs v. cs \<noteq> rel \<longrightarrow> in_doc L d2 cs v = in_doc L d1 cs v"
      using new_file_view [OF d1 e(2) None] rel by auto
    note u = update_view [OF c(2-6), of V s]
    have "apply_file V L d rel s bases = Some (merge_text V L d2 n s None)"
      unfolding apply_file_def start using None nm assms(4) c(1) by (simp add: watch_child_eq)
    with u c(7) final show ?thesis by auto
  qed
qed

end

section \<open>One path\<close>

text \<open>What the disk holds at a path: nothing, a directory, or a file of valid UTF-8.\<close>

definition disk_at :: "'w workspace \<Rightarrow> 'w \<Rightarrow> path \<Rightarrow> string option option \<Rightarrow> bool" where
  "disk_at W w rel disk \<longleftrightarrow>
     (case disk of
        None \<Rightarrow> ws_kind W w rel = Ok None
      | Some None \<Rightarrow> ws_kind W w rel = Ok (Some KDir)
      | Some (Some s) \<Rightarrow> ws_kind W w rel = Ok (Some KFile) \<and> ws_read_file W w rel = Ok s \<and> valid_utf8 s)"

text \<open>Where document and disk both have something at the path or above it, it is of the same kind.\<close>

definition fits :: "('d, 'n, 't, 'm) loro_ct \<Rightarrow> 'd \<Rightarrow> path \<Rightarrow> string option option \<Rightarrow> bool" where
  "fits L d rel disk \<longleftrightarrow>
     (\<forall>p k. p \<noteq> [] \<longrightarrow> strict_prefix p rel \<longrightarrow> located L d k p \<longrightarrow> ft_kind L d k = Some Dir) \<and>
     (\<forall>k. located L d k rel \<longrightarrow>
        (case disk of
           None \<Rightarrow> True
         | Some None \<Rightarrow> ft_kind L d k = Some Dir
         | Some (Some s) \<Rightarrow> ft_kind L d k = Some File \<and> ft_content L d k \<noteq> None))"

text \<open>The view of a document brought up to date at one path.\<close>

definition synced ::
    "(path \<Rightarrow> string option \<Rightarrow> bool) \<Rightarrow> path \<Rightarrow> string option option \<Rightarrow> path \<Rightarrow> string option \<Rightarrow> bool" where
  "synced old rel disk cs v \<longleftrightarrow>
     (case disk of
        None \<Rightarrow> old cs v \<and> \<not> prefix rel cs
      | Some u \<Rightarrow>
          if cs = rel then v = u else old cs v \<or> (cs \<noteq> [] \<and> strict_prefix cs rel \<and> v = None))"

text \<open>
  C18. With no merge base recorded for a path, in a document with distinct sibling names, and where document
  and disk fit together, that is, neither has a file where the other has a directory, at the path or above it,
  applying a change at that path always ends without a panic and makes the document match the disk there: what
  is gone on disk is deleted with all that was below it, a directory or a text file of the disk is at the path
  afterwards with the disk's text, the directories above it are added where they are missing, and nothing else
  in the document changes. A conflict of kinds is outside this claim: the code leaves the node as it is and
  the document does not match the disk. So is a file that is not text, which the code skips.\<close>

theorem apply_path_reconciles:
  assumes "loro_text_tree L dwf" "dwf d" "tidy L d" "rel \<noteq> []" "map_of bases rel = None"
    and "disk_at W w rel disk" "fits L d rel disk"
  shows "\<exists>d'. apply_path V L W w rel bases d = Some (d', Ok ()) \<and> dwf d' \<and> tidy L d' \<and>
           (\<forall>cs v. in_doc L d' cs v \<longleftrightarrow> synced (in_doc L d) rel disk cs v)"
proof -
  have lt: "loro_tree L dwf" using assms(1) by (simp add: loro_text_tree_def)
  have above: "\<forall>p k. p \<noteq> [] \<longrightarrow> strict_prefix p rel \<longrightarrow> located L d k p \<longrightarrow> ft_kind L d k = Some Dir"
    using assms(7) by (simp add: fits_def)
  show ?thesis
  proof (cases disk)
    case None
    have node: "node_at L d rel = Some n \<longleftrightarrow> located L d n rel" for n
      using loro_tree.node_from_located [OF lt assms(2,3) _ assms(4), of None "[]" n] above by (simp add: node_at_def)
    show ?thesis
    proof (cases "node_at L d rel")
      case gone: None
      then have "\<not> in_doc L d cs v" if "prefix rel cs" for cs v
        using loro_tree.located_above [OF lt assms(4)] node that unfolding in_doc_def prefix_def
        by (metis append_Nil2 option.distinct(1))
      with gone None assms(2,3,6) show ?thesis by (auto simp: apply_path_def disk_at_def synced_def)
    next
      case (Some n)
      with loro_tree.delete_view [OF lt assms(2,3)] node None assms(6) show ?thesis
        by (fastforce simp: apply_path_def disk_at_def synced_def)
    qed
  next
    case there: (Some u)
    show ?thesis
    proof (cases u)
      case None
      have "\<forall>p n. p \<noteq> [] \<longrightarrow> prefix p rel \<longrightarrow> located L d n p \<longrightarrow> ft_kind L d n = Some Dir"
        using assms(7) there None by (auto simp: fits_def strict_prefix_def)
      from loro_tree.ensure_dir_view [OF lt assms(2,3) this] obtain d1 q where
        e: "ensure_dir L d rel = Some (d1, q)" "loro_tree.extends L dwf d d1 (\<lambda>r. r \<noteq> [] \<and> prefix r rel)" "site L d1 q rel"
        "\<forall>r v. in_doc L d1 r v \<longleftrightarrow> in_doc L d r v \<or> (r \<noteq> [] \<and> prefix r rel \<and> v = None)" by blast
      have "v = None" if "in_doc L d rel v" for v
        using that assms(7) there None by (auto simp: fits_def in_doc_def shape_def split: option.splits)
      with e(4) assms(4) have "in_doc L d1 cs v \<longleftrightarrow> synced (in_doc L d) rel disk cs v" for cs v
        using there None by (auto simp: synced_def strict_prefix_def)
      moreover have "dwf d1" "tidy L d1" using e(2) by (simp_all add: loro_tree.extends_def [OF lt])
      ultimately show ?thesis using e(1) assms(6) there None by (simp add: apply_path_def disk_at_def)
    next
      case (Some s)
      with assms(7) there have at: "\<forall>k. located L d k rel \<longrightarrow> ft_kind L d k = Some File \<and> ft_content L d k \<noteq> None"
        by (simp add: fits_def)
      obtain d' where d': "apply_file V L d rel s bases = Some d'" "dwf d'" "tidy L d'"
        "\<forall>cs v. in_doc L d' cs v \<longleftrightarrow>
           (if cs = rel then v = Some s else in_doc L d cs v \<or> (cs \<noteq> [] \<and> strict_prefix cs rel \<and> v = None))"
        using loro_text_tree.apply_file_view [OF assms(1-5) above at] by blast
      with assms(6) there Some show ?thesis
        by (auto simp: apply_path_def disk_at_def synced_def from_utf8_def)
    qed
  qed
qed

text \<open>A document whose directory \<open>a\<close> was deleted with the file \<open>a/b\<close> in it, and a disk that still has both.\<close>

definition demo_before :: rtree where
  "demo_before = fst (set_content ref_ct
     (fst (the (ft_create_file ref_ct (fst (the (ft_create_dir ref_ct rt_empty None ''a''))) (Some 0) ''b''))) 1 ''hi'')"

definition demo_gone :: rtree where
  "demo_gone = the (ft_delete ref_ct demo_before 0)"

definition demo_left :: mem_workspace where
  "demo_left = fst (mem_write_file mem_new [''a'', ''b''] ''hi'')"

lemma demo_gone_facts: "rtx_ok demo_gone" "tidy ref_ct demo_gone" "\<not> located ref_ct demo_gone k cs"
proof -
  show ok: "rtx_ok demo_gone" by (rule rtx_okI; code_simp)
  have "ft_roots ref_ct demo_gone = []" by code_simp
  note e = loro_text_tree.empty_inv [OF rtx.loro_text_tree_axioms ok this]
  show tidy: "tidy ref_ct demo_gone"
    using e(1) by (simp add: loro_tree.doc_inv_def [OF rtx.loro_tree_axioms])
  have "shaped ref_ct demo_gone" using e(1) by (simp add: loro_tree.doc_inv_def [OF rtx.loro_tree_axioms])
  then show "\<not> located ref_ct demo_gone k cs" using e(2) by (auto simp: shaped_def in_doc_def)
qed

lemma demo_left_disk: "disk_at mem_ops demo_left [''a'', ''b''] (Some (Some ''hi''))"
proof -
  have "ws_kind mem_ops demo_left [''a'', ''b''] = Ok (Some KFile)"
    "ws_read_file mem_ops demo_left [''a'', ''b''] = Ok ''hi''" "valid_utf8 ''hi''" by code_simp+
  then show ?thesis by (simp add: disk_at_def)
qed

theorem apply_path_reconciles_witness:
  "\<exists>d'. apply_path demo_vdoc ref_ct mem_ops demo_left [''a'', ''b''] ([] :: (nat, unit) file_bases) demo_gone = Some (d', Ok ()) \<and>
     in_doc ref_ct d' [''a'', ''b''] (Some ''hi'') \<and> in_doc ref_ct d' [''a''] None"
proof -
  have "fits ref_ct demo_gone [''a'', ''b''] (Some (Some ''hi''))" by (simp add: fits_def demo_gone_facts)
  from apply_path_reconciles [OF rtx.loro_text_tree_axioms demo_gone_facts(1,2) _ _ demo_left_disk this,
      where V = demo_vdoc and bases = "[]"]
  obtain d' where
    "apply_path demo_vdoc ref_ct mem_ops demo_left [''a'', ''b''] ([] :: (nat, unit) file_bases) demo_gone = Some (d', Ok ())"
    "\<forall>cs v. in_doc ref_ct d' cs v \<longleftrightarrow> synced (in_doc ref_ct demo_gone) [''a'', ''b''] (Some (Some ''hi'')) cs v"
    by auto
  then show ?thesis by (simp add: synced_def)
qed

text \<open>
  A file that disk still holds unchanged since its node was deleted from the document is not brought
  back by a change event for it: no file is added.  The directories above it, though, are made again when they
  were deleted too.\<close>

theorem stale_copy_stays_deleted:
  assumes "loro_tree L dwf" "dwf d" "tidy L d" "rel \<noteq> []" "map_of bases rel = Some b"
    and "disk_at W w rel (Some (Some s))" "fits L d rel (Some (Some s))" "\<forall>k. \<not> located L d k rel"
    and "\<forall>d1 q. ensure_dir L d (butlast rel) = Some (d1, q) \<longrightarrow>
           content_at V L d1 (eb_node b) (eb_frontier b) = Some s"
  shows "\<exists>d'. apply_path V L W w rel bases d = Some (d', Ok ()) \<and> dwf d' \<and> tidy L d' \<and>
           (\<forall>cs v. in_doc L d' cs v \<longleftrightarrow> in_doc L d cs v \<or> (cs \<noteq> [] \<and> strict_prefix cs rel \<and> v = None))"
proof -
  obtain ps c where rel: "rel = ps @ [c]" using assms(4) by (cases rel rule: rev_cases) auto
  have anc: "prefix p ps \<longleftrightarrow> strict_prefix p rel" for p using rel by (auto simp: strict_prefix_def dest: prefix_length_le)
  have "\<forall>p n. p \<noteq> [] \<longrightarrow> prefix p ps \<longrightarrow> located L d n p \<longrightarrow> ft_kind L d n = Some Dir"
    using assms(7) anc by (simp add: fits_def)
  from loro_tree.ensure_dir_view [OF assms(1-3) this] obtain d1 q where
    e: "ensure_dir L d ps = Some (d1, q)" "site L d1 q ps" "loro_tree.extends L dwf d d1 (\<lambda>r. r \<noteq> [] \<and> prefix r ps)"
    "\<forall>r v. in_doc L d1 r v \<longleftrightarrow> in_doc L d r v \<or> (r \<noteq> [] \<and> prefix r ps \<and> v = None)" by blast
  have start: "(if rel \<noteq> [] \<and> butlast rel \<noteq> [] then ensure_dir L d (butlast rel) else Some (d, None)) = Some (d1, q)"
    using e(1) rel by (cases "ps = []") (simp_all add: ensure_dir_def)
  have d1: "dwf d1" "tidy L d1" using e(3) by (simp_all add: loro_tree.extends_def [OF assms(1)])
  have "\<not> located L d1 k rel" for k
    using e(3) assms(8) anc [of rel] unfolding loro_tree.extends_def [OF assms(1)] by blast
  then have none: "child_named L d1 q c = None"
    using loro_tree.a_child [OF assms(1) e(2)] rel by (cases "child_named L d1 q c") auto
  have "is_echo_of V L d1 (eb_node b) (eb_frontier b) s" using assms(9) e(1) rel by (simp add: is_echo_of_def)
  with none have "apply_file V L d rel s bases = Some d1"
    unfolding apply_file_def start using assms(5) rel by (simp add: watch_child_eq file_name_def)
  then have "apply_path V L W w rel bases d = Some (d1, Ok ())"
    using assms(6) by (simp add: apply_path_def disk_at_def from_utf8_def)
  with d1 e(4) anc show ?thesis by simp
qed

theorem stale_copy_stays_deleted_witness:
  "\<exists>d'. apply_path demo_vdoc ref_ct mem_ops demo_left [''a'', ''b'']
       [([''a'', ''b''], \<lparr>eb_frontier = (), eb_node = 1\<rparr>)] demo_gone = Some (d', Ok ()) \<and>
     in_doc ref_ct d' [''a''] None \<and> (\<forall>v. \<not> in_doc ref_ct d' [''a'', ''b''] v)"
proof -
  have "fits ref_ct demo_gone [''a'', ''b''] (Some (Some ''hi''))" by (simp add: fits_def demo_gone_facts)
  moreover have "case ensure_dir ref_ct demo_gone [''a''] of None \<Rightarrow> True | Some (d1, q) \<Rightarrow>
      content_at demo_vdoc ref_ct d1 1 () = Some ''hi''" by code_simp
  then have "\<forall>d1 q. ensure_dir ref_ct demo_gone (butlast [''a'', ''b'']) = Some (d1, q) \<longrightarrow>
      content_at demo_vdoc ref_ct d1 (eb_node \<lparr>eb_frontier = (), eb_node = 1\<rparr>) (eb_frontier \<lparr>eb_frontier = (), eb_node = 1\<rparr>) = Some ''hi''"
    by auto
  ultimately obtain d' where
    "apply_path demo_vdoc ref_ct mem_ops demo_left [''a'', ''b'']
       [([''a'', ''b''], \<lparr>eb_frontier = (), eb_node = 1\<rparr>)] demo_gone = Some (d', Ok ())"
    "\<forall>cs v. in_doc ref_ct d' cs v \<longleftrightarrow> in_doc ref_ct demo_gone cs v \<or> (cs \<noteq> [] \<and> strict_prefix cs [''a'', ''b''] \<and> v = None)"
    using stale_copy_stays_deleted [OF rtx.loro_tree_axioms demo_gone_facts(1,2) _ _ demo_left_disk, where
        V = demo_vdoc and bases = "[([''a'', ''b''], \<lparr>eb_frontier = (), eb_node = 1\<rparr>)]" and b = "\<lparr>eb_frontier = (), eb_node = 1\<rparr>"]
      demo_gone_facts(3) by auto
  then show ?thesis using demo_gone_facts(3) by (auto simp: in_doc_def)
qed

end
