(* ===== verification/Mount.thy ===== *)
theory Mount
  imports Doc Doc_Fs_Events "HOL-Library.AList"
begin

text \<open>
  \<open>crates/eg/src/mount.rs\<close>: the document as a FUSE filesystem.  The model holds the buffered writes, the
  inode table, the watch on the document and every handler; a handler answers with an errno or a reply.
  The mutex of the buffers or of the inode table is held for the whole of the operation it guards, so the
  requests and the ticker cannot interleave inside one.  The document has no such mutex: the runtime thread
  may import while a request runs.  An operation is still one step here, so an import falls before or after
  a request and never inside it; what that leaves out is said where it matters.  A hash map that is iterated is a list of entries in its iteration order; time is counted in nanoseconds and read once per
  operation; \<open>None\<close> is a panic.  The mount itself, dialing and the kernel side of \<open>fuser\<close> are left out.
\<close>

datatype errno = EINVAL | ENOENT | ENOTDIR | EISDIR | EEXIST | ENOTEMPTY | EACCES

definition errno_of :: "fs_error \<Rightarrow> errno" where
  "errno_of e = (case e of
     InvalidPath \<Rightarrow> EINVAL
   | NotFound \<Rightarrow> ENOENT
   | NotADirectory \<Rightarrow> ENOTDIR
   | NotAFile \<Rightarrow> EISDIR
   | AlreadyExists \<Rightarrow> EEXIST
   | NotEmpty \<Rightarrow> ENOTEMPTY
   | InvalidMove \<Rightarrow> EINVAL)"

section \<open>Buffered writes\<close>

record 'f buffer =
  bf_bytes :: bytes
  bf_base :: 'f
  bf_last_write :: nat

type_synonym ('n, 'f) buffers = "('n \<times> 'f buffer) list"

definition resize :: "bytes \<Rightarrow> nat \<Rightarrow> bytes" where
  "resize bs n = take n bs @ replicate (n - length bs) (CHR 0x00)"

text \<open>
  Text and frontier are read in one step.  The code reads the one after the other without a lock on the
  document (\<open>seeded\<close>, lines 380 to 384), so an import may land in between; the base of the buffer then
  covers operations its bytes lack, and the commit merges the buffer as if they had been removed.  The
  theorems about buffers speak of the runs in which no import falls between the two reads.
\<close>

definition wb_seeded ::
    "('d, 'v, 'f) vdoc \<Rightarrow> ('d, 'n, 't, 'm) loro_ct \<Rightarrow> nat \<Rightarrow> 'd doc \<Rightarrow> ('n, 'f) buffers \<Rightarrow> 'n
       \<Rightarrow> errno + ('n, 'f) buffers \<times> 'f buffer" where
  "wb_seeded V L now d buffers n =
     (case map_of buffers n of
        Some buf \<Rightarrow> Ok (buffers, buf)
      | None \<Rightarrow>
          (case ft_content L (inner d) n of
             None \<Rightarrow> Err EISDIR
           | Some t \<Rightarrow>
               (let buf = \<lparr>bf_bytes = tx_str L (inner d) t, bf_base = doc_frontiers V d, bf_last_write = now\<rparr>
                in Ok (AList.update n buf buffers, buf))))"

text \<open>
  The end of the range overflows as a panic, either of the addition or of the slice.  Memory is unbounded
  here and in the truncation below: for an offset or a size that is huge \<open>Vec::resize\<close> panics or aborts the
  process in the code, where the model answers.
\<close>

definition wb_write ::
    "('d, 'v, 'f) vdoc \<Rightarrow> ('d, 'n, 't, 'm) loro_ct \<Rightarrow> nat \<Rightarrow> 'd doc \<Rightarrow> ('n, 'f) buffers \<Rightarrow> 'n \<Rightarrow> 64 word \<Rightarrow> bytes
       \<Rightarrow> (('n, 'f) buffers \<times> (errno + 32 word)) option" where
  "wb_write V L now d buffers n offset data =
     (case wb_seeded V L now d buffers n of
        Inl e \<Rightarrow> Some (buffers, Err e)
      | Inr (buffers1, buf) \<Rightarrow>
          (let finish = unat offset + length data
           in if 2 ^ 64 \<le> finish then None
              else (let bs = (if length (bf_bytes buf) < finish then resize (bf_bytes buf) finish else bf_bytes buf);
                        bs1 = take (unat offset) bs @ data @ drop finish bs
                    in Some (AList.update n (buf\<lparr>bf_bytes := bs1, bf_last_write := now\<rparr>) buffers1,
                             Ok (of_nat (length data))))))"

definition wb_truncate ::
    "('d, 'v, 'f) vdoc \<Rightarrow> ('d, 'n, 't, 'm) loro_ct \<Rightarrow> nat \<Rightarrow> 'd doc \<Rightarrow> ('n, 'f) buffers \<Rightarrow> 'n \<Rightarrow> 64 word
       \<Rightarrow> ('n, 'f) buffers \<times> (errno + unit)" where
  "wb_truncate V L now d buffers n sz =
     (case wb_seeded V L now d buffers n of
        Inl e \<Rightarrow> (buffers, Err e)
      | Inr (buffers1, buf) \<Rightarrow>
          (AList.update n (buf\<lparr>bf_bytes := resize (bf_bytes buf) (unat sz), bf_last_write := now\<rparr>) buffers1, Ok ()))"

definition saturating_add :: "64 word \<Rightarrow> 64 word \<Rightarrow> nat" where
  "saturating_add a b = min (unat a + unat b) (2 ^ 64 - 1)"

definition wb_read :: "('n, 'f) buffers \<Rightarrow> 'n \<Rightarrow> 64 word \<Rightarrow> 64 word \<Rightarrow> bytes option" where
  "wb_read buffers n offset sz =
     (case map_of buffers n of
        None \<Rightarrow> None
      | Some buf \<Rightarrow>
          (let finish = min (length (bf_bytes buf)) (saturating_add offset sz)
           in Some (if unat offset \<le> finish then take (finish - unat offset) (drop (unat offset) (bf_bytes buf)) else [])))"

definition wb_len :: "('n, 'f) buffers \<Rightarrow> 'n \<Rightarrow> 64 word option" where
  "wb_len buffers n = map_option (\<lambda>buf. of_nat (length (bf_bytes buf))) (map_of buffers n)"

definition wb_discard :: "('n, 'f) buffers \<Rightarrow> 'n \<Rightarrow> ('n, 'f) buffers" where
  "wb_discard buffers n = AList.delete n buffers"

section \<open>Inodes\<close>

record 'n inodes =
  by_ino :: "64 word \<Rightarrow> 'n option"
  by_node :: "'n \<Rightarrow> 64 word option"
  next_ino :: "64 word"

definition inodes_new :: "'n inodes" where
  "inodes_new = \<lparr>by_ino = (\<lambda>_. None), by_node = (\<lambda>_. None), next_ino = 2\<rparr>"

definition inode :: "'n inodes \<Rightarrow> 'n \<Rightarrow> 'n inodes \<times> 64 word" where
  "inode s n =
     (case by_node s n of
        Some ino \<Rightarrow> (s, ino)
      | None \<Rightarrow>
          (let ino = next_ino s
           in (s\<lparr>next_ino := ino + 1, by_ino := (by_ino s)(ino \<mapsto> n), by_node := (by_node s)(n \<mapsto> ino)\<rparr>, ino)))"

definition existing :: "'n inodes \<Rightarrow> 'n \<Rightarrow> 64 word option" where
  "existing s n = by_node s n"

definition node :: "'n inodes \<Rightarrow> 64 word \<Rightarrow> 'n option" where
  "node s ino = by_ino s ino"

section \<open>The mount\<close>

text \<open>
  \<open>mt_nudges\<close> counts the nudges to sync and persistence, \<open>mt_invalidated\<close> lists the inodes whose cached pages
  the kernel is told to drop.
\<close>

record ('d, 'n, 'f) doc_mount =
  mt_doc :: "'d doc"
  mt_inodes :: "'n inodes"
  mt_buffers :: "('n, 'f) buffers"
  mt_nudges :: nat
  mt_revoked :: bool
  mt_mtimes :: "'n \<Rightarrow> nat option"
  mt_uid :: "32 word"
  mt_gid :: "32 word"
  mt_epoch :: nat
  mt_invalidated :: "64 word list"

text \<open>What the subscription on the document is called with when the document goes from one state to another.\<close>

type_synonym ('d, 'n) reports = "'d \<Rightarrow> 'd \<Rightarrow> 'n change list option"

definition on_change :: "nat \<Rightarrow> 'n change \<Rightarrow> ('d, 'n, 'f) doc_mount \<Rightarrow> ('d, 'n, 'f) doc_mount" where
  "on_change now c st =
     (case c of
        Content n \<Rightarrow>
          st\<lparr>mt_mtimes := (mt_mtimes st)(n \<mapsto> now),
             mt_invalidated := mt_invalidated st @
               (case existing (mt_inodes st) n of None \<Rightarrow> [] | Some ino \<Rightarrow> [ino])\<rparr>
      | _ \<Rightarrow> st)"

definition put_doc ::
    "('d, 'n) reports \<Rightarrow> nat \<Rightarrow> 'd \<Rightarrow> ('d, 'n, 'f) doc_mount \<Rightarrow> ('d, 'n, 'f) doc_mount" where
  "put_doc E now i st =
     fold (on_change now) (case E (inner (mt_doc st)) i of None \<Rightarrow> [] | Some changes \<Rightarrow> changes)
       (st\<lparr>mt_doc := (mt_doc st)\<lparr>inner := i\<rparr>\<rparr>)"

definition committed ::
    "('d, 'v, 'f) vdoc \<Rightarrow> ('d, 'n) reports \<Rightarrow> nat \<Rightarrow> ('d, 'n, 'f) doc_mount \<Rightarrow> ('d, 'n, 'f) doc_mount" where
  "committed V E now st =
     (let st1 = put_doc E now (inner (doc_commit V (mt_doc st))) st in st1\<lparr>mt_nudges := Suc (mt_nudges st1)\<rparr>)"

text \<open>The edit is imported into the document, then committed; an edit to a file that is gone is dropped.\<close>

definition wb_apply ::
    "('d, 'v, 'f) vdoc \<Rightarrow> ('d, 'n, 't, 'm) loro_ct \<Rightarrow> ('d, 'n) reports \<Rightarrow> nat \<Rightarrow> 'n \<Rightarrow> 'f buffer
       \<Rightarrow> ('d, 'n, 'f) doc_mount \<Rightarrow> ('d, 'n, 'f) doc_mount" where
  "wb_apply V L E now n buf st =
     (case set_content_at V L (inner (mt_doc st)) n (from_utf8_lossy (bf_bytes buf)) (bf_base buf) of
        (i, False) \<Rightarrow> put_doc E now i st
      | (i, True) \<Rightarrow> committed V E now (put_doc E now i st))"

definition wb_commit ::
    "('d, 'v, 'f) vdoc \<Rightarrow> ('d, 'n, 't, 'm) loro_ct \<Rightarrow> ('d, 'n) reports \<Rightarrow> nat \<Rightarrow> 'n
       \<Rightarrow> ('d, 'n, 'f) doc_mount \<Rightarrow> ('d, 'n, 'f) doc_mount" where
  "wb_commit V L E now n st =
     (case map_of (mt_buffers st) n of
        None \<Rightarrow> st
      | Some buf \<Rightarrow> wb_apply V L E now n buf (st\<lparr>mt_buffers := AList.delete n (mt_buffers st)\<rparr>))"

definition commit_stale ::
    "('d, 'v, 'f) vdoc \<Rightarrow> ('d, 'n, 't, 'm) loro_ct \<Rightarrow> ('d, 'n) reports \<Rightarrow> nat \<Rightarrow> nat
       \<Rightarrow> ('d, 'n, 'f) doc_mount \<Rightarrow> ('d, 'n, 'f) doc_mount" where
  "commit_stale V L E now ceiling st =
     fold (wb_commit V L E now)
       (map fst (filter (\<lambda>(n, buf). ceiling \<le> now - bf_last_write buf) (mt_buffers st))) st"

definition denied :: "('d, 'n, 'f) doc_mount \<Rightarrow> bool" where
  "denied st = mt_revoked st"

definition commit_ino ::
    "('d, 'v, 'f) vdoc \<Rightarrow> ('d, 'n, 't, 'm) loro_ct \<Rightarrow> ('d, 'n) reports \<Rightarrow> nat \<Rightarrow> 64 word
       \<Rightarrow> ('d, 'n, 'f) doc_mount \<Rightarrow> ('d, 'n, 'f) doc_mount" where
  "commit_ino V L E now ino st =
     (case node (mt_inodes st) ino of None \<Rightarrow> st | Some n \<Rightarrow> wb_commit V L E now n st)"

section \<open>Attributes and paths\<close>

definition ROOT :: "64 word" where "ROOT = 1"

datatype file_type = Directory | RegularFile

record file_attr =
  fa_ino :: "64 word"
  fa_size :: "64 word"
  fa_blocks :: "64 word"
  fa_atime :: nat
  fa_mtime :: nat
  fa_ctime :: nat
  fa_crtime :: nat
  fa_kind :: file_type
  fa_perm :: "16 word"
  fa_nlink :: "32 word"
  fa_uid :: "32 word"
  fa_gid :: "32 word"
  fa_rdev :: "32 word"
  fa_blksize :: "32 word"
  fa_flags :: "32 word"

definition attr :: "('d, 'n, 'f) doc_mount \<Rightarrow> 64 word \<Rightarrow> file_type \<Rightarrow> 64 word \<Rightarrow> nat \<Rightarrow> file_attr" where
  "attr st ino kind sz mtime =
     (case (case kind of Directory \<Rightarrow> (0x1ED, 2) | _ \<Rightarrow> (0x1A4, 1)) of
        (perm, nlink) \<Rightarrow>
          \<lparr>fa_ino = ino, fa_size = sz, fa_blocks = sz div 512 + (if sz mod 512 = 0 then 0 else 1),
           fa_atime = mtime, fa_mtime = mtime, fa_ctime = mtime, fa_crtime = mt_epoch st, fa_kind = kind,
           fa_perm = perm, fa_nlink = nlink, fa_uid = mt_uid st, fa_gid = mt_gid st, fa_rdev = 0,
           fa_blksize = 4096, fa_flags = 0\<rparr>)"

definition attr_of ::
    "('d, 'n, 't, 'm) loro_ct \<Rightarrow> ('d, 'n, 'f) doc_mount \<Rightarrow> 64 word \<Rightarrow> file_attr option" where
  "attr_of L st ino =
     (if ino = ROOT then Some (attr st ino Directory 0 (mt_epoch st))
      else (case node (mt_inodes st) ino of
              None \<Rightarrow> None
            | Some n \<Rightarrow>
                (let d = inner (mt_doc st);
                     mtime = (case mt_mtimes st n of None \<Rightarrow> mt_epoch st | Some t \<Rightarrow> t)
                 in case ft_kind L d n of
                      None \<Rightarrow> None
                    | Some Dir \<Rightarrow> Some (attr st ino Directory 0 mtime)
                    | _ \<Rightarrow>
                        map_option (\<lambda>sz. attr st ino RegularFile sz mtime)
                          (case wb_len (mt_buffers st) n of
                             Some sz \<Rightarrow> Some sz
                           | None \<Rightarrow> map_option (\<lambda>t. of_nat (length (tx_str L d t))) (ft_content L d n)))))"

definition mount_children ::
    "('d, 'n, 't, 'm) loro_ct \<Rightarrow> ('d, 'n, 'f) doc_mount \<Rightarrow> 64 word \<Rightarrow> 'n list option" where
  "mount_children L st ino =
     (if ino = ROOT then Some (ft_roots L (inner (mt_doc st)))
      else (case node (mt_inodes st) ino of
              None \<Rightarrow> None
            | Some n \<Rightarrow> if ft_kind L (inner (mt_doc st)) n = Some Dir then Some (ft_children L (inner (mt_doc st)) n)
                        else None))"

text \<open>The outer option is that of \<open>path_of\<close>, whose climb ends on every document that keeps Loro's laws.\<close>

definition dir_path ::
    "('d, 'n, 't, 'm) loro_ct \<Rightarrow> ('d, 'n, 'f) doc_mount \<Rightarrow> 64 word \<Rightarrow> string option option" where
  "dir_path L st ino =
     (if ino = ROOT then Some (Some [])
      else (case node (mt_inodes st) ino of None \<Rightarrow> Some None | Some n \<Rightarrow> path_of L (inner (mt_doc st)) n))"

definition os_name :: "bytes \<Rightarrow> string option" where
  "os_name name =
     (case from_utf8 name of None \<Rightarrow> None | Some s \<Rightarrow> if valid_name s then Some s else None)"

definition child_path ::
    "('d, 'n, 't, 'm) loro_ct \<Rightarrow> ('d, 'n, 'f) doc_mount \<Rightarrow> 64 word \<Rightarrow> bytes \<Rightarrow> string option option" where
  "child_path L st parent name =
     (case os_name name of
        None \<Rightarrow> Some None
      | Some s \<Rightarrow>
          (case dir_path L st parent of
             None \<Rightarrow> None
           | Some None \<Rightarrow> Some None
           | Some (Some dir) \<Rightarrow> Some (Some (if dir = [] then s else dir @ ''/'' @ s))))"

section \<open>Replies\<close>

record dir_entry =
  de_ino :: "64 word"
  de_offset :: "64 word"
  de_kind :: file_type
  de_name :: string

datatype reply =
    REntry file_attr
  | RAttr file_attr
  | RCreated file_attr
  | RDir "dir_entry list"
  | RData bytes
  | RWritten "32 word"
  | ROk

type_synonym ('d, 'n, 'f) answer = "('d, 'n, 'f) doc_mount \<times> (errno + reply)"

definition reply_node ::
    "('d, 'n, 't, 'm) loro_ct \<Rightarrow> (file_attr \<Rightarrow> reply) \<Rightarrow> ('d, 'n, 'f) doc_mount \<Rightarrow> 'n \<Rightarrow> ('d, 'n, 'f) answer" where
  "reply_node L mk st n =
     (case inode (mt_inodes st) n of
        (s, ino) \<Rightarrow>
          (let st1 = st\<lparr>mt_inodes := s\<rparr>
           in (st1, case attr_of L st1 ino of Some a \<Rightarrow> Ok (mk a) | None \<Rightarrow> Err ENOENT)))"

definition mount_entry_of ::
    "('d, 'n, 't, 'm) loro_ct \<Rightarrow> ('d, 'n, 'f) doc_mount \<Rightarrow> 'n \<Rightarrow> ('d, 'n, 'f) answer" where
  "mount_entry_of L st n = reply_node L REntry st n"

definition reply_attr ::
    "('d, 'n, 't, 'm) loro_ct \<Rightarrow> ('d, 'n, 'f) doc_mount \<Rightarrow> 64 word \<Rightarrow> errno + reply" where
  "reply_attr L st ino = (case attr_of L st ino of Some a \<Rightarrow> Ok (RAttr a) | None \<Rightarrow> Err ENOENT)"

section \<open>Handlers that read\<close>

definition fuse_lookup ::
    "('d, 'n, 't, 'm) loro_ct \<Rightarrow> ('d, 'n, 'f) doc_mount \<Rightarrow> 64 word \<Rightarrow> bytes \<Rightarrow> ('d, 'n, 'f) answer" where
  "fuse_lookup L st parent name =
     (case os_name name of
        None \<Rightarrow> (st, Err ENOENT)
      | Some s \<Rightarrow>
          (case mount_children L st parent of
             None \<Rightarrow> (st, Err ENOENT)
           | Some ns \<Rightarrow>
               (case find (\<lambda>n. ft_name L (inner (mt_doc st)) n = Some s) ns of
                  Some n \<Rightarrow> mount_entry_of L st n
                | None \<Rightarrow> (st, Err ENOENT))))"

definition fuse_getattr ::
    "('d, 'n, 't, 'm) loro_ct \<Rightarrow> ('d, 'n, 'f) doc_mount \<Rightarrow> 64 word \<Rightarrow> ('d, 'n, 'f) answer" where
  "fuse_getattr L st ino = (st, reply_attr L st ino)"

fun dir_entries ::
    "('d, 'n, 't, 'm) loro_ct \<Rightarrow> 'd \<Rightarrow> 'n list \<Rightarrow> 'n inodes \<Rightarrow> 'n inodes \<times> (64 word \<times> file_type \<times> string) list" where
  "dir_entries L d [] s = (s, [])"
| "dir_entries L d (n # ns) s =
     (case named_node L d n of
        None \<Rightarrow> dir_entries L d ns s
      | Some name \<Rightarrow>
          (let kind = (if ft_kind L d n = Some Dir then Directory else RegularFile)
           in case inode s n of
                (s1, ino) \<Rightarrow>
                  (case dir_entries L d ns s1 of (s2, es) \<Rightarrow> (s2, (ino, kind, name) # es))))"

text \<open>\<open>full\<close> is the answer of \<open>add\<close>: whether the reply had no room left for the entry.\<close>

fun add_entries ::
    "(dir_entry list \<Rightarrow> dir_entry \<Rightarrow> bool) \<Rightarrow> dir_entry list \<Rightarrow> dir_entry list \<Rightarrow> dir_entry list" where
  "add_entries full acc [] = acc"
| "add_entries full acc (e # es) = (if full acc e then acc else add_entries full (acc @ [e]) es)"

definition fuse_readdir ::
    "('d, 'n, 't, 'm) loro_ct \<Rightarrow> (dir_entry list \<Rightarrow> dir_entry \<Rightarrow> bool) \<Rightarrow> ('d, 'n, 'f) doc_mount \<Rightarrow> 64 word \<Rightarrow> 64 word
       \<Rightarrow> ('d, 'n, 'f) answer" where
  "fuse_readdir L full st ino offset =
     (case mount_children L st ino of
        None \<Rightarrow> (st, Err ENOTDIR)
      | Some ns \<Rightarrow>
          (case dir_entries L (inner (mt_doc st)) ns (mt_inodes st) of
             (s, es) \<Rightarrow>
               (let entries = [(ino, Directory, ''.''), (ROOT, Directory, ''..'')] @ es;
                    numbered = map (\<lambda>(i, ino, kind, name).
                      \<lparr>de_ino = ino, de_offset = of_nat (i + 1), de_kind = kind, de_name = name\<rparr>)
                      (List.enumerate 0 entries)
                in (st\<lparr>mt_inodes := s\<rparr>, Ok (RDir (add_entries full [] (drop (unat offset) numbered)))))))"

definition fuse_read ::
    "('d, 'n, 't, 'm) loro_ct \<Rightarrow> ('d, 'n, 'f) doc_mount \<Rightarrow> 64 word \<Rightarrow> 64 word \<Rightarrow> 32 word
       \<Rightarrow> ('d, 'n, 'f) answer option" where
  "fuse_read L st ino offset sz =
     (case node (mt_inodes st) ino of
        None \<Rightarrow> Some (st, Err ENOENT)
      | Some n \<Rightarrow>
          (case wb_read (mt_buffers st) n offset (ucast sz) of
             Some bs \<Rightarrow> Some (st, Ok (RData bs))
           | None \<Rightarrow>
               (case ft_content L (inner (mt_doc st)) n of
                  None \<Rightarrow> Some (st, Err EISDIR)
                | Some t \<Rightarrow>
                    map_option (\<lambda>bs. (st, Ok (RData bs)))
                      (read_bytes L (inner (mt_doc st)) t (unat offset) (unat sz)))))"

section \<open>Handlers that write\<close>

definition touched :: "nat \<Rightarrow> 'n \<Rightarrow> ('d, 'n, 'f) doc_mount \<Rightarrow> ('d, 'n, 'f) doc_mount" where
  "touched now n st = st\<lparr>mt_mtimes := (mt_mtimes st)(n \<mapsto> now)\<rparr>"

definition fuse_setattr ::
    "('d, 'v, 'f) vdoc \<Rightarrow> ('d, 'n, 't, 'm) loro_ct \<Rightarrow> nat \<Rightarrow> ('d, 'n, 'f) doc_mount \<Rightarrow> 64 word \<Rightarrow> 64 word option
       \<Rightarrow> ('d, 'n, 'f) answer" where
  "fuse_setattr V L now st ino sz =
     (case sz of
        None \<Rightarrow> (st, reply_attr L st ino)
      | Some sz \<Rightarrow>
          if denied st then (st, Err EACCES)
          else (case node (mt_inodes st) ino of
                  None \<Rightarrow> (st, Err ENOENT)
                | Some n \<Rightarrow>
                    (case wb_truncate V L now (mt_doc st) (mt_buffers st) n sz of
                       (buffers, Inl e) \<Rightarrow> (st\<lparr>mt_buffers := buffers\<rparr>, Err e)
                     | (buffers, Inr _) \<Rightarrow>
                         (let st1 = touched now n (st\<lparr>mt_buffers := buffers\<rparr>) in (st1, reply_attr L st1 ino)))))"

definition fuse_write ::
    "('d, 'v, 'f) vdoc \<Rightarrow> ('d, 'n, 't, 'm) loro_ct \<Rightarrow> nat \<Rightarrow> ('d, 'n, 'f) doc_mount \<Rightarrow> 64 word \<Rightarrow> 64 word \<Rightarrow> bytes
       \<Rightarrow> ('d, 'n, 'f) answer option" where
  "fuse_write V L now st ino offset data =
     (if denied st then Some (st, Err EACCES)
      else (case node (mt_inodes st) ino of
              None \<Rightarrow> Some (st, Err ENOENT)
            | Some n \<Rightarrow>
                (case wb_write V L now (mt_doc st) (mt_buffers st) n offset data of
                   None \<Rightarrow> None
                 | Some (buffers, Inl e) \<Rightarrow> Some (st\<lparr>mt_buffers := buffers\<rparr>, Err e)
                 | Some (buffers, Inr written) \<Rightarrow>
                     Some (touched now n (st\<lparr>mt_buffers := buffers\<rparr>), Ok (RWritten written)))))"

text \<open>\<open>flush\<close>, \<open>release\<close> and \<open>fsync\<close>.\<close>

definition fuse_flush ::
    "('d, 'v, 'f) vdoc \<Rightarrow> ('d, 'n, 't, 'm) loro_ct \<Rightarrow> ('d, 'n) reports \<Rightarrow> nat \<Rightarrow> ('d, 'n, 'f) doc_mount \<Rightarrow> 64 word
       \<Rightarrow> ('d, 'n, 'f) answer" where
  "fuse_flush V L E now st ino = (commit_ino V L E now ino st, Ok ROk)"

definition fuse_release ::
    "('d, 'v, 'f) vdoc \<Rightarrow> ('d, 'n, 't, 'm) loro_ct \<Rightarrow> ('d, 'n) reports \<Rightarrow> nat \<Rightarrow> ('d, 'n, 'f) doc_mount \<Rightarrow> 64 word
       \<Rightarrow> ('d, 'n, 'f) answer" where
  "fuse_release V L E now st ino = (commit_ino V L E now ino st, Ok ROk)"

definition fuse_fsync ::
    "('d, 'v, 'f) vdoc \<Rightarrow> ('d, 'n, 't, 'm) loro_ct \<Rightarrow> ('d, 'n) reports \<Rightarrow> nat \<Rightarrow> ('d, 'n, 'f) doc_mount \<Rightarrow> 64 word
       \<Rightarrow> ('d, 'n, 'f) answer" where
  "fuse_fsync V L E now st ino = (commit_ino V L E now ino st, Ok ROk)"

definition fuse_create ::
    "('d, 'v, 'f) vdoc \<Rightarrow> ('d, 'n, 't, 'm) loro_ct \<Rightarrow> ('d, 'n) reports \<Rightarrow> nat \<Rightarrow> ('d, 'n, 'f) doc_mount \<Rightarrow> 64 word
       \<Rightarrow> bytes \<Rightarrow> ('d, 'n, 'f) answer option" where
  "fuse_create V L E now st parent name =
     (if denied st then Some (st, Err EACCES)
      else (case child_path L st parent name of
              None \<Rightarrow> None
            | Some None \<Rightarrow> Some (st, Err EINVAL)
            | Some (Some path) \<Rightarrow>
                (case fs_create_file L (inner (mt_doc st)) path of
                   None \<Rightarrow> None
                 | Some (Inl e) \<Rightarrow> Some (st, Err (errno_of e))
                 | Some (Inr (i, n)) \<Rightarrow>
                     Some (reply_node L RCreated (committed V E now (st\<lparr>mt_doc := (mt_doc st)\<lparr>inner := i\<rparr>\<rparr>)) n))))"

definition fuse_mkdir ::
    "('d, 'v, 'f) vdoc \<Rightarrow> ('d, 'n, 't, 'm) loro_ct \<Rightarrow> ('d, 'n) reports \<Rightarrow> nat \<Rightarrow> ('d, 'n, 'f) doc_mount \<Rightarrow> 64 word
       \<Rightarrow> bytes \<Rightarrow> ('d, 'n, 'f) answer option" where
  "fuse_mkdir V L E now st parent name =
     (if denied st then Some (st, Err EACCES)
      else (case child_path L st parent name of
              None \<Rightarrow> None
            | Some None \<Rightarrow> Some (st, Err EINVAL)
            | Some (Some path) \<Rightarrow>
                (case fs_create_dir L (inner (mt_doc st)) path of
                   None \<Rightarrow> None
                 | Some (Inl e) \<Rightarrow> Some (st, Err (errno_of e))
                 | Some (Inr (i, n)) \<Rightarrow>
                     Some (mount_entry_of L (committed V E now (st\<lparr>mt_doc := (mt_doc st)\<lparr>inner := i\<rparr>\<rparr>)) n))))"

definition fuse_unlink ::
    "('d, 'v, 'f) vdoc \<Rightarrow> ('d, 'n, 't, 'm) loro_ct \<Rightarrow> ('d, 'n) reports \<Rightarrow> nat \<Rightarrow> ('d, 'n, 'f) doc_mount \<Rightarrow> 64 word
       \<Rightarrow> bytes \<Rightarrow> ('d, 'n, 'f) answer option" where
  "fuse_unlink V L E now st parent name =
     (if denied st then Some (st, Err EACCES)
      else (case child_path L st parent name of
              None \<Rightarrow> None
            | Some None \<Rightarrow> Some (st, Err ENOENT)
            | Some (Some path) \<Rightarrow>
                (let found = resolve L (inner (mt_doc st)) path
                 in case remove_file L (inner (mt_doc st)) path of
                      None \<Rightarrow> None
                    | Some (Inl e) \<Rightarrow> Some (st, Err (errno_of e))
                    | Some (Inr i) \<Rightarrow>
                        (let st1 = st\<lparr>mt_doc := (mt_doc st)\<lparr>inner := i\<rparr>\<rparr>;
                             st2 = (case found of
                                      Inl _ \<Rightarrow> st1
                                    | Inr n \<Rightarrow> st1\<lparr>mt_buffers := wb_discard (mt_buffers st1) n\<rparr>)
                         in Some (committed V E now st2, Ok ROk)))))"

definition fuse_rmdir ::
    "('d, 'v, 'f) vdoc \<Rightarrow> ('d, 'n, 't, 'm) loro_ct \<Rightarrow> ('d, 'n) reports \<Rightarrow> nat \<Rightarrow> ('d, 'n, 'f) doc_mount \<Rightarrow> 64 word
       \<Rightarrow> bytes \<Rightarrow> ('d, 'n, 'f) answer option" where
  "fuse_rmdir V L E now st parent name =
     (if denied st then Some (st, Err EACCES)
      else (case child_path L st parent name of
              None \<Rightarrow> None
            | Some None \<Rightarrow> Some (st, Err ENOENT)
            | Some (Some path) \<Rightarrow>
                (case remove_dir L (inner (mt_doc st)) path of
                   None \<Rightarrow> None
                 | Some (Inl e) \<Rightarrow> Some (st, Err (errno_of e))
                 | Some (Inr i) \<Rightarrow>
                     Some (committed V E now (st\<lparr>mt_doc := (mt_doc st)\<lparr>inner := i\<rparr>\<rparr>), Ok ROk))))"

datatype rename_flag = RENAME_NOREPLACE | RENAME_EXCHANGE | RENAME_WHITEOUT

definition fuse_rename ::
    "('d, 'v, 'f) vdoc \<Rightarrow> ('d, 'n, 't, 'm) loro_ct \<Rightarrow> ('d, 'n) reports \<Rightarrow> nat \<Rightarrow> ('d, 'n, 'f) doc_mount \<Rightarrow> 64 word
       \<Rightarrow> bytes \<Rightarrow> 64 word \<Rightarrow> bytes \<Rightarrow> rename_flag list \<Rightarrow> ('d, 'n, 'f) answer option" where
  "fuse_rename V L E now st parent name newparent newname flags =
     (if denied st then Some (st, Err EACCES)
      else if RENAME_EXCHANGE \<in> set flags then Some (st, Err EINVAL)
      else (case (child_path L st parent name, child_path L st newparent newname) of
              (None, _) \<Rightarrow> None
            | (_, None) \<Rightarrow> None
            | (Some (Some from), Some (Some to)) \<Rightarrow>
                if RENAME_NOREPLACE \<in> set flags \<and> is_ok (resolve L (inner (mt_doc st)) to) then Some (st, Err EEXIST)
                else (case fs_rename L (inner (mt_doc st)) from to of
                        None \<Rightarrow> None
                      | Some (Inl e) \<Rightarrow> Some (st, Err (errno_of e))
                      | Some (Inr i) \<Rightarrow>
                          Some (committed V E now (st\<lparr>mt_doc := (mt_doc st)\<lparr>inner := i\<rparr>\<rparr>), Ok ROk))
            | _ \<Rightarrow> Some (st, Err ENOENT)))"

section \<open>Requests\<close>

datatype request =
    Lookup "64 word" bytes
  | Getattr "64 word"
  | Setattr "64 word" "64 word option"
  | Readdir "64 word" "64 word"
  | Read "64 word" "64 word" "32 word"
  | Write "64 word" "64 word" bytes
  | Flush "64 word"
  | Release "64 word"
  | Fsync "64 word"
  | Create "64 word" bytes
  | Mkdir "64 word" bytes
  | Unlink "64 word" bytes
  | Rmdir "64 word" bytes
  | Rename "64 word" bytes "64 word" bytes "rename_flag list"

text \<open>The dispatch of \<open>impl Filesystem for DocMount\<close>.\<close>

definition handle ::
    "('d, 'v, 'f) vdoc \<Rightarrow> ('d, 'n, 't, 'm) loro_ct \<Rightarrow> ('d, 'n) reports \<Rightarrow> (dir_entry list \<Rightarrow> dir_entry \<Rightarrow> bool) \<Rightarrow> nat
       \<Rightarrow> ('d, 'n, 'f) doc_mount \<Rightarrow> request \<Rightarrow> ('d, 'n, 'f) answer option" where
  "handle V L E full now st req =
     (case req of
        Lookup parent name \<Rightarrow> Some (fuse_lookup L st parent name)
      | Getattr ino \<Rightarrow> Some (fuse_getattr L st ino)
      | Setattr ino sz \<Rightarrow> Some (fuse_setattr V L now st ino sz)
      | Readdir ino offset \<Rightarrow> Some (fuse_readdir L full st ino offset)
      | Read ino offset sz \<Rightarrow> fuse_read L st ino offset sz
      | Write ino offset data \<Rightarrow> fuse_write V L now st ino offset data
      | Flush ino \<Rightarrow> Some (fuse_flush V L E now st ino)
      | Release ino \<Rightarrow> Some (fuse_release V L E now st ino)
      | Fsync ino \<Rightarrow> Some (fuse_fsync V L E now st ino)
      | Create parent name \<Rightarrow> fuse_create V L E now st parent name
      | Mkdir parent name \<Rightarrow> fuse_mkdir V L E now st parent name
      | Unlink parent name \<Rightarrow> fuse_unlink V L E now st parent name
      | Rmdir parent name \<Rightarrow> fuse_rmdir V L E now st parent name
      | Rename parent name newparent newname flags \<Rightarrow> fuse_rename V L E now st parent name newparent newname flags)"

section \<open>The life of a mount\<close>

text \<open>The state \<open>mount\<close> starts from; the owner is that of the mountpoint.\<close>

definition mount_new ::
    "'d doc \<Rightarrow> 32 word \<Rightarrow> 32 word \<Rightarrow> nat \<Rightarrow> ('d, 'n, 'f) doc_mount" where
  "mount_new d uid gid now =
     \<lparr>mt_doc = d, mt_inodes = inodes_new, mt_buffers = [], mt_nudges = 0, mt_revoked = False, mt_mtimes = (\<lambda>_. None),
      mt_uid = uid, mt_gid = gid, mt_epoch = now, mt_invalidated = []\<rparr>"

definition CEILING :: nat where "CEILING = 500000000"

text \<open>Whether the inode numbers last for one more request.\<close>

definition room :: "('d, 'n, 't, 'm) loro_ct \<Rightarrow> ('d, 'n, 'f) doc_mount \<Rightarrow> bool" where
  "room L st \<longleftrightarrow>
     unat (next_ino (mt_inodes st)) + 1 < 2 ^ 64 \<and>
     (\<forall>ino ns. mount_children L st ino = Some ns \<longrightarrow> unat (next_ino (mt_inodes st)) + length ns < 2 ^ 64)"

text \<open>
  The steps: a request is answered, the ticker commits what lies idle (\<open>run_sync\<close>), an import by the sync
  session changes the document, a refusal revokes the key.
\<close>

inductive mount_step ::
    "('d, 'v, 'f) vdoc \<Rightarrow> ('d, 'n, 't, 'm) loro_ct \<Rightarrow> ('d, 'n) reports \<Rightarrow> (dir_entry list \<Rightarrow> dir_entry \<Rightarrow> bool)
       \<Rightarrow> ('d \<Rightarrow> bool) \<Rightarrow> ('d, 'n, 'f) doc_mount \<Rightarrow> ('d, 'n, 'f) doc_mount \<Rightarrow> bool"
  for V L E full imported where
  served: "handle V L E full now st req = Some (st', r) \<Longrightarrow> room L st \<Longrightarrow> mount_step V L E full imported st st'"
| ticked: "mount_step V L E full imported st (commit_stale V L E now CEILING st)"
| synced: "imported i \<Longrightarrow> mount_step V L E full imported st (put_doc E now i st)"
| refused: "mount_step V L E full imported st (st\<lparr>mt_revoked := True\<rparr>)"

inductive_cases mount_stepE: "mount_step V L E full imported st st'"

end
