(* ===== verification/Mount_Inv.thy ===== *)
theory Mount_Inv
  imports Mount Doc_Fs_Walk Watch_Apply
begin

text \<open>
  The invariant of a mount: inode numbers and nodes correspond one to one and a number is never reused, every
  buffer belongs to one node the kernel was told of, and the document keeps Loro's laws with distinct names of
  siblings.
\<close>

section \<open>Inodes\<close>

definition inodes_ok :: "'n inodes \<Rightarrow> bool" where
  "inodes_ok s \<longleftrightarrow>
     2 \<le> next_ino s \<and> (\<forall>i n. by_ino s i = Some n \<longleftrightarrow> by_node s n = Some i) \<and>
     (\<forall>i n. by_ino s i = Some n \<longrightarrow> 2 \<le> i \<and> i < next_ino s)"

text \<open>Nothing that was given a number loses it.\<close>

definition inodes_grow :: "'n inodes \<Rightarrow> 'n inodes \<Rightarrow> bool" where
  "inodes_grow s s' \<longleftrightarrow> by_ino s \<subseteq>\<^sub>m by_ino s' \<and> by_node s \<subseteq>\<^sub>m by_node s'"

lemma inodes_grow_refl [simp]: "inodes_grow s s"
  by (simp add: inodes_grow_def)

lemma inodes_grow_trans: "inodes_grow a b \<Longrightarrow> inodes_grow b c \<Longrightarrow> inodes_grow a c"
  unfolding inodes_grow_def by (blast intro: map_le_trans)

lemma inodes_new_ok: "inodes_ok inodes_new"
  by (simp add: inodes_ok_def inodes_new_def)

lemma inode_ok:
  assumes "inodes_ok s" "unat (next_ino s) + 1 < 2 ^ 64" "inode s n = (s', i)"
  shows "inodes_ok s'" "inodes_grow s s'" "by_ino s' i = Some n" "by_node s' n = Some i"
    "unat (next_ino s') \<le> unat (next_ino s) + 1"
proof -
  have "inodes_ok s' \<and> inodes_grow s s' \<and> by_ino s' i = Some n \<and> by_node s' n = Some i \<and>
      unat (next_ino s') \<le> unat (next_ino s) + 1"
  proof (cases "by_node s n")
    case (Some j)
    then have "s' = s" "i = j" using assms(3) by (simp_all add: inode_def)
    moreover have "by_ino s j = Some n" using Some assms(1) by (simp add: inodes_ok_def)
    ultimately show ?thesis using Some assms(1) by simp
  next
    case None
    then have i: "i = next_ino s" and s': "s' = s\<lparr>next_ino := next_ino s + 1, by_ino := (by_ino s)(next_ino s \<mapsto> n),
        by_node := (by_node s)(n \<mapsto> next_ino s)\<rparr>"
      using assms(3) by (auto simp: inode_def Let_def)
    have nx: "unat (next_ino s + 1) = unat (next_ino s) + 1" using assms(2) by (simp add: unat_word_ariths)
    then have less: "next_ino s < next_ino s + 1" by (simp add: word_less_nat_alt)
    have free: "by_ino s (next_ino s) = None"
      using assms(1) by (cases "by_ino s (next_ino s)") (auto simp: inodes_ok_def)
    have two: "2 \<le> next_ino s" and inv: "by_ino s j = Some m \<longleftrightarrow> by_node s m = Some j"
      and bound: "by_ino s j = Some m \<Longrightarrow> 2 \<le> j \<and> j < next_ino s" for j m
      using assms(1) by (auto simp: inodes_ok_def)
    have "by_node s m \<noteq> Some (next_ino s)" for m using inv free by (metis option.distinct(1))
    moreover have "by_ino s j \<noteq> Some n" for j using inv None by simp
    ultimately have "inodes_ok s'"
      using two inv bound less unfolding inodes_ok_def s'
      by (auto simp del: word_less_1 intro: less_trans [OF _ less] order.trans [OF _ less_imp_le [OF less]])
    moreover have "inodes_grow s s'" using free None by (auto simp: inodes_grow_def s' map_le_def)
    ultimately show ?thesis using nx by (simp add: s' i)
  qed
  then show "inodes_ok s'" "inodes_grow s s'" "by_ino s' i = Some n" "by_node s' n = Some i"
    "unat (next_ino s') \<le> unat (next_ino s) + 1" by blast+
qed

lemma dir_entries_ok:
  assumes "inodes_ok s" "unat (next_ino s) + length ns < 2 ^ 64"
  shows "inodes_ok (fst (dir_entries L d ns s)) \<and> inodes_grow s (fst (dir_entries L d ns s)) \<and>
    map (\<lambda>(i, kind, name). (by_ino (fst (dir_entries L d ns s)) i, kind, name)) (snd (dir_entries L d ns s)) =
    List.map_filter (\<lambda>n. map_option (\<lambda>name. (Some n, if ft_kind L d n = Some Dir then Directory else RegularFile, name))
      (named_node L d n)) ns"
  using assms
proof (induction ns arbitrary: s)
  case (Cons n ns)
  show ?case
  proof (cases "named_node L d n")
    case None
    with Cons show ?thesis by simp
  next
    case (Some name)
    obtain s1 i where si: "inode s n = (s1, i)" by fastforce
    note io = inode_ok [OF Cons.prems(1) _ si]
    obtain s2 es where se: "dir_entries L d ns s1 = (s2, es)" by fastforce
    have "inodes_ok s1" "unat (next_ino s1) + length ns < 2 ^ 64" using io(1,5) Cons.prems(2) by simp_all
    note ih = Cons.IH [OF this]
    have "by_ino s2 i = Some n" using ih io(3) Cons.prems(2) se by (auto simp: inodes_grow_def map_le_def dom_def)
    with ih io(2) Cons.prems(2) se si Some show ?thesis
      by (auto simp: Let_def elim: inodes_grow_trans)
  qed
qed simp

section \<open>Steps on the document and the buffers\<close>

lemma on_changes_frame [simp]:
  "mt_doc (fold (on_change now) cs st) = mt_doc st" "mt_inodes (fold (on_change now) cs st) = mt_inodes st"
  "mt_buffers (fold (on_change now) cs st) = mt_buffers st" "mt_revoked (fold (on_change now) cs st) = mt_revoked st"
  "mt_nudges (fold (on_change now) cs st) = mt_nudges st"
  by (induction cs arbitrary: st) (simp_all add: on_change_def split: change.split)

lemma put_doc_frame [simp]:
  "mt_doc (put_doc E now i st) = (mt_doc st)\<lparr>inner := i\<rparr>" "mt_inodes (put_doc E now i st) = mt_inodes st"
  "mt_buffers (put_doc E now i st) = mt_buffers st" "mt_revoked (put_doc E now i st) = mt_revoked st"
  "mt_nudges (put_doc E now i st) = mt_nudges st"
  by (simp_all add: put_doc_def)

lemma committed_frame [simp]:
  "mt_doc (committed V E now st) = doc_commit V (mt_doc st)" "mt_inodes (committed V E now st) = mt_inodes st"
  "mt_buffers (committed V E now st) = mt_buffers st" "mt_revoked (committed V E now st) = mt_revoked st"
  by (simp_all add: committed_def Let_def doc_commit_def)

lemma wb_apply_frame [simp]:
  "mt_inodes (wb_apply V L E now n buf st) = mt_inodes st" "mt_buffers (wb_apply V L E now n buf st) = mt_buffers st"
  "mt_revoked (wb_apply V L E now n buf st) = mt_revoked st"
  by (simp_all add: wb_apply_def split: prod.split bool.split)

lemma wb_commit_frame [simp]:
  "mt_inodes (wb_commit V L E now n st) = mt_inodes st" "mt_buffers (wb_commit V L E now n st) = AList.delete n (mt_buffers st)"
  "mt_revoked (wb_commit V L E now n st) = mt_revoked st"
proof -
  have "AList.delete n (mt_buffers st) = mt_buffers st" if "map_of (mt_buffers st) n = None"
    using that by (force simp: AList.delete_eq map_of_eq_None_iff intro!: filter_True)
  then show "mt_buffers (wb_commit V L E now n st) = AList.delete n (mt_buffers st)"
    by (simp add: wb_commit_def split: option.split)
qed (simp_all add: wb_commit_def split: option.split)

lemma reply_node_frame:
  assumes "reply_node L mk st n = (st', r)"
  shows "mt_doc st' = mt_doc st" "mt_buffers st' = mt_buffers st" "mt_revoked st' = mt_revoked st"
    "\<exists>i. inode (mt_inodes st) n = (mt_inodes st', i)"
  using assms by (auto simp: reply_node_def Let_def split: prod.splits)

text \<open>A buffer is only seeded for a node that has an inode, and the others stay.\<close>

definition buffers_ok :: "'n inodes \<Rightarrow> ('n, 'f) buffers \<Rightarrow> bool" where
  "buffers_ok s buffers \<longleftrightarrow> distinct (map fst buffers) \<and> (\<forall>n \<in> fst ` set buffers. by_node s n \<noteq> None)"

lemma buffers_ok_update:
  "buffers_ok s buffers \<Longrightarrow> by_node s n \<noteq> None \<Longrightarrow> buffers_ok s (AList.update n buf buffers)"
  by (auto simp: buffers_ok_def distinct_update dom_update)

lemma buffers_ok_delete: "buffers_ok s buffers \<Longrightarrow> buffers_ok s (AList.delete n buffers)"
  by (auto simp: buffers_ok_def AList.delete_eq distinct_map_filter)

lemma buffers_ok_grow: "buffers_ok s buffers \<Longrightarrow> inodes_grow s s' \<Longrightarrow> buffers_ok s' buffers"
  unfolding buffers_ok_def inodes_grow_def map_le_def by (metis domI domIff)

lemma wb_seeded_ok:
  "wb_seeded V L now d buffers n = Ok (buffers1, buf) \<Longrightarrow> buffers_ok s buffers \<Longrightarrow> by_node s n \<noteq> None \<Longrightarrow>
     buffers_ok s buffers1"
  by (auto simp: wb_seeded_def Let_def buffers_ok_update split: option.splits)

lemma wb_truncate_ok:
  "wb_truncate V L now d buffers n sz = (buffers1, r) \<Longrightarrow> buffers_ok s buffers \<Longrightarrow> by_node s n \<noteq> None \<Longrightarrow>
     buffers_ok s buffers1"
  by (auto simp: wb_truncate_def buffers_ok_update dest: wb_seeded_ok split: sum.splits prod.splits)

lemma wb_write_ok:
  assumes "buffers_ok s buffers" "by_node s n \<noteq> None" "unat offset + length data < 2 ^ 64"
  shows "\<exists>buffers1 r. wb_write V L now d buffers n offset data = Some (buffers1, r) \<and> buffers_ok s buffers1"
proof (cases "wb_seeded V L now d buffers n")
  case (Inl e)
  with assms(1) show ?thesis by (simp add: wb_write_def)
next
  case (Inr p)
  obtain buffers1 buf where p: "p = (buffers1, buf)" by fastforce
  have "buffers_ok s buffers1" using wb_seeded_ok [of V L now d buffers n buffers1 buf s] Inr p assms(1,2) by simp
  then show ?thesis using Inr p assms(2,3) by (simp add: wb_write_def Let_def buffers_ok_update)
qed

section \<open>The invariant\<close>

definition mount_ok :: "('d, 'n, 't, 'm) loro_ct \<Rightarrow> ('d \<Rightarrow> bool) \<Rightarrow> ('d, 'n, 'f) doc_mount \<Rightarrow> bool" where
  "mount_ok L dwf st \<longleftrightarrow>
     dwf (inner (mt_doc st)) \<and> tidy L (inner (mt_doc st)) \<and> inodes_ok (mt_inodes st) \<and>
     buffers_ok (mt_inodes st) (mt_buffers st)"

definition request_fits :: "request \<Rightarrow> bool" where
  "request_fits req \<longleftrightarrow> (case req of Write ino offset data \<Rightarrow> unat offset + length data < 2 ^ 64 | _ \<Rightarrow> True)"

text \<open>
  What the mount relies on: committing and merging an edit of one text keep Loro's laws and the names, and a
  slice of a text is that range of its bytes.
\<close>

locale served_doc = loro_tree L ok for L :: "('d, 'n, 't, 'm) loro_ct" and ok +
  fixes V :: "('d, 'v, 'f) vdoc"
  assumes commit_ok: "ok i \<Longrightarrow> tidy L i \<Longrightarrow> ok (ld_commit V i) \<and> tidy L (ld_commit V i)"
    and merge_ok: "ok i \<Longrightarrow> tidy L i \<Longrightarrow>
      ok (fst (set_content_at V L i n s f)) \<and> tidy L (fst (set_content_at V L i n s f))"
    and slices: "ok i \<Longrightarrow> a \<le> b \<Longrightarrow> b \<le> length (tx_str L i t) \<Longrightarrow> tx_slice_bytes L i t a b = Some delta \<Longrightarrow>
      delta_bytes delta = take (b - a) (drop a (tx_str L i t))"
begin

lemma read_bytes_total:
  assumes "ok i"
  shows "read_bytes L i t offset sz \<noteq> None"
proof -
  let ?len = "length (tx_str L i t)"
  have "read_widened L i t offset (min ?len (offset + sz)) w \<noteq> Some None" if "offset < ?len" for w
  proof (cases w)
    case (Pair ws we)
    let ?a = "offset - ws" and ?b = "min ?len (min ?len (offset + sz) + we)"
    have ab: "?a \<le> ?b" "?b \<le> ?len" using that by auto
    show ?thesis
    proof (cases "tx_slice_bytes L i t ?a ?b")
      case None
      with Pair show ?thesis by (simp add: read_widened_def)
    next
      case (Some delta)
      have "length (delta_bytes delta) = ?b - ?a" using slices [OF assms ab Some] ab(2) by simp
      moreover have "offset - ?a + (min ?len (offset + sz) - offset) \<le> ?b - ?a" using that by linarith
      ultimately show ?thesis using Pair Some by (simp add: read_widened_def Let_def)
    qed
  qed
  then have "r \<noteq> None" if "offset < ?len"
      "find_map (read_widened L i t offset (min ?len (offset + sz))) ws = Some r" for r ws
    using find_map_Some_in [OF that(2)] that(1) by metis
  then show ?thesis by (auto simp: read_bytes_def Let_def not_le split: option.split)
qed

lemma dir_path_total: "ok (inner (mt_doc st)) \<Longrightarrow> tidy L (inner (mt_doc st)) \<Longrightarrow> \<exists>r. dir_path L st ino = Some r"
proof -
  assume "ok (inner (mt_doc st))" "tidy L (inner (mt_doc st))"
  then have "\<exists>r. path_of L (inner (mt_doc st)) n = Some r" for n
    using walkable.path_of_resolves [of L ok "inner (mt_doc st)" n] loro_tree_axioms
    by (auto simp: walkable_def walkable_axioms_def)
  then show ?thesis by (auto simp: dir_path_def split: option.split)
qed

lemma child_path_total:
  "ok (inner (mt_doc st)) \<Longrightarrow> tidy L (inner (mt_doc st)) \<Longrightarrow> \<exists>r. child_path L st ino name = Some r"
  using dir_path_total [of st ino] by (auto simp: child_path_def split: option.split)

lemma put_doc_ok: "mount_ok L ok st \<Longrightarrow> ok i \<Longrightarrow> tidy L i \<Longrightarrow> mount_ok L ok (put_doc E now i st)"
  by (simp add: mount_ok_def)

lemma committed_ok: "mount_ok L ok st \<Longrightarrow> mount_ok L ok (committed V E now st)"
  by (simp add: mount_ok_def doc_commit_def commit_ok)

lemma wb_apply_ok: "mount_ok L ok st \<Longrightarrow> mount_ok L ok (wb_apply V L E now n buf st)"
  using merge_ok [of "inner (mt_doc st)" n "from_utf8_lossy (bf_bytes buf)" "bf_base buf"]
  by (auto simp: wb_apply_def mount_ok_def doc_commit_def commit_ok split: prod.split bool.split)

lemma wb_commit_ok: "mount_ok L ok st \<Longrightarrow> mount_ok L ok (wb_commit V L E now n st)"
proof -
  assume st: "mount_ok L ok st"
  then have "mount_ok L ok (st\<lparr>mt_buffers := AList.delete n (mt_buffers st)\<rparr>)"
    by (simp add: mount_ok_def buffers_ok_delete)
  with st show ?thesis by (simp add: wb_commit_def wb_apply_ok split: option.split)
qed

lemma commit_stale_ok:
  "mount_ok L ok st \<Longrightarrow>
     mount_ok L ok (commit_stale V L E now ceiling st) \<and> mt_inodes (commit_stale V L E now ceiling st) = mt_inodes st"
proof -
  have "mount_ok L ok (fold (wb_commit V L E now) ns st) \<and> mt_inodes (fold (wb_commit V L E now) ns st) = mt_inodes st"
    if "mount_ok L ok st" for ns st
    using that by (induction ns arbitrary: st) (simp_all add: wb_commit_ok)
  then show "mount_ok L ok st \<Longrightarrow> ?thesis" by (simp add: commit_stale_def)
qed

lemma commit_ino_ok:
  "mount_ok L ok st \<Longrightarrow> mount_ok L ok (commit_ino V L E now ino st) \<and> mt_inodes (commit_ino V L E now ino st) = mt_inodes st"
  by (simp add: commit_ino_def wb_commit_ok split: option.split)

lemma reply_node_ok:
  assumes "mount_ok L ok st" "unat (next_ino (mt_inodes st)) + 1 < 2 ^ 64"
  shows "mount_ok L ok (fst (reply_node L mk st n)) \<and> inodes_grow (mt_inodes st) (mt_inodes (fst (reply_node L mk st n)))"
proof -
  obtain st' r where e: "reply_node L mk st n = (st', r)" by fastforce
  note f = reply_node_frame [OF e]
  obtain i where "inode (mt_inodes st) n = (mt_inodes st', i)" using f(4) by blast
  note io = inode_ok [OF _ assms(2) this]
  show ?thesis using assms(1) e f(1,2) io(1,2) by (auto simp: mount_ok_def intro: buffers_ok_grow)
qed

text \<open>A tree operation that succeeds is committed; whatever is replied, the invariant holds.\<close>

definition serves ::
    "('d, 'n, 'f) doc_mount \<Rightarrow> ('d, 'n, 'f) answer option \<Rightarrow> bool" where
  "serves st a \<longleftrightarrow>
     (\<exists>st' r. a = Some (st', r) \<and> mount_ok L ok st' \<and> inodes_grow (mt_inodes st) (mt_inodes st'))"

lemma servesI: "mount_ok L ok st' \<Longrightarrow> inodes_grow (mt_inodes st) (mt_inodes st') \<Longrightarrow> serves st (Some (st', r))"
  by (simp add: serves_def)

lemma serves_same: "mount_ok L ok st \<Longrightarrow> serves st (Some (st, r))"
  by (rule servesI) simp_all

lemma serves_edit:
  assumes "mount_ok L ok st" "ok i" "tidy L i"
  shows "mount_ok L ok (committed V E now (st\<lparr>mt_doc := (mt_doc st)\<lparr>inner := i\<rparr>\<rparr>))"
  using assms by (intro committed_ok) (simp add: mount_ok_def)

lemma serves_node:
  assumes "mount_ok L ok st1" "mt_inodes st1 = mt_inodes st" "unat (next_ino (mt_inodes st)) + 1 < 2 ^ 64"
  shows "serves st (Some (reply_node L mk st1 n))"
  using reply_node_ok [OF assms(1), of mk n] assms(2,3)
  by (cases "reply_node L mk st1 n") (simp add: serves_def)

lemma serves_lookup:
  assumes "mount_ok L ok st" "unat (next_ino (mt_inodes st)) + 1 < 2 ^ 64"
  shows "serves st (Some (fuse_lookup L st parent name))"
  using assms by (simp add: fuse_lookup_def mount_entry_of_def serves_same serves_node split: option.split)

lemma serves_readdir:
  assumes "mount_ok L ok st" "room L st"
  shows "serves st (Some (fuse_readdir L full st ino offset))"
proof (cases "mount_children L st ino")
  case None
  with assms(1) show ?thesis by (simp add: fuse_readdir_def serves_same)
next
  case (Some ns)
  obtain s es where e: "dir_entries L (inner (mt_doc st)) ns (mt_inodes st) = (s, es)" by fastforce
  have "unat (next_ino (mt_inodes st)) + length ns < 2 ^ 64" using assms(2) Some by (auto simp: room_def)
  with dir_entries_ok [of "mt_inodes st" ns L "inner (mt_doc st)"] assms(1) e
  have "inodes_ok s" "inodes_grow (mt_inodes st) s" by (simp_all add: mount_ok_def)
  with assms(1) Some e show ?thesis
    by (auto simp: fuse_readdir_def Let_def mount_ok_def intro!: servesI intro: buffers_ok_grow)
qed

lemma serves_read:
  assumes "mount_ok L ok st"
  shows "serves st (fuse_read L st ino offset sz)"
proof -
  have "ok (inner (mt_doc st))" using assms by (simp add: mount_ok_def)
  have "serves st (map_option (\<lambda>bs. (st, Ok (RData bs))) (read_bytes L (inner (mt_doc st)) t (unat offset) (unat sz)))" for t
  proof -
    obtain bs where "read_bytes L (inner (mt_doc st)) t (unat offset) (unat sz) = Some bs"
      using read_bytes_total [OF \<open>ok (inner (mt_doc st))\<close>] by blast
    then show ?thesis by (simp add: serves_same [OF assms])
  qed
  then show ?thesis by (simp add: fuse_read_def serves_same [OF assms] split: option.split)
qed

lemma node_known: "mount_ok L ok st \<Longrightarrow> node (mt_inodes st) ino = Some n \<Longrightarrow> by_node (mt_inodes st) n \<noteq> None"
  by (auto simp: mount_ok_def inodes_ok_def node_def)

lemma touched_ok [simp]:
  "mount_ok L ok (touched now n st1) = mount_ok L ok st1" "mt_inodes (touched now n st1) = mt_inodes st1"
  by (simp_all add: mount_ok_def touched_def)

lemma serves_setattr:
  assumes "mount_ok L ok st"
  shows "serves st (Some (fuse_setattr V L now st ino sz))"
proof -
  have "mount_ok L ok (st\<lparr>mt_buffers := buffers\<rparr>)"
    if "node (mt_inodes st) ino = Some n" "wb_truncate V L now (mt_doc st) (mt_buffers st) n k = (buffers, r)" for n k buffers r
    using wb_truncate_ok [OF that(2)] node_known [OF assms that(1)] assms by (simp add: mount_ok_def)
  then show ?thesis
    using assms by (auto simp: fuse_setattr_def Let_def serves_same intro!: servesI split: option.split prod.split sum.split)
qed

lemma serves_write:
  assumes "mount_ok L ok st" "unat offset + length data < 2 ^ 64"
  shows "serves st (fuse_write V L now st ino offset data)"
proof (cases "denied st \<or> node (mt_inodes st) ino = None")
  case True
  with assms(1) show ?thesis by (auto simp: fuse_write_def serves_same)
next
  case False
  then obtain n where n: "\<not> denied st" "node (mt_inodes st) ino = Some n" by auto
  have "buffers_ok (mt_inodes st) (mt_buffers st)" using assms(1) by (simp add: mount_ok_def)
  from wb_write_ok [OF this node_known [OF assms(1) n(2)] assms(2)] obtain buffers r where
    w: "wb_write V L now (mt_doc st) (mt_buffers st) n offset data = Some (buffers, r)"
    "buffers_ok (mt_inodes st) buffers" by blast
  have "mount_ok L ok (st\<lparr>mt_buffers := buffers\<rparr>)" using assms(1) w(2) by (simp add: mount_ok_def)
  with n w(1) show ?thesis
    by (cases r) (auto simp: fuse_write_def intro!: servesI)
qed

lemma serves_child:
  assumes "mount_ok L ok st" "\<And>path. serves st (f path)"
  shows "serves st (if denied st then Some (st, Err EACCES)
     else (case child_path L st parent name of
             None \<Rightarrow> None | Some None \<Rightarrow> Some (st, Err e) | Some (Some path) \<Rightarrow> f path))"
proof -
  obtain r where "child_path L st parent name = Some r"
    using child_path_total [of st parent name] assms(1) by (auto simp: mount_ok_def)
  with assms show ?thesis by (simp add: serves_same split: option.split)
qed

lemma doc_inv: "mount_ok L ok st \<Longrightarrow> ok (inner (mt_doc st)) \<and> tidy L (inner (mt_doc st))"
  by (simp add: mount_ok_def)

lemma serves_made:
  assumes "mount_ok L ok st" "unat (next_ino (mt_inodes st)) + 1 < 2 ^ 64"
    and "\<exists>r. made = Some r \<and> (\<forall>d' n. r = Ok (d', n) \<longrightarrow> ok d' \<and> tidy L d')"
  shows "serves st (case made of None \<Rightarrow> None | Some (Inl e) \<Rightarrow> Some (st, Err (errno_of e))
     | Some (Inr (i, n)) \<Rightarrow>
         Some (reply_node L mk (committed V E now (st\<lparr>mt_doc := (mt_doc st)\<lparr>inner := i\<rparr>\<rparr>)) n))"
proof -
  obtain r where r: "made = Some r" "\<forall>d' n. r = Ok (d', n) \<longrightarrow> ok d' \<and> tidy L d'" using assms(3) by blast
  show ?thesis
  proof (cases r)
    case (Inl e)
    with r(1) assms(1) show ?thesis by (simp add: serves_same)
  next
    case (Inr p)
    obtain i n where p: "p = (i, n)" by fastforce
    have "mount_ok L ok (committed V E now (st\<lparr>mt_doc := (mt_doc st)\<lparr>inner := i\<rparr>\<rparr>))"
      using serves_edit [OF assms(1)] r(2) Inr p by blast
    from serves_node [OF this _ assms(2), of mk n] Inr p r(1) show ?thesis by simp
  qed
qed

lemma serves_gone:
  assumes "mount_ok L ok st" "\<exists>r. made = Some r \<and> (\<forall>d'. r = Ok d' \<longrightarrow> ok d' \<and> tidy L d')"
    and "\<And>i. ok i \<Longrightarrow> tidy L i \<Longrightarrow> serves st (Some (g i, Ok ROk))"
  shows "serves st (case made of None \<Rightarrow> None | Some (Inl e) \<Rightarrow> Some (st, Err (errno_of e))
     | Some (Inr i) \<Rightarrow> Some (g i, Ok ROk))"
proof -
  obtain r where "made = Some r" "\<forall>d'. r = Ok d' \<longrightarrow> ok d' \<and> tidy L d'" using assms(2) by blast
  with assms(1,3) show ?thesis by (cases r) (simp_all add: serves_same)
qed

lemma serves_create:
  assumes "mount_ok L ok st" "unat (next_ino (mt_inodes st)) + 1 < 2 ^ 64"
  shows "serves st (fuse_create V L E now st parent name)"
  unfolding fuse_create_def
  by (rule serves_child [OF assms(1) serves_made [OF assms]])
     (use create_file_refines doc_inv [OF assms(1)] in blast)

lemma serves_mkdir:
  assumes "mount_ok L ok st" "unat (next_ino (mt_inodes st)) + 1 < 2 ^ 64"
  shows "serves st (fuse_mkdir V L E now st parent name)"
  unfolding fuse_mkdir_def mount_entry_of_def
  by (rule serves_child [OF assms(1) serves_made [OF assms]])
     (use create_dir_refines doc_inv [OF assms(1)] in blast)

lemma serves_rmdir:
  assumes "mount_ok L ok st"
  shows "serves st (fuse_rmdir V L E now st parent name)"
  unfolding fuse_rmdir_def
proof (rule serves_child [OF assms serves_gone [OF assms]])
  show "\<exists>r. remove_dir L (inner (mt_doc st)) path = Some r \<and> (\<forall>d'. r = Ok d' \<longrightarrow> ok d' \<and> tidy L d')" for path
    using remove_dir_total doc_inv [OF assms] by blast
qed (simp add: servesI serves_edit [OF assms])

lemma serves_unlink:
  assumes "mount_ok L ok st"
  shows "serves st (fuse_unlink V L E now st parent name)"
  unfolding fuse_unlink_def Let_def
proof (rule serves_child [OF assms serves_gone [OF assms]])
  show "\<exists>r. remove_file L (inner (mt_doc st)) path = Some r \<and> (\<forall>d'. r = Ok d' \<longrightarrow> ok d' \<and> tidy L d')" for path
    using remove_file_total doc_inv [OF assms] by blast
  fix path i assume "ok i" "tidy L i"
  with assms show "serves st (Some (committed V E now
      (case resolve L (inner (mt_doc st)) path of
         Inl _ \<Rightarrow> st\<lparr>mt_doc := (mt_doc st)\<lparr>inner := i\<rparr>\<rparr>
       | Inr n \<Rightarrow> (st\<lparr>mt_doc := (mt_doc st)\<lparr>inner := i\<rparr>\<rparr>)\<lparr>mt_buffers :=
           wb_discard (mt_buffers (st\<lparr>mt_doc := (mt_doc st)\<lparr>inner := i\<rparr>\<rparr>)) n\<rparr>), Ok ROk))"
    by (intro servesI committed_ok)
       (auto simp: mount_ok_def wb_discard_def buffers_ok_delete split: sum.split)
qed

lemma serves_rename:
  assumes "mount_ok L ok st"
  shows "serves st (fuse_rename V L E now st parent name newparent newname flags)"
proof -
  obtain a b where ab: "child_path L st parent name = Some a" "child_path L st newparent newname = Some b"
    using child_path_total [of st] doc_inv [OF assms] by blast
  have "serves st (case fs_rename L (inner (mt_doc st)) path to of
      None \<Rightarrow> None | Some (Inl e) \<Rightarrow> Some (st, Err (errno_of e))
    | Some (Inr i) \<Rightarrow> Some (committed V E now (st\<lparr>mt_doc := (mt_doc st)\<lparr>inner := i\<rparr>\<rparr>), Ok ROk))" for path to
  proof (rule serves_gone [OF assms])
    obtain r where r: "fs_rename L (inner (mt_doc st)) path to = Some r" using rename_iff doc_inv [OF assms] by blast
    have "ok d' \<and> tidy L d'" if "r = Ok d'" for d'
      using rename_refines [of "inner (mt_doc st)" path to] doc_inv [OF assms] r that by fastforce
    with r show "\<exists>r. fs_rename L (inner (mt_doc st)) path to = Some r \<and> (\<forall>d'. r = Ok d' \<longrightarrow> ok d' \<and> tidy L d')" by blast
  qed (simp add: servesI serves_edit [OF assms])
  with ab assms show ?thesis
    by (auto simp: fuse_rename_def serves_same split: option.split)
qed

lemma handle_serves:
  assumes "mount_ok L ok st" "room L st" "request_fits req"
  shows "serves st (handle V L E full now st req)"
proof -
  have rm: "unat (next_ino (mt_inodes st)) + 1 < 2 ^ 64" using assms(2) by (simp add: room_def)
  show ?thesis
    using assms commit_ino_ok [OF assms(1)]
    by (cases req)
       (simp_all add: handle_def serves_lookup [OF _ rm] serves_setattr serves_readdir serves_read serves_write
          serves_create [OF _ rm] serves_mkdir [OF _ rm] serves_unlink serves_rmdir serves_rename request_fits_def
          fuse_flush_def fuse_release_def fuse_fsync_def fuse_getattr_def serves_same servesI)
qed

text \<open>What a write answers, with or without an overflowing range, leaves the invariant.\<close>

lemma write_answers:
  assumes "mount_ok L ok st" "fuse_write V L now st ino offset data = Some (st', r)"
  shows "mount_ok L ok st' \<and> inodes_grow (mt_inodes st) (mt_inodes st')"
proof (cases "unat offset + length data < 2 ^ 64")
  case True
  with serves_write [OF assms(1) True, of now ino] assms(2) show ?thesis by (simp add: serves_def)
next
  case False
  then have "st' = st"
    using assms(2) by (auto simp: fuse_write_def wb_write_def Let_def split: if_splits option.splits sum.splits prod.splits)
  with assms(1) show ?thesis by simp
qed

lemma step_ok:
  assumes "mount_step V L E full (\<lambda>i. ok i \<and> tidy L i) st st'" "mount_ok L ok st"
  shows "mount_ok L ok st' \<and> inodes_grow (mt_inodes st) (mt_inodes st')"
  using assms(1)
proof cases
  case (served now req r)
  show ?thesis
  proof (cases "request_fits req")
    case True
    from handle_serves [OF assms(2) served(2) True, of E full now] served(1) show ?thesis by (simp add: serves_def)
  next
    case False
    then obtain ino offset data where "req = Write ino offset data" by (auto simp: request_fits_def split: request.splits)
    with served(1) write_answers [OF assms(2)] show ?thesis by (simp add: handle_def)
  qed
next
  case (ticked now)
  with commit_stale_ok [OF assms(2)] show ?thesis by simp
next
  case (synced i now)
  with assms(2) show ?thesis by (simp add: put_doc_ok)
next
  case refused
  with assms(2) show ?thesis by (simp add: mount_ok_def)
qed

lemma new_ok: "ok (inner d) \<Longrightarrow> tidy L (inner d) \<Longrightarrow> mount_ok L ok (mount_new d uid gid epoch)"
  by (simp add: mount_ok_def mount_new_def inodes_new_ok buffers_ok_def)

lemma run_ok:
  assumes "(mount_step V L E full (\<lambda>i. ok i \<and> tidy L i))\<^sup>*\<^sup>* st st'" "mount_ok L ok st"
  shows "mount_ok L ok st' \<and> inodes_grow (mt_inodes st) (mt_inodes st')"
  using assms
proof (induction rule: rtranclp_induct)
  case (step a b)
  with step_ok [OF step(2)] show ?case by (blast intro: inodes_grow_trans)
qed simp

end

section \<open>An instance\<close>

text \<open>A document whose only text is number 1: an update carries that text.\<close>

definition one_text :: "(rtree, unit, unit) vdoc" where
  "one_text = \<lparr>ld_new = (\<lambda>p. rt_empty), ld_peer_id = (\<lambda>d. 0), ld_commit = (\<lambda>d. d), ld_state_vv = (\<lambda>d. ()),
     ld_state_frontiers = (\<lambda>d. ()), ld_export_snapshot = (\<lambda>d. Err []), ld_export_updates = (\<lambda>d v. Ok (rt_str d 1)),
     ld_import = (\<lambda>d bs. (rt_set d 1 bs, Ok False)), ld_fork_at = (\<lambda>d f. Some d), vv_default = (), vv_encode = (\<lambda>v. []),
     vv_decode = (\<lambda>bs. Ok ())\<rparr>"

lemma tidy_set: "rt_ok d \<Longrightarrow> tidy ref_ct (rt_set d t s) = tidy ref_ct d"
proof -
  assume "rt_ok d"
  from rt.update_text [OF this, of t s "rt_set d t s"]
  have "same_tree ref_ct d (rt_set d t s)" "same_maps ref_ct d (rt_set d t s)" by simp_all
  from loro_tree.same_located(5) [OF rt.loro_tree_axioms this] show ?thesis .
qed

interpretation mounted: served_doc ref_ct rt_ok one_text
proof (unfold_locales, goal_cases)
  case (1 i)
  then show ?case by (simp add: one_text_def)
next
  case (2 i n s f)
  then show ?case by (auto simp: one_text_def set_content_at_def rt_set_ok tidy_set split: option.split)
next
  case (3 i a b t delta)
  then show ?case by (auto simp: ref_ct_def delta_bytes_def split: if_splits)
qed

end
