(* ===== verification/Mount_Props.thy ===== *)
theory Mount_Props
  imports Mount_Inv
begin

text \<open>
  Properties of the mount: its invariant over every run, what a client sees of its own buffered writes and what
  becomes of them, what a revoked key still can do, and the listing of a directory in pieces.
\<close>

section \<open>The invariant over a run\<close>

text \<open>
  C28. From the state a mount starts in, whatever requests, idle commits, imports and revocation follow in
  whatever order, the document keeps Loro's laws and distinct sibling names, inodes and nodes stay in one-to-one
  correspondence with numbers from 2 up, and there is at most one buffer for a node, which the kernel was told
  of.  Every request the kernel can make is then answered without a panic, and no later step takes a number away
  from its node.\<close>

theorem mount_stays_sound:
  assumes "served_doc L dwf V" "dwf (inner d)" "tidy L (inner d)"
    and "(mount_step V L E full (\<lambda>i. dwf i \<and> tidy L i))\<^sup>*\<^sup>* (mount_new d uid gid epoch) st"
  shows "mount_ok L dwf st \<and>
         (\<forall>now req. room L st \<longrightarrow> request_fits req \<longrightarrow> handle V L E full now st req \<noteq> None) \<and>
         (\<forall>st'. mount_step V L E full (\<lambda>i. dwf i \<and> tidy L i) st st' \<longrightarrow> inodes_grow (mt_inodes st) (mt_inodes st'))"
proof -
  note sd = assms(1)
  have ok: "mount_ok L dwf st"
    using served_doc.run_ok [OF sd assms(4) served_doc.new_ok [OF sd assms(2,3)]] by simp
  moreover have "handle V L E full now st req \<noteq> None" if "room L st" "request_fits req" for now req
    using served_doc.handle_serves [OF sd ok that, of E full now] by (auto simp: served_doc.serves_def [OF sd])
  ultimately show ?thesis using served_doc.step_ok [OF sd _ ok] by blast
qed

definition demo_mounted :: "(rtree, nat, unit) doc_mount" where
  "demo_mounted = mount_new \<lparr>inner = fst (the (ft_create_file ref_ct rt_empty None ''f'')), comment_seq = 0\<rparr> 1000 1000 7"

text \<open>The first change of a content is reported, and an empty reply has room.\<close>

definition demo_reports :: "(rtree, nat) reports" where
  "demo_reports = (\<lambda>d d'. if rt_texts d = rt_texts d' then None else Some [Content 0])"

lemma demo_mounted_doc: "rt_ok (inner (mt_doc demo_mounted))" "tidy ref_ct (inner (mt_doc demo_mounted))"
proof -
  show ok: "rt_ok (inner (mt_doc demo_mounted))" by code_simp
  show "tidy ref_ct (inner (mt_doc demo_mounted))" by (rule rt_tidyI [OF ok]) code_simp
qed

theorem mount_stays_sound_witness:
  "\<exists>st' r. handle one_text ref_ct demo_reports (\<lambda>acc e. False) 9 demo_mounted (Create 1 ''g'') = Some (st', r) \<and>
     mount_ok ref_ct rt_ok st'"
proof -
  let ?h = "handle one_text ref_ct demo_reports (\<lambda>acc e. False) 9 demo_mounted (Create 1 ''g'')"
  have new: "demo_mounted = mount_new (mt_doc demo_mounted) 1000 1000 7" by (simp add: demo_mounted_def mount_new_def)
  have "room ref_ct demo_mounted"
  proof -
    have "ft_roots ref_ct (inner (mt_doc demo_mounted)) = [0]" by code_simp
    then show ?thesis by (auto simp: room_def mount_children_def demo_mounted_def mount_new_def inodes_new_def node_def)
  qed
  moreover have "?h \<noteq> None"
    using mount_stays_sound [OF mounted.served_doc_axioms demo_mounted_doc, of demo_reports "\<lambda>acc e. False" 1000 1000 7 demo_mounted]
      new \<open>room ref_ct demo_mounted\<close> by (simp add: request_fits_def)
  then obtain st' r where h: "?h = Some (st', r)" by fastforce
  ultimately have "mount_step one_text ref_ct demo_reports (\<lambda>acc e. False) (\<lambda>i. rt_ok i \<and> tidy ref_ct i) demo_mounted st'"
    by (rule mount_step.served [rotated])
  then have "(mount_step one_text ref_ct demo_reports (\<lambda>acc e. False) (\<lambda>i. rt_ok i \<and> tidy ref_ct i))\<^sup>*\<^sup>*
      (mount_new (mt_doc demo_mounted) 1000 1000 7) st'"
    using new by (metis r_into_rtranclp)
  from mount_stays_sound [OF mounted.served_doc_axioms demo_mounted_doc this] h show ?thesis by blast
qed

section \<open>Writing back\<close>

text \<open>The bytes of a file after a write at an offset and after a truncation, position by position.\<close>

definition pwrite :: "bytes \<Rightarrow> nat \<Rightarrow> bytes \<Rightarrow> bytes" where
  "pwrite old off data =
     map (\<lambda>i. if off \<le> i \<and> i < off + length data then data ! (i - off)
              else if i < length old then old ! i else CHR 0x00) [0..<max (length old) (off + length data)]"

definition ptruncate :: "bytes \<Rightarrow> nat \<Rightarrow> bytes" where
  "ptruncate old n = map (\<lambda>i. if i < length old then old ! i else CHR 0x00) [0..<n]"

lemma length_pwrite [simp]: "length (pwrite old off data) = max (length old) (off + length data)"
  by (simp add: pwrite_def)

lemma resize_ptruncate: "resize old n = ptruncate old n"
  by (rule nth_equalityI) (auto simp: resize_def ptruncate_def nth_append)

lemma splice_pwrite:
  "(let bs = (if length old < off + length data then resize old (off + length data) else old)
    in take off bs @ data @ drop (off + length data) bs) = pwrite old off data"
  by (rule nth_equalityI) (auto simp: Let_def resize_def pwrite_def nth_append max_def)

text \<open>Requests on one file, with imports by the sync session in between.\<close>

datatype 'd edit = EWrite "64 word" bytes | ETruncate "64 word" | ESync 'd

fun edit_run ::
    "('d, 'v, 'f) vdoc \<Rightarrow> ('d, 'n, 't, 'm) loro_ct \<Rightarrow> ('d, 'n) reports \<Rightarrow> 64 word \<Rightarrow> ('d, 'n, 'f) doc_mount
       \<Rightarrow> (nat \<times> 'd edit) list \<Rightarrow> ('d, 'n, 'f) doc_mount option" where
  "edit_run V L E ino st [] = Some st"
| "edit_run V L E ino st ((now, e) # es) =
     (case (case e of
              EWrite offset data \<Rightarrow> map_option fst (fuse_write V L now st ino offset data)
            | ETruncate sz \<Rightarrow> Some (fst (fuse_setattr V L now st ino (Some sz)))
            | ESync i \<Rightarrow> Some (put_doc E now i st)) of
        None \<Rightarrow> None
      | Some st1 \<Rightarrow> edit_run V L E ino st1 es)"

definition edit_bytes :: "bytes \<Rightarrow> (nat \<times> 'd edit) list \<Rightarrow> bytes" where
  "edit_bytes old es = foldl (\<lambda>bs (now, e). case e of
     EWrite offset data \<Rightarrow> pwrite bs (unat offset) data
   | ETruncate sz \<Rightarrow> ptruncate bs (unat sz)
   | ESync i \<Rightarrow> bs) old es"

definition edit_doc :: "'d \<Rightarrow> (nat \<times> 'd edit) list \<Rightarrow> 'd" where
  "edit_doc d es = foldl (\<lambda>d (now, e). case e of ESync i \<Rightarrow> i | _ \<Rightarrow> d) d es"

definition edit_fits :: "'d edit \<Rightarrow> bool" where
  "edit_fits e \<longleftrightarrow> (case e of EWrite offset data \<Rightarrow> unat offset + length data < 2 ^ 64 | _ \<Rightarrow> True)"

text \<open>What a write to the node starts from: its buffer, or else the document.\<close>

definition shadow ::
    "('d, 'v, 'f) vdoc \<Rightarrow> ('d, 'n, 't, 'm) loro_ct \<Rightarrow> ('d, 'n, 'f) doc_mount \<Rightarrow> 'n \<Rightarrow> (bytes \<times> 'f) option" where
  "shadow V L st n =
     (case map_of (mt_buffers st) n of
        Some buf \<Rightarrow> Some (bf_bytes buf, bf_base buf)
      | None \<Rightarrow>
          map_option (\<lambda>t. (tx_str L (inner (mt_doc st)) t, doc_frontiers V (mt_doc st))) (ft_content L (inner (mt_doc st)) n))"

text \<open>A node with such a buffer, under a key that is not revoked.\<close>

definition dirty ::
    "('d, 'n, 'f) doc_mount \<Rightarrow> 64 word \<Rightarrow> 'n \<Rightarrow> bytes \<Rightarrow> 'f \<Rightarrow> bool" where
  "dirty st ino n bs base \<longleftrightarrow>
     \<not> mt_revoked st \<and> node (mt_inodes st) ino = Some n \<and>
     (\<exists>buf. map_of (mt_buffers st) n = Some buf \<and> bf_bytes buf = bs \<and> bf_base buf = base)"

lemma seeded_shadow:
  "shadow V L st n = Some (bs, base) \<Longrightarrow>
     \<exists>buffers buf. wb_seeded V L now (mt_doc st) (mt_buffers st) n = Ok (buffers, buf) \<and> bf_bytes buf = bs \<and> bf_base buf = base"
  by (auto simp: shadow_def wb_seeded_def Let_def split: option.splits)

lemma write_dirty:
  assumes "\<not> mt_revoked st" "node (mt_inodes st) ino = Some n" "shadow V L st n = Some (bs, base)"
    "unat offset + length data < 2 ^ 64"
  shows "\<exists>st1. fuse_write V L now st ino offset data = Some (st1, Ok (RWritten (of_nat (length data)))) \<and>
    dirty st1 ino n (pwrite bs (unat offset) data) base \<and> mt_doc st1 = mt_doc st"
proof -
  obtain buffers buf where s: "wb_seeded V L now (mt_doc st) (mt_buffers st) n = Ok (buffers, buf)"
    "bf_bytes buf = bs" "bf_base buf = base" using seeded_shadow [OF assms(3)] by blast
  let ?buf = "buf\<lparr>bf_bytes := pwrite bs (unat offset) data, bf_last_write := now\<rparr>"
  have "wb_write V L now (mt_doc st) (mt_buffers st) n offset data =
      Some (AList.update n ?buf buffers, Ok (of_nat (length data)))"
    using s assms(4) splice_pwrite [of bs "unat offset" data]
    by (cases "length bs < unat offset + length data") (simp_all add: wb_write_def Let_def)
  then show ?thesis
    using assms(1,2) s(3) by (simp add: fuse_write_def denied_def dirty_def touched_def update_Some_unfold)
qed

lemma truncate_dirty:
  assumes "\<not> mt_revoked st" "node (mt_inodes st) ino = Some n" "shadow V L st n = Some (bs, base)"
  shows "dirty (fst (fuse_setattr V L now st ino (Some sz))) ino n (ptruncate bs (unat sz)) base \<and>
    mt_doc (fst (fuse_setattr V L now st ino (Some sz))) = mt_doc st"
proof -
  obtain buffers buf where s: "wb_seeded V L now (mt_doc st) (mt_buffers st) n = Ok (buffers, buf)"
    "bf_bytes buf = bs" "bf_base buf = base" using seeded_shadow [OF assms(3)] by blast
  then show ?thesis
    using assms(1,2)
    by (simp add: fuse_setattr_def wb_truncate_def denied_def dirty_def touched_def Let_def resize_ptruncate update_Some_unfold)
qed

lemma edit_bytes_Cons: "edit_bytes bs (p # es) = edit_bytes (edit_bytes bs [p]) es"
  by (simp add: edit_bytes_def)

lemma edit_doc_Cons: "edit_doc d (p # es) = edit_doc (edit_doc d [p]) es"
  by (simp add: edit_doc_def)

lemma dirty_shadow: "dirty st ino n bs base \<Longrightarrow> shadow V L st n = Some (bs, base)"
  by (auto simp: dirty_def shadow_def)

lemma edit_dirty:
  assumes "\<not> mt_revoked st" "node (mt_inodes st) ino = Some n" "shadow V L st n = Some (bs, base)" "edit_fits e"
    and "(case e of ESync i \<Rightarrow> dirty st ino n bs base | _ \<Rightarrow> True)"
  shows "\<exists>st1. edit_run V L E ino st ((now, e) # es) = edit_run V L E ino st1 es \<and>
    dirty st1 ino n (edit_bytes bs [(now, e)]) base \<and>
    inner (mt_doc st1) = edit_doc (inner (mt_doc st)) [(now, e)]"
proof (cases e)
  case (EWrite offset data)
  then have "unat offset + length data < 2 ^ 64" using assms(4) by (simp add: edit_fits_def)
  from write_dirty [OF assms(1-3) this, of now] EWrite show ?thesis
    by (fastforce simp: edit_bytes_def edit_doc_def)
next
  case (ETruncate sz)
  with truncate_dirty [OF assms(1-3), of now sz] show ?thesis
    by (auto simp: edit_bytes_def edit_doc_def)
next
  case (ESync i)
  with assms(5) show ?thesis by (auto simp: edit_bytes_def edit_doc_def dirty_def)
qed

lemma edits_dirty:
  "dirty st ino n bs base \<Longrightarrow> \<forall>(now, e) \<in> set es. edit_fits e \<Longrightarrow>
     \<exists>st1. edit_run V L E ino st es = Some st1 \<and> dirty st1 ino n (edit_bytes bs es) base \<and>
       inner (mt_doc st1) = edit_doc (inner (mt_doc st)) es"
proof (induction es arbitrary: st bs)
  case Nil
  then show ?case by (simp add: edit_bytes_def edit_doc_def)
next
  case (Cons p es)
  obtain now e where p: "p = (now, e)" by fastforce
  have pre: "\<not> mt_revoked st" "node (mt_inodes st) ino = Some n" using Cons.prems(1) by (simp_all add: dirty_def)
  have "case e of ESync i \<Rightarrow> dirty st ino n bs base | _ \<Rightarrow> True" using Cons.prems(1) by (cases e) simp_all
  from edit_dirty [OF pre dirty_shadow [OF Cons.prems(1), of V L] _ this, where E = E and now = now and es = es] Cons.prems(2) p
  obtain st1 where st1: "edit_run V L E ino st (p # es) = edit_run V L E ino st1 es"
    "dirty st1 ino n (edit_bytes bs [(now, e)]) base" "inner (mt_doc st1) = edit_doc (inner (mt_doc st)) [(now, e)]" by auto
  from Cons.IH [OF st1(2)] Cons.prems(2) st1(3) p show ?case
    unfolding st1(1) edit_bytes_Cons [of bs p es] edit_doc_Cons [of _ p es] by simp
qed

lemma edit_bytes_length:
  "length bs < 2 ^ 64 \<Longrightarrow> \<forall>(now, e) \<in> set es. edit_fits e \<Longrightarrow> length (edit_bytes bs es) < 2 ^ 64"
proof (induction es arbitrary: bs)
  case Nil
  then show ?case by (simp add: edit_bytes_def)
next
  case (Cons p es)
  obtain now e where p: "p = (now, e)" by fastforce
  have fits: "edit_fits e" using Cons.prems(2) p by simp
  have "length (edit_bytes bs [p]) < 2 ^ 64"
  proof (cases e)
    case (EWrite offset data)
    with fits Cons.prems(1) p show ?thesis by (simp add: edit_bytes_def edit_fits_def)
  next
    case (ETruncate sz)
    with unsigned_less [of sz, where ?'a = nat] p show ?thesis by (simp add: edit_bytes_def ptruncate_def)
  next
    case (ESync i)
    with Cons.prems(1) p show ?thesis by (simp add: edit_bytes_def)
  qed
  with Cons.IH [of "edit_bytes bs [p]"] Cons.prems(2) show ?case by (simp add: edit_bytes_Cons [of bs p es])
qed

lemma dirty_read:
  assumes "dirty st ino n bs base" "length bs < 2 ^ 64"
  shows "fuse_read L st ino offset sz = Some (st, Ok (RData (take (unat sz) (drop (unat offset) bs))))"
proof -
  have u: "unat (ucast sz :: 64 word) = unat sz"
    using unsigned_less [of sz, where ?'a = nat] by (simp add: unsigned_ucast_eq take_bit_nat_eq_self)
  have "wb_read (mt_buffers st) n offset (ucast sz) = Some (take (unat sz) (drop (unat offset) bs))"
    using assms u by (auto simp: dirty_def wb_read_def Let_def saturating_add_def min_def)
  with assms(1) show ?thesis by (auto simp: fuse_read_def dirty_def)
qed

text \<open>
  C29. From the first write or truncation of a file that has no buffer, through any sequence of further
  writes, truncations and imports by the sync session, the writer reads back exactly the bytes a plain file
  would hold, zero-filled where it grew, while the document only changes by the imports.  A flush then makes
  one edit of it: the bytes, read as text, merged into the document of that moment against the frontier of
  the moment the buffer was first written.\<close>

theorem write_back_is_one_edit:
  assumes "\<not> mt_revoked st" "node (mt_inodes st) ino = Some n" "map_of (mt_buffers st) n = None"
    and "ft_content L (inner (mt_doc st)) n = Some t" "length (tx_str L (inner (mt_doc st)) t) < 2 ^ 64"
    and "\<forall>(now, e) \<in> set es. edit_fits e" "es \<noteq> []" "\<forall>i. snd (hd es) \<noteq> ESync i"
  shows "\<exists>st1 bs. bs = edit_bytes (tx_str L (inner (mt_doc st)) t) es \<and> edit_run V L E ino st es = Some st1 \<and>
           inner (mt_doc st1) = edit_doc (inner (mt_doc st)) es \<and>
           (\<forall>offset sz. fuse_read L st1 ino offset sz = Some (st1, Ok (RData (take (unat sz) (drop (unat offset) bs))))) \<and>
           (\<forall>now. inner (mt_doc (fst (fuse_flush V L E now st1 ino))) =
              (case set_content_at V L (inner (mt_doc st1)) n (from_utf8_lossy bs) (doc_frontiers V (mt_doc st)) of
                 (i, merged) \<Rightarrow> if merged then ld_commit V i else i) \<and>
              map_of (mt_buffers (fst (fuse_flush V L E now st1 ino))) n = None)"
proof -
  let ?text = "tx_str L (inner (mt_doc st)) t" and ?base = "doc_frontiers V (mt_doc st)"
  obtain now e es' where es: "es = (now, e) # es'" using assms(7) by (cases es) auto
  have e: "edit_fits e" "\<forall>(now, e) \<in> set es'. edit_fits e" using assms(6) es by auto
  have "shadow V L st n = Some (?text, ?base)" using assms(3,4) by (simp add: shadow_def)
  from edit_dirty [OF assms(1,2) this e(1), where E = E and now = now and es = es'] assms(8) es obtain st0 where
    st0: "edit_run V L E ino st es = edit_run V L E ino st0 es'" "dirty st0 ino n (edit_bytes ?text [(now, e)]) ?base"
    "inner (mt_doc st0) = edit_doc (inner (mt_doc st)) [(now, e)]" by (cases e) auto
  from edits_dirty [OF st0(2) e(2), of V L E] st0(1,3) es obtain st1 where
    st1: "edit_run V L E ino st es = Some st1" "dirty st1 ino n (edit_bytes ?text es) ?base"
    "inner (mt_doc st1) = edit_doc (inner (mt_doc st)) es"
    unfolding es edit_bytes_Cons [of ?text "(now, e)" es'] edit_doc_Cons [of "inner (mt_doc st)" "(now, e)" es']
    by auto
  have "length (edit_bytes ?text es) < 2 ^ 64" using edit_bytes_length [OF assms(5,6)] .
  note rd = dirty_read [OF st1(2) this]
  have "inner (mt_doc (fst (fuse_flush V L E now st1 ino))) =
      (case set_content_at V L (inner (mt_doc st1)) n (from_utf8_lossy (edit_bytes ?text es)) ?base of
         (i, merged) \<Rightarrow> if merged then ld_commit V i else i) \<and>
      map_of (mt_buffers (fst (fuse_flush V L E now st1 ino))) n = None" for now
    using st1(2)
    by (auto simp: dirty_def fuse_flush_def commit_ino_def wb_commit_def wb_apply_def doc_commit_def delete_conv'
        split: prod.split bool.split)
  with st1 rd show ?thesis by blast
qed

definition demo_open :: "(rtree, nat, unit) doc_mount" where
  "demo_open = fst (fuse_lookup ref_ct demo_mounted 1 ''f'')"

definition demo_edits :: "(nat \<times> rtree edit) list" where
  "demo_edits = [(1, EWrite 0 ''hello''), (2, ETruncate 4), (3, EWrite 5 ''!'')]"

theorem write_back_is_one_edit_witness:
  "\<exists>st1. edit_run one_text ref_ct demo_reports 2 demo_open demo_edits = Some st1 \<and>
     fuse_read ref_ct st1 2 2 9 = Some (st1, Ok (RData [CHR ''l'', CHR ''l'', CHR 0x00, CHR ''!'']))"
proof -
  have c: "\<not> mt_revoked demo_open" "node (mt_inodes demo_open) 2 = Some 0" "map_of (mt_buffers demo_open) 0 = None"
    "ft_content ref_ct (inner (mt_doc demo_open)) 0 = Some 1" "tx_str ref_ct (inner (mt_doc demo_open)) 1 = []" by code_simp+
  have f: "\<forall>(now, e) \<in> set demo_edits. edit_fits e" "demo_edits \<noteq> []" "\<forall>i. snd (hd demo_edits) \<noteq> ESync i"
    by (simp_all add: demo_edits_def edit_fits_def)
  have "edit_bytes [] demo_edits = [CHR ''h'', CHR ''e'', CHR ''l'', CHR ''l'', CHR 0x00, CHR ''!'']" by code_simp
  with write_back_is_one_edit [OF c(1-4) _ f, of one_text demo_reports] c(5) show ?thesis by force
qed

section \<open>A revoked key\<close>

definition mutates :: "request \<Rightarrow> bool" where
  "mutates req \<longleftrightarrow> (case req of
     Setattr ino (Some sz) \<Rightarrow> True | Write ino offset data \<Rightarrow> True | Create parent name \<Rightarrow> True | Mkdir parent name \<Rightarrow> True
   | Unlink parent name \<Rightarrow> True | Rmdir parent name \<Rightarrow> True | Rename parent name newparent newname flags \<Rightarrow> True | _ \<Rightarrow> False)"

text \<open>
  C31. Once the host has refused the key for good and what was buffered is committed, the mount is
  read-only: every request that would change something is answered with \<open>EACCES\<close>, and whatever is answered,
  nothing but the inode table changes: no edit of the document, no buffered byte, no nudge to the sync session.\<close>

theorem revoked_is_read_only:
  assumes "mt_revoked st" "mt_buffers st = []" "handle V L E full now st req = Some (st', r)"
  shows "st' = st\<lparr>mt_inodes := mt_inodes st'\<rparr> \<and> (mutates req \<longrightarrow> r = Err EACCES)"
proof -
  have reply: "st1 = st\<lparr>mt_inodes := mt_inodes st1\<rparr>" if "reply_node L mk st n = (st1, r1)" for mk n st1 r1
    using that by (auto simp: reply_node_def Let_def split: prod.splits)
  have idle: "commit_ino V L E now ino st = st" for ino
    using assms(2) by (simp add: commit_ino_def wb_commit_def split: option.split)
  show ?thesis
  proof (cases req)
    case (Lookup parent name)
    with assms(3) reply show ?thesis
      by (auto simp: handle_def fuse_lookup_def mount_entry_of_def mutates_def split: option.splits)
  next
    case (Setattr ino sz)
    with assms show ?thesis by (cases sz) (auto simp: handle_def fuse_setattr_def denied_def mutates_def)
  next
    case (Readdir ino offset)
    with assms(3) show ?thesis
      by (auto simp: handle_def fuse_readdir_def Let_def mutates_def split: option.splits prod.splits)
  next
    case (Read ino offset sz)
    with assms(3) show ?thesis by (auto simp: handle_def fuse_read_def mutates_def split: option.splits)
  qed (use assms(1,3) idle in \<open>auto simp: handle_def mutates_def denied_def fuse_getattr_def fuse_write_def fuse_flush_def
        fuse_release_def fuse_fsync_def fuse_create_def fuse_mkdir_def fuse_unlink_def fuse_rmdir_def fuse_rename_def\<close>)
qed

theorem revoked_is_read_only_witness:
  "handle one_text ref_ct demo_reports (\<lambda>acc e. False) 9 (demo_open\<lparr>mt_revoked := True\<rparr>) (Unlink 1 ''f'') =
     Some (demo_open\<lparr>mt_revoked := True\<rparr>, Err EACCES)"
proof -
  let ?st = "demo_open\<lparr>mt_revoked := True\<rparr>"
  have "mt_buffers ?st = []" by code_simp
  moreover have "handle one_text ref_ct demo_reports (\<lambda>acc e. False) 9 ?st (Unlink 1 ''f'') = Some (?st, Err EACCES)"
    by (simp add: handle_def fuse_unlink_def denied_def)
  ultimately show ?thesis
    using revoked_is_read_only [of ?st one_text ref_ct demo_reports "\<lambda>acc e. False" 9 "Unlink 1 ''f''" ?st "Err EACCES"]
    by (simp add: mutates_def)
qed

section \<open>Listing a directory in pieces\<close>

definition dir_listing :: "64 word \<Rightarrow> (64 word \<times> file_type \<times> string) list \<Rightarrow> dir_entry list" where
  "dir_listing ino es =
     map (\<lambda>(i, ino, kind, name). \<lparr>de_ino = ino, de_offset = of_nat (i + 1), de_kind = kind, de_name = name\<rparr>)
       (List.enumerate 0 ([(ino, Directory, ''.''), (ROOT, Directory, ''..'')] @ es))"

text \<open>Reading on from the offset of the last entry until there is none.\<close>

fun read_pages ::
    "('d, 'n, 't, 'm) loro_ct \<Rightarrow> (dir_entry list \<Rightarrow> dir_entry \<Rightarrow> bool) \<Rightarrow> nat \<Rightarrow> ('d, 'n, 'f) doc_mount \<Rightarrow> 64 word \<Rightarrow> 64 word
       \<Rightarrow> dir_entry list" where
  "read_pages L full 0 st ino offset = []"
| "read_pages L full (Suc fuel) st ino offset =
     (case fuse_readdir L full st ino offset of
        (st1, Inr (RDir es)) \<Rightarrow> if es = [] then [] else es @ read_pages L full fuel st1 ino (de_offset (last es))
      | _ \<Rightarrow> [])"

lemma readdir_listing:
  assumes "mount_children L st ino = Some ns" "dir_entries L (inner (mt_doc st)) ns (mt_inodes st) = (s, es)"
  shows "fuse_readdir L full st ino offset =
    (st\<lparr>mt_inodes := s\<rparr>, Ok (RDir (add_entries full [] (drop (unat offset) (dir_listing ino es)))))"
  using assms by (simp add: fuse_readdir_def dir_listing_def)

lemma length_dir_listing [simp]: "length (dir_listing ino es) = length es + 2"
  by (simp add: dir_listing_def)

lemma nth_dir_listing:
  "i < length es + 2 \<Longrightarrow> de_offset (dir_listing ino es ! i) = of_nat (i + 1)"
  by (simp add: dir_listing_def nth_enumerate_eq split: prod.split del: enumerate_simps append_Cons append_Nil)

lemma listing_entries:
  "map (\<lambda>e. (f (de_ino e), de_kind e, de_name e)) (drop 2 (dir_listing ino es)) = map (\<lambda>(i, kind, name). (f i, kind, name)) es"
  "map de_name (take 2 (dir_listing ino es)) = [''.'', ''..'']"
proof -
  have "map (\<lambda>(i, ino, kind, name). (f ino, kind, name)) (List.enumerate k es) = map (\<lambda>(i, kind, name). (f i, kind, name)) es" for k
    by (induction es arbitrary: k) auto
  then show "map (\<lambda>e. (f (de_ino e), de_kind e, de_name e)) (drop 2 (dir_listing ino es)) = map (\<lambda>(i, kind, name). (f i, kind, name)) es"
    by (simp add: dir_listing_def comp_def case_prod_unfold)
qed (simp add: dir_listing_def)

lemma add_entries_take:
  "\<exists>k. add_entries full acc es = acc @ take k es \<and> k \<le> length es \<and> (es \<noteq> [] \<longrightarrow> \<not> full acc (hd es) \<longrightarrow> 0 < k)"
proof (induction es arbitrary: acc)
  case (Cons e es)
  show ?case
  proof (cases "full acc e")
    case True
    then show ?thesis by (intro exI [of _ 0]) simp
  next
    case False
    from Cons.IH [of "acc @ [e]"] obtain k where
      "add_entries full (acc @ [e]) es = (acc @ [e]) @ take k es" "k \<le> length es" by blast
    with False show ?thesis by (intro exI [of _ "Suc k"]) simp
  qed
qed simp

text \<open>One page, as a piece of the listing.\<close>

lemma page_piece:
  assumes "mount_children L st ino = Some ns" "dir_entries L (inner (mt_doc st)) ns (mt_inodes st) = (s, es)"
    and "\<forall>e. \<not> full [] e" "length es + 2 < 2 ^ 64" "unat offset < length es + 2"
  obtains page where "fuse_readdir L full st ino offset = (st\<lparr>mt_inodes := s\<rparr>, Ok (RDir page))" "page \<noteq> []"
    "page @ drop (unat (de_offset (last page))) (dir_listing ino es) = drop (unat offset) (dir_listing ino es)"
    "unat (de_offset (last page)) = unat offset + length page" "unat offset + length page \<le> length es + 2"
proof -
  let ?xs = "dir_listing ino es" and ?o = "unat offset"
  have ne: "drop ?o ?xs \<noteq> []" using assms(5) by simp
  from add_entries_take [of full "[]" "drop ?o ?xs"] assms(3) ne obtain k where
    k: "add_entries full [] (drop ?o ?xs) = take k (drop ?o ?xs)" "k \<le> length es + 2 - ?o" "0 < k" by auto
  let ?page = "take k (drop ?o ?xs)"
  have len: "length ?page = k" using k(2) by simp
  then have pne: "?page \<noteq> []" using k(3) by auto
  have "last ?page = ?xs ! (?o + k - 1)" using k(2,3) assms(5) len pne by (simp add: last_conv_nth)
  then have "de_offset (last ?page) = of_nat (?o + k)"
    using nth_dir_listing [of "?o + k - 1" es ino] k(2,3) assms(5) by (simp del: of_nat_add)
  then have off: "unat (de_offset (last ?page)) = ?o + k"
    using k(2) assms(4,5) by (simp add: unsigned_of_nat take_bit_nat_eq_self del: of_nat_add)
  have "?page @ drop (?o + k) ?xs = drop ?o ?xs" by (metis add.commute append_take_drop_id drop_drop)
  with that [of ?page] readdir_listing [OF assms(1,2), of full offset] k(1,2) off len pne assms(5) show thesis by simp
qed

lemma dir_entries_length: "length (snd (dir_entries L d ns s)) \<le> length ns"
proof (induction ns arbitrary: s)
  case (Cons n ns)
  show ?case
  proof (cases "named_node L d n")
    case None
    with Cons.IH [of s] show ?thesis by simp
  next
    case (Some name)
    obtain s1 i where "inode s n = (s1, i)" by fastforce
    with Some Cons.IH [of s1] show ?thesis by (cases "dir_entries L d ns s1") (simp add: Let_def)
  qed
qed simp

text \<open>A later listing finds every inode it needs, and gives the same numbers.\<close>

lemma dir_entries_again:
  assumes "inodes_ok s" "unat (next_ino s) + length ns < 2 ^ 64" "inodes_grow (fst (dir_entries L d ns s)) s2"
  shows "dir_entries L d ns s2 = (s2, snd (dir_entries L d ns s))"
  using assms
proof (induction ns arbitrary: s)
  case (Cons n ns)
  show ?case
  proof (cases "named_node L d n")
    case None
    with Cons show ?thesis by simp
  next
    case (Some name)
    obtain s1 i where si: "inode s n = (s1, i)" by fastforce
    obtain s3 es where se: "dir_entries L d ns s1 = (s3, es)" by fastforce
    note io = inode_ok [OF Cons.prems(1) _ si]
    have fits: "unat (next_ino s) + 1 < 2 ^ 64" "unat (next_ino s1) + length ns < 2 ^ 64"
      using io(5) Cons.prems(2) by simp_all
    have g: "inodes_grow s3 s2" using Cons.prems(3) Some si se by (simp add: Let_def)
    have "inodes_grow s1 s3" using dir_entries_ok [OF io(1) [OF fits(1)] fits(2), of L d] se by simp
    with g io(4) [OF fits(1)] have "by_node s2 n = Some i" by (auto simp: inodes_grow_def map_le_def dom_def)
    then have "inode s2 n = (s2, i)" by (simp add: inode_def)
    moreover have "dir_entries L d ns s2 = (s2, es)"
      using Cons.IH [OF io(1) [OF fits(1)] fits(2)] g se by simp
    ultimately show ?thesis using Some si se by (simp add: Let_def)
  qed
qed simp

lemma stable_pages:
  assumes "mount_children L st ino = Some ns" "dir_entries L (inner (mt_doc st)) ns (mt_inodes st) = (mt_inodes st, es)"
    and "\<forall>e. \<not> full [] e" "length es + 2 < 2 ^ 64"
  shows "length es + 2 < fuel + unat offset \<Longrightarrow> read_pages L full fuel st ino offset = drop (unat offset) (dir_listing ino es)"
proof (induction fuel arbitrary: offset)
  case (Suc fuel)
  have same: "st\<lparr>mt_inodes := mt_inodes st\<rparr> = st" by simp
  show ?case
  proof (cases "unat offset < length es + 2")
    case True
    obtain page where p: "fuse_readdir L full st ino offset = (st, Ok (RDir page))" "page \<noteq> []"
      "page @ drop (unat (de_offset (last page))) (dir_listing ino es) = drop (unat offset) (dir_listing ino es)"
      "unat (de_offset (last page)) = unat offset + length page"
      using page_piece [where full = full, OF assms True] unfolding same by metis
    have "0 < length page" using p(2) by simp
    then have "length es + 2 < fuel + unat (de_offset (last page))" using Suc.prems p(4) by linarith
    from Suc.IH [OF this] p show ?thesis by simp
  next
    case False
    with readdir_listing [OF assms(1,2), of full offset] show ?thesis by simp
  qed
qed simp

text \<open>
  C30. A client that reads a directory piece by piece, going on from the offset of the last entry it got, sees
  the same as in one piece however small the pieces: the directory and the root, then every child with a valid
  name once, in the order of the document, with its kind and with the number of its node.  The first piece gives
  the numbers out, and the later ones find them.\<close>

theorem directory_read_in_pieces:
  assumes "mount_ok L dwf st" "mount_children L st ino = Some ns"
    and "unat (next_ino (mt_inodes st)) + length ns + 2 < 2 ^ 64" "\<forall>e. \<not> full [] e" "length ns + 2 < fuel"
  shows "\<exists>s. mt_inodes (fst (fuse_readdir L full st ino 0)) = s \<and> inodes_ok s \<and> inodes_grow (mt_inodes st) s \<and>
           map de_name (take 2 (read_pages L full fuel st ino 0)) = [''.'', ''..''] \<and>
           map (\<lambda>e. (by_ino s (de_ino e), de_kind e, de_name e)) (drop 2 (read_pages L full fuel st ino 0)) =
             List.map_filter (\<lambda>n. map_option (\<lambda>name.
               (Some n, if ft_kind L (inner (mt_doc st)) n = Some Dir then Directory else RegularFile, name))
               (named_node L (inner (mt_doc st)) n)) ns"
proof -
  let ?d = "inner (mt_doc st)"
  obtain s es where e: "dir_entries L ?d ns (mt_inodes st) = (s, es)" by fastforce
  let ?st = "st\<lparr>mt_inodes := s\<rparr>"
  have ok: "inodes_ok (mt_inodes st)" "unat (next_ino (mt_inodes st)) + length ns < 2 ^ 64"
    using assms(1,3) by (simp_all add: mount_ok_def)
  note de = dir_entries_ok [OF ok, of L ?d, unfolded e, simplified]
  have len: "length es \<le> length ns" using dir_entries_length [of L ?d ns "mt_inodes st"] e by simp
  have again: "dir_entries L ?d ns s = (s, es)" using dir_entries_again [OF ok, of L ?d s] e by simp
  have kids: "mount_children L ?st ino = Some ns"
    using assms(2) de by (auto simp: mount_children_def node_def inodes_grow_def map_le_def dom_def split: if_splits option.splits)
  have small: "length es + 2 < 2 ^ 64" using len assms(3) by linarith
  obtain fuel' where f: "fuel = Suc fuel'" using assms(5) by (cases fuel) auto
  obtain page where p: "fuse_readdir L full st ino 0 = (?st, Ok (RDir page))" "page \<noteq> []"
    "page @ drop (unat (de_offset (last page))) (dir_listing ino es) = dir_listing ino es"
    "unat (de_offset (last page)) = length page"
    using page_piece [where full = full and offset = 0, OF assms(2) e assms(4) small] by auto
  have "0 < length page" using p(2) by simp
  then have "length es + 2 < fuel' + unat (de_offset (last page))" using p(4) f assms(5) len by linarith
  then have "read_pages L full fuel' ?st ino (de_offset (last page)) = drop (unat (de_offset (last page))) (dir_listing ino es)"
    using stable_pages [where full = full, OF kids _ assms(4) small] again by simp
  with p f have "read_pages L full fuel st ino 0 = dir_listing ino es" by simp
  with p(1) de show ?thesis by (simp add: listing_entries)
qed

theorem directory_read_in_pieces_witness:
  "\<exists>s :: nat inodes. map (\<lambda>e. (by_ino s (de_ino e), de_kind e, de_name e)) (drop 2 (read_pages ref_ct (\<lambda>acc e. acc \<noteq> []) 9 demo_mounted 1 0)) =
     [(Some 0, RegularFile, ''f'')]"
proof -
  have ok: "mount_ok ref_ct rt_ok demo_mounted"
    using demo_mounted_doc by (simp add: mount_ok_def demo_mounted_def mount_new_def inodes_new_ok buffers_ok_def)
  have r: "mount_children ref_ct demo_mounted 1 = Some [0]" "ft_kind ref_ct (inner (mt_doc demo_mounted)) 0 = Some File"
    "named_node ref_ct (inner (mt_doc demo_mounted)) 0 = Some ''f''" by code_simp+
  have "next_ino (mt_inodes demo_mounted) = 2" by (simp add: demo_mounted_def mount_new_def inodes_new_def)
  then have n: "unat (next_ino (mt_inodes demo_mounted)) + length [0 :: nat] + 2 < 2 ^ 64" by simp
  have "\<forall>e :: dir_entry. \<not> [] \<noteq> ([] :: dir_entry list)" "length [0 :: nat] + 2 < 9" by simp_all
  from directory_read_in_pieces [where full = "\<lambda>acc e. acc \<noteq> []", OF ok r(1) n this]
  have "map (\<lambda>e. (by_ino (mt_inodes (fst (fuse_readdir ref_ct (\<lambda>acc e. acc \<noteq> []) demo_mounted 1 0))) (de_ino e), de_kind e, de_name e))
      (drop 2 (read_pages ref_ct (\<lambda>acc e. acc \<noteq> []) 9 demo_mounted 1 0)) = [(Some 0, RegularFile, ''f'')]"
    using r(2,3) by simp
  then show ?thesis by (rule exI)
qed

end
