(* ===== verification/Keys.thy ===== *)
theory Keys
  imports Config
begin

text \<open>
  \<open>crates/eg/src/keys.rs\<close>: the configuration of the machine and the keyring, both in the \<open>eg\<close>
  directory of the user, and the choice of the secret a command runs with.  The environment and the file
  system of the machine are a record of operations over a state, as the workspace is; a path there is
  its text.  The random bytes of \<open>generate_secret\<close> are an argument.
\<close>

section \<open>The machine\<close>

text \<open>
  \<open>mc_create_dirs\<close> is the recursive \<open>DirBuilder\<close>; \<open>mc_create_new\<close> opens a file that must not exist and
  writes to it.
\<close>

record 'm machine =
  mc_var :: "string \<Rightarrow> string option"
  mc_read :: "'m \<Rightarrow> string \<Rightarrow> io_error + bytes"
  mc_create_dirs :: "'m \<Rightarrow> string \<Rightarrow> 'm \<times> (io_error + unit)"
  mc_create_new :: "'m \<Rightarrow> string \<Rightarrow> bytes \<Rightarrow> 'm \<times> (io_error + unit)"

definition path_join :: "string \<Rightarrow> string \<Rightarrow> string" where
  "path_join p c =
     (if c \<noteq> [] \<and> hd c = CHR ''/'' then c
      else if p = [] \<or> last p = CHR ''/'' then p @ c
      else p @ ''/'' @ c)"

text \<open>\<open>Path::parent\<close> of a path that ends in a plain name.\<close>

definition path_parent :: "string \<Rightarrow> string option" where
  "path_parent p =
     (if p = [] then None
      else Some (let above = dropWhile (\<lambda>c. c \<noteq> CHR ''/'') (rev p);
                     trimmed = dropWhile (\<lambda>c. c = CHR ''/'') above
                 in if trimmed = [] \<and> above \<noteq> [] then ''/'' else rev trimmed))"

section \<open>Where things are\<close>

definition KEYS_DIR :: string where "KEYS_DIR = ''keys''"
definition CONFIG_FILE :: string where "CONFIG_FILE = ''config.toml''"

definition non_blank :: "string option \<Rightarrow> string option" where
  "non_blank v = (case v of Some s \<Rightarrow> if s = [] then None else Some s | None \<Rightarrow> None)"

definition xdg_dir :: "'m machine \<Rightarrow> string \<Rightarrow> string list \<Rightarrow> io_error + string" where
  "xdg_dir M var fallback =
     (case non_blank (mc_var M var) of
        Some dir \<Rightarrow> Ok (path_join dir ''eg'')
      | None \<Rightarrow>
          (case non_blank (mc_var M ''HOME'') of
             Some home \<Rightarrow> Ok (path_join (foldl path_join home fallback) ''eg'')
           | None \<Rightarrow> Err (IoNotFound, ''neither '' @ var @ '' nor HOME is set'')))"

definition config_dir :: "'m machine \<Rightarrow> io_error + string" where
  "config_dir M = xdg_dir M ''XDG_CONFIG_HOME'' [''.config'']"

text \<open>\<open>std::env::var\<close> gives only UTF-8.\<close>

definition env_key :: "'m machine \<Rightarrow> string option" where
  "env_key M = non_blank (Option.bind (mc_var M ''EG_KEY'') from_utf8)"

section \<open>The global configuration\<close>

definition load_global_at :: "'m machine \<Rightarrow> (string \<Rightarrow> string + ttable) \<Rightarrow> 'm \<Rightarrow> string \<Rightarrow> io_error + global_config" where
  "load_global_at M toml m dir =
     (case mc_read M m (path_join dir CONFIG_FILE) of
        Inl e \<Rightarrow> if fst e = IoNotFound then Ok global_default else Err e
      | Inr bs \<Rightarrow>
          (case from_utf8 bs of
             None \<Rightarrow> Err (IoInvalidData, ''stream did not contain valid UTF-8'')
           | Some s \<Rightarrow> global_parse toml s))"

definition load_global :: "'m machine \<Rightarrow> (string \<Rightarrow> string + ttable) \<Rightarrow> 'm \<Rightarrow> io_error + global_config" where
  "load_global M toml m =
     (case config_dir M of Inl e \<Rightarrow> Err e | Inr dir \<Rightarrow> load_global_at M toml m dir)"

section \<open>Secrets\<close>

definition parse_secret :: "bytes \<Rightarrow> string \<Rightarrow> io_error + bytes" where
  "parse_secret bs path =
     (if length bs = 32 then Ok bs
      else Err (IoInvalidData, path @ '' is not 32 bytes; remove it to regenerate''))"

definition write_new_secret :: "'m machine \<Rightarrow> 'm \<Rightarrow> string \<Rightarrow> bytes \<Rightarrow> 'm \<times> (io_error + unit)" where
  "write_new_secret M m path s =
     (case (case path_parent path of None \<Rightarrow> (m, Ok ()) | Some parent \<Rightarrow> mc_create_dirs M m parent) of
        (m1, Inl e) \<Rightarrow> (m1, Err e)
      | (m1, Inr _) \<Rightarrow> mc_create_new M m1 path s)"

definition named_secret :: "'m machine \<Rightarrow> bytes \<Rightarrow> 'm \<Rightarrow> string \<Rightarrow> string \<Rightarrow> 'm \<times> (io_error + bytes)" where
  "named_secret M fresh m dir name =
     (let path = path_join (path_join dir KEYS_DIR) name
      in case mc_read M m path of
           Inr bs \<Rightarrow> (m, parse_secret bs (from_utf8_lossy path))
         | Inl e \<Rightarrow>
             (if fst e = IoNotFound \<and> name = DEVICE_KEY
              then (case write_new_secret M m path fresh of
                      (m1, Inl e) \<Rightarrow> (m1, Err e)
                    | (m1, Inr _) \<Rightarrow> (m1, Ok fresh))
              else if fst e = IoNotFound
              then (m, Err (IoNotFound, ''no key named '' @ [CHR 0x22] @ name @ [CHR 0x22] @ '' in '' @
                                        from_utf8_lossy (path_join dir KEYS_DIR)))
              else (m, Err e)))"

definition secret ::
    "'m machine \<Rightarrow> 'w workspace \<Rightarrow> bytes \<Rightarrow> 'm \<Rightarrow> 'w \<Rightarrow> global_config \<Rightarrow> key_selector \<Rightarrow> 'm \<times> (io_error + bytes)" where
  "secret M W fresh m w global sel =
     (case sel of
        KeyPath path \<Rightarrow>
          (m, case mc_read M m path of Inl e \<Rightarrow> Err e | Inr bs \<Rightarrow> parse_secret bs (from_utf8_lossy path))
      | KeyRepoFile \<Rightarrow>
          (m, case ws_read_file W w [''.eg'', ''key''] of Inl e \<Rightarrow> Err e | Inr bs \<Rightarrow> parse_secret bs ''.eg/key'')
      | KeyNamed name \<Rightarrow>
          (if gc_keys_backend global = SecretService
           then (m, Err (IoUnsupported, ''the secret-service keys backend is not implemented yet''))
           else (case config_dir M of Inl e \<Rightarrow> (m, Err e) | Inr dir \<Rightarrow> named_secret M fresh m dir name)))"

definition keys_effective ::
    "'m machine \<Rightarrow> 'w workspace \<Rightarrow> bytes \<Rightarrow> 'm \<Rightarrow> 'w \<Rightarrow> global_config \<Rightarrow> string option \<Rightarrow> config \<Rightarrow> bool
       \<Rightarrow> 'm \<times> (io_error + effective \<times> bytes)" where
  "keys_effective M W fresh m w global cli_key repo repo_key_file =
     (case resolve_scopes cli_key (env_key M) repo global repo_key_file of
        Inl e \<Rightarrow> (m, Err e)
      | Inr eff \<Rightarrow>
          (case secret M W fresh m w global (ef_key eff) of
             (m1, Inl e) \<Rightarrow> (m1, Err e)
           | (m1, Inr s) \<Rightarrow> (m1, Ok (eff, s))))"

text \<open>The same for a command on a repository (\<open>effective\<close> of \<open>net.rs\<close>), all scopes read first.\<close>

definition KEY_PATH :: path where "KEY_PATH = [''.eg'', ''key'']"

definition effective_for ::
    "'m machine \<Rightarrow> 'w workspace \<Rightarrow> (string \<Rightarrow> string + ttable) \<Rightarrow> (bytes \<Rightarrow> string) \<Rightarrow> bytes \<Rightarrow> 'm \<Rightarrow> 'w
       \<Rightarrow> string option \<Rightarrow> 'm \<times> (io_error + effective \<times> bytes)" where
  "effective_for M W toml utf8_err fresh m w cli_key =
     (case config_load W toml utf8_err w of
        Inl e \<Rightarrow> (m, Err e)
      | Inr repo \<Rightarrow>
          (case load_global M toml m of
             Inl e \<Rightarrow> (m, Err e)
           | Inr global \<Rightarrow>
               keys_effective M W fresh m w global cli_key repo (result_ok (ws_read_file W w KEY_PATH) \<noteq> None)))"

section \<open>What the machine promises\<close>

text \<open>
  A file that was created reads as it was written, and the global configuration is not touched by what
  happens below the directory of the keys.
\<close>

locale machine_laws =
  fixes M :: "'m machine"
  assumes new_read: "mc_create_new M m p c = (m', Ok ()) \<Longrightarrow> mc_read M m' p = Ok c"
    and new_config: "mc_create_new M m (path_join (path_join d KEYS_DIR) DEVICE_KEY) c = (m', r) \<Longrightarrow>
      mc_read M m' (path_join d CONFIG_FILE) = mc_read M m (path_join d CONFIG_FILE)"
    and dirs_config: "mc_create_dirs M m (path_join d KEYS_DIR) = (m', r) \<Longrightarrow>
      mc_read M m' (path_join d CONFIG_FILE) = mc_read M m (path_join d CONFIG_FILE)"

text \<open>A machine in memory: the variables of the environment, and files by path; a directory is no file.\<close>

definition mem_machine :: "(string \<times> string) list \<Rightarrow> (string \<times> bytes) list machine" where
  "mem_machine vars =
     \<lparr>mc_var = map_of vars,
      mc_read = (\<lambda>m p. case map_of m p of Some c \<Rightarrow> Ok c | None \<Rightarrow> Err (IoNotFound, ''no such file'')),
      mc_create_dirs = (\<lambda>m p. (m, Ok ())),
      mc_create_new = (\<lambda>m p c. case map_of m p of
                         Some _ \<Rightarrow> (m, Err (IoAlreadyExists, ''file exists''))
                       | None \<Rightarrow> ((p, c) # m, Ok ()))\<rparr>"

lemma config_not_key: "path_join d CONFIG_FILE \<noteq> path_join (path_join d KEYS_DIR) DEVICE_KEY"
  by (simp add: path_join_def CONFIG_FILE_def KEYS_DIR_def DEVICE_KEY_def)

interpretation mem_mc: machine_laws "mem_machine vars"
  using config_not_key by unfold_locales (auto simp: mem_machine_def split: option.splits)

section \<open>Properties of the choice of the secret\<close>

lemma key_parent: "path_parent (path_join (path_join d KEYS_DIR) DEVICE_KEY) = Some (path_join d KEYS_DIR)"
  by (simp add: path_parent_def path_join_def KEYS_DIR_def DEVICE_KEY_def)

lemma parse_secret_ok [simp]: "parse_secret bs p = Ok s \<longleftrightarrow> s = bs \<and> length bs = 32"
  by (auto simp: parse_secret_def)

text \<open>A device key that is missing is written once, and from then on it is read.\<close>

lemma named_secret_again:
  assumes "machine_laws M" "named_secret M fresh m dir name = (m', Ok s)" "length fresh = 32"
  shows "length s = 32 \<and> named_secret M fresh' m' dir name = (m', Ok s) \<and>
    (m' = m \<or> name = DEVICE_KEY \<and> s = fresh \<and>
       mc_read M m' (path_join dir CONFIG_FILE) = mc_read M m (path_join dir CONFIG_FILE))"
proof (cases "mc_read M m (path_join (path_join dir KEYS_DIR) name)")
  case (Inr bs)
  with assms(2) show ?thesis by (auto simp: named_secret_def Let_def)
next
  case (Inl e)
  with assms(2) have n: "name = DEVICE_KEY" "s = fresh"
    and wr: "write_new_secret M m (path_join (path_join dir KEYS_DIR) DEVICE_KEY) fresh = (m', Ok ())"
    by (auto simp: named_secret_def Let_def split: if_splits prod.splits sum.splits)
  then obtain m1 where m1: "mc_create_dirs M m (path_join dir KEYS_DIR) = (m1, Ok ())"
    "mc_create_new M m1 (path_join (path_join dir KEYS_DIR) DEVICE_KEY) fresh = (m', Ok ())"
    by (auto simp: write_new_secret_def key_parent split: prod.splits sum.splits)
  have "mc_read M m' (path_join (path_join dir KEYS_DIR) DEVICE_KEY) = Ok fresh"
    by (rule machine_laws.new_read [OF assms(1) m1(2)])
  moreover have "mc_read M m' (path_join dir CONFIG_FILE) = mc_read M m (path_join dir CONFIG_FILE)"
    using machine_laws.new_config [OF assms(1) m1(2)] machine_laws.dirs_config [OF assms(1) m1(1)] by simp
  ultimately show ?thesis using n assms(3) by (simp add: named_secret_def Let_def)
qed

lemma secret_again:
  assumes "machine_laws M" "secret M W fresh m w global sel = (m', Ok s)" "length fresh = 32"
  shows "length s = 32 \<and> secret M W fresh' m' w global sel = (m', Ok s) \<and>
    (m' = m \<or> sel = KeyNamed DEVICE_KEY \<and> s = fresh \<and> load_global M toml m' = load_global M toml m)"
proof (cases sel)
  case (KeyNamed name)
  with assms(2) obtain dir where dir: "config_dir M = Ok dir" "gc_keys_backend global \<noteq> SecretService"
    "named_secret M fresh m dir name = (m', Ok s)"
    by (auto simp: secret_def split: if_splits sum.splits)
  from named_secret_again [OF assms(1) dir(3) assms(3), of fresh'] show ?thesis
    by (auto simp: secret_def KeyNamed dir load_global_def load_global_at_def)
qed (use assms(2) in \<open>auto simp: secret_def split: sum.splits\<close>)

text \<open>
  C38. The identity of a node is stable: a command that gets its settings has a secret of 32 bytes, and
  every later run with the same arguments gets the same settings and secret whatever its random bytes,
  and writes nothing.  Only the device key is ever written, and then it is the fresh secret.\<close>

theorem node_key_is_stable:
  assumes "machine_laws M" "length fresh = 32"
    "effective_for M W toml utf8_err fresh m w cli_key = (m', Ok (eff, s))"
  shows "length s = 32 \<and> effective_for M W toml utf8_err fresh' m' w cli_key = (m', Ok (eff, s)) \<and>
    (m' \<noteq> m \<longrightarrow> ef_key eff = KeyNamed DEVICE_KEY \<and> s = fresh)"
proof -
  let ?here = "result_ok (ws_read_file W w KEY_PATH) \<noteq> None"
  from assms(3) obtain repo global where c: "config_load W toml utf8_err w = Ok repo" "load_global M toml m = Ok global"
    and r: "resolve_scopes cli_key (env_key M) repo global ?here = Ok eff"
    and s: "secret M W fresh m w global (ef_key eff) = (m', Ok s)"
    by (auto simp: effective_for_def keys_effective_def simp del: not_None_eq split: sum.splits prod.splits)
  from secret_again [OF assms(1) s assms(2), of fresh' toml]
  show ?thesis by (auto simp: effective_for_def keys_effective_def c r simp del: not_None_eq)
qed

text \<open>A first run on an empty machine.\<close>

definition demo_env :: "(string \<times> string) list" where "demo_env = [(''HOME'', ''/home/a'')]"

definition demo_fresh :: bytes where "demo_fresh = replicate 32 (CHR 0x07)"

definition demo_toml :: "string \<Rightarrow> string + ttable" where "demo_toml s = Ok []"

lemma demo_first_run:
  "effective_for (mem_machine demo_env) mem_ops demo_toml (\<lambda>_. []) demo_fresh [] mem_new None =
     ([(''/home/a/.config/eg/keys/device'', demo_fresh)],
      Ok (\<lparr>ef_identity = identity_default, ef_key = KeyNamed DEVICE_KEY, ef_authz_command = None, ef_session_command = None\<rparr>,
          demo_fresh))"
  by code_simp

theorem node_key_is_stable_witness:
  "effective_for (mem_machine demo_env) mem_ops demo_toml (\<lambda>_. []) (replicate 32 (CHR 0x09))
     [(''/home/a/.config/eg/keys/device'', demo_fresh)] mem_new None =
   ([(''/home/a/.config/eg/keys/device'', demo_fresh)],
    Ok (\<lparr>ef_identity = identity_default, ef_key = KeyNamed DEVICE_KEY, ef_authz_command = None, ef_session_command = None\<rparr>,
        demo_fresh))"
proof -
  have "length demo_fresh = 32" by (simp add: demo_fresh_def)
  from node_key_is_stable [OF mem_mc.machine_laws_axioms this demo_first_run] show ?thesis by blast
qed

end
