(* ===== verification/Host.thy ===== *)
theory Host
  imports Keys Trust Net_Frames Watch Presence Doc_Fs
begin

text \<open>
  \<open>crates/eg/src/net.rs\<close>: what \<open>serve\<close>, \<open>join\<close> and \<open>pull\<close> do around the sync sessions.  The model holds the
  identity a node announces, the ways to open the document of a repository, the gate that decides on a
  connection, the live sessions with the commands that list and revoke them, and the two tasks that carry
  changes between disk and document.  A task runs to its next await as one step.  Binding and dialing, the
  file watcher, the parsing of the command line and the hook processes are left out; a hook that is run is
  recorded.  The identity and session lines that are printed are values, other output is left out.
\<close>

definition DOC_PATH :: path where "DOC_PATH = [''.eg'', ''doc'']"

definition to_io :: "string \<Rightarrow> io_error" where "to_io e = (IoOther, e)"

section \<open>Identity\<close>

record identity =
  idt_name :: "string option"
  idt_email :: "string option"
  idt_color :: "string option"

definition identity_none :: identity where
  "identity_none = \<lparr>idt_name = None, idt_email = None, idt_color = None\<rparr>"

definition presence_value :: "identity \<Rightarrow> lvalue" where
  "presence_value i =
     LMap ((case idt_name i of None \<Rightarrow> [] | Some s \<Rightarrow> [(''name'', LString s)]) @
           (case idt_email i of None \<Rightarrow> [] | Some s \<Rightarrow> [(''email'', LString s)]) @
           (case idt_color i of None \<Rightarrow> [] | Some s \<Rightarrow> [(''color'', LString s)]))"

text \<open>The entry is set when a node starts and again at every tick, when the expired ones go too.\<close>

definition wire_presence :: "'s estore \<Rightarrow> 's \<Rightarrow> string \<Rightarrow> identity \<Rightarrow> 's" where
  "wire_presence E st key i = es_set E st key (presence_value i)"

definition presence_tick :: "'s estore \<Rightarrow> 's \<Rightarrow> string \<Rightarrow> identity \<Rightarrow> 's" where
  "presence_tick E st key i = es_remove_outdated E (es_set E st key (presence_value i))"

text \<open>\<open>git\<close> is what became of \<open>git config --get\<close> for a key in the repository.\<close>

definition git_config :: "(string \<Rightarrow> cmd_outcome) \<Rightarrow> string \<Rightarrow> string option" where
  "git_config git key =
     (case git key of
        Exited True out \<Rightarrow>
          (case chars_of out of
             None \<Rightarrow> None
           | Some cs \<Rightarrow> if trim cs = [] then None else Some (utf8_encode (trim cs)))
      | _ \<Rightarrow> None)"

definition identity_field :: "(string \<Rightarrow> cmd_outcome) \<Rightarrow> string option \<Rightarrow> string \<Rightarrow> string option" where
  "identity_field git given key =
     (case given of Some s \<Rightarrow> if s = [] then None else Some s | None \<Rightarrow> git_config git key)"

definition local_identity :: "(string \<Rightarrow> cmd_outcome) \<Rightarrow> effective \<Rightarrow> identity" where
  "local_identity git eff =
     \<lparr>idt_name = identity_field git (id_name (ef_identity eff)) ''user.name'',
      idt_email = identity_field git (id_email (ef_identity eff)) ''user.email'',
      idt_color = id_color (ef_identity eff)\<rparr>"

definition clean :: "string \<Rightarrow> string" where
  "clean s = utf8_encode (filter (\<lambda>c. \<not> is_control c) (lossy_chars s))"

definition label :: "('e \<Rightarrow> string) \<Rightarrow> identity \<Rightarrow> 'e \<Rightarrow> string" where
  "label show i who =
     (let parts = (case idt_name i of None \<Rightarrow> [] | Some s \<Rightarrow> [clean s]) @
                  (case idt_email i of None \<Rightarrow> [] | Some s \<Rightarrow> [''<'' @ clean s @ ''>''])
      in if parts = [] then show who else join_with '' '' (parts @ [''('' @ show who @ '')'']))"

definition text_field :: "(string \<times> lvalue) list \<Rightarrow> string \<Rightarrow> string option" where
  "text_field kvs key = (case map_of kvs key of Some (LString s) \<Rightarrow> Some s | _ \<Rightarrow> None)"

definition presence_identity :: "'s estore \<Rightarrow> ('e \<Rightarrow> string) \<Rightarrow> 's \<Rightarrow> 'e \<Rightarrow> identity" where
  "presence_identity E show st who =
     (case es_get E st (show who) of
        Some (LMap kvs) \<Rightarrow>
          \<lparr>idt_name = text_field kvs ''name'', idt_email = text_field kvs ''email'',
           idt_color = text_field kvs ''color''\<rparr>
      | _ \<Rightarrow> identity_none)"

section \<open>Opening the document of a repository\<close>

definition read_doc ::
    "('d, 'v, 'f) vdoc \<Rightarrow> 'w workspace \<Rightarrow> 64 word \<Rightarrow> 'w \<Rightarrow> io_error + 'd doc option" where
  "read_doc V W peer w =
     (case ws_read_file W w DOC_PATH of
        Inr bs \<Rightarrow> (case doc_from_snapshot V peer bs of Inl e \<Rightarrow> Err (to_io e) | Inr d \<Rightarrow> Ok (Some d))
      | Inl e \<Rightarrow> if fst e = IoNotFound then Ok None else Err e)"

definition is_empty_repo :: "'w workspace \<Rightarrow> 'w \<Rightarrow> io_error + bool" where
  "is_empty_repo W w =
     (case ws_read_dir W w [] of
        Inl e \<Rightarrow> Err e
      | Inr es \<Rightarrow> Ok (list_all (\<lambda>e. entry_name e = EG_DIR) es))"

definition open_or_seed ::
    "('d, 'v, 'f) vdoc \<Rightarrow> ('d, 'n, 't, 'm) loro_ct \<Rightarrow> 'w workspace \<Rightarrow> ('b, 'g) gitignore \<Rightarrow> nat \<Rightarrow> 64 word \<Rightarrow> 'w
       \<Rightarrow> (io_error + 'd doc) option" where
  "open_or_seed V L W G fuel peer w =
     (case read_doc V W peer w of
        Inl e \<Rightarrow> Some (Err e)
      | Inr (Some d) \<Rightarrow> Some (Ok d)
      | Inr None \<Rightarrow>
          (case import_tree V L W G fuel w (doc_new V peer) of
             None \<Rightarrow> None
           | Some (d, Inl e) \<Rightarrow> Some (Err e)
           | Some (d, Inr files) \<Rightarrow> Some (Ok d)))"

definition open_or_clone ::
    "('d, 'v, 'f) vdoc \<Rightarrow> 'w workspace \<Rightarrow> 64 word \<Rightarrow> 'w \<Rightarrow> io_error + 'd doc" where
  "open_or_clone V W peer w =
     (case read_doc V W peer w of
        Inl e \<Rightarrow> Err e
      | Inr (Some d) \<Rightarrow> Ok d
      | Inr None \<Rightarrow>
          (case is_empty_repo W w of
             Inl e \<Rightarrow> Err e
           | Inr True \<Rightarrow> Ok (doc_new V peer)
           | Inr False \<Rightarrow>
               Err (IoAlreadyExists, ''refusing to clone into a non-empty directory; clone into an empty one'')))"

text \<open>\<open>open_repo\<close> creates the state directory before the document is looked for.\<close>

definition load_doc ::
    "('d, 'v, 'f) vdoc \<Rightarrow> 'w workspace \<Rightarrow> 64 word \<Rightarrow> 'w \<Rightarrow> 'w \<times> (io_error + 'd doc)" where
  "load_doc V W peer w =
     (case open_repo W w of
        (w1, Inl e) \<Rightarrow> (w1, Err e)
      | (w1, Inr _) \<Rightarrow>
          (w1, case read_doc V W peer w1 of
                 Inl e \<Rightarrow> Err e
               | Inr (Some d) \<Rightarrow> Ok d
               | Inr None \<Rightarrow> Err (IoNotFound, ''no doc here yet; run serve, pull, or join first'')))"

definition store ::
    "('d, 'v, 'f) vdoc \<Rightarrow> ('d, 'n, 't, 'm) loro_ct \<Rightarrow> 'w workspace \<Rightarrow> ('b, 'g) gitignore \<Rightarrow> nat \<Rightarrow> 'd doc \<Rightarrow> 'w
       \<Rightarrow> ('w \<times> (io_error + 'n export_plan)) option" where
  "store V L W G fuel d w =
     (case doc_snapshot V d of
        Inl e \<Rightarrow> Some (w, Err (to_io e))
      | Inr bs \<Rightarrow>
          (case ws_write_private W w DOC_PATH bs of
             (w1, Inl e) \<Rightarrow> Some (w1, Err e)
           | (w1, Inr _) \<Rightarrow> export_tree L W G fuel (inner d) w1))"

definition export_and_prune ::
    "('d, 'v, 'f) vdoc \<Rightarrow> ('d, 'n, 't, 'm) loro_ct \<Rightarrow> 'w workspace \<Rightarrow> ('b, 'g) gitignore \<Rightarrow> nat \<Rightarrow> 'd doc
       \<Rightarrow> 'w \<Rightarrow> ('n, 'f) file_bases \<Rightarrow> export_dirs \<Rightarrow> ('w \<times> (io_error + nat)) option" where
  "export_and_prune V L W G fuel d w bases dirs =
     (case store V L W G fuel d w of
        None \<Rightarrow> None
      | Some (w1, Inl e) \<Rightarrow> Some (w1, Err e)
      | Some (w1, Inr plan) \<Rightarrow>
          (case advance_and_prune V L W d plan (w1, bases, dirs) of ((w2, _, _), files) \<Rightarrow> Some (w2, Ok files)))"

section \<open>The gate\<close>

datatype gate = GateTrust | GateCommand "string \<Rightarrow> cmd_outcome"

text \<open>What \<open>serve\<close> picks at its start; \<open>run\<close> is what becomes of a command on some input.\<close>

definition gate_of :: "(string list \<Rightarrow> string \<Rightarrow> cmd_outcome) \<Rightarrow> effective \<Rightarrow> gate" where
  "gate_of run eff = (case ef_authz_command eff of Some cmd \<Rightarrow> GateCommand (run cmd) | None \<Rightarrow> GateTrust)"

definition gate_authorize :: "'w workspace \<Rightarrow> 'e trust_codec \<Rightarrow> gate \<Rightarrow> 'w \<Rightarrow> 'e \<Rightarrow> decision" where
  "gate_authorize W K g w who =
     (case g of
        GateTrust \<Rightarrow>
          (case trust_load W K w of
             Inr t \<Rightarrow>
               (case trust_perms t who of
                  Some perms \<Rightarrow> Grant perms
                | None \<Rightarrow> Deny (Some (''ask the owner to run `eg trust <your-id>`'')))
           | Inl e \<Rightarrow> Deny None)
      | GateCommand run \<Rightarrow> command_authorize run (ep_show K who))"

section \<open>Sessions\<close>

text \<open>A session is live until its task has ended; a task that is aborted is gone with its session.\<close>

record 'e host_session =
  hs_who :: 'e
  hs_perms :: perms
  hs_finished :: bool

datatype hook = Hello | Bye

text \<open>
  \<open>ho_opening\<close> is the peer that the gate let in and whose stream the accept loop still waits for;
  \<open>ho_command\<close> is the session command, \<open>ho_hooks\<close> what it was told, oldest first; \<open>ho_failed\<close> is the error the
  command ended with.
\<close>

record ('w, 'e) host =
  ho_ws :: 'w
  ho_opening :: "('e \<times> perms) option"
  ho_sessions :: "'e host_session list"
  ho_command :: "string list option"
  ho_hooks :: "(hook \<times> 'e) list"
  ho_failed :: "io_error option"

definition run_session_hook :: "hook \<Rightarrow> 'e \<Rightarrow> ('w, 'e) host \<Rightarrow> ('w, 'e) host" where
  "run_session_hook ev who h =
     (case ho_command h of None \<Rightarrow> h | Some cmd \<Rightarrow> h\<lparr>ho_hooks := ho_hooks h @ [(ev, who)]\<rparr>)"

definition hook_stdin :: "('e \<Rightarrow> string) \<Rightarrow> hook \<Rightarrow> 'e \<Rightarrow> string" where
  "hook_stdin show ev who =
     (case ev of Hello \<Rightarrow> ''hello'' | Bye \<Rightarrow> ''bye'') @ [CHR 0x0A] @ show who @ [CHR 0x0A]"

text \<open>
  One round of the accept loop is \<open>Node::accept\<close> with what \<open>serve\<close> does with the outcome.  It waits twice: for a
  connection, whose handshake may fail, and, once the gate has let the peer in, for the peer to open its stream.
  While it waits the repl and the sessions run, so these are two steps.  An error of either ends the loop and the
  command; a refusal changes nothing here.
\<close>

definition serve_fails :: "net_error \<Rightarrow> ('w, 'e) host \<Rightarrow> ('w, 'e) host" where
  "serve_fails e h = h\<lparr>ho_failed := Some (to_io (net_error_display e))\<rparr>"

definition serve_verdict ::
    "'w workspace \<Rightarrow> 'e trust_codec \<Rightarrow> gate \<Rightarrow> net_error + 'e \<Rightarrow> ('w, 'e) host \<Rightarrow> ('w, 'e) host" where
  "serve_verdict W K g incoming h =
     (if ho_opening h \<noteq> None then h
      else (case incoming of
              Inl e \<Rightarrow> serve_fails e h
            | Inr who \<Rightarrow>
                (case gate_authorize W K g (ho_ws h) who of
                   Grant perms \<Rightarrow> h\<lparr>ho_opening := Some (who, perms)\<rparr>
                 | Deny message \<Rightarrow> h)))"

definition serve_opened :: "net_error + unit \<Rightarrow> ('w, 'e) host \<Rightarrow> ('w, 'e) host" where
  "serve_opened stream h =
     (case ho_opening h of
        None \<Rightarrow> h
      | Some (who, perms) \<Rightarrow>
          (case stream of
             Inl e \<Rightarrow> serve_fails e h
           | Inr _ \<Rightarrow>
               (let h1 = run_session_hook Hello who (h\<lparr>ho_opening := None\<rparr>)
                in h1\<lparr>ho_sessions := filter (\<lambda>s. \<not> hs_finished s) (ho_sessions h1) @
                         [\<lparr>hs_who = who, hs_perms = perms, hs_finished = False\<rparr>]\<rparr>)))"

text \<open>The task of the session at an index comes to its end.\<close>

definition session_ends :: "nat \<Rightarrow> ('w, 'e) host \<Rightarrow> ('w, 'e) host" where
  "session_ends i h =
     (if i < length (ho_sessions h) \<and> \<not> hs_finished (ho_sessions h ! i)
      then run_session_hook Bye (hs_who (ho_sessions h ! i))
             (h\<lparr>ho_sessions := (ho_sessions h)[i := (ho_sessions h ! i)\<lparr>hs_finished := True\<rparr>]\<rparr>)
      else h)"

definition repl_sessions :: "'s estore \<Rightarrow> ('e \<Rightarrow> string) \<Rightarrow> 's \<Rightarrow> ('w, 'e) host \<Rightarrow> ('w, 'e) host \<times> string list" where
  "repl_sessions E show st h =
     (let live = filter (\<lambda>s. \<not> hs_finished s) (ho_sessions h)
      in (h\<lparr>ho_sessions := live\<rparr>,
          map (\<lambda>s. ''  '' @ label show (presence_identity E show st (hs_who s)) (hs_who s) @ '' '' @ flags (hs_perms s)) live))"

fun revoke_retain :: "'e \<Rightarrow> 'e host_session list \<Rightarrow> ('w, 'e) host \<Rightarrow> ('w, 'e) host \<times> 'e host_session list \<times> nat" where
  "revoke_retain i [] h = (h, [], 0)"
| "revoke_retain i (s # ss) h =
     (let closing = (hs_who s = i \<and> \<not> hs_finished s);
          h1 = (if closing then run_session_hook Bye (hs_who s) h else h)
      in case revoke_retain i ss h1 of
           (h2, kept, dropped) \<Rightarrow>
             (h2, if hs_who s \<noteq> i then s # kept else kept, if closing then Suc dropped else dropped))"

definition repl_revoke :: "'e \<Rightarrow> ('w, 'e) host \<Rightarrow> ('w, 'e) host \<times> nat" where
  "repl_revoke i h =
     (case revoke_retain i (ho_sessions h) h of (h1, kept, dropped) \<Rightarrow> (h1\<lparr>ho_sessions := kept\<rparr>, dropped))"

text \<open>Of the commands the repl shares with the shell, the one that changes something.\<close>

definition repl_trust ::
    "'w workspace \<Rightarrow> 'e trust_codec \<Rightarrow> trust_action \<Rightarrow> ('w, 'e) host \<Rightarrow> ('w, 'e) host \<times> (io_error + string list)" where
  "repl_trust W K action h =
     (case perform_action W K (ho_ws h) action of (w, r) \<Rightarrow> (h\<lparr>ho_ws := w\<rparr>, r))"

section \<open>Between disk and document\<close>

fun starts_with_dir :: "string \<Rightarrow> path \<Rightarrow> bool" where
  "starts_with_dir name [] = False"
| "starts_with_dir name (c # cs) = (c = name)"

definition changed_paths :: "path \<Rightarrow> path list \<Rightarrow> path list" where
  "changed_paths base touched =
     foldl (\<lambda>paths p.
        (case strip_prefix base p of
           None \<Rightarrow> paths
         | Some rel \<Rightarrow>
             if rel = [] \<or> starts_with_dir EG_DIR rel then paths
             else if rel \<in> set paths then paths else paths @ [rel])) [] touched"

text \<open>One batch of events taken in; the answer is whether the nudge is sent.\<close>

definition ingest ::
    "('d, 'v, 'f) vdoc \<Rightarrow> ('d, 'n, 't, 'm) loro_ct \<Rightarrow> 'w workspace \<Rightarrow> 'w \<Rightarrow> path \<Rightarrow> path list \<Rightarrow> 'd doc \<times> ('n, 'f) file_bases
       \<Rightarrow> (('d doc \<times> ('n, 'f) file_bases) \<times> bool) option" where
  "ingest V L W w base touched st =
     (let paths = changed_paths base touched
      in if paths = [] then Some (st, False)
         else map_option (\<lambda>(st1, r). (st1, case r of Inr moved \<Rightarrow> moved | Inl e \<Rightarrow> False)) (apply_batch V L W w paths st))"

text \<open>One nudge carried out: a failed export leaves the bases alone.\<close>

definition egress ::
    "('d, 'v, 'f) vdoc \<Rightarrow> ('d, 'n, 't, 'm) loro_ct \<Rightarrow> 'w workspace \<Rightarrow> ('b, 'g) gitignore \<Rightarrow> nat \<Rightarrow> 'd doc
       \<Rightarrow> 'w \<times> ('n, 'f) file_bases \<times> export_dirs \<Rightarrow> ('w \<times> ('n, 'f) file_bases \<times> export_dirs) option" where
  "egress V L W G fuel d = (\<lambda>(w, bases, dirs).
     (case store V L W G fuel d w of
        None \<Rightarrow> None
      | Some (w1, Inl e) \<Rightarrow> Some (w1, bases, dirs)
      | Some (w1, Inr plan) \<Rightarrow> Some (fst (advance_and_prune V L W d plan (w1, bases, dirs)))))"

section \<open>Reports\<close>

definition sanitize :: "chars \<Rightarrow> chars" where
  "sanitize s = filter (\<lambda>c. c = 0x0A \<or> \<not> is_control c) s"

text \<open>The lines printed and the error of the command.\<close>

definition report_sync_error :: "('e \<Rightarrow> string) \<Rightarrow> string \<Rightarrow> 'e \<Rightarrow> net_error \<Rightarrow> string list \<times> io_error" where
  "report_sync_error show prog peer e =
     (case e of
        Refused message \<Rightarrow>
          ([prog @ '': rejected by '' @ show peer] @
           (case message of
              None \<Rightarrow> []
            | Some msg \<Rightarrow> map (\<lambda>l. ''remote: '' @ utf8_encode l) (lines_of (sanitize (lossy_chars msg)))),
           (IoPermissionDenied, []))
      | _ \<Rightarrow> ([], to_io (net_error_display e)))"

text \<open>Files and directories of the document, without \<open>.eg\<close>.\<close>

definition count_tree :: "('d, 'n, 't, 'm) loro_ct \<Rightarrow> 'd \<Rightarrow> (nat \<times> nat) option" where
  "count_tree L d =
     map_option (foldl (\<lambda>(files, dirs) (path, e).
        if path = EG_DIR \<or> prefix (EG_DIR @ ''/'') path then (files, dirs)
        else (case en_kind e of
                Some Dir \<Rightarrow> (files, Suc dirs)
              | Some File \<Rightarrow> (Suc files, dirs)
              | _ \<Rightarrow> (files, dirs))) (0, 0)) (walk L d)"

text \<open>
  The repl and the shell share \<open>id\<close> and \<open>status\<close>.  The endpoint id of a secret is \<open>id_of\<close>; \<open>None\<close> is a
  walk that does not end.  What was printed before an error is printed.
\<close>

definition id_command ::
    "'m machine \<Rightarrow> 'w workspace \<Rightarrow> (string \<Rightarrow> string + ttable) \<Rightarrow> (bytes \<Rightarrow> string) \<Rightarrow> (bytes \<Rightarrow> string) \<Rightarrow> bytes
       \<Rightarrow> string option \<Rightarrow> 'm \<Rightarrow> 'w \<Rightarrow> 'm \<times> 'w \<times> (io_error + string list)" where
  "id_command M W toml utf8_err id_of fresh key m w =
     (case open_repo W w of
        (w1, Inl e) \<Rightarrow> (m, w1, Err e)
      | (w1, Inr _) \<Rightarrow>
          (case effective_for M W toml utf8_err fresh m w1 key of
             (m1, Inl e) \<Rightarrow> (m1, w1, Err e)
           | (m1, Inr (eff, s)) \<Rightarrow> (m1, w1, Ok [id_of s])))"

definition status_trust :: "'e trust_codec \<Rightarrow> 'e trust \<Rightarrow> string list" where
  "status_trust K t =
     (let gs = grants K t
      in if gs = [] then [''  trust: no peers (grant access with eg trust <id>)'']
         else (''  trust: '' @ dec (length gs) @ '' peer(s)'') #
              map (\<lambda>g. ''    '' @ ep_show K (gr_id g) @ ''  '' @
                       (if flags (gr_perms g) = [] then ''none'' else flags (gr_perms g))) gs)"

definition status_command ::
    "('d, 'v, 'f) vdoc \<Rightarrow> ('d, 'n, 't, 'm) loro_ct \<Rightarrow> 'x machine \<Rightarrow> 'w workspace \<Rightarrow> 'e trust_codec
       \<Rightarrow> (string \<Rightarrow> string + ttable) \<Rightarrow> (bytes \<Rightarrow> string) \<Rightarrow> (bytes \<Rightarrow> string) \<Rightarrow> bytes \<Rightarrow> 64 word \<Rightarrow> string
       \<Rightarrow> string option \<Rightarrow> 'x \<Rightarrow> 'w \<Rightarrow> ('x \<times> 'w \<times> string list \<times> (io_error + unit)) option" where
  "status_command V L M W K toml utf8_err id_of fresh peer dir key m w =
     (case open_repo W w of
        (w1, Inl e) \<Rightarrow> Some (m, w1, [], Err e)
      | (w1, Inr _) \<Rightarrow>
          (case effective_for M W toml utf8_err fresh m w1 key of
             (m1, Inl e) \<Rightarrow> Some (m1, w1, [], Err e)
           | (m1, Inr (eff, s)) \<Rightarrow>
               (let out = [''eg status: '' @ dir, ''  id:    '' @ id_of s]
                in case read_doc V W peer w1 of
                     Inl e \<Rightarrow> Some (m1, w1, out, Err e)
                   | Inr d \<Rightarrow>
                       map_option (\<lambda>line.
                           (m1, w1,
                            case trust_load W K w1 of
                              Inl e \<Rightarrow> (out @ [line], Err e)
                            | Inr t \<Rightarrow> (out @ [line] @ status_trust K t, Ok ())))
                         (case d of
                            None \<Rightarrow> Some ''  doc:   not yet seeded (run eg serve or eg pull)''
                          | Some d \<Rightarrow>
                              map_option (\<lambda>(files, dirs). ''  doc:   '' @ dec files @ '' file(s), '' @ dec dirs @ '' dir(s)'')
                                (count_tree L (inner d))))))"

end
