(* ===== verification/Host_Props.thy ===== *)
theory Host_Props
  imports Host Trust_Props
begin

text \<open>
  The sessions of a serving host over any run of what can happen to them: the session command is told of
  every session's start and end, and a peer that lost its grant and was revoked does not come back.
\<close>

section \<open>What can happen to a host\<close>

datatype ('w, 'e, 's) host_event =
    Connects "net_error + 'e"
  | Opens "net_error + unit"
  | Ends nat
  | ListsSessions 's
  | Revokes 'e
  | EditsTrust trust_action
  | ChangesDisk 'w

fun host_step ::
    "'w workspace \<Rightarrow> 'e trust_codec \<Rightarrow> 's estore \<Rightarrow> gate \<Rightarrow> ('w, 'e) host \<Rightarrow> ('w, 'e, 's) host_event \<Rightarrow> ('w, 'e) host" where
  "host_step W K E g h (Connects incoming) = serve_verdict W K g incoming h"
| "host_step W K E g h (Opens stream) = serve_opened stream h"
| "host_step W K E g h (Ends i) = session_ends i h"
| "host_step W K E g h (ListsSessions st) = fst (repl_sessions E (ep_show K) st h)"
| "host_step W K E g h (Revokes i) = fst (repl_revoke i h)"
| "host_step W K E g h (EditsTrust action) = fst (repl_trust W K action h)"
| "host_step W K E g h (ChangesDisk w) = h\<lparr>ho_ws := w\<rparr>"

text \<open>A host whose command has ended stays as it was left.\<close>

definition host_on ::
    "'w workspace \<Rightarrow> 'e trust_codec \<Rightarrow> 's estore \<Rightarrow> gate \<Rightarrow> ('w, 'e) host \<Rightarrow> ('w, 'e, 's) host_event \<Rightarrow> ('w, 'e) host" where
  "host_on W K E g h ev = (if ho_failed h = None then host_step W K E g h ev else h)"

definition host_run ::
    "'w workspace \<Rightarrow> 'e trust_codec \<Rightarrow> 's estore \<Rightarrow> gate \<Rightarrow> ('w, 'e) host \<Rightarrow> ('w, 'e, 's) host_event list \<Rightarrow> ('w, 'e) host" where
  "host_run W K E g = foldl (host_on W K E g)"

definition host_start :: "'w \<Rightarrow> string list \<Rightarrow> ('w, 'e) host" where
  "host_start w cmd =
     \<lparr>ho_ws = w, ho_opening = None, ho_sessions = [], ho_command = Some cmd, ho_hooks = [], ho_failed = None\<rparr>"

lemma host_run_Nil [simp]: "host_run W K E g h [] = h"
  by (simp add: host_run_def)

lemma host_run_Cons [simp]: "host_run W K E g h (ev # evs) = host_run W K E g (host_on W K E g h ev) evs"
  by (simp add: host_run_def)

text \<open>
  A connection that fails in its handshake, before any peer is known or judged, ends the command: the accept loop
  passes the error on, and nothing happens on this host any more.
\<close>

lemma failed_handshake_ends_serve:
  assumes "ho_failed h = None" "ho_opening h = None"
  shows "host_run W K E g h (Connects (Err e) # evs) = serve_fails e h"
proof -
  have "ho_failed h' = Some x \<Longrightarrow> host_run W K E g h' evs = h'" for h' x
    by (induction evs) (simp_all add: host_on_def)
  from this [of "serve_fails e h"] assms show ?thesis by (simp add: host_on_def serve_verdict_def serve_fails_def)
qed

section \<open>The operations on the sessions\<close>

definition live_of :: "'e \<Rightarrow> 'e host_session list \<Rightarrow> nat" where
  "live_of i ss = length (filter (\<lambda>s. hs_who s = i \<and> \<not> hs_finished s) ss)"

lemma live_of_simps [simp]:
  "live_of i [] = 0"
  "live_of i (s # ss) = (if hs_who s = i \<and> \<not> hs_finished s then Suc (live_of i ss) else live_of i ss)"
  "live_of i (ss @ ts) = live_of i ss + live_of i ts"
  by (simp_all add: live_of_def)

lemma live_of_unfinished [simp]: "live_of i (filter (\<lambda>s. \<not> hs_finished s) ss) = live_of i ss"
  by (induction ss) auto



lemma hook_fields [simp]:
  "ho_ws (run_session_hook ev who h) = ho_ws h"
  "ho_opening (run_session_hook ev who h) = ho_opening h"
  "ho_sessions (run_session_hook ev who h) = ho_sessions h"
  "ho_command (run_session_hook ev who h) = ho_command h"
  "ho_command h = Some cmd \<Longrightarrow> ho_hooks (run_session_hook ev who h) = ho_hooks h @ [(ev, who)]"
  by (auto simp: run_session_hook_def split: option.split)

lemma revoke_retain_result:
  assumes "revoke_retain i ss h = (h', kept, dropped)"
  shows "kept = filter (\<lambda>s. hs_who s \<noteq> i) ss \<and> dropped = live_of i ss \<and> ho_ws h' = ho_ws h \<and>
    ho_opening h' = ho_opening h \<and> ho_sessions h' = ho_sessions h \<and> ho_command h' = ho_command h \<and>
    (ho_command h \<noteq> None \<longrightarrow> ho_hooks h' = ho_hooks h @ replicate dropped (Bye, i))"
  using assms
proof (induction i ss h arbitrary: h' kept dropped rule: revoke_retain.induct)
  case (2 i s ss h)
  let ?closing = "hs_who s = i \<and> \<not> hs_finished s"
  let ?h1 = "if ?closing then run_session_hook Bye (hs_who s) h else h"
  obtain h2 k2 d2 where r: "revoke_retain i ss ?h1 = (h2, k2, d2)" by (metis prod_cases3)
  from 2(2) have eq: "h' = h2" "kept = (if hs_who s \<noteq> i then s # k2 else k2)" "dropped = (if ?closing then Suc d2 else d2)"
    by (simp_all only: revoke_retain.simps Let_def r prod.case prod.inject)
  have fields: "ho_ws ?h1 = ho_ws h" "ho_opening ?h1 = ho_opening h" "ho_sessions ?h1 = ho_sessions h" "ho_command ?h1 = ho_command h"
    "ho_command h \<noteq> None \<longrightarrow> ho_hooks ?h1 = ho_hooks h @ (if ?closing then [(Bye, i)] else [])" by auto
  from 2(1) [OF refl refl r] show ?case
    unfolding eq fields using fields(5) by (auto simp: replicate_app_Cons_same)
qed simp

section \<open>Greetings and goodbyes\<close>


lemma count_list_replicate [simp]: "count_list (replicate n x) y = (if x = y then n else 0)"
  by (induction n) auto




section \<open>A peer without a grant\<close>

definition ungranted :: "'w workspace \<Rightarrow> 'e trust_codec \<Rightarrow> 'e \<Rightarrow> 'w \<Rightarrow> bool" where
  "ungranted W K i w \<longleftrightarrow>
     (case trust_load W K w of Inl e \<Rightarrow> True | Inr t \<Rightarrow> trust_perms t i = None)"

text \<open>An event after which the peer may be trusted again: it is added, or the disk is changed to grant it.\<close>

fun may_grant :: "'w workspace \<Rightarrow> 'e trust_codec \<Rightarrow> 'e \<Rightarrow> ('w, 'e, 's) host_event \<Rightarrow> bool" where
  "may_grant W K i (EditsTrust (TrustAdd peer access)) \<longleftrightarrow> ep_parse K peer = Ok i"
| "may_grant W K i (ChangesDisk w) \<longleftrightarrow> \<not> ungranted W K i w"
| "may_grant W K i _ \<longleftrightarrow> False"

text \<open>A trust edit that failed to write may leave anything behind, so the runs below have none.\<close>

fun edit_fails :: "'w workspace \<Rightarrow> 'e trust_codec \<Rightarrow> ('w, 'e) host \<Rightarrow> ('w, 'e, 's) host_event \<Rightarrow> bool" where
  "edit_fails W K h (EditsTrust action) \<longleftrightarrow> result_ok (snd (repl_trust W K action h)) = None"
| "edit_fails W K h _ \<longleftrightarrow> False"

fun never_grants ::
    "'w workspace \<Rightarrow> 'e trust_codec \<Rightarrow> 's estore \<Rightarrow> 'e \<Rightarrow> ('w, 'e) host \<Rightarrow> ('w, 'e, 's) host_event list \<Rightarrow> bool" where
  "never_grants W K E i h [] \<longleftrightarrow> True"
| "never_grants W K E i h (ev # evs) \<longleftrightarrow>
     \<not> may_grant W K i ev \<and> \<not> edit_fails W K h ev \<and> never_grants W K E i (host_on W K E GateTrust h ev) evs"

lemma ungranted_perms: "ungranted W K i w \<Longrightarrow> trust_load W K w = Ok t \<Longrightarrow> trust_perms t i = None"
  by (simp add: ungranted_def)

lemma trust_perms_grant: "trust_perms t i = None \<longleftrightarrow>
  (\<forall>g. grant_of t i = Some g \<longrightarrow> \<not> pull (gd_perms g) \<and> \<not> push (gd_perms g))"
  by (auto simp: trust_perms_def grant_of_def split: option.split)

lemma spec_keeps_ungranted:
  assumes "\<forall>g. m i = Some g \<longrightarrow> \<not> pull (gd_perms g) \<and> \<not> push (gd_perms g)" "\<not> may_grant W K i (EditsTrust a)"
    "action_spec K m a i = Some g"
  shows "\<not> pull (gd_perms g) \<and> \<not> push (gd_perms g)"
  using assms by (cases a) (auto simp: Let_def split: sum.splits option.splits if_splits)

lemma action_was_loaded:
  assumes "workspace_laws W" "perform_action W K w a = (w', Ok lines)"
  shows "\<exists>t. trust_load W K w = Ok t"
proof -
  obtain w1 where w1: "ws_create_dir W w [''.eg''] = (w1, Ok ())"
    using assms(2) by (auto simp: perform_action_def open_repo_def split: prod.splits sum.splits)
  with assms(2) have "\<exists>t. trust_load W K w1 = Ok t"
    by (cases "trust_load W K w1") (simp_all add: perform_action_def open_repo_def)
  moreover have "trust_load W K w1 = trust_load W K w"
    by (rule trust_load_read) (rule workspace_laws.create_dir_files [OF assms(1) w1])
  ultimately show ?thesis by simp
qed

lemma edit_keeps_ungranted:
  assumes "workspace_laws W" "trust_text K" "ungranted W K i w" "\<not> may_grant W K i (EditsTrust a)"
    "perform_action W K w a = (w', Ok lines)"
  shows "ungranted W K i w'"
proof -
  obtain t where t: "trust_load W K w = Ok t" using action_was_loaded [OF assms(1,5)] by blast
  then have "trust_perms t i = None" by (rule ungranted_perms [OF assms(3)])
  then have m: "\<forall>g. grant_of t i = Some g \<longrightarrow> \<not> pull (gd_perms g) \<and> \<not> push (gd_perms g)"
    by (simp only: trust_perms_grant)
  obtain t' where t': "trust_load W K w' = Ok t'" "grant_of t' = action_spec K (grant_of t) a"
    using perform_action_loads [OF assms(1,2) t assms(5)] by blast
  have "trust_perms t' i = None"
    unfolding trust_perms_grant t'(2) using spec_keeps_ungranted [where m = "grant_of t", OF m assms(4)] by blast
  with t'(1) show ?thesis by (simp add: ungranted_def)
qed

text \<open>
  A peer without a grant, of which nothing is let in any more but the one stream \<open>opening\<close> that was granted before.
\<close>

definition let_in :: "'e \<Rightarrow> ('e \<times> perms) option \<Rightarrow> nat" where
  "let_in i opening = (case opening of None \<Rightarrow> 0 | Some (j, p) \<Rightarrow> if j = i then 1 else 0)"

definition sessions_of :: "'e \<Rightarrow> 'e host_session list \<Rightarrow> nat" where
  "sessions_of i ss = length (filter (\<lambda>s. hs_who s = i) ss)"

lemma sessions_of_simps [simp]:
  "sessions_of i [] = 0" "sessions_of i (s # ss) = (if hs_who s = i then Suc (sessions_of i ss) else sessions_of i ss)"
  "sessions_of i (ss @ ts) = sessions_of i ss + sessions_of i ts"
  by (simp_all add: sessions_of_def)

lemma sessions_of_filter: "sessions_of i (filter P ss) \<le> sessions_of i ss"
  by (induction ss) auto

lemma sessions_of_update: "hs_who s = hs_who (ss ! k) \<Longrightarrow> sessions_of i (ss[k := s]) = sessions_of i ss"
proof (induction ss arbitrary: k)
  case (Cons t ss)
  then show ?case by (cases k) auto
qed simp

definition stays_out :: "'w workspace \<Rightarrow> 'e trust_codec \<Rightarrow> 'e \<Rightarrow> ('e \<times> perms) option \<Rightarrow> ('w, 'e) host \<Rightarrow> bool" where
  "stays_out W K i opening h \<longleftrightarrow>
     ungranted W K i (ho_ws h) \<and>
     (\<forall>p. ho_opening h = Some (i, p) \<longrightarrow> opening = Some (i, p)) \<and>
     (\<forall>s \<in> set (ho_sessions h). hs_who s = i \<longrightarrow> opening = Some (i, hs_perms s)) \<and>
     sessions_of i (ho_sessions h) + let_in i (ho_opening h) \<le> let_in i opening"

lemma gate_refuses: "ungranted W K i w \<Longrightarrow> gate_authorize W K GateTrust w i \<noteq> Grant p"
  by (auto simp: gate_authorize_def ungranted_def split: sum.split)

lemma verdict_keeps_out: "stays_out W K i o1 h \<Longrightarrow> stays_out W K i o1 (serve_verdict W K GateTrust incoming h)"
  using gate_refuses [of W K i "ho_ws h"]
  by (auto simp: stays_out_def serve_verdict_def serve_fails_def let_in_def split: sum.splits decision.splits)

lemma opened_keeps_out: "stays_out W K i o1 h \<Longrightarrow> stays_out W K i o1 (serve_opened stream h)"
  using sessions_of_filter [of i "\<lambda>s. \<not> hs_finished s" "ho_sessions h"]
  by (auto simp: stays_out_def serve_opened_def serve_fails_def let_in_def Let_def split: option.splits sum.splits)

lemma ends_keeps_out: "stays_out W K i o1 h \<Longrightarrow> stays_out W K i o1 (session_ends k h)"
  by (auto simp: stays_out_def session_ends_def sessions_of_update dest!: subsetD [OF set_update_subset_insert])

lemma stays_out_step:
  assumes "workspace_laws W" "trust_text K" "stays_out W K i o1 h" "\<not> may_grant W K i ev" "\<not> edit_fails W K h ev"
  shows "stays_out W K i o1 (host_step W K E GateTrust h ev)"
proof (cases ev)
  case (Connects who)
  then show ?thesis using verdict_keeps_out [OF assms(3)] by simp
next
  case (Opens stream)
  then show ?thesis using opened_keeps_out [OF assms(3)] by simp
next
  case (Ends k)
  then show ?thesis using ends_keeps_out [OF assms(3)] by simp
next
  case (ListsSessions st)
  with assms(3) sessions_of_filter [of i "\<lambda>s. \<not> hs_finished s" "ho_sessions h"] show ?thesis
    by (auto simp: stays_out_def repl_sessions_def Let_def)
next
  case (Revokes j)
  obtain h1 kept dropped where r: "revoke_retain j (ho_sessions h) h = (h1, kept, dropped)" by (metis prod_cases3)
  from revoke_retain_result [OF this] assms(3) sessions_of_filter [of i "\<lambda>s. hs_who s \<noteq> j" "ho_sessions h"]
  show ?thesis by (auto simp: Revokes stays_out_def repl_revoke_def r)
next
  case (EditsTrust a)
  with assms(5) obtain w' lines where a: "perform_action W K (ho_ws h) a = (w', Ok lines)"
    by (cases "perform_action W K (ho_ws h) a"; cases "snd (perform_action W K (ho_ws h) a)")
      (auto simp: repl_trust_def)
  from edit_keeps_ungranted [OF assms(1,2) _ _ this] assms(3,4) EditsTrust show ?thesis
    by (auto simp: stays_out_def repl_trust_def a)
next
  case (ChangesDisk w)
  with assms(3,4) show ?thesis by (simp add: stays_out_def)
qed

lemma stays_out_run:
  assumes "workspace_laws W" "trust_text K"
  shows "stays_out W K i o1 h \<Longrightarrow> never_grants W K E i h evs \<Longrightarrow> stays_out W K i o1 (host_run W K E GateTrust h evs)"
proof (induction evs arbitrary: h)
  case (Cons ev evs)
  then show ?case using stays_out_step [OF assms Cons.prems(1), of ev E] by (simp add: host_on_def)
qed simp

lemma forgotten_is_ungranted:
  assumes "workspace_laws W" "trust_text K" "ep_parse K peer = Ok i"
    "perform_action W K w (TrustRemove peer []) = (w', Ok lines)"
  shows "ungranted W K i w'"
proof -
  obtain t where t: "trust_load W K w = Ok t" using action_was_loaded [OF assms(1,4)] by blast
  with perform_action_loads [OF assms(1,2) t assms(4)] show ?thesis
    by (auto simp: ungranted_def trust_perms_grant assms(3) split: option.splits)
qed

text \<open>
  C36. Taking a peer off the trust file and revoking its sessions keeps it out: over every later run of
  the host in which nobody adds it again or writes a file that grants it, no session is that peer's, whatever it
  tries, but for one: if at the moment of the removal the gate had let a connection of the peer in and the host
  still waited for its stream, that stream may open, as one session with the rights of that verdict.\<close>

theorem revoked_stays_out:
  assumes "workspace_laws W" "trust_text K" "ep_parse K peer = Ok i"
    "repl_trust W K (TrustRemove peer []) h = (h1, Ok lines)" "repl_revoke i h1 = (h2, closed)"
    "never_grants W K E i h2 evs"
  shows "(\<forall>s \<in> set (ho_sessions (host_run W K E GateTrust h2 evs)). hs_who s = i \<longrightarrow> ho_opening h = Some (i, hs_perms s)) \<and>
         length (filter (\<lambda>s. hs_who s = i) (ho_sessions (host_run W K E GateTrust h2 evs))) \<le> 1"
proof -
  obtain w' where w': "perform_action W K (ho_ws h) (TrustRemove peer []) = (w', Ok lines)" "h1 = h\<lparr>ho_ws := w'\<rparr>"
    using assms(4) by (auto simp: repl_trust_def split: prod.splits)
  obtain h' kept dropped where r: "revoke_retain i (ho_sessions h1) h1 = (h', kept, dropped)" by (metis prod_cases3)
  with assms(5) have "h2 = h'\<lparr>ho_sessions := kept\<rparr>" by (simp add: repl_revoke_def)
  moreover have "sessions_of i (filter (\<lambda>s. hs_who s \<noteq> i) ss) = 0" for ss by (induction ss) auto
  ultimately have "stays_out W K i (ho_opening h) h2"
    using revoke_retain_result [OF r] forgotten_is_ungranted [OF assms(1-3) w'(1)] w'(2) by (auto simp: stays_out_def)
  from stays_out_run [OF assms(1,2) this assms(6)] show ?thesis
    by (auto simp: stays_out_def sessions_of_def let_in_def split: option.splits if_splits)
qed

text \<open>A host that trusts \<open>b\<close>: it joins, is forgotten and revoked, and knocks again.\<close>

definition demo_host :: "(mem_workspace, string) host" where
  "demo_host = serve_opened (Ok ()) (serve_verdict mem_ops demo_codec GateTrust (Ok ''b'') (host_start demo_home [''notify'']))"

definition demo_forgotten :: "(mem_workspace, string) host" where
  "demo_forgotten = fst (repl_trust mem_ops demo_codec (TrustRemove ''b'' []) demo_host)"

definition demo_store :: "(string \<times> lvalue) list estore" where
  "demo_store = \<lparr>es_new = (\<lambda>_. []), es_set = (\<lambda>st k v. (k, v) # st), es_delete = (\<lambda>st k. filter (\<lambda>p. fst p \<noteq> k) st),
                 es_get = map_of, es_all = (\<lambda>st. st), es_encode_all = (\<lambda>st. []), es_apply = (\<lambda>st bs. (st, False)),
                 es_remove_outdated = (\<lambda>st. st)\<rparr>"

definition demo_knocks :: "(mem_workspace, string, (string \<times> lvalue) list) host_event list" where
  "demo_knocks = [Connects (Ok ''b''), Opens (Ok ()), ListsSessions [], EditsTrust (TrustAdd ''c'' [APull]),
     Connects (Ok ''c''), Connects (Ok ''b''), Opens (Ok ()), Connects (Ok ''b''), Opens (Ok ())]"

lemma demo_knocks_ungranted:
  "never_grants mem_ops demo_codec demo_store ''b'' (fst (repl_revoke ''b'' demo_forgotten)) demo_knocks"
  by code_simp

lemma demo_knocks_sessions:
  "map hs_who (ho_sessions demo_host) = [''b'']" "ho_opening demo_host = None"
  "map hs_who (ho_sessions (host_run mem_ops demo_codec demo_store GateTrust
     (fst (repl_revoke ''b'' demo_forgotten)) demo_knocks)) = [''c'']"
  by code_simp+

theorem revoked_stays_out_witness:
  "map hs_who (ho_sessions demo_host) = [''b''] \<and>
   ''b'' \<notin> hs_who ` set (ho_sessions (host_run mem_ops demo_codec demo_store GateTrust
            (fst (repl_revoke ''b'' demo_forgotten)) demo_knocks))"
proof -
  have p: "ep_parse demo_codec ''b'' = Ok ''b''" by (simp add: demo_codec_def)
  have t: "repl_trust mem_ops demo_codec (TrustRemove ''b'' []) demo_host = (demo_forgotten, Ok [''eg trust: b removed''])"
    unfolding demo_forgotten_def by code_simp
  have r: "repl_revoke ''b'' demo_forgotten = (fst (repl_revoke ''b'' demo_forgotten), 1)" by code_simp
  from revoked_stays_out [OF mem.workspace_laws_axioms demo_trust.trust_text_axioms p t r demo_knocks_ungranted]
  show ?thesis using demo_knocks_sessions(1,2) by auto
qed

text \<open>
  The exception is real: a peer that has connected and is slow to open its stream is removed and revoked, and then
  opens it and has its session, with the rights it lost.
\<close>

lemma late_stream_gets_in:
  "map (\<lambda>s. (hs_who s, hs_perms s)) (ho_sessions (host_run mem_ops demo_codec demo_store GateTrust (host_start demo_home [''notify''])
     [Connects (Ok ''b''), EditsTrust (TrustRemove ''b'' []), Revokes ''b'', Opens (Ok ())])) =
   map (\<lambda>s. (hs_who s, hs_perms s)) (ho_sessions demo_host)"
  by code_simp

end
