(* ===== verification/Shell.thy ===== *)
theory Shell
  imports Host Comments
begin

text \<open>
  \<open>crates/eg/src/main.rs\<close>, \<open>filetree.rs\<close> and \<open>comment.rs\<close>: which directory a command acts on, the commands
  the shell and the repl share, and what \<open>ls\<close>, \<open>cat\<close> and \<open>comment list\<close> print.  The parsing of the command
  line is clap's.  An absolute path is its list of components.
\<close>

section \<open>Which repository\<close>

text \<open>The loop goes from a directory to its parent; the root has none.\<close>

function enclosing_repo :: "(path \<Rightarrow> bool) \<Rightarrow> path \<Rightarrow> path option" where
  "enclosing_repo is_dir c =
     (if is_dir (c @ [EG_DIR]) then Some c
      else if c = [] then None else enclosing_repo is_dir (butlast c))"
  by pat_completeness auto
termination by (relation "measure (\<lambda>(is_dir, c). length c)") auto

declare enclosing_repo.simps [simp del]

text \<open>\<open>cdir\<close> is \<open>-C\<close>: whether it is absolute, and its components.\<close>

definition abs_dir :: "(path \<Rightarrow> path option) \<Rightarrow> io_error + path \<Rightarrow> (bool \<times> path) option \<Rightarrow> io_error + path" where
  "abs_dir canonicalize cwd cdir =
     (case (case cdir of
              Some (absolute, dir) \<Rightarrow>
                (if absolute then Ok dir else (case cwd of Inl e \<Rightarrow> Err e | Inr c \<Rightarrow> Ok (c @ dir)))
            | None \<Rightarrow> cwd) of
        Inl e \<Rightarrow> Err e
      | Inr start \<Rightarrow> Ok (case canonicalize start of None \<Rightarrow> start | Some c \<Rightarrow> c))"

definition with_repo ::
    "(path \<Rightarrow> path option) \<Rightarrow> (path \<Rightarrow> bool) \<Rightarrow> io_error + path \<Rightarrow> (bool \<times> path) option
       \<Rightarrow> (path \<Rightarrow> io_error + 'a) \<Rightarrow> io_error + 'a" where
  "with_repo canonicalize is_dir cwd cdir f =
     (case abs_dir canonicalize cwd cdir of
        Inl e \<Rightarrow> Err e
      | Inr start \<Rightarrow> f (case enclosing_repo is_dir start of None \<Rightarrow> start | Some dir \<Rightarrow> dir))"

definition with_fresh ::
    "(path \<Rightarrow> path option) \<Rightarrow> (path \<Rightarrow> bool) \<Rightarrow> io_error + path \<Rightarrow> (bool \<times> path) option
       \<Rightarrow> (path \<Rightarrow> io_error + 'a) \<Rightarrow> io_error + 'a" where
  "with_fresh canonicalize is_dir cwd cdir f =
     (case abs_dir canonicalize cwd cdir of
        Inl e \<Rightarrow> Err e
      | Inr start \<Rightarrow>
          (case enclosing_repo is_dir start of
             None \<Rightarrow> f start
           | Some root \<Rightarrow>
               if root \<noteq> start
               then Err (IoAlreadyExists, ''inside the repo at '' @ CHR ''/'' # display_path root @
                                          ''; clone into a fresh directory'')
               else f start))"

text \<open>\<open>run\<close>: whether the exit code is success, and what goes to standard error.\<close>

definition exit_of :: "io_error + unit \<Rightarrow> bool \<times> string" where
  "exit_of r =
     (case r of
        Inr _ \<Rightarrow> (True, [])
      | Inl e \<Rightarrow> (False, if snd e = [] then [] else ''eg: '' @ snd e @ [CHR 0x0A]))"

section \<open>Lines and columns\<close>

fun line_col_from :: "chars \<Rightarrow> nat \<Rightarrow> nat \<times> nat \<Rightarrow> (nat \<times> nat) option" where
  "line_col_from cs 0 (line, col) = Some (line, col)"
| "line_col_from [] (Suc n) (line, col) = None"
| "line_col_from (c # cs) (Suc n) (line, col) =
     line_col_from cs n (if c = 0x0A then (line + 1, 1) else (line, col + 1))"

definition offset_to_line_col :: "chars \<Rightarrow> nat \<Rightarrow> (nat \<times> nat) option" where
  "offset_to_line_col txt offset = line_col_from txt offset (1, 1)"

fun offset_from :: "chars \<Rightarrow> nat \<times> nat \<Rightarrow> nat \<times> nat \<Rightarrow> nat \<Rightarrow> nat option" where
  "offset_from [] target (line, col) offset = (if (line, col) = target then Some offset else None)"
| "offset_from (c # cs) target (line, col) offset =
     (if (line, col) = target then Some offset
      else offset_from cs target (if c = 0x0A then (line + 1, 1) else (line, col + 1)) (offset + 1))"

definition line_col_to_offset :: "chars \<Rightarrow> nat \<Rightarrow> nat \<Rightarrow> nat option" where
  "line_col_to_offset txt line col =
     (if line = 0 \<or> col = 0 then None else offset_from txt (line, col) (1, 1) 0)"

section \<open>Listing and printing files\<close>

datatype 'n listing = ListDir "'n fs_entry list" | Leaf

definition ls :: "('d, 'n, 't, 'm) loro_ct \<Rightarrow> 'd \<Rightarrow> string \<Rightarrow> fs_error + 'n listing" where
  "ls L d path =
     (case readdir L d path of
        Inr entries \<Rightarrow> Ok (ListDir entries)
      | Inl e \<Rightarrow>
          (if e = NotADirectory then (case stat L d path of Inl e \<Rightarrow> Err e | Inr _ \<Rightarrow> Ok Leaf)
           else Err e))"

definition cat :: "('d, 'n, 't, 'm) loro_ct \<Rightarrow> 'd \<Rightarrow> string list \<Rightarrow> (fs_error + string) list" where
  "cat L d paths = map (fs_read L d) paths"

definition out_line :: "string \<Rightarrow> string" where "out_line s = s @ [CHR 0x0A]"

text \<open>What a command prints to standard output and to standard error.\<close>

record printed =
  out :: string
  err :: string

definition silent :: printed where "silent = \<lparr>out = [], err = []\<rparr>"

definition ls_stdio ::
    "('d, 'v, 'f) vdoc \<Rightarrow> ('d, 'n, 't, 'm) loro_ct \<Rightarrow> 'w workspace \<Rightarrow> 64 word \<Rightarrow> string \<Rightarrow> 'w
       \<Rightarrow> 'w \<times> printed \<times> (io_error + unit)" where
  "ls_stdio V L W peer path w =
     (case load_doc V W peer w of
        (w1, Inl e) \<Rightarrow> (w1, silent, Err e)
      | (w1, Inr d) \<Rightarrow>
          (case ls L (inner d) path of
             Inr (ListDir entries) \<Rightarrow> (w1, silent\<lparr>out := concat (map (\<lambda>e. out_line (en_name e)) entries)\<rparr>, Ok ())
           | Inr Leaf \<Rightarrow> (w1, silent\<lparr>out := out_line path\<rparr>, Ok ())
           | Inl e \<Rightarrow>
               (w1, silent,
                Err (IoOther, ''cannot access '' @ [CHR 0x27] @ path @ [CHR 0x27] @ '': '' @ fs_error_display e))))"

fun print_files :: "(string \<times> (fs_error + string)) list \<Rightarrow> printed \<times> bool \<Rightarrow> printed \<times> bool" where
  "print_files [] st = st"
| "print_files ((path, Inr contents) # rest) (o1, failed) =
     print_files rest (o1\<lparr>out := out o1 @ contents\<rparr>, failed)"
| "print_files ((path, Inl e) # rest) (o1, failed) =
     print_files rest (o1\<lparr>err := err o1 @ out_line (''eg: '' @ path @ '': '' @ fs_error_display e)\<rparr>, True)"

definition cat_stdio ::
    "('d, 'v, 'f) vdoc \<Rightarrow> ('d, 'n, 't, 'm) loro_ct \<Rightarrow> 'w workspace \<Rightarrow> 64 word \<Rightarrow> string list \<Rightarrow> 'w
       \<Rightarrow> 'w \<times> printed \<times> (io_error + unit)" where
  "cat_stdio V L W peer paths w =
     (case load_doc V W peer w of
        (w1, Inl e) \<Rightarrow> (w1, silent, Err e)
      | (w1, Inr d) \<Rightarrow>
          (case print_files (zip paths (cat L (inner d) paths)) (silent, False) of
             (o1, failed) \<Rightarrow> (w1, o1, if failed then Err (IoOther, []) else Ok ())))"

section \<open>Listing comments\<close>

definition place :: "chars \<Rightarrow> nat \<Rightarrow> string" where
  "place txt offset =
     (case offset_to_line_col txt offset of
        Some (line, col) \<Rightarrow> dec line @ ''.'' @ dec col
      | None \<Rightarrow> dec offset)"

definition range_fmt :: "('d, 'n, 't, 'm) loro_ct \<Rightarrow> 'd \<Rightarrow> string \<Rightarrow> (nat \<times> nat) option \<Rightarrow> string" where
  "range_fmt L d filename rng =
     (case rng of
        None \<Rightarrow> []
      | Some (a, b) \<Rightarrow>
          (let txt = lossy_chars (case fs_read L d filename of Inr s \<Rightarrow> s | Inl e \<Rightarrow> [])
           in if a = b then '':'' @ place txt a else '':'' @ place txt a @ ''-'' @ place txt b))"

text \<open>\<open>json\<close> is the JSON text of a value; \<open>None\<close> is a path that does not end.\<close>

definition comment_text ::
    "('d, 'n, 't, 'm) loro_ct \<Rightarrow> (lvalue \<Rightarrow> string) \<Rightarrow> 'd \<Rightarrow> 'n comment \<Rightarrow> string option" where
  "comment_text L json d c =
     (case (case cm_file c of None \<Rightarrow> Some None | Some n \<Rightarrow> path_of L d n) of
        None \<Rightarrow> None
      | Some p \<Rightarrow>
          (let filename = (case p of Some s \<Rightarrow> s | None \<Rightarrow> ''<unknown>'');
               value = (\<lambda>v. case v of LString s \<Rightarrow> s | _ \<Rightarrow> json v);
               fields = map (\<lambda>(k, v). CHR 0x09 # k @ '': '' @ value v) (cm_fields c)
           in Some (out_line (''Comment '' @ cm_id c @ '' @ '' @ filename @ range_fmt L d filename (cm_range c)) @
                    out_line (join_with [CHR 0x0A] fields))))"

fun comment_texts ::
    "('d, 'n, 't, 'm) loro_ct \<Rightarrow> (lvalue \<Rightarrow> string) \<Rightarrow> 'd \<Rightarrow> 'n comment list \<Rightarrow> string option" where
  "comment_texts L json d [] = Some []"
| "comment_texts L json d (c # cs) =
     (case comment_text L json d c of
        None \<Rightarrow> None
      | Some s \<Rightarrow> map_option (\<lambda>r. s @ r) (comment_texts L json d cs))"

definition handle_comment_list ::
    "('d, 'v, 'f) vdoc \<Rightarrow> ('d, 'n, 't, 'm) loro_ct \<Rightarrow> ('d, 'n, 't, 'k) loro_cur \<Rightarrow> 'w workspace \<Rightarrow> (lvalue \<Rightarrow> string)
       \<Rightarrow> 64 word \<Rightarrow> string option \<Rightarrow> 'w \<Rightarrow> ('w \<times> printed \<times> (io_error + unit)) option" where
  "handle_comment_list V L C W json peer file w =
     (case load_doc V W peer w of
        (w1, Inl e) \<Rightarrow> Some (w1, silent, Err e)
      | (w1, Inr d) \<Rightarrow>
          (let tree_id = Option.bind file (\<lambda>f. result_ok (resolve L (inner d) f))
           in map_option (\<lambda>s. (w1, silent\<lparr>out := s\<rparr>, Ok ()))
                (comment_texts L json (inner d) (comment_list L C d tree_id))))"

section \<open>The shared commands\<close>

datatype shared_cmd =
    CmdId
  | CmdStatus
  | CmdTrust trust_action
  | CmdLs string
  | CmdCat "string list"
  | CmdCommentList "string option"

definition out_lines :: "string list \<Rightarrow> printed" where
  "out_lines lines = silent\<lparr>out := concat (map out_line lines)\<rparr>"

text \<open>What a command on a repository is run with, beside its arguments: the state-independent rest.\<close>

record ('x, 'e) surroundings =
  sr_machine :: "'x machine"
  sr_codec :: "'e trust_codec"
  sr_toml :: "string \<Rightarrow> string + ttable"
  sr_utf8_err :: "bytes \<Rightarrow> string"
  sr_id_of :: "bytes \<Rightarrow> string"
  sr_json :: "lvalue \<Rightarrow> string"
  sr_fresh :: bytes
  sr_peer :: "64 word"

definition run_shared ::
    "('d, 'v, 'f) vdoc \<Rightarrow> ('d, 'n, 't, 'm) loro_ct \<Rightarrow> ('d, 'n, 't, 'k) loro_cur \<Rightarrow> 'w workspace \<Rightarrow> ('x, 'e) surroundings
       \<Rightarrow> path \<Rightarrow> string option \<Rightarrow> shared_cmd \<Rightarrow> 'x \<Rightarrow> 'w \<Rightarrow> ('x \<times> 'w \<times> printed \<times> (io_error + unit)) option" where
  "run_shared V L C W S dir key cmd m w =
     (case cmd of
        CmdId \<Rightarrow>
          (case id_command (sr_machine S) W (sr_toml S) (sr_utf8_err S) (sr_id_of S) (sr_fresh S) key m w of
             (m1, w1, Inl e) \<Rightarrow> Some (m1, w1, silent, Err e)
           | (m1, w1, Inr lines) \<Rightarrow> Some (m1, w1, out_lines lines, Ok ()))
      | CmdStatus \<Rightarrow>
          map_option (\<lambda>(m1, w1, lines, r). (m1, w1, out_lines lines, r))
            (status_command V L (sr_machine S) W (sr_codec S) (sr_toml S) (sr_utf8_err S) (sr_id_of S) (sr_fresh S)
               (sr_peer S) (CHR ''/'' # display_path dir) key m w)
      | CmdTrust action \<Rightarrow>
          (case perform_action W (sr_codec S) w action of
             (w1, Inl e) \<Rightarrow> Some (m, w1, silent, Err e)
           | (w1, Inr lines) \<Rightarrow> Some (m, w1, out_lines lines, Ok ()))
      | CmdLs path \<Rightarrow> Some (m, ls_stdio V L W (sr_peer S) path w)
      | CmdCat paths \<Rightarrow> Some (m, cat_stdio V L W (sr_peer S) paths w)
      | CmdCommentList file \<Rightarrow> map_option (Pair m) (handle_comment_list V L C W (sr_json S) (sr_peer S) file w))"

end
