(* ===== verification/Shell_Props.thy ===== *)
theory Shell_Props
  imports Shell Trust_Props Comments_Props
begin

text \<open>
  The commands of the shell: the repository they act on, what they leave alone, lines and columns, and
  what \<open>cat\<close> prints.
\<close>

section \<open>The nearest repository\<close>

definition repo_at :: "(path \<Rightarrow> bool) \<Rightarrow> path \<Rightarrow> bool" where
  "repo_at is_dir p \<longleftrightarrow> is_dir (p @ [EG_DIR])"

definition nearest_repo :: "(path \<Rightarrow> bool) \<Rightarrow> path \<Rightarrow> path \<Rightarrow> bool" where
  "nearest_repo is_dir c r \<longleftrightarrow>
     prefix r c \<and> repo_at is_dir r \<and> (\<forall>p. prefix p c \<and> repo_at is_dir p \<longrightarrow> prefix p r)"

lemma prefix_butlast_iff: "c \<noteq> [] \<Longrightarrow> prefix p c \<longleftrightarrow> p = c \<or> prefix p (butlast c)"
  by (cases c rule: rev_cases) auto

lemma enclosing_repo_nearest: "enclosing_repo is_dir c = Some r \<longleftrightarrow> nearest_repo is_dir c r"
proof (induction is_dir c rule: enclosing_repo.induct)
  case (1 is_dir c)
  show ?case
  proof (cases "repo_at is_dir c \<or> c = []")
    case True
    then show ?thesis
      by (subst enclosing_repo.simps)
        (auto simp: nearest_repo_def repo_at_def intro: prefix_order.antisym)
  next
    case False
    then have "enclosing_repo is_dir c = Some r \<longleftrightarrow> nearest_repo is_dir (butlast c) r"
      using 1 by (subst enclosing_repo.simps) (simp add: repo_at_def)
    also have "\<dots> \<longleftrightarrow> nearest_repo is_dir c r"
      using False by (auto simp: nearest_repo_def prefix_butlast_iff)
    finally show ?thesis .
  qed
qed

lemma no_enclosing_repo: "enclosing_repo is_dir c = None \<longleftrightarrow> (\<forall>p. prefix p c \<longrightarrow> \<not> repo_at is_dir p)"
proof (induction is_dir c rule: enclosing_repo.induct)
  case (1 is_dir c)
  then show ?case
    by (subst enclosing_repo.simps) (auto simp: repo_at_def prefix_butlast_iff)
qed

text \<open>
  C39. A command that works inside a repository acts on the nearest enclosing one, and on the start
  directory when there is none.  A command that clones acts on the start directory unless the nearest
  repository encloses it from above, which it refuses.\<close>

theorem commands_find_their_repo:
  assumes "abs_dir canonicalize cwd cdir = Ok start"
  shows "if \<exists>p. prefix p start \<and> repo_at is_dir p
    then \<exists>!r. nearest_repo is_dir start r \<and>
           with_repo canonicalize is_dir cwd cdir f = f r \<and>
           with_fresh canonicalize is_dir cwd cdir f =
             (if r = start then f start
              else Err (IoAlreadyExists, ''inside the repo at /'' @ display_path r @ ''; clone into a fresh directory''))
    else with_repo canonicalize is_dir cwd cdir f = f start \<and> with_fresh canonicalize is_dir cwd cdir f = f start"
proof (cases "enclosing_repo is_dir start")
  case None
  then show ?thesis using no_enclosing_repo [of is_dir start] by (auto simp: with_repo_def with_fresh_def assms None)
next
  case (Some r)
  then have "\<exists>p. prefix p start \<and> repo_at is_dir p" using no_enclosing_repo [of is_dir start] by auto
  moreover have "nearest_repo is_dir start q \<longleftrightarrow> q = r" for q
    using Some enclosing_repo_nearest [of is_dir start q] by auto
  ultimately show ?thesis by (simp only: simp_thms if_True) (rule ex1I [of _ r]; simp add: with_repo_def with_fresh_def assms Some)
qed

text \<open>From \<open>/a/b\<close> with a repository at \<open>/a\<close>.\<close>

definition demo_dirs :: "path \<Rightarrow> bool" where "demo_dirs p = (p = [''a'', ''.eg''])"

theorem commands_find_their_repo_witness:
  "nearest_repo demo_dirs [''a'', ''b''] [''a''] \<and>
   with_repo (\<lambda>p. None) demo_dirs (Ok [''a'', ''b'']) None Ok = Ok [''a'']"
proof -
  have "repo_at demo_dirs [''a'']" "prefix [''a''] [''a'', ''b'']" by (simp_all add: repo_at_def demo_dirs_def EG_DIR_def)
  then have "\<exists>p. prefix p [''a'', ''b''] \<and> repo_at demo_dirs p" by blast
  moreover have "abs_dir (\<lambda>p. None) (Ok [''a'', ''b'']) None = Ok [''a'', ''b'']" by (simp add: abs_dir_def)
  note commands_find_their_repo [OF this, of demo_dirs Ok]
  ultimately obtain r where r: "nearest_repo demo_dirs [''a'', ''b''] r"
    "with_repo (\<lambda>p. None) demo_dirs (Ok [''a'', ''b'']) None Ok = Ok r" by auto
  then have "r = [''a'']" by (auto simp: nearest_repo_def repo_at_def demo_dirs_def)
  with r show ?thesis by simp
qed

section \<open>Lines and columns\<close>

text \<open>A position that was reached over some characters is a later one.\<close>

lemma line_col_later:
  "line_col_from cs n (line, col) = Some (line', col') \<Longrightarrow>
     line \<le> line' \<and> (1 \<le> col \<longrightarrow> 1 \<le> col') \<and> (n \<noteq> 0 \<longrightarrow> line < line' \<or> line = line' \<and> col < col')"
proof (induction cs n "(line, col)" arbitrary: line col rule: line_col_from.induct)
  case (3 c cs n line col)
  then show ?case by (cases "c = 0x0A"; cases n; cases cs) fastforce+
qed auto

lemma offset_from_ge: "offset_from cs t p k = Some n \<Longrightarrow> k \<le> n"
  by (induction cs t p k rule: offset_from.induct) (fastforce split: if_splits)+

lemma offset_from_iff: "offset_from cs (l, c) (line, col) k = Some (k + n) \<longleftrightarrow> line_col_from cs n (line, col) = Some (l, c)"
proof (induction cs n "(line, col)" arbitrary: line col k rule: line_col_from.induct)
  case (1 cs line col)
  show ?case
  proof (cases "(line, col) = (l, c)")
    case True
    then show ?thesis by (cases cs) auto
  next
    case False
    then show ?thesis by (cases cs) (auto dest!: offset_from_ge)
  qed
next
  case (3 x xs n line col)
  show ?case
  proof (cases "(line, col) = (l, c)")
    case True
    then show ?thesis using line_col_later [of "x # xs" "Suc n" line col l c] by auto
  next
    case False
    then show ?thesis using "3.hyps" [of _ _ "Suc k"] by (cases "x = 0x0A") auto
  qed
qed auto

lemma line_col_none: "line_col_from cs n p = None \<longleftrightarrow> length cs < n"
  by (induction cs n p rule: line_col_from.induct) auto

text \<open>
  Offsets and positions of a text correspond one to one: an offset is at a line and column exactly
  when that line and column are at the offset, and just the offsets past the end have no position.\<close>

theorem line_col_inverse:
  "(offset_to_line_col txt offset = Some (line, col) \<longleftrightarrow> line_col_to_offset txt line col = Some offset) \<and>
   (offset_to_line_col txt offset = None \<longleftrightarrow> length txt < offset)"
  using offset_from_iff [of "txt" line col "1" "1" "0" offset] line_col_later [of "txt" offset "1" "1" line col]
  by (auto simp: offset_to_line_col_def line_col_to_offset_def line_col_none)

section \<open>Printing files\<close>

lemma print_files_out:
  "print_files (zip paths (map rd paths)) (o1, failed) =
     (\<lparr>out = out o1 @ concat (List.map_filter (\<lambda>p. result_ok (rd p)) paths),
       err = err o1 @ concat (map (\<lambda>p. case rd p of Inr s \<Rightarrow> [] | Inl e \<Rightarrow>
                                   out_line (''eg: '' @ p @ '': '' @ fs_error_display e)) paths)\<rparr>,
      failed \<or> (\<exists>p \<in> set paths. result_ok (rd p) = None))"
proof (induction paths arbitrary: o1 failed)
  case (Cons p ps)
  then show ?case by (cases "rd p") (simp_all add: List.map_filter_simps)
qed (simp add: List.map_filter_simps)

text \<open>
  \<open>cat\<close> prints the contents of the paths that can be read, in order and each time they are named,
  reports every other path to standard error in order, and fails exactly when there was one; the failure
  adds nothing to what was printed.\<close>

theorem cat_prints_what_it_can:
  assumes "load_doc V W peer w = (w1, Ok d)"
  shows "\<exists>r. cat_stdio V L W peer paths w =
       (w1, \<lparr>out = concat (List.map_filter (\<lambda>p. result_ok (fs_read L (inner d) p)) paths),
             err = concat (map (\<lambda>p. case fs_read L (inner d) p of Inr s \<Rightarrow> [] | Inl e \<Rightarrow>
                                   out_line (''eg: '' @ p @ '': '' @ fs_error_display e)) paths)\<rparr>, r) \<and>
     exit_of r = ((\<forall>p \<in> set paths. result_ok (fs_read L (inner d) p) \<noteq> None), [])"
  by (auto simp: cat_stdio_def assms cat_def print_files_out silent_def exit_of_def)

text \<open>A repository whose stored document is the one with \<open>a.txt\<close>.\<close>

definition stored_vdoc :: "(rtree, unit, unit) vdoc" where
  "stored_vdoc = note_vdoc\<lparr>ld_import := (\<lambda>d bs. (inner demo_notes, Ok False))\<rparr>"

definition stored_disk :: mem_workspace where
  "stored_disk = fst (mem_write_private (fst (mem_create_dir mem_new [''.eg''])) DOC_PATH ''x'')"

lemma stored_doc: "load_doc stored_vdoc mem_ops 7 stored_disk = (stored_disk, Ok demo_notes)"
  by code_simp

theorem cat_prints_what_it_can_witness:
  "\<exists>r. cat_stdio stored_vdoc ref_ct mem_ops 7 [''a.txt'', ''b'', ''a.txt''] stored_disk =
     (stored_disk, \<lparr>out = ''hello worldhello world'', err = out_line ''eg: b: no such file or directory''\<rparr>, r) \<and>
     exit_of r = (False, [])"
proof -
  have "concat (List.map_filter (\<lambda>p. result_ok (fs_read ref_ct (inner demo_notes) p)) [''a.txt'', ''b'', ''a.txt'']) =
      ''hello worldhello world''"
    "concat (map (\<lambda>p. case fs_read ref_ct (inner demo_notes) p of Inr s \<Rightarrow> [] | Inl e \<Rightarrow>
       out_line (''eg: '' @ p @ '': '' @ fs_error_display e)) [''a.txt'', ''b'', ''a.txt'']) =
     out_line ''eg: b: no such file or directory''"
    "(\<forall>p \<in> set [''a.txt'', ''b'', ''a.txt'']. result_ok (fs_read ref_ct (inner demo_notes) p) \<noteq> None) \<longleftrightarrow> False"
    by code_simp+
  then show ?thesis
    using cat_prints_what_it_can [OF stored_doc, of ref_ct "[''a.txt'', ''b'', ''a.txt'']"] by (simp only:)
qed

section \<open>What the shared commands leave alone\<close>

lemma open_repo_reads:
  "workspace_laws W \<Longrightarrow> open_repo W w = (w1, r) \<Longrightarrow> ws_read_file W w1 q = ws_read_file W w q"
  unfolding open_repo_def by (rule workspace_laws.create_dir_files)

lemma load_doc_reads:
  "workspace_laws W \<Longrightarrow> load_doc V W peer w = (w1, r) \<Longrightarrow> ws_read_file W w1 q = ws_read_file W w q"
  by (auto simp: load_doc_def split: prod.splits sum.splits dest: open_repo_reads)

lemma perform_action_reads:
  assumes "workspace_laws W" "perform_action W K w a = (w', r)" "q \<noteq> TRUST_PATH \<or> a = TrustList"
  shows "ws_read_file W w' q = ws_read_file W w q"
proof -
  obtain w1 r1 where w1: "open_repo W w = (w1, r1)" by fastforce
  have "w' = w1 \<or> a \<noteq> TrustList \<and> (\<exists>t r2. trust_save W K w1 t = (w', r2))"
    using assms(2) by (cases r1; cases a) (auto simp: perform_action_def w1 split: sum.splits prod.splits)
  then show ?thesis
    using open_repo_reads [OF assms(1) w1, of q] assms(3) save_other [OF assms(1)] by metis
qed

lemma id_command_reads:
  "workspace_laws W \<Longrightarrow> id_command M W toml ue id_of fresh key m w = (m', w', r) \<Longrightarrow>
     ws_read_file W w' q = ws_read_file W w q"
  by (auto simp: id_command_def split: prod.splits sum.splits dest: open_repo_reads)

lemma status_command_reads:
  "workspace_laws W \<Longrightarrow> status_command V L M W K toml ue id_of fresh peer dir key m w = Some (m', w', lines, r) \<Longrightarrow>
     ws_read_file W w' q = ws_read_file W w q"
proof -
  assume laws: "workspace_laws W"
    and st: "status_command V L M W K toml ue id_of fresh peer dir key m w = Some (m', w', lines, r)"
  obtain w1 r1 where w1: "open_repo W w = (w1, r1)" by fastforce
  from st have "w' = w1"
    by (cases r1; cases "trust_load W K w1") (auto simp: status_command_def Let_def w1 split: prod.splits sum.splits)
  with open_repo_reads [OF laws w1] show ?thesis by simp
qed

text \<open>
  Of the commands the shell and the repl share, only a trust edit changes a file of the workspace,
  and only \<open>.eg/trust\<close>; only \<open>id\<close> and \<open>status\<close> can change the machine, by making the device key.\<close>

theorem shared_commands_only_edit_trust:
  assumes "workspace_laws W" "run_shared V L C W S dir key cmd m w = Some (m', w', o1, r)"
    "q \<noteq> TRUST_PATH \<or> (\<forall>peer access. cmd \<noteq> CmdTrust (TrustAdd peer access) \<and> cmd \<noteq> CmdTrust (TrustRemove peer access))"
  shows "ws_read_file W w' q = ws_read_file W w q \<and> (m' \<noteq> m \<longrightarrow> cmd = CmdId \<or> cmd = CmdStatus)"
proof (cases cmd)
  case CmdId
  with assms(2) show ?thesis
    by (auto simp: run_shared_def split: prod.splits sum.splits dest: id_command_reads [OF assms(1)])
next
  case CmdStatus
  with assms(2) show ?thesis
    by (auto simp: run_shared_def split: prod.splits dest: status_command_reads [OF assms(1)])
next
  case (CmdTrust a)
  then have "q \<noteq> TRUST_PATH \<or> a = TrustList" using assms(3) by (cases a) auto
  with CmdTrust assms(2) show ?thesis
    by (auto simp: run_shared_def split: prod.splits sum.splits dest: perform_action_reads [OF assms(1), where q = q])
next
  case (CmdLs path)
  with assms(2) show ?thesis
    by (auto simp: run_shared_def ls_stdio_def split: prod.splits sum.splits listing.splits dest: load_doc_reads [OF assms(1)])
next
  case (CmdCat paths)
  with assms(2) show ?thesis
    by (auto simp: run_shared_def cat_stdio_def split: prod.splits sum.splits dest: load_doc_reads [OF assms(1)])
next
  case (CmdCommentList path)
  with assms(2) show ?thesis
    by (auto simp: run_shared_def handle_comment_list_def Let_def split: prod.splits sum.splits dest: load_doc_reads [OF assms(1)])
qed

definition demo_surroundings :: "((string \<times> bytes) list, string) surroundings" where
  "demo_surroundings =
     \<lparr>sr_machine = mem_machine demo_env, sr_codec = demo_codec, sr_toml = demo_toml, sr_utf8_err = (\<lambda>bs. []),
      sr_id_of = (\<lambda>bs. bs), sr_json = (\<lambda>v. []), sr_fresh = demo_fresh, sr_peer = 7\<rparr>"

theorem shared_commands_only_edit_trust_witness:
  "\<exists>m' w' o1 r. run_shared stored_vdoc ref_ct ref_cur mem_ops demo_surroundings [''a''] None
       (CmdTrust (TrustAdd ''c'' [])) [] stored_disk = Some (m', w', o1, r) \<and>
     ws_read_file mem_ops w' DOC_PATH = Ok ''x'' \<and> m' = []"
proof -
  let ?run = "run_shared stored_vdoc ref_ct ref_cur mem_ops demo_surroundings [''a''] None (CmdTrust (TrustAdd ''c'' []))"
  have "?run [] stored_disk \<noteq> None" by code_simp
  then obtain m' w' o1 r where r: "?run [] stored_disk = Some (m', w', o1, r)" by (metis option.exhaust prod_cases4)
  have "DOC_PATH \<noteq> TRUST_PATH" "ws_read_file mem_ops stored_disk DOC_PATH = Ok ''x''" by code_simp+
  with shared_commands_only_edit_trust [OF mem.workspace_laws_axioms r, of DOC_PATH] r show ?thesis by auto
qed

end
