(* ===== verification/Browser_Js.thy ===== *)
theory Browser_Js
  imports Comments Utf8
begin

text \<open>
  What crosses the boundary to JavaScript in \<open>crates/okayeg-wasm\<close>: the seed of \<open>identity.rs\<close>, the deltas of
  \<open>wire.rs\<close> and the comments of \<open>comments.rs\<close>.  A value of JavaScript is a tree; a number is its 64-bit
  pattern, and the rounding of an integer to a number is a parameter; \<open>JOther\<close> is a function, a symbol or a big
  integer.
\<close>

datatype js =
    JNull
  | JUndefined
  | JBool bool
  | JNum "64 word"
  | JStr string
  | JArray "js list"
  | JObject "(string \<times> js) list"
  | JOther

text \<open>\<open>Reflect::set\<close> on a plain object, of which the own properties count: \<open>__proto__\<close> is none.\<close>

fun put_prop :: "string \<Rightarrow> js \<Rightarrow> (string \<times> js) list \<Rightarrow> (string \<times> js) list" where
  "put_prop k v [] = [(k, v)]"
| "put_prop k v ((k', v') # ps) = (if k' = k then (k, v) # ps else (k', v') # put_prop k v ps)"

definition js_set :: "(string \<times> js) list \<Rightarrow> string \<times> js \<Rightarrow> (string \<times> js) list" where
  "js_set ps = (\<lambda>(k, v). if k = ''__proto__'' then ps else put_prop k v ps)"

definition js_object :: "(string \<times> js) list \<Rightarrow> js" where
  "js_object kvs = JObject (foldl js_set [] kvs)"

section \<open>The seed\<close>

definition STORAGE_KEY :: string where "STORAGE_KEY = ''okayeg-identity-seed''"

definition encode_hex :: "bytes \<Rightarrow> string" where
  "encode_hex bs = concat (map (\<lambda>b. hex_digits 2 (of_char b)) bs)"

text \<open>
  A slice that does not end between two characters panics, which is \<open>None\<close>.  The iterator stops at the
  first byte that is not a number.
\<close>

definition char_starts :: "string \<Rightarrow> bool" where
  "char_starts s \<longleftrightarrow> s = [] \<or> \<not> (128 \<le> (of_char (hd s) :: nat) \<and> (of_char (hd s) :: nat) < 192)"

fun decode_pairs :: "string \<Rightarrow> bytes option option" where
  "decode_pairs (a # b # s) =
     (if \<not> char_starts s then None
      else (case u8_from_hex [a, b] of
              None \<Rightarrow> Some None
            | Some n \<Rightarrow> map_option (map_option (\<lambda>bs. char_of n # bs)) (decode_pairs s)))"
| "decode_pairs s = Some (Some [])"

definition decode_hex :: "string \<Rightarrow> bytes option option" where
  "decode_hex s = (if odd (length s) then Some None else decode_pairs s)"

text \<open>
  \<open>localStorage\<close>: \<open>None\<close> is a window without it; a write may be refused.  A result of \<open>None\<close> is the
  panic of \<open>decode_hex\<close>; \<open>fresh\<close> are the random bytes.
\<close>

record 's web_storage =
  web_get :: "'s \<Rightarrow> string \<Rightarrow> string option"
  web_set :: "'s \<Rightarrow> string \<Rightarrow> string \<Rightarrow> 's"

definition load_seed :: "'s web_storage option \<Rightarrow> 's \<Rightarrow> bytes option option" where
  "load_seed S st =
     (case S of
        None \<Rightarrow> Some None
      | Some ops \<Rightarrow>
          (case web_get ops st STORAGE_KEY of
             None \<Rightarrow> Some None
           | Some hex \<Rightarrow>
               map_option (\<lambda>r. case r of Some bs \<Rightarrow> if length bs = 32 then Some bs else None | None \<Rightarrow> None)
                 (decode_hex hex)))"

definition store_seed :: "'s web_storage option \<Rightarrow> 's \<Rightarrow> bytes \<Rightarrow> 's" where
  "store_seed S st seed = (case S of None \<Rightarrow> st | Some ops \<Rightarrow> web_set ops st STORAGE_KEY (encode_hex seed))"

definition load_or_create :: "'s web_storage option \<Rightarrow> bytes \<Rightarrow> 's \<Rightarrow> ('s \<times> bytes) option" where
  "load_or_create S fresh st =
     map_option (\<lambda>r. case r of Some seed \<Rightarrow> (st, seed) | None \<Rightarrow> (store_seed S st fresh, fresh)) (load_seed S st)"

section \<open>Deltas\<close>

text \<open>A \<open>usize\<close> has 32 bits here, and sums wrap as they do in a release build.\<close>

datatype wire_op = Retain "32 word" | Insert string | Delete "32 word"

fun wire_apply ::
    "('d, 'n, 't, 'm) loro_ct \<Rightarrow> 't \<Rightarrow> 32 word \<Rightarrow> wire_op list \<Rightarrow> 'd \<Rightarrow> 'd \<times> bool" where
  "wire_apply L t pos [] d = (d, True)"
| "wire_apply L t pos (Retain n # ops) d = wire_apply L t (pos + n) ops d"
| "wire_apply L t pos (Insert s # ops) d =
     (case tx_insert L d t (unat pos) s of
        None \<Rightarrow> (d, False)
      | Some d1 \<Rightarrow> wire_apply L t (pos + word_of_int (int (length (lossy_chars s)))) ops d1)"
| "wire_apply L t pos (Delete n # ops) d =
     (case tx_delete L d t (unat pos) (unat n) of
        None \<Rightarrow> (d, False)
      | Some d1 \<Rightarrow> wire_apply L t pos ops d1)"

definition apply_to ::
    "('d, 'n, 't, 'm) loro_ct \<Rightarrow> wire_op list \<Rightarrow> 't \<Rightarrow> 'd \<Rightarrow> 'd \<times> bool" where
  "apply_to L delta t d = wire_apply L t 0 delta d"

section \<open>Values and comments\<close>

text \<open>\<open>f64\<close> is what an integer becomes as a number.\<close>

definition value_to_js :: "(64 word \<Rightarrow> 64 word) \<Rightarrow> lvalue \<Rightarrow> js" where
  "value_to_js f64 v =
     (case v of
        LBool b \<Rightarrow> JBool b
      | LDouble d \<Rightarrow> JNum d
      | LI64 i \<Rightarrow> JNum (f64 i)
      | LString s \<Rightarrow> JStr s
      | _ \<Rightarrow> JNull)"

definition value_from_js :: "js \<Rightarrow> lvalue option" where
  "value_from_js v =
     (case v of
        JNull \<Rightarrow> Some LNull
      | JUndefined \<Rightarrow> Some LNull
      | JBool b \<Rightarrow> Some (LBool b)
      | JNum n \<Rightarrow> Some (LDouble n)
      | JStr s \<Rightarrow> Some (LString s)
      | _ \<Rightarrow> None)"

text \<open>The entries of an array are its elements under their indices.\<close>

definition fields_from_js :: "js \<Rightarrow> (string \<times> lvalue) list" where
  "fields_from_js v =
     List.map_filter (\<lambda>(k, x). map_option (Pair k) (value_from_js x))
       (case v of
          JObject kvs \<Rightarrow> kvs
        | JArray xs \<Rightarrow> map (\<lambda>(i, x). (dec i, x)) (enumerate 0 xs)
        | _ \<Rightarrow> [])"

definition comment_to_js ::
    "(64 word \<Rightarrow> 64 word) \<Rightarrow> (nat \<Rightarrow> 64 word) \<Rightarrow> (string \<times> 'n) list \<Rightarrow> 'n comment \<Rightarrow> js" where
  "comment_to_js f64 num paths c =
     js_object
       [(''id'', JStr (cm_id c)),
        (''file'', case Option.bind (cm_file c) (\<lambda>n. find (\<lambda>(_, m). m = n) paths) of
                     Some (p, _) \<Rightarrow> JStr p | None \<Rightarrow> JNull),
        (''parent'', case cm_parent c of Some s \<Rightarrow> JStr s | None \<Rightarrow> JNull),
        (''createdAt'', JNum (f64 (cm_created_at c))),
        (''range'', case cm_range c of Some (a, b) \<Rightarrow> JArray [JNum (num a), JNum (num b)] | None \<Rightarrow> JNull),
        (''orphaned'', JBool (cm_orphaned c)),
        (''fields'', js_object (map (\<lambda>(k, v). (k, value_to_js f64 v)) (cm_fields c)))]"

definition comments_to_js ::
    "('d, 'n, 't, 'm) loro_ct \<Rightarrow> ('d, 'n, 't, 'k) loro_cur \<Rightarrow> (64 word \<Rightarrow> 64 word) \<Rightarrow> (nat \<Rightarrow> 64 word) \<Rightarrow> 'd doc
       \<Rightarrow> (string \<times> 'n) list \<Rightarrow> js list" where
  "comments_to_js L C f64 num d paths = map (comment_to_js f64 num paths) (comment_list L C d None)"

section \<open>Properties of the boundary\<close>

lemma ascii_hex: "n < 16 \<Longrightarrow> of_char (hex_digit n) < (128 :: nat)"
  by (auto simp: of_char_hex_digit)

lemma hex_starts: "char_starts (encode_hex bs)"
proof (cases bs)
  case (Cons b bs')
  have "of_char b div 16 mod 16 < (16 :: nat)" by simp
  from ascii_hex [OF this] show ?thesis by (simp add: Cons encode_hex_def char_starts_def hex2)
qed (simp add: encode_hex_def char_starts_def)

lemma decode_pairs_hex: "decode_pairs (encode_hex bs) = Some (Some bs)"
proof (induction bs)
  case (Cons b bs)
  have e: "encode_hex (b # bs) =
      hex_digit (of_char b div 16 mod 16) # hex_digit (of_char b mod 16) # encode_hex bs"
    by (simp add: encode_hex_def hex2)
  have "u8_from_hex (hex_digits 2 (of_char b)) = Some (of_char b)" by (rule u8_from_hex_digits) simp
  then have "u8_from_hex [hex_digit (of_char b div 16 mod 16), hex_digit (of_char b mod 16)] = Some (of_char b)"
    by (simp only: hex2)
  with Cons show ?case by (simp add: e hex_starts)
qed (simp add: encode_hex_def)

lemma even_hex: "even (length (encode_hex bs))"
  by (induction bs) (simp_all add: encode_hex_def)

lemma decode_encode_hex: "decode_hex (encode_hex bs) = Some (Some bs)"
  by (simp add: decode_hex_def even_hex decode_pairs_hex)

end
