(* ===== verification/Browser.thy ===== *)
theory Browser
  imports Browser_Js Doc_Fs Presence
begin

text \<open>
  \<open>crates/okayeg-wasm/src/lib.rs\<close>: the browser's peer, a document and a presence store with callbacks into
  JavaScript.  Dialing is left out, and so are the timers; one turn of each task that a timer, an event of
  the store or a nudge wakes is an operation.  The walk and the edits by path are the file's own, not those
  of \<open>fs.rs\<close>.  An outer \<open>None\<close> is a panic or a walk that does not end.
\<close>

section \<open>Files by path\<close>

text \<open>The recursion of \<open>collect_files\<close>: a node with the path of its parent, then its children in order.\<close>

definition collect_path :: "string \<Rightarrow> string \<Rightarrow> string" where
  "collect_path up name = (if up = [] then name else up @ ''/'' @ name)"

definition collect_succs :: "('d, 'n, 't, 'm) loro_ct \<Rightarrow> 'd \<Rightarrow> 'n \<times> string \<Rightarrow> ('n \<times> string) list" where
  "collect_succs L d = (\<lambda>(n, up).
     case ft_name L d n of
       None \<Rightarrow> []
     | Some name \<Rightarrow>
         if ft_kind L d n = Some Dir then map (\<lambda>c. (c, collect_path up name)) (ft_children L d n) else [])"

definition collect_file :: "('d, 'n, 't, 'm) loro_ct \<Rightarrow> 'd \<Rightarrow> 'n \<times> string \<Rightarrow> (string \<times> 'n \<times> string) option" where
  "collect_file L d = (\<lambda>(n, up).
     case ft_name L d n of
       None \<Rightarrow> None
     | Some name \<Rightarrow>
         if ft_kind L d n = Some File
         then Some (collect_path up name, n, case ft_content L d n of Some t \<Rightarrow> tx_str L d t | None \<Rightarrow> [])
         else None)"

definition collect_files :: "('d, 'n, 't, 'm) loro_ct \<Rightarrow> 'd \<Rightarrow> (string \<times> 'n \<times> string) list option" where
  "collect_files L d =
     map_option (List.map_filter (collect_file L d))
       (dfs (\<lambda>x. rev (collect_succs L d x)) (map (\<lambda>n. (n, [])) (ft_roots L d)) [])"

definition path_comps :: "string \<Rightarrow> string list" where
  "path_comps path = filter (\<lambda>c. c \<noteq> []) (split_on (CHR ''/'') path)"

fun find_in :: "('d, 'n, 't, 'm) loro_ct \<Rightarrow> 'd \<Rightarrow> string list \<Rightarrow> 'n list \<Rightarrow> 'n option \<Rightarrow> 'n option" where
  "find_in L d [] level node = node"
| "find_in L d (c # comps) level node =
     (case find (\<lambda>n. ft_name L d n = Some c) level of
        None \<Rightarrow> None
      | Some n \<Rightarrow> find_in L d comps (ft_children L d n) (Some n))"

definition find_file :: "('d, 'n, 't, 'm) loro_ct \<Rightarrow> 'd \<Rightarrow> string \<Rightarrow> 'n option" where
  "find_file L d path = find_in L d (path_comps path) (ft_roots L d) None"

fun make_dirs :: "('d, 'n, 't, 'm) loro_ct \<Rightarrow> string list \<Rightarrow> 'd \<Rightarrow> 'n option \<Rightarrow> ('d \<times> 'n option) option" where
  "make_dirs L [] d parent = Some (d, parent)"
| "make_dirs L (dir # dirs) d parent =
     (case find (\<lambda>n. ft_name L d n = Some dir \<and> ft_kind L d n = Some Dir)
             (case parent of Some p \<Rightarrow> ft_children L d p | None \<Rightarrow> ft_roots L d) of
        Some n \<Rightarrow> make_dirs L dirs d (Some n)
      | None \<Rightarrow>
          (case ft_create_dir L d parent dir of
             None \<Rightarrow> None
           | Some (d1, n) \<Rightarrow> make_dirs L dirs d1 (Some n)))"

definition create_file_at :: "('d, 'n, 't, 'm) loro_ct \<Rightarrow> 'd \<Rightarrow> string \<Rightarrow> 'd option" where
  "create_file_at L d path =
     (let comps = path_comps path
      in if comps = [] then Some d
         else (case make_dirs L (butlast comps) d None of
                 None \<Rightarrow> None
               | Some (d1, parent) \<Rightarrow> map_option fst (ft_create_file L d1 parent (last comps))))"

section \<open>The client\<close>

datatype callback = OnLog | OnFiles | OnFileContent | OnComments | OnPresence | OnCursor | OnDisconnect

datatype fired =
    Logged string
  | FilesAre "string list"
  | ContentIs string string
  | CommentsAre "js list"
  | PresenceIs js
  | CursorsAre js
  | Disconnected string

fun callback_of :: "fired \<Rightarrow> callback" where
  "callback_of (Logged msg) = OnLog"
| "callback_of (FilesAre paths) = OnFiles"
| "callback_of (ContentIs path content) = OnFileContent"
| "callback_of (CommentsAre cs) = OnComments"
| "callback_of (PresenceIs peers) = OnPresence"
| "callback_of (CursorsAre peers) = OnCursor"
| "callback_of (Disconnected reason) = OnDisconnect"

text \<open>
  \<open>cl_callbacks\<close> are the registered callbacks, \<open>cl_fired\<close> the calls made so far and \<open>cl_nudges\<close> the number
  of ticks sent to \<open>changed\<close>.
\<close>

record ('d, 's) client =
  cl_doc :: "'d doc"
  cl_nudges :: nat
  cl_node_id :: string
  cl_callbacks :: "callback set"
  cl_fired :: "fired list"
  cl_presence :: 's
  cl_my_presence :: "lvalue option"
  cl_my_cursor :: "(string \<times> bytes \<times> bytes) option"

definition PRESENCE_TIMEOUT_MS :: "64 word" where "PRESENCE_TIMEOUT_MS = 30000"

text \<open>\<open>from_secret\<close>, given the public half of the seed; a seed of another length is refused.\<close>

definition client_new ::
    "('d, 'v, 'f) vdoc \<Rightarrow> 's estore \<Rightarrow> (bytes \<Rightarrow> string) \<Rightarrow> 64 word \<Rightarrow> bytes \<Rightarrow> ('d, 's) client" where
  "client_new V E id_of peer secret =
     \<lparr>cl_doc = doc_new V peer, cl_nudges = 0, cl_node_id = id_of secret, cl_callbacks = {}, cl_fired = [],
      cl_presence = es_new E PRESENCE_TIMEOUT_MS, cl_my_presence = None, cl_my_cursor = None\<rparr>"

definition with_seed ::
    "('d, 'v, 'f) vdoc \<Rightarrow> 's estore \<Rightarrow> (bytes \<Rightarrow> string) \<Rightarrow> 64 word \<Rightarrow> bytes \<Rightarrow> string + ('d, 's) client" where
  "with_seed V E id_of peer seed =
     (if length seed = 32 then Ok (client_new V E id_of peer seed) else Err ''seed must be exactly 32 bytes'')"

definition register :: "callback \<Rightarrow> ('d, 's) client \<Rightarrow> ('d, 's) client" where
  "register cb c = c\<lparr>cl_callbacks := insert cb (cl_callbacks c)\<rparr>"

definition fire :: "fired list \<Rightarrow> ('d, 's) client \<Rightarrow> ('d, 's) client" where
  "fire fs c = c\<lparr>cl_fired := cl_fired c @ filter (\<lambda>f. callback_of f \<in> cl_callbacks c) fs\<rparr>"

definition commit_and_nudge :: "('d, 'v, 'f) vdoc \<Rightarrow> ('d, 's) client \<Rightarrow> ('d, 's) client" where
  "commit_and_nudge V c = c\<lparr>cl_doc := doc_commit V (cl_doc c), cl_nudges := cl_nudges c + 1\<rparr>"

definition on_inner :: "('d \<Rightarrow> 'd) \<Rightarrow> ('d, 's) client \<Rightarrow> ('d, 's) client" where
  "on_inner f c = c\<lparr>cl_doc := (cl_doc c)\<lparr>inner := f (inner (cl_doc c))\<rparr>\<rparr>"

section \<open>Files\<close>

definition client_files :: "('d, 'n, 't, 'm) loro_ct \<Rightarrow> ('d, 's) client \<Rightarrow> string list option" where
  "client_files L c = map_option (map fst) (collect_files L (inner (cl_doc c)))"

definition client_read :: "('d, 'n, 't, 'm) loro_ct \<Rightarrow> ('d, 's) client \<Rightarrow> string \<Rightarrow> string option" where
  "client_read L c path =
     Option.bind (find_file L (inner (cl_doc c)) path)
       (\<lambda>n. map_option (tx_str L (inner (cl_doc c))) (ft_content L (inner (cl_doc c)) n))"

text \<open>\<open>delta\<close> is what became of reading the delta from JavaScript.\<close>

definition apply_edit ::
    "('d, 'v, 'f) vdoc \<Rightarrow> ('d, 'n, 't, 'm) loro_ct \<Rightarrow> string \<Rightarrow> string + wire_op list \<Rightarrow> ('d, 's) client
       \<Rightarrow> ('d, 's) client" where
  "apply_edit V L path delta c =
     (case delta of
        Inl e \<Rightarrow> fire [Logged (''bad delta: '' @ e)] c
      | Inr wire \<Rightarrow>
          (case find_file L (inner (cl_doc c)) path of
             None \<Rightarrow> fire [Logged (''edit to unknown file '' @ [CHR 0x22] @ path @ [CHR 0x22])] c
           | Some n \<Rightarrow>
               (case ft_content L (inner (cl_doc c)) n of
                  None \<Rightarrow> c
                | Some t \<Rightarrow>
                    (case apply_to L wire t (inner (cl_doc c)) of
                       (d, ok) \<Rightarrow>
                         (let c1 = on_inner (\<lambda>_. d) c
                          in if ok then commit_and_nudge V c1 else fire [Logged ''apply delta''] c1)))))"

definition create_file ::
    "('d, 'v, 'f) vdoc \<Rightarrow> ('d, 'n, 't, 'm) loro_ct \<Rightarrow> string \<Rightarrow> ('d, 's) client \<Rightarrow> ('d, 's) client option" where
  "create_file V L path c =
     (if find_file L (inner (cl_doc c)) path \<noteq> None then Some c
      else map_option (\<lambda>d. commit_and_nudge V (on_inner (\<lambda>_. d) c)) (create_file_at L (inner (cl_doc c)) path))"

definition delete_file ::
    "('d, 'v, 'f) vdoc \<Rightarrow> ('d, 'n, 't, 'm) loro_ct \<Rightarrow> string \<Rightarrow> ('d, 's) client \<Rightarrow> ('d, 's) client option" where
  "delete_file V L path c =
     (case find_file L (inner (cl_doc c)) path of
        None \<Rightarrow> Some c
      | Some n \<Rightarrow> map_option (\<lambda>d. commit_and_nudge V (on_inner (\<lambda>_. d) c)) (ft_delete L (inner (cl_doc c)) n))"

section \<open>Comments\<close>

definition client_comments ::
    "('d, 'n, 't, 'm) loro_ct \<Rightarrow> ('d, 'n, 't, 'k) loro_cur \<Rightarrow> (64 word \<Rightarrow> 64 word) \<Rightarrow> (nat \<Rightarrow> 64 word)
       \<Rightarrow> ('d, 's) client \<Rightarrow> js list option" where
  "client_comments L C f64 num c =
     map_option (\<lambda>files. comments_to_js L C f64 num (cl_doc c) (map (\<lambda>(p, n, _). (p, n)) files))
       (collect_files L (inner (cl_doc c)))"

text \<open>\<open>now\<close> is the clock of the browser.\<close>

definition add_comment ::
    "('d, 'v, 'f) vdoc \<Rightarrow> ('d, 'n, 't, 'm) loro_ct \<Rightarrow> ('d, 'n, 't, 'k) loro_cur \<Rightarrow> 64 word \<Rightarrow> string \<Rightarrow> nat \<Rightarrow> nat
       \<Rightarrow> js \<Rightarrow> ('d, 's) client \<Rightarrow> (('d, 's) client \<times> string option) option" where
  "add_comment V L C now path a b extra c =
     (case find_file L (inner (cl_doc c)) path of
        None \<Rightarrow> Some (c, None)
      | Some n \<Rightarrow>
          map_option (\<lambda>(d, cid). case cid of
               None \<Rightarrow> (c\<lparr>cl_doc := d\<rparr>, None)
             | Some cid \<Rightarrow> (commit_and_nudge V (c\<lparr>cl_doc := d\<rparr>), Some cid))
            (comment_add V L C (cl_doc c) n (a, b) now (fields_from_js extra)))"

definition reply_comment ::
    "('d, 'v, 'f) vdoc \<Rightarrow> ('d, 'n, 't, 'm) loro_ct \<Rightarrow> 64 word \<Rightarrow> string \<Rightarrow> js \<Rightarrow> ('d, 's) client
       \<Rightarrow> (('d, 's) client \<times> string option) option" where
  "reply_comment V L now parent extra c =
     map_option (\<lambda>(d, cid). case cid of
          None \<Rightarrow> (c\<lparr>cl_doc := d\<rparr>, None)
        | Some cid \<Rightarrow> (commit_and_nudge V (c\<lparr>cl_doc := d\<rparr>), Some cid))
       (comment_reply V L (cl_doc c) parent now (fields_from_js extra))"

definition set_comment ::
    "('d, 'v, 'f) vdoc \<Rightarrow> ('d, 'n, 't, 'm) loro_ct \<Rightarrow> string \<Rightarrow> string \<Rightarrow> js \<Rightarrow> ('d, 's) client
       \<Rightarrow> (('d, 's) client \<times> bool) option" where
  "set_comment V L cid key v c =
     (case value_from_js v of
        None \<Rightarrow> Some (c, False)
      | Some w \<Rightarrow>
          map_option (\<lambda>(d, ok). if ok then (commit_and_nudge V (c\<lparr>cl_doc := d\<rparr>), True) else (c\<lparr>cl_doc := d\<rparr>, False))
            (comment_set L (cl_doc c) cid key w))"

definition remove_comment ::
    "('d, 'v, 'f) vdoc \<Rightarrow> ('d, 'n, 't, 'm) loro_ct \<Rightarrow> string \<Rightarrow> ('d, 's) client \<Rightarrow> ('d, 's) client option" where
  "remove_comment V L cid c =
     map_option (\<lambda>d. commit_and_nudge V (c\<lparr>cl_doc := d\<rparr>)) (comment_remove L (cl_doc c) cid)"

section \<open>Presence\<close>

definition set_presence :: "'s estore \<Rightarrow> js \<Rightarrow> ('d, 's) client \<Rightarrow> ('d, 's) client" where
  "set_presence E extra c =
     (let v = LMap (fields_from_js extra)
      in c\<lparr>cl_my_presence := Some v, cl_presence := es_set E (cl_presence c) (cl_node_id c) v\<rparr>)"

definition clear_presence :: "'s estore \<Rightarrow> ('d, 's) client \<Rightarrow> ('d, 's) client" where
  "clear_presence E c =
     c\<lparr>cl_my_presence := None, cl_presence := es_delete E (cl_presence c) (cl_node_id c)\<rparr>"

definition presence_to_js :: "'s estore \<Rightarrow> (64 word \<Rightarrow> 64 word) \<Rightarrow> 's \<Rightarrow> js" where
  "presence_to_js E f64 st =
     js_object (map (\<lambda>(key, v).
        (key, case v of
                LMap kvs \<Rightarrow> js_object (map (\<lambda>(k, x). (k, value_to_js f64 x)) kvs)
              | _ \<Rightarrow> value_to_js f64 v)) (es_all E st))"

definition client_set_cursor ::
    "('d, 'n, 't, 'm) loro_ct \<Rightarrow> ('d, 'n, 't, 'k) loro_cur \<Rightarrow> 's estore \<Rightarrow> string \<Rightarrow> nat \<Rightarrow> nat \<Rightarrow> ('d, 's) client
       \<Rightarrow> ('d, 's) client \<times> bool" where
  "client_set_cursor L C E path anchor head c =
     (let d = inner (cl_doc c)
      in case Option.bind (find_file L d path) (ft_content L d) of
           None \<Rightarrow> (c, False)
         | Some t \<Rightarrow>
             (case (cu_get C d t anchor SLeft, cu_get C d t head SRight) of
                (Some a, Some h) \<Rightarrow>
                  (c\<lparr>cl_my_cursor := Some (path, cu_encode C a, cu_encode C h),
                     cl_presence := set_cursor E (cl_presence c) (cl_node_id c) path (cu_encode C a) (cu_encode C h)\<rparr>,
                   True)
              | _ \<Rightarrow> (c, False)))"

definition client_clear_cursor :: "'s estore \<Rightarrow> ('d, 's) client \<Rightarrow> ('d, 's) client" where
  "client_clear_cursor E c =
     c\<lparr>cl_my_cursor := None, cl_presence := clear_cursor E (cl_presence c) (cl_node_id c)\<rparr>"

definition resolve_cursors ::
    "('d, 'n, 't, 'k) loro_cur \<Rightarrow> 's estore \<Rightarrow> (nat \<Rightarrow> 64 word) \<Rightarrow> 'd \<Rightarrow> 's \<Rightarrow> js" where
  "resolve_cursors C E num d st =
     js_object (List.map_filter (\<lambda>(ns, file, anchor, head).
        (case (cu_decode C anchor, cu_decode C head) of
           (Some a, Some h) \<Rightarrow>
             (case (cu_pos C d a, cu_pos C d h) of
                (Some (ap, au), Some (hp, hu)) \<Rightarrow>
                  Some (ns, js_object [(''file'', JStr file), (''anchor'', JNum (num ap)), (''head'', JNum (num hp)),
                                       (''orphaned'', JBool (au \<or> hu))])
              | _ \<Rightarrow> None)
         | _ \<Rightarrow> None)) (cursors E st))"

section \<open>The tasks\<close>

definition reflect_presence ::
    "('d, 'n, 't, 'k) loro_cur \<Rightarrow> 's estore \<Rightarrow> (64 word \<Rightarrow> 64 word) \<Rightarrow> (nat \<Rightarrow> 64 word) \<Rightarrow> ('d, 's) client
       \<Rightarrow> ('d, 's) client" where
  "reflect_presence C E f64 num c =
     fire [PresenceIs (presence_to_js E f64 (cl_presence c)),
           CursorsAre (resolve_cursors C E num (inner (cl_doc c)) (cl_presence c))] c"

definition refresh_presence :: "'s estore \<Rightarrow> ('d, 's) client \<Rightarrow> ('d, 's) client" where
  "refresh_presence E c =
     (let st1 = (case cl_my_presence c of Some v \<Rightarrow> es_set E (cl_presence c) (cl_node_id c) v | None \<Rightarrow> cl_presence c);
          st2 = (case cl_my_cursor c of
                   Some (file, anchor, head) \<Rightarrow> set_cursor E st1 (cl_node_id c) file anchor head
                 | None \<Rightarrow> st1)
      in c\<lparr>cl_presence := es_remove_outdated E st2\<rparr>)"

definition reflect_changes ::
    "('d, 'n, 't, 'm) loro_ct \<Rightarrow> ('d, 'n, 't, 'k) loro_cur \<Rightarrow> 's estore \<Rightarrow> (64 word \<Rightarrow> 64 word) \<Rightarrow> (nat \<Rightarrow> 64 word)
       \<Rightarrow> ('d, 's) client \<Rightarrow> ('d, 's) client option" where
  "reflect_changes L C E f64 num c =
     map_option (\<lambda>files.
        fire ([FilesAre (map fst files)] @
              map (\<lambda>(path, n, content). ContentIs path content) files @
              [CommentsAre (comments_to_js L C f64 num (cl_doc c) (map (\<lambda>(p, n, _). (p, n)) files)),
               CursorsAre (resolve_cursors C E num (inner (cl_doc c)) (cl_presence c))]) c)
       (collect_files L (inner (cl_doc c)))"

text \<open>The end of a session, with the error of the loop if there was one.\<close>

definition session_over :: "string option \<Rightarrow> ('d, 's) client \<Rightarrow> ('d, 's) client" where
  "session_over e c =
     fire [Disconnected (case e of None \<Rightarrow> ''peer closed'' | Some msg \<Rightarrow> ''sync ended: '' @ msg)] c"

end
