(* ===== verification/Browser_Props.thy ===== *)
theory Browser_Props
  imports Browser Doc_Fs_Walk Watch_Apply
begin

text \<open>
  The browser's own walks and edits by path against the abstract map of \<open>Doc_Fs_Spec\<close>: the file list is
  exactly the files that are located, a path that resolves is found, and a created file is an empty file at
  its path with the directories above it.
\<close>

section \<open>The file list\<close>

definition joined :: "string list \<Rightarrow> string" where
  "joined cs = foldl collect_path [] cs"

lemma joined_snoc: "joined (cs @ [c]) = collect_path (joined cs) c"
  by (simp add: joined_def)

context walkable
begin

definition collected :: "'b \<times> string \<Rightarrow> bool" where
  "collected = (\<lambda>(n, up). \<exists>q cs. site L d q cs \<and> n \<in> set (kids L d q) \<and> up = joined cs)"

lemma in_collect_succs:
  "(k, s) \<in> set (collect_succs L d (n, up)) \<longleftrightarrow>
     (\<exists>c. ft_name L d n = Some c \<and> ft_kind L d n = Some Dir \<and> k \<in> set (kids L d (Some n)) \<and> s = collect_path up c)"
  by (cases "ft_name L d n") (auto simp: collect_succs_def kids_def)

lemma collected_rooted: "collected (n, up) \<Longrightarrow> rooted L d n"
proof -
  assume "collected (n, up)"
  then obtain q cs where q: "site L d q cs" "n \<in> set (kids L d q)" by (auto simp: collected_def)
  show ?thesis by (rule kid_rooted [OF okd site_place [OF q(1) okd] q(2)])
qed

lemma collected_succ:
  assumes "collected (n, up)" "(k, s) \<in> set (collect_succs L d (n, up))"
  shows "collected (k, s)"
proof -
  from assms(2) obtain c where c: "ft_name L d n = Some c" "ft_kind L d n = Some Dir" "k \<in> set (kids L d (Some n))"
    "s = collect_path up c" by (auto simp: in_collect_succs)
  from assms(1) obtain q cs where q: "site L d q cs" "n \<in> set (kids L d q)" "up = joined cs"
    by (auto simp: collected_def)
  with c(1) have "located L d n (cs @ [c])" by (auto simp: located_snoc)
  with c(2) have "site L d (Some n) (cs @ [c])" by (simp add: site_Some)
  with c(3,4) q(3) show ?thesis unfolding collected_def by (auto simp: joined_snoc intro!: exI [of _ "cs @ [c]"])
qed

end

sublocale walkable \<subseteq> browser_walk: unique_forest "\<lambda>x. rev (collect_succs L d x)" collected depth_left
proof (unfold_locales, goal_cases)
  case (1 x y)
  then show ?case using collected_succ by (cases x, cases y) auto
next
  case (2 x y)
  obtain n up k s where xy: "x = (n, up)" "y = (k, s)" by (cases x, cases y)
  have "place L d (Some n)" using 2(1) collected_rooted xy(1) by simp
  then have "tr_parent L d k = Some (PNode n)"
    using kids_parent [OF okd, of "Some n" k] 2(2) xy by (auto simp: in_collect_succs parent_of_def)
  then show ?case unfolding xy by (rule depth_left_step)
next
  case (3 x)
  obtain n up where x: "x = (n, up)" by (cases x)
  have "distinct (kids L d (Some n))"
    using kids_distinct [OF okd, of "Some n"] collected_rooted [of n up] 3 x by simp
  then show ?case
    unfolding x collect_succs_def by (auto simp: kids_def distinct_map inj_on_def split: option.split)
next
  case (4 x y z)
  obtain n up k s where xy: "x = (n, up)" "y = (k, s)" by (cases x, cases y)
  obtain w t where z: "z = (w, t)" by (cases z)
  have "place L d (Some n)" "place L d (Some k)" using 4(1,2) collected_rooted xy by auto
  then have nk: "n = k"
    using one_place [OF okd, of "Some n" "Some k" w] 4(3,4) xy z by (auto simp: in_collect_succs)
  have "up = s"
  proof -
    from 4(1,2) xy nk obtain q cs q' cs' where q: "site L d q cs" "n \<in> set (kids L d q)" "up = joined cs"
      "site L d q' cs'" "n \<in> set (kids L d q')" "s = joined cs'" by (auto simp: collected_def)
    have "q = q'" using one_place [OF okd site_place [OF q(1) okd] site_place [OF q(4) okd] q(2,5)] .
    then have "cs = cs'" using q(1,4) located_unique [OF okd] by (cases q) (auto simp: site_Some)
    with q(3,6) show ?thesis by simp
  qed
  with nk xy show ?case by simp
qed

context walkable
begin

definition collect_start :: "('b \<times> string) list" where
  "collect_start = map (\<lambda>n. (n, [])) (ft_roots L d)"

lemma collected_start: "x \<in> set collect_start \<Longrightarrow> collected x"
  by (auto simp: collect_start_def collected_def kids_def joined_def intro!: exI [of _ None])

lemma collected_reach: "(\<exists>x \<in> set collect_start. browser_walk.reach x y) \<longleftrightarrow> collected y"
proof
  assume "\<exists>x \<in> set collect_start. browser_walk.reach x y"
  then show "collected y" using collected_start browser_walk.reach_P by blast
next
  have down: "\<exists>x \<in> set collect_start. browser_walk.reach x (n, joined (butlast cs))" if "located L d n cs" for n cs
    using that
  proof (induction rule: located.induct)
    case (top n c)
    then have "(n, []) \<in> set collect_start" by (auto simp: collect_start_def kids_def)
    then show ?case by (auto simp: joined_def)
  next
    case (sub p cs n c)
    then obtain x where x: "x \<in> set collect_start" "browser_walk.reach x (p, joined (butlast cs))" by blast
    from sub(1) obtain ds e where cs: "cs = ds @ [e]" by (metis located_ne rev_exhaust)
    with sub(1) have "ft_name L d p = Some e" by (auto simp: located_snoc)
    with sub(2,3) have "(n, joined cs) \<in> set (collect_succs L d (p, joined ds))"
      by (simp add: in_collect_succs cs joined_snoc)
    then have "succ_rel (\<lambda>x. rev (collect_succs L d x)) (p, joined ds) (n, joined cs)" by (simp add: succ_rel_def)
    with x(2) have "browser_walk.reach x (n, joined cs)" unfolding cs by (auto intro: rtranclp.rtrancl_into_rtrancl)
    with x(1) show ?case by (auto simp: butlast_append)
  qed
  assume "collected y"
  then obtain n q cs where y: "y = (n, joined cs)" and q: "site L d q cs" "n \<in> set (kids L d q)"
    by (auto simp: collected_def)
  show "\<exists>x \<in> set collect_start. browser_walk.reach x y"
  proof (cases q)
    case None
    with q y have "y \<in> set collect_start" by (auto simp: collect_start_def kids_def joined_def)
    then show ?thesis by blast
  next
    case (Some p)
    with q(1) have p: "located L d p cs" "ft_kind L d p = Some Dir" by (simp_all add: site_Some)
    then obtain ds e where cs: "cs = ds @ [e]" by (metis located_ne rev_exhaust)
    with p(1) have "ft_name L d p = Some e" by (auto simp: located_snoc)
    with p(2) q(2) Some have "(n, joined cs) \<in> set (collect_succs L d (p, joined ds))"
      by (simp add: in_collect_succs cs joined_snoc)
    then have "succ_rel (\<lambda>x. rev (collect_succs L d x)) (p, joined ds) (n, joined cs)" by (simp add: succ_rel_def)
    with down [OF p(1)] y cs show ?thesis by (auto intro: rtranclp.rtrancl_into_rtrancl)
  qed
qed

lemma collect_visits:
  "\<exists>l. dfs (\<lambda>x. rev (collect_succs L d x)) collect_start [] = Some l \<and> set l = {y. collected y} \<and> distinct l"
proof -
  have "distinct collect_start"
    using kids_distinct [OF okd, of None] by (simp add: collect_start_def kids_def distinct_map inj_on_def)
  moreover have "x \<notin> set (rev (collect_succs L d y))" if "x \<in> set collect_start" "collected y" for x y
  proof
    assume s: "x \<in> set (rev (collect_succs L d y))"
    obtain n up k t where xy: "x = (n, up)" "y = (k, t)" by (cases x, cases y)
    have "n \<in> set (kids L d None)" using that(1) xy by (auto simp: collect_start_def kids_def)
    moreover have "n \<in> set (kids L d (Some k))" using s xy by (auto simp: in_collect_succs)
    moreover have "place L d (Some k)" using that(2) collected_rooted xy by simp
    ultimately show False using one_place [OF okd, of None "Some k" n] by simp
  qed
  ultimately have "\<exists>l. dfs (\<lambda>x. rev (collect_succs L d x)) collect_start [] = Some ([] @ l) \<and>
      set l = (\<Union>x \<in> set collect_start. {y. browser_walk.reach x y}) \<and> distinct l"
    using collected_start by (intro browser_walk.visits_all_distinct)
  then show ?thesis using collected_reach by auto
qed

lemma collect_file_node: "collect_file L d x = Some (path, n, s) \<Longrightarrow> x = (n, snd x)"
  by (cases x) (auto simp: collect_file_def split: option.splits if_splits)

lemma collect_lists:
  "\<exists>l. collect_files L d = Some l \<and>
     (\<forall>path n s. (path, n, s) \<in> set l \<longleftrightarrow>
        (\<exists>cs. located L d n cs \<and> path = joined cs \<and> ft_kind L d n = Some File \<and>
              s = (case ft_content L d n of Some t \<Rightarrow> tx_str L d t | None \<Rightarrow> [])))"
proof -
  obtain l where l: "dfs (\<lambda>x. rev (collect_succs L d x)) collect_start [] = Some l" "set l = {y. collected y}"
    using collect_visits by blast
  have "(path, n, s) \<in> set (List.map_filter (collect_file L d) l) \<longleftrightarrow>
        (\<exists>cs. located L d n cs \<and> path = joined cs \<and> ft_kind L d n = Some File \<and>
              s = (case ft_content L d n of Some t \<Rightarrow> tx_str L d t | None \<Rightarrow> []))" for path n s
  proof
    assume "(path, n, s) \<in> set (List.map_filter (collect_file L d) l)"
    then obtain up where up: "collected (n, up)" "collect_file L d (n, up) = Some (path, n, s)"
      using collect_file_node by (fastforce simp: in_map_filter l(2))
    then obtain name where n: "ft_name L d n = Some name" "ft_kind L d n = Some File" "path = collect_path up name"
      "s = (case ft_content L d n of Some t \<Rightarrow> tx_str L d t | None \<Rightarrow> [])"
      by (auto simp: collect_file_def split: option.splits if_splits)
    from up(1) obtain q cs where "site L d q cs" "n \<in> set (kids L d q)" "up = joined cs" by (auto simp: collected_def)
    with n have "located L d n (cs @ [name])" "path = joined (cs @ [name])" by (auto simp: located_snoc joined_snoc)
    with n show "\<exists>cs. located L d n cs \<and> path = joined cs \<and> ft_kind L d n = Some File \<and>
        s = (case ft_content L d n of Some t \<Rightarrow> tx_str L d t | None \<Rightarrow> [])" by blast
  next
    assume "\<exists>cs. located L d n cs \<and> path = joined cs \<and> ft_kind L d n = Some File \<and>
        s = (case ft_content L d n of Some t \<Rightarrow> tx_str L d t | None \<Rightarrow> [])"
    then obtain cs name where n: "located L d n (cs @ [name])" "path = joined (cs @ [name])"
      "ft_kind L d n = Some File" "s = (case ft_content L d n of Some t \<Rightarrow> tx_str L d t | None \<Rightarrow> [])"
      by (metis located_ne rev_exhaust)
    then obtain q where "site L d q cs" "n \<in> set (kids L d q)" "ft_name L d n = Some name" by (auto simp: located_snoc)
    with n have "collected (n, joined cs)" "collect_file L d (n, joined cs) = Some (path, n, s)"
      by (auto simp: collected_def collect_file_def joined_snoc)
    then show "(path, n, s) \<in> set (List.map_filter (collect_file L d) l)" by (auto simp: in_map_filter l(2))
  qed
  with l(1) show ?thesis by (auto simp: collect_files_def collect_start_def)
qed

end

section \<open>Paths\<close>

lemma resolve_from_find: "resolve_from L d q cs = Inr r \<Longrightarrow> find_in L d cs (kids L d q) q = r"
proof (induction L d q cs rule: resolve_from.induct)
  case (2 L d q c cs)
  then obtain n where n: "child_named L d q c = Some n" "resolve_from L d (Some n) cs = Inr r"
    by (auto split: if_splits option.splits)
  have "ft_children L d n = kids L d (Some n)" by (simp add: kids_def)
  with 2(1) [OF _ n(1)] 2(2) n show ?case by (auto simp: child_named_kids split: if_splits)
qed simp

lemma resolve_find: "resolve L d path = Ok n \<Longrightarrow> find_file L d path = Some n"
proof -
  assume "resolve L d path = Ok n"
  then obtain cs where cs: "components path = Ok cs" "resolve_from L d None cs = Inr (Some n)"
    by (auto simp: resolve_def split: sum.splits)
  then have "path_comps path = cs" by (auto simp: components_def path_comps_def Let_def split: if_splits)
  with resolve_from_find [OF cs(2)] show ?thesis by (simp add: find_file_def kids_def)
qed

section \<open>Creating files\<close>

context loro_tree
begin

lemma in_doc_snoc:
  assumes "doc_inv d" "site L d q ps"
  shows "in_doc L d (ps @ [c]) v \<longleftrightarrow> (\<exists>n \<in> set (kids L d q). ft_name L d n = Some c \<and> shape L d n v)"
proof -
  have d: "ok d" "tidy L d" using assms(1) by (simp_all add: doc_inv_def)
  have "located L d n (ps @ [c]) \<longleftrightarrow> n \<in> set (kids L d q) \<and> ft_name L d n = Some c" for n
    unfolding located_snoc using assms(2) site_same [OF d assms(2)] by blast
  then show ?thesis by (auto simp: in_doc_def)
qed

lemma make_dirs_grows:
  assumes "doc_inv d" "site L d q ps" "\<forall>rs s. rs \<noteq> [] \<and> prefix rs cs \<longrightarrow> \<not> in_doc L d (ps @ rs) (Some s)"
  shows "\<exists>d' q'. make_dirs L cs d q = Some (d', q') \<and> site L d' q' (ps @ cs) \<and>
    grows d d' (\<lambda>p v. v = None \<and> (\<exists>rs. rs \<noteq> [] \<and> prefix rs cs \<and> p = ps @ rs))"
  using assms
proof (induction cs arbitrary: d q ps)
  case Nil
  then show ?case by (auto intro!: grows_refl)
next
  case (Cons c cs)
  let ?X = "\<lambda>p v. v = None \<and> (\<exists>rs. rs \<noteq> [] \<and> prefix rs (c # cs) \<and> p = ps @ rs)"
  let ?Y = "\<lambda>p v. v = None \<and> (\<exists>rs. rs \<noteq> [] \<and> prefix rs cs \<and> p = (ps @ [c]) @ rs)"
  have X: "?X p v \<longleftrightarrow> (p = ps @ [c] \<and> v = None) \<or> ?Y p v" for p v
    by (auto simp: prefix_Cons Cons_eq_append_conv)
  have free: "\<forall>rs s. rs \<noteq> [] \<and> prefix rs cs \<longrightarrow> \<not> in_doc L d ((ps @ [c]) @ rs) (Some s)"
    using Cons.prems(3) by (metis Cons_prefix_Cons append.assoc append_Cons append_Nil list.discI)
  have nofile: "\<not> in_doc L d (ps @ [c]) (Some s)" for s using Cons.prems(3) by (metis Cons_prefix_Cons list.discI prefix_bot.bot_least)
  let ?pick = "find (\<lambda>n. ft_name L d n = Some c \<and> ft_kind L d n = Some Dir) (kids L d q)"
  have step: "make_dirs L (c # cs) d q =
      (case ?pick of Some n \<Rightarrow> make_dirs L cs d (Some n)
       | None \<Rightarrow> (case ft_create_dir L d q c of None \<Rightarrow> None | Some (d1, n) \<Rightarrow> make_dirs L cs d1 (Some n)))"
    by (simp add: kids_def split: option.split)
  show ?case
  proof (cases ?pick)
    case (Some n)
    then have n: "n \<in> set (kids L d q)" "ft_name L d n = Some c" "ft_kind L d n = Some Dir" by (auto dest: find_Some_in)
    then have s: "site L d (Some n) (ps @ [c])" "in_doc L d (ps @ [c]) None"
      using Cons.prems(2) by (auto simp: site_Some located_snoc in_doc_def shape_def)
    from Cons.IH [OF Cons.prems(1) s(1) free] obtain d' q' where r: "make_dirs L cs d (Some n) = Some (d', q')"
      "site L d' q' ((ps @ [c]) @ cs)" "grows d d' ?Y" by blast
    have "grows d d' ?X" using r(3) s(2) unfolding grows_def X by blast
    with r(1,2) show ?thesis unfolding step by (simp add: Some)
  next
    case None
    then have "\<forall>v. \<not> in_doc L d (ps @ [c]) v"
      using nofile in_doc_snoc [OF Cons.prems(1,2)] by (auto simp: find_None shape_def split: option.splits)
    from dir_grows [OF Cons.prems(1,2) this] obtain d1 n where d1: "ft_create_dir L d q c = Some (d1, n)"
      "site L d1 (Some n) (ps @ [c])" "grows d d1 (\<lambda>p v. p = ps @ [c] \<and> v = None)" by blast
    then have inv: "doc_inv d1" and "\<forall>rs s. rs \<noteq> [] \<and> prefix rs cs \<longrightarrow> \<not> in_doc L d1 ((ps @ [c]) @ rs) (Some s)"
      using free by (auto simp: grows_def)
    from Cons.IH [OF inv d1(2) this(2)] obtain d' q' where r: "make_dirs L cs d1 (Some n) = Some (d', q')"
      "site L d' q' ((ps @ [c]) @ cs)" "grows d1 d' ?Y" by blast
    have "grows d d' ?X" using grows_trans [OF d1(3) r(3)] unfolding X .
    with r(1,2) d1(1) show ?thesis unfolding step by (simp add: None)
  qed
qed

lemma find_in_located:
  assumes "doc_inv d" "site L d q ps" "find_in L d cs (kids L d q) x = Some n" "cs \<noteq> []"
    "\<forall>rs s. rs \<noteq> [] \<and> strict_prefix rs cs \<longrightarrow> \<not> in_doc L d (ps @ rs) (Some s)"
  shows "located L d n (ps @ cs)"
  using assms(2-)
proof (induction cs arbitrary: q ps x)
  case (Cons c cs)
  from Cons.prems(2) obtain k where "find (\<lambda>n. ft_name L d n = Some c) (kids L d q) = Some k"
    and r: "find_in L d cs (ft_children L d k) (Some k) = Some n" by (auto split: option.splits)
  then have "k \<in> set (kids L d q)" "ft_name L d k = Some c" by (auto dest: find_Some_in)
  with Cons.prems(1) have l: "located L d k (ps @ [c])" by (auto simp: located_snoc)
  show ?case
  proof (cases "cs = []")
    case True
    with r l show ?thesis by simp
  next
    case False
    then have "\<not> in_doc L d (ps @ [c]) (Some s)" for s
      using Cons.prems(4) [rule_format, of "[c]" s] by (cases cs) simp_all
    moreover obtain v where "shape L d k v" using l assms(1) by (auto simp: doc_inv_def shaped_def)
    ultimately have "v = None" using l by (cases v) (auto simp: in_doc_def)
    with \<open>shape L d k v\<close> l have s: "site L d (Some k) (ps @ [c])" by (simp add: site_Some shape_def)
    have "\<forall>rs s. rs \<noteq> [] \<and> strict_prefix rs cs \<longrightarrow> \<not> in_doc L d ((ps @ [c]) @ rs) (Some s)"
    proof (intro allI impI)
      fix rs s assume "rs \<noteq> [] \<and> strict_prefix rs cs"
      then show "\<not> in_doc L d ((ps @ [c]) @ rs) (Some s)" using Cons.prems(4) [rule_format, of "c # rs" s] by simp
    qed
    from Cons.IH [OF s _ False this, of "Some k"] r show ?thesis by (simp add: kids_def)
  qed
qed simp

end

context loro_text_tree
begin

lemma empty_file_grows:
  assumes "doc_inv d" "site L d q rel" "\<forall>v. \<not> in_doc L d (rel @ [name]) v"
  shows "\<exists>d1 n. ft_create_file L d q name = Some (d1, n) \<and>
           grows d d1 (\<lambda>cs v. cs = rel @ [name] \<and> v = Some [])"
proof -
  have d: "ok d" "tidy L d" "shaped L d" using assms(1) by (simp_all add: doc_inv_def)
  obtain d1 n t where c: "ft_create_file L d q name = Some (d1, n)" "ok d1" "added L d d1 n q name File"
    "ft_content L d1 n = Some t" "tx_str L d1 t = []"
    using ft_create_file_added [OF d(1) site_place [OF assms(2) d(1)]] by blast
  note cr = created [OF d(1,2) c(2,3) assms(2,3) d(3)]
  have "shape L d1 n (Some [])" using c(3-5) by (simp add: added_def shape_def)
  then have "grows d d1 (\<lambda>cs v. cs = rel @ [name] \<and> v = Some [])"
    using cr(4) by (intro grows_one [OF assms(1) c(2) cr(1,2) _ cr(3)])
  with c(1) show ?thesis by blast
qed

lemma create_file_at_grows:
  assumes "doc_inv d" "path_comps path = cs @ [name]" "\<forall>rs s. prefix rs cs \<longrightarrow> \<not> in_doc L d rs (Some s)"
    "\<forall>v. \<not> in_doc L d (cs @ [name]) v"
  shows "\<exists>d'. create_file_at L d path = Some d' \<and>
    grows d d' (\<lambda>p v. (v = None \<and> p \<noteq> [] \<and> prefix p cs) \<or> (p = cs @ [name] \<and> v = Some []))"
proof -
  have "\<forall>rs s. rs \<noteq> [] \<and> prefix rs cs \<longrightarrow> \<not> in_doc L d ([] @ rs) (Some s)" using assms(3) by simp
  from make_dirs_grows [OF assms(1) _ this, of None] obtain d1 q where d1: "make_dirs L cs d None = Some (d1, q)"
    "site L d1 q cs" "grows d d1 (\<lambda>p v. v = None \<and> (\<exists>rs. rs \<noteq> [] \<and> prefix rs cs \<and> p = [] @ rs))" by auto
  then have "doc_inv d1" "\<forall>v. \<not> in_doc L d1 (cs @ [name]) v" using assms(4) by (auto simp: grows_def)
  from empty_file_grows [OF this(1) d1(2) this(2)] obtain d' n where d': "ft_create_file L d1 q name = Some (d', n)"
    "grows d1 d' (\<lambda>p v. p = cs @ [name] \<and> v = Some [])" by blast
  have "grows d d' (\<lambda>p v. (v = None \<and> p \<noteq> [] \<and> prefix p cs) \<or> (p = cs @ [name] \<and> v = Some []))"
    using grows_trans [OF d1(3) d'(2)] by (simp add: conj_commute)
  with d1(1) d'(1) assms(2) show ?thesis by (simp add: create_file_at_def Let_def)
qed

lemma in_doc_found:
  assumes "doc_inv d" "path_comps path = cs" "in_doc L d cs (Some s)"
  shows "\<exists>n t. find_file L d path = Some n \<and> ft_content L d n = Some t \<and> tx_str L d t = s"
proof -
  have d: "ok d" "tidy L d" using assms(1) by (simp_all add: doc_inv_def)
  from assms(3) obtain n t where n: "located L d n cs" "ft_content L d n = Some t" "tx_str L d t = s"
    by (auto simp: in_doc_def shape_def)
  from resolve_from_find [OF located_resolve_from [OF d n(1)]] n assms(2) show ?thesis
    by (auto simp: find_file_def kids_def)
qed

end

section \<open>Properties of the browser's files\<close>

text \<open>
  The file list of the browser's peer ends on every document with Loro's laws and holds exactly the
  files that are located, each with its content, under the names on its way joined by slashes; and a
  path that \<open>fs.rs\<close> resolves is found as the same node.\<close>

theorem browser_lists_and_finds:
  assumes "loro_tree L ok" "ok d"
  shows "\<exists>l. collect_files L d = Some l \<and>
     (\<forall>path n s. (path, n, s) \<in> set l \<longleftrightarrow>
        (\<exists>cs. located L d n cs \<and> path = joined cs \<and> ft_kind L d n = Some File \<and>
              s = (case ft_content L d n of Some t \<Rightarrow> tx_str L d t | None \<Rightarrow> []))) \<and>
     (\<forall>path n. resolve L d path = Ok n \<longrightarrow> find_file L d path = Some n)"
proof -
  have "walkable L ok d" using assms by (simp add: walkable_def walkable_axioms_def)
  from walkable.collect_lists [OF this] resolve_find [of L d] show ?thesis by blast
qed

text \<open>
  C40. Creating a file at a path where nothing is, with no file in the way above it, never panics: it
  commits and nudges once, adds exactly an empty file at the path and the directories above it that were
  missing, keeps every node, and the file reads back empty.\<close>

theorem browser_creates_file:
  assumes "loro_text_tree L ok" "loro_tree.doc_inv L ok (inner (cl_doc c))" "path_comps path = cs @ [name]"
    and "\<forall>rs s. prefix rs cs \<longrightarrow> \<not> in_doc L (inner (cl_doc c)) rs (Some s)"
    and "\<forall>v. \<not> in_doc L (inner (cl_doc c)) (cs @ [name]) v"
  shows "\<exists>d'. create_file V L path c = Some (commit_and_nudge V (on_inner (\<lambda>_. d') c)) \<and>
     loro_tree.doc_inv L ok d' \<and> kept L (inner (cl_doc c)) d' \<and>
     (\<forall>p v. in_doc L d' p v \<longleftrightarrow> in_doc L (inner (cl_doc c)) p v \<or>
              (v = None \<and> p \<noteq> [] \<and> prefix p cs) \<or> (p = cs @ [name] \<and> v = Some [])) \<and>
     client_read L (on_inner (\<lambda>_. d') c) path = Some []"
proof -
  note lt = loro_text_tree.axioms(1) [OF assms(1)]
  let ?d = "inner (cl_doc c)"
  obtain d' where d': "create_file_at L ?d path = Some d'" and g:
    "loro_tree.grows L ok ?d d' (\<lambda>p v. (v = None \<and> p \<noteq> [] \<and> prefix p cs) \<or> (p = cs @ [name] \<and> v = Some []))"
    using loro_text_tree.create_file_at_grows [OF assms] by blast
  have "find_file L ?d path = None"
  proof (cases "find_file L ?d path")
    case (Some n)
    have "\<forall>rs s. rs \<noteq> [] \<and> strict_prefix rs (cs @ [name]) \<longrightarrow> \<not> in_doc L ?d ([] @ rs) (Some s)"
      using assms(4) by (auto simp: strict_prefix_def)
    with loro_tree.find_in_located [OF lt assms(2), of None "[]" "cs @ [name]" None n] Some assms(3)
    have "located L ?d n (cs @ [name])" by (simp add: find_file_def kids_def)
    with assms(2,5) show ?thesis by (auto simp: loro_tree.doc_inv_def [OF lt] shaped_def in_doc_def)
  qed
  then have "create_file V L path c = Some (commit_and_nudge V (on_inner (\<lambda>_. d') c))"
    by (simp add: create_file_def d')
  moreover have "client_read L (on_inner (\<lambda>_. d') c) path = Some []"
    using loro_text_tree.in_doc_found [OF assms(1) _ assms(3), of d' "[]"] g
    by (auto simp: client_read_def on_inner_def loro_tree.grows_def [OF lt])
  ultimately show ?thesis using g unfolding loro_tree.grows_def [OF lt] by blast
qed

text \<open>Witnesses, on the document with \<open>a/b\<close> and on an empty one.\<close>

theorem browser_lists_and_finds_witness:
  "\<exists>l. collect_files ref_ct demo_fs = Some l \<and> (''a/b'', 1, []) \<in> set l \<and> find_file ref_ct demo_fs ''a/b'' = Some 1"
proof -
  have r: "resolve_from ref_ct demo_fs None [''a'', ''b''] = Inr (Some 1)" "resolve ref_ct demo_fs ''a/b'' = Ok 1"
    "joined [''a'', ''b''] = ''a/b''" "ft_kind ref_ct demo_fs 1 = Some File"
    "(case ft_content ref_ct demo_fs 1 of Some t \<Rightarrow> tx_str ref_ct demo_fs t | None \<Rightarrow> []) = []" by code_simp+
  have "located ref_ct demo_fs 1 [''a'', ''b'']" using loro_tree.resolve_from_site [OF rt.loro_tree_axioms r(1)] by simp
  with browser_lists_and_finds [OF rt.loro_tree_axioms demo_fs_ok] r(2-) show ?thesis by metis
qed

definition demo_tab :: "(rtree, (string \<times> lvalue) list) client" where
  "demo_tab = \<lparr>cl_doc = doc_new demo_vdoc 0, cl_nudges = 0, cl_node_id = ''n'', cl_callbacks = {}, cl_fired = [],
     cl_presence = [], cl_my_presence = None, cl_my_cursor = None\<rparr>"

theorem browser_creates_file_witness:
  "\<exists>d'. create_file demo_vdoc ref_ct ''a/b'' demo_tab = Some (commit_and_nudge demo_vdoc (on_inner (\<lambda>_. d') demo_tab)) \<and>
     in_doc ref_ct d' [''a''] None \<and> in_doc ref_ct d' [''a'', ''b''] (Some [])"
proof -
  have "rtx_ok (inner (cl_doc demo_tab))" by (rule rtx_okI; code_simp)
  moreover have "ft_roots ref_ct (inner (cl_doc demo_tab)) = []" by code_simp
  ultimately have inv: "loro_tree.doc_inv ref_ct rtx_ok (inner (cl_doc demo_tab))"
    and none: "\<not> in_doc ref_ct (inner (cl_doc demo_tab)) cs v" for cs v
    using loro_text_tree.empty_inv [OF rtx.loro_text_tree_axioms] by blast+
  have "path_comps ''a/b'' = [''a''] @ [''b'']" by code_simp
  from browser_creates_file [where V = demo_vdoc, OF rtx.loro_text_tree_axioms inv this] none
  obtain d' where "create_file demo_vdoc ref_ct ''a/b'' demo_tab = Some (commit_and_nudge demo_vdoc (on_inner (\<lambda>_. d') demo_tab))"
    "\<forall>p v. in_doc ref_ct d' p v \<longleftrightarrow> (v = None \<and> p \<noteq> [] \<and> prefix p [''a'']) \<or> (p = [''a''] @ [''b''] \<and> v = Some [])"
    by auto
  then show ?thesis by auto
qed

text \<open>
  Below a file, the directory that \<open>create_file\<close> makes stands beside the file under the same name, and the
  new file is not found.\<close>

definition demo_file_tab :: "(rtree, (string \<times> lvalue) list) client" where
  "demo_file_tab = the (create_file demo_vdoc ref_ct ''a'' demo_tab)"

lemma created_below_file_is_lost:
  "case create_file demo_vdoc ref_ct ''a/b'' demo_file_tab of
     None \<Rightarrow> False
   | Some c \<Rightarrow> client_read ref_ct c ''a/b'' = None \<and>
       map (ft_name ref_ct (inner (cl_doc c))) (ft_roots ref_ct (inner (cl_doc c))) = [Some ''a'', Some ''a'']"
  by code_simp

text \<open>
  A delta that fails half way has changed the document all the same: what it did before stays, neither
  committed nor announced.\<close>

lemma failed_delta_stays:
  assumes "find_file L (inner (cl_doc c)) path = Some n" "ft_content L (inner (cl_doc c)) n = Some t"
    "tx_insert L (inner (cl_doc c)) t 0 s = Some d1" "tx_delete L d1 t (unat (0 + word_of_int (int (length (lossy_chars s))) :: 32 word)) (unat k) = None"
  shows "inner (cl_doc (apply_edit V L path (Ok [Insert s, Delete k]) c)) = d1 \<and>
    cl_nudges (apply_edit V L path (Ok [Insert s, Delete k]) c) = cl_nudges c"
  using assms by (simp add: apply_edit_def apply_to_def fire_def on_inner_def Let_def)

section \<open>The seed of a browser\<close>

text \<open>Once a seed is in the storage it is loaded again, whatever the random bytes.\<close>

lemma seed_is_stable:
  assumes "\<And>st k v. web_get S (web_set S st k v) k = Some v" "length fresh = 32"
    "load_or_create (Some S) fresh st = Some (st', sd)"
  shows "length sd = 32 \<and> load_or_create (Some S) fresh' st' = Some (st', sd)"
proof (cases "load_seed (Some S) st")
  case (Some r)
  show ?thesis
  proof (cases r)
    case None
    with Some assms(3) have "st' = web_set S st STORAGE_KEY (encode_hex fresh)" "sd = fresh"
      by (auto simp: load_or_create_def store_seed_def)
    with assms(1,2) show ?thesis by (simp add: load_or_create_def load_seed_def decode_encode_hex)
  next
    case (Some s)
    with \<open>load_seed (Some S) st = Some r\<close> assms(3) have e: "st' = st" "sd = s" "load_seed (Some S) st = Some (Some s)"
      by (auto simp: load_or_create_def)
    then have "length s = 32"
      by (auto simp: load_seed_def split: option.splits if_splits)
    with e show ?thesis by (simp add: load_or_create_def)
  qed
qed (use assms(3) in \<open>simp add: load_or_create_def\<close>)

lemma broken_seed_panics: "decode_hex (CHR ''a'' # map char_of [0xC3, 0xA9 :: nat] @ ''b'') = None"
  by code_simp

text \<open>A scalar comes back as it was, an integer as a number.\<close>

lemma scalar_round_trip:
  "value_from_js (value_to_js f64 v) = Some (case v of
     LBool b \<Rightarrow> v | LDouble x \<Rightarrow> v | LString s \<Rightarrow> v | LI64 i \<Rightarrow> LDouble (f64 i) | _ \<Rightarrow> LNull)"
  by (cases v) (simp_all add: value_to_js_def value_from_js_def)

end
