(* ===== verification/Stored.thy ===== *)
theory Stored
  imports Bridge_Import "HOL-Library.Countable"
begin

text \<open>
  Documents that are kept as snapshots: what Loro promises of a snapshot that is imported into a new
  document, and of a commit, on top of the laws of its containers.
\<close>

definition same_view :: "('d, 'n, 't, 'm) loro_ct \<Rightarrow> 'd \<Rightarrow> 'd \<Rightarrow> bool" where
  "same_view L d d' \<longleftrightarrow> same_tree L d d' \<and> same_maps L d d' \<and> same_texts L d d'"

lemma same_view_refl [simp]: "same_view L d d"
  by (simp add: same_view_def same_tree_def same_maps_def same_texts_def)

lemma same_view_trans: "same_view L a b \<Longrightarrow> same_view L b c \<Longrightarrow> same_view L a c"
  by (simp add: same_view_def same_tree_def same_maps_def same_texts_def)

locale loro_stored = loro_text_tree L ok for L :: "('d, 'n, 't, 'm) loro_ct" and ok +
  fixes V :: "('d, 'v, 'f) vdoc"
  assumes new_ok: "ok (ld_new V p)"
    and new_empty: "ft_roots L (ld_new V p) = []"
    and commit_view: "ok d \<Longrightarrow> ok (ld_commit V d) \<and> same_view L d (ld_commit V d)"
    and snapshot_view:
      "ok d \<Longrightarrow> ld_export_snapshot V d = Ok bs \<Longrightarrow>
       \<exists>d' pending. ld_import V (ld_new V p) bs = (d', Ok pending) \<and> ok d' \<and> same_view L d d'"
begin

lemma view_in_doc:
  assumes "same_view L d d'"
  shows "in_doc L d' cs v = in_doc L d cs v" "tidy L d' = tidy L d" "shaped L d' = shaped L d"
proof -
  have s: "same_tree L d d'" "same_maps L d d'" "same_texts L d d'" using assms by (simp_all add: same_view_def)
  note loc = same_located [OF s(1,2)]
  have shape: "shape L d' n v = shape L d n v" for n v
    using s(3) by (simp add: shape_def loc same_texts_def split: option.split)
  show "in_doc L d' cs v = in_doc L d cs v" by (simp add: in_doc_def loc(4) shape)
  show "shaped L d' = shaped L d" by (simp add: shaped_def loc(4) shape)
  show "tidy L d' = tidy L d" by (rule loc(5))
qed

text \<open>A document that is read from its snapshot is the same, with a fresh counter for its comments.\<close>

lemma reopened:
  assumes "ok (inner d)" "doc_snapshot V d = Ok bs"
  shows "\<exists>d'. doc_from_snapshot V p bs = Ok d' \<and> ok (inner d') \<and> same_view L (inner d) (inner d') \<and> comment_seq d' = 0"
proof -
  obtain i pending where i: "ld_import V (ld_new V p) bs = (i, Ok pending)" "ok i" "same_view L (inner d) i"
    using snapshot_view [OF assms(1), of bs p] assms(2) by (auto simp: doc_snapshot_def)
  then have "doc_from_snapshot V p bs = Ok \<lparr>inner = i, comment_seq = 0\<rparr>" by (simp add: doc_from_snapshot_def)
  with i show ?thesis by simp
qed

end

section \<open>A store with snapshots\<close>

text \<open>The snapshot of a document is its number among all documents, in unary.\<close>

instance lvalue :: countable by countable_datatype
instance voc :: (countable, countable) countable by countable_datatype
instance rmap :: countable by countable_datatype

definition rt_fields ::
    "rtree \<Rightarrow> (nat \<times> nat list \<times> bool) list \<times> ((rmap \<times> string) \<times> (nat, rmap) voc) list \<times> (nat \<times> string) list \<times> nat" where
  "rt_fields d = (rt_nodes d, rt_maps d, rt_texts d, rt_next d)"

definition rt_snapshot :: "rtree \<Rightarrow> bytes" where
  "rt_snapshot d = replicate (to_nat (rt_fields d)) (CHR ''x'')"

definition rt_restore :: "bytes \<Rightarrow> rtree" where
  "rt_restore bs = (case from_nat (length bs) of (ns, ms, ts, k) \<Rightarrow>
     \<lparr>rt_nodes = ns, rt_maps = ms, rt_texts = ts, rt_next = k\<rparr>)"

lemma rt_restore_snapshot [simp]: "rt_restore (rt_snapshot d) = d"
  by (simp add: rt_restore_def rt_snapshot_def rt_fields_def)

definition snap_vdoc :: "(rtree, unit, unit) vdoc" where
  "snap_vdoc = \<lparr>ld_new = (\<lambda>p. rt_empty), ld_peer_id = (\<lambda>d. 0), ld_commit = (\<lambda>d. d), ld_state_vv = (\<lambda>d. ()),
     ld_state_frontiers = (\<lambda>d. ()), ld_export_snapshot = (\<lambda>d. Ok (rt_snapshot d)),
     ld_export_updates = (\<lambda>d v. Ok (rt_snapshot d)), ld_import = (\<lambda>d bs. (rt_restore bs, Ok False)),
     ld_fork_at = (\<lambda>d f. Some d), vv_default = (), vv_encode = (\<lambda>v. []), vv_decode = (\<lambda>bs. Ok ())\<rparr>"

lemma snap_vdoc_simps [simp]:
  "ld_new snap_vdoc p = rt_empty" "ld_commit snap_vdoc d = d" "ld_export_snapshot snap_vdoc d = Ok (rt_snapshot d)"
  "ld_import snap_vdoc d bs = (rt_restore bs, Ok False)" "ld_state_frontiers snap_vdoc d = ()"
  "ld_fork_at snap_vdoc d f = Some d" "ld_export_updates snap_vdoc d v = Ok (rt_snapshot d)"
  by (simp_all add: snap_vdoc_def)

lemma rtx_empty: "rtx_ok rt_empty" "ft_roots ref_ct rt_empty = []"
proof -
  show "rtx_ok rt_empty" by (rule rtx_okI; code_simp)
  show "ft_roots ref_ct rt_empty = []" by code_simp
qed

interpretation stored: loro_stored ref_ct rtx_ok snap_vdoc
  by unfold_locales (auto simp: rtx_empty)

end
