(* ===== verification/Snapshots.thy ===== *)
theory Snapshots
  imports Stored Host
begin

text \<open>
  The commands that keep a document in a file outside the repository: \<open>snapshot\<close> and \<open>restore\<close> of
  \<open>crates/eg/src/bridge.rs\<close> and \<open>watch\<close> of \<open>crates/eg/src/watch.rs\<close>.  All run on one file system: the
  workspace of a directory works on the same state as the plain reads and writes, so the snapshot may lie in
  the directory it was made of.  The debouncer of \<open>watch\<close> is a list of batches, each after what others did to
  the file system meanwhile.
\<close>

section \<open>The file system\<close>

text \<open>\<open>dk_open\<close> is \<open>CapWorkspace::open\<close>, the others are those of \<open>std::fs\<close>.\<close>

record 'm disk =
  dk_open :: "'m \<Rightarrow> string \<Rightarrow> io_error + 'm workspace"
  dk_read :: "'m \<Rightarrow> string \<Rightarrow> io_error + bytes"
  dk_write :: "'m \<Rightarrow> string \<Rightarrow> bytes \<Rightarrow> 'm \<times> (io_error + unit)"
  dk_create_dir_all :: "'m \<Rightarrow> string \<Rightarrow> 'm \<times> (io_error + unit)"
  dk_canonicalize :: "'m \<Rightarrow> string \<Rightarrow> io_error + path"

locale disk_laws =
  fixes D :: "'m disk"
  assumes open_laws: "dk_open D m p = Ok W \<Longrightarrow> workspace_laws W"
    and open_names: "dk_open D m p = Ok W \<Longrightarrow> ws_read_dir W m' cs = Ok es \<Longrightarrow> distinct (map entry_name es)"
    and open_depth: "dk_open D m p = Ok W \<Longrightarrow> \<exists>N. \<forall>cs es. ws_read_dir W m' cs = Ok es \<longrightarrow> es \<noteq> [] \<longrightarrow> length cs < N"
    and write_read: "dk_write D m p c = (m', Ok ()) \<Longrightarrow> dk_read D m' p = Ok c"
    and dirs_read: "dk_create_dir_all D m p = (m', r) \<Longrightarrow> dk_read D m' q = dk_read D m q"

section \<open>Snapshot and restore\<close>

text \<open>The results carry the number of files that is printed.\<close>

definition persist ::
    "'m disk \<Rightarrow> ('d, 'v, 'f) vdoc \<Rightarrow> 'm \<Rightarrow> 'd doc \<Rightarrow> string \<Rightarrow> 'm \<times> (io_error + unit)" where
  "persist D V m d out =
     (case doc_snapshot V d of Inl e \<Rightarrow> (m, Err (to_io e)) | Inr bs \<Rightarrow> dk_write D m out bs)"

definition snapshot ::
    "'m disk \<Rightarrow> ('d, 'v, 'f) vdoc \<Rightarrow> ('d, 'n, 't, 'l) loro_ct \<Rightarrow> ('b, 'g) gitignore \<Rightarrow> nat \<Rightarrow> 64 word \<Rightarrow> 'm
       \<Rightarrow> string \<Rightarrow> string \<Rightarrow> ('m \<times> (io_error + nat)) option" where
  "snapshot D V L G fuel peer m dir out =
     (case dk_open D m dir of
        Inl e \<Rightarrow> Some (m, Err e)
      | Inr W \<Rightarrow>
          (case import_tree V L W G fuel m (doc_new V peer) of
             None \<Rightarrow> None
           | Some (_, Inl e) \<Rightarrow> Some (m, Err e)
           | Some (d, Inr files) \<Rightarrow>
               (case doc_snapshot V d of
                  Inl e \<Rightarrow> Some (m, Err (to_io e))
                | Inr bs \<Rightarrow>
                    (case dk_write D m out bs of
                       (m1, Inl e) \<Rightarrow> Some (m1, Err e)
                     | (m1, Inr _) \<Rightarrow> Some (m1, Ok files)))))"

definition restore ::
    "'m disk \<Rightarrow> ('d, 'v, 'f) vdoc \<Rightarrow> ('d, 'n, 't, 'l) loro_ct \<Rightarrow> ('b, 'g) gitignore \<Rightarrow> nat \<Rightarrow> 64 word \<Rightarrow> 'm
       \<Rightarrow> string \<Rightarrow> string \<Rightarrow> ('m \<times> (io_error + nat)) option" where
  "restore D V L G fuel peer m file dir =
     (case dk_create_dir_all D m dir of
        (m1, Inl e) \<Rightarrow> Some (m1, Err e)
      | (m1, Inr _) \<Rightarrow>
          (case dk_open D m1 dir of
             Inl e \<Rightarrow> Some (m1, Err e)
           | Inr W \<Rightarrow>
               (case dk_read D m1 file of
                  Inl e \<Rightarrow> Some (m1, Err e)
                | Inr bs \<Rightarrow>
                    (case doc_from_snapshot V peer bs of
                       Inl e \<Rightarrow> Some (m1, Err (to_io e))
                     | Inr d \<Rightarrow>
                         (case export_tree L W G fuel (inner d) m1 of
                            None \<Rightarrow> None
                          | Some (m2, Inl e) \<Rightarrow> Some (m2, Err e)
                          | Some (m2, Inr plan) \<Rightarrow> Some (m2, Ok (length (pl_files plan))))))))"

section \<open>Watching a directory\<close>

record ('m, 'd, 'n, 'f) watching =
  wt_ws :: "'m workspace"
  wt_doc :: "'d doc"
  wt_bases :: "('n, 'f) file_bases"
  wt_base :: path
  wt_snapshot :: "path option"

definition watch_start ::
    "'m disk \<Rightarrow> ('d, 'v, 'f) vdoc \<Rightarrow> ('d, 'n, 't, 'l) loro_ct \<Rightarrow> ('b, 'g) gitignore \<Rightarrow> nat \<Rightarrow> 64 word \<Rightarrow> 'm
       \<Rightarrow> string \<Rightarrow> string \<Rightarrow> ('m \<times> (io_error + ('m, 'd, 'n, 'f) watching)) option" where
  "watch_start D V L G fuel peer m dir out =
     (case dk_open D m dir of
        Inl e \<Rightarrow> Some (m, Err e)
      | Inr W \<Rightarrow>
          (case import_tree V L W G fuel m (doc_new V peer) of
             None \<Rightarrow> None
           | Some (_, Inl e) \<Rightarrow> Some (m, Err e)
           | Some (d, Inr _) \<Rightarrow>
               (case persist D V m d out of
                  (m1, Inl e) \<Rightarrow> Some (m1, Err e)
                | (m1, Inr _) \<Rightarrow>
                    (case seed V L W G m1 d of
                       None \<Rightarrow> None
                     | Some (Inl e) \<Rightarrow> Some (m1, Err e)
                     | Some (Inr (bases, _)) \<Rightarrow>
                         (case dk_canonicalize D m1 dir of
                            Inl e \<Rightarrow> Some (m1, Err e)
                          | Inr base \<Rightarrow>
                              Some (m1, Ok \<lparr>wt_ws = W, wt_doc = d, wt_bases = bases, wt_base = base,
                                            wt_snapshot = result_ok (dk_canonicalize D m1 out)\<rparr>))))))"

text \<open>One batch of the debouncer, \<open>None\<close> when it reports errors; the error of a turn ends the command.\<close>

definition watch_turn ::
    "'m disk \<Rightarrow> ('d, 'v, 'f) vdoc \<Rightarrow> ('d, 'n, 't, 'l) loro_ct \<Rightarrow> string \<Rightarrow> 'm \<Rightarrow> ('m, 'd, 'n, 'f) watching
       \<Rightarrow> path list option \<Rightarrow> (('m \<times> ('m, 'd, 'n, 'f) watching) \<times> (io_error + unit)) option" where
  "watch_turn D V L out m wt batch =
     (case batch of
        None \<Rightarrow> Some ((m, wt), Ok ())
      | Some paths \<Rightarrow>
          (case watch_batch V L (wt_ws wt) m (wt_base wt) (wt_snapshot wt) paths (wt_doc wt, wt_bases wt) of
             None \<Rightarrow> None
           | Some ((d, bases), r) \<Rightarrow>
               (let wt1 = wt\<lparr>wt_doc := d, wt_bases := bases\<rparr>
                in case r of
                     Inl e \<Rightarrow> Some ((m, wt1), Err e)
                   | Inr None \<Rightarrow> Some ((m, wt1), Ok ())
                   | Inr (Some bs) \<Rightarrow> (case dk_write D m out bs of (m1, res) \<Rightarrow> Some ((m1, wt1), res)))))"

fun watch_run ::
    "'m disk \<Rightarrow> ('d, 'v, 'f) vdoc \<Rightarrow> ('d, 'n, 't, 'l) loro_ct \<Rightarrow> string \<Rightarrow> 'm \<Rightarrow> ('m, 'd, 'n, 'f) watching
       \<Rightarrow> (('m \<Rightarrow> 'm) \<times> path list option) list \<Rightarrow> (('m \<times> ('m, 'd, 'n, 'f) watching) \<times> (io_error + unit)) option" where
  "watch_run D V L out m wt [] = Some ((m, wt), Ok ())"
| "watch_run D V L out m wt ((meanwhile, batch) # rest) =
     (case watch_turn D V L out (meanwhile m) wt batch of
        None \<Rightarrow> None
      | Some (st, Inl e) \<Rightarrow> Some (st, Err e)
      | Some ((m1, wt1), Inr _) \<Rightarrow> watch_run D V L out m1 wt1 rest)"

end
