(* ===== verification/Snapshot_Props.thy ===== *)
theory Snapshot_Props
  imports Snapshots
begin

text \<open>
  What \<open>snapshot\<close>, \<open>restore\<close> and \<open>watch\<close> keep: a directory comes back from its snapshot, a document from the
  state directory of its repository, and the file \<open>watch\<close> writes is always the snapshot of its document.
\<close>

section \<open>A file system in memory\<close>

text \<open>A workspace of a directory works on the paths below it.\<close>

definition ws_below :: "'w workspace \<Rightarrow> path \<Rightarrow> 'w workspace" where
  "ws_below W dir =
     \<lparr>ws_read_dir = (\<lambda>w p. ws_read_dir W w (dir @ p)), ws_read_file = (\<lambda>w p. ws_read_file W w (dir @ p)),
      ws_write_file = (\<lambda>w p. ws_write_file W w (dir @ p)), ws_write_private = (\<lambda>w p. ws_write_private W w (dir @ p)),
      ws_create_dir = (\<lambda>w p. ws_create_dir W w (dir @ p)), ws_remove_file = (\<lambda>w p. ws_remove_file W w (dir @ p)),
      ws_remove_dir = (\<lambda>w p. ws_remove_dir W w (dir @ p)), ws_kind = (\<lambda>w p. ws_kind W w (dir @ p))\<rparr>"

lemma ws_below_simps [simp]:
  "ws_read_dir (ws_below W dir) w p = ws_read_dir W w (dir @ p)"
  "ws_read_file (ws_below W dir) w p = ws_read_file W w (dir @ p)"
  "ws_write_file (ws_below W dir) w p = ws_write_file W w (dir @ p)"
  "ws_create_dir (ws_below W dir) w p = ws_create_dir W w (dir @ p)"
  "ws_kind (ws_below W dir) w p = ws_kind W w (dir @ p)"
  by (simp_all add: ws_below_def)

lemma below_laws:
  assumes "workspace_laws W"
  shows "workspace_laws (ws_below W dir)"
proof (unfold_locales, goal_cases)
  case (1 w p c w') then show ?case using workspace_laws.write_read [OF assms] by (simp add: ws_below_def)
next
  case (2 w p c w' r q) then show ?case using workspace_laws.write_other [OF assms] by (simp add: ws_below_def)
next
  case (3 w p c w') then show ?case using workspace_laws.private_read [OF assms] by (simp add: ws_below_def)
next
  case (4 w p c w' r q) then show ?case using workspace_laws.private_other [OF assms] by (simp add: ws_below_def)
next
  case (5 w p w' r q) then show ?case using workspace_laws.create_dir_files [OF assms] by (simp add: ws_below_def)
next
  case (6 w p w' r q) then show ?case using workspace_laws.remove_dir_files [OF assms] by (simp add: ws_below_def)
next
  case (7 w p w') then show ?case using workspace_laws.remove_file_gone [OF assms] by (simp add: ws_below_def)
next
  case (8 w p w' r q) then show ?case using workspace_laws.remove_file_other [OF assms] by (simp add: ws_below_def)
next
  case (9 w p w' e) then show ?case using workspace_laws.remove_file_failed [OF assms] by (simp add: ws_below_def)
qed

definition mem_comps :: "string \<Rightarrow> path" where
  "mem_comps p = filter (\<lambda>c. c \<noteq> []) (split_on (CHR ''/'') p)"

definition mem_is_dir :: "mem_workspace \<Rightarrow> path \<Rightarrow> bool" where
  "mem_is_dir m cs \<longleftrightarrow> cs = [] \<or> cs \<in> set (mem_dirs m)"

definition mem_disk :: "mem_workspace disk" where
  "mem_disk =
     \<lparr>dk_open = (\<lambda>m p. if mem_is_dir m (mem_comps p) then Ok (ws_below mem_ops (mem_comps p))
                       else Err (IoNotFound, p)),
      dk_read = (\<lambda>m p. mem_read_file m (mem_comps p)),
      dk_write = (\<lambda>m p c. mem_write_file m (mem_comps p) c),
      dk_create_dir_all = (\<lambda>m p. (fold (\<lambda>cs m. fst (mem_create_dir m cs)) (prefixes (mem_comps p)) m, Ok ())),
      dk_canonicalize = (\<lambda>m p. if mem_is_dir m (mem_comps p) \<or> is_ok (mem_read_file m (mem_comps p))
                               then Ok (mem_comps p) else Err (IoNotFound, p))\<rparr>"

lemma mem_dirs_files: "mem_files (fold (\<lambda>cs m. fst (mem_create_dir m cs)) ps m) = mem_files m"
  by (induction ps arbitrary: m) simp_all

lemma mem_entries_depth:
  assumes "mem_read_dir w rel = Ok es" "es \<noteq> []"
  shows "length rel < Suc (sum_list (map length (mem_dirs w @ map fst (mem_files w))))"
proof -
  obtain e where "entry_name e \<in> set (map entry_name es)" using assms(2) by (cases es) auto
  then obtain p n b where p: "p \<in> set (mem_dirs w @ map fst (mem_files w))" "direct_child rel p = Some (n, b)"
    using mem_entries_names [of w rel "[]" "mem_dirs w @ map fst (mem_files w)"] assms(1)
    unfolding mem_read_dir_def by blast
  then have "length rel \<le> length p" by (auto simp: direct_child_Some)
  also have "length p \<le> sum_list (map length (mem_dirs w @ map fst (mem_files w)))"
    using member_le_sum_list [of "length p" "map length (mem_dirs w @ map fst (mem_files w))"] p(1) by fastforce
  finally show ?thesis by simp
qed

interpretation mem_dk: disk_laws mem_disk
proof (rule disk_laws.intro, goal_cases)
  case (1 m p W)
  then show ?case using below_laws [OF mem.workspace_laws_axioms] by (auto simp: mem_disk_def split: if_splits)
next
  case (2 m p W m' cs es)
  then show ?case using mem_entries_names by (auto simp: mem_disk_def mem_read_dir_def split: if_splits)
next
  case (3 m p W m')
  then obtain dir where W: "W = ws_below mem_ops dir" by (auto simp: mem_disk_def split: if_splits)
  show ?case
    by (rule exI [of _ "Suc (sum_list (map length (mem_dirs m' @ map fst (mem_files m'))))"])
       (use mem_entries_depth [of m'] in \<open>fastforce simp: W\<close>)
next
  case (4 m p c m')
  then show ?case using mem.write_read by (simp add: mem_disk_def)
next
  case (5 m p m' r q)
  then show ?case using mem_dirs_files by (auto simp: mem_disk_def mem_read_file_def)
qed

section \<open>A directory comes back\<close>

lemma on_disk_depth:
  assumes "\<forall>cs es. ws_read_dir W w cs = Ok es \<longrightarrow> es \<noteq> [] \<longrightarrow> length cs < N"
  shows "on_disk W G ig w cs p v \<Longrightarrow> length p < Suc N"
proof (induction rule: on_disk.induct)
  case (own cs es e v)
  then have "es \<noteq> []" by auto
  with own(1) assms show ?case by auto
qed

text \<open>Files with given contents are on disk, and nothing else changed; the same for a directory that is made first.\<close>

definition brings :: "'w workspace \<Rightarrow> (path \<Rightarrow> string \<Rightarrow> bool) \<Rightarrow> 'w \<Rightarrow> 'w \<Rightarrow> bool" where
  "brings W files w w' \<longleftrightarrow>
     (\<forall>p c. files p c \<longrightarrow> ws_read_file W w' p = Ok c) \<and>
     (\<forall>p. (\<nexists>c. files p c) \<longrightarrow> ws_read_file W w' p = ws_read_file W w p)"

definition restored ::
    "'m disk \<Rightarrow> ('b, 'g) gitignore \<Rightarrow> 'm \<Rightarrow> string \<Rightarrow> (path \<Rightarrow> string \<Rightarrow> bool) \<Rightarrow> 'm \<Rightarrow> bool" where
  "restored D G m dir files m2 \<longleftrightarrow>
     (\<exists>m1 W ig. dk_create_dir_all D m dir = (m1, Ok ()) \<and> dk_open D m1 dir = Ok W \<and> ignorer_load W G m1 = Ok ig \<and>
        brings W (\<lambda>p c. files p c \<and> visible G ig False p) m1 m2)"

text \<open>What the export of a document brings to disk, in terms of its contents.\<close>

lemma plan_exact_in_doc:
  assumes "plan_exact L W G d w w' plan" "ignorer_load W G w = Ok ig"
    and files: "\<And>n p. located L d n p \<Longrightarrow> ft_kind L d n = Some File \<Longrightarrow> \<exists>t. ft_content L d n = Some t"
  shows "brings W (\<lambda>p c. in_doc L d p (Some c) \<and> visible G ig False p) w w'"
proof -
  have pl: "(p, n) \<in> set (pl_files plan) \<longleftrightarrow> located L d n p \<and> ft_kind L d n = Some File \<and> visible G ig False p" for p n
    using assms(1,2) by (auto simp: plan_exact_def)
  have rd: "(p, n) \<in> set (pl_files plan) \<Longrightarrow> ws_read_file W w' p = Ok (file_text L d n)"
    "p \<notin> fst ` set (pl_files plan) \<Longrightarrow> ws_read_file W w' p = ws_read_file W w p" for p n
    using assms(1) by (auto simp: plan_exact_def)
  have "ws_read_file W w' p = Ok c" if c: "in_doc L d p (Some c)" "visible G ig False p" for p c
  proof -
    obtain n where "located L d n p" "ft_kind L d n = Some File" "file_text L d n = c"
      using c(1) by (auto simp: in_doc_def shape_def file_text_def)
    with pl rd(1) c(2) show ?thesis by blast
  qed
  moreover have "ws_read_file W w' p = ws_read_file W w p" if "\<nexists>c. in_doc L d p (Some c) \<and> visible G ig False p" for p
  proof (rule rd(2))
    show "p \<notin> fst ` set (pl_files plan)"
    proof
      assume "p \<in> fst ` set (pl_files plan)"
      then obtain n where n: "located L d n p" "ft_kind L d n = Some File" "visible G ig False p" using pl by force
      with files obtain t where "ft_content L d n = Some t" by blast
      with n that show False by (auto simp: in_doc_def shape_def)
    qed
  qed
  ultimately show ?thesis unfolding brings_def by blast
qed

lemma snapshot_holds:
  assumes "loro_stored L ok V" "disk_laws D" "dk_open D m dir = Ok W" "ignorer_load W G m = Ok ig"
  shows "\<exists>N. \<forall>fuel \<ge> N. \<exists>m1 r. snapshot D V L G fuel peer m dir out = Some (m1, r) \<and>
           (\<forall>k. r = Ok k \<longrightarrow> (\<exists>d bs. ok (inner d) \<and> tidy L (inner d) \<and> shaped L (inner d) \<and>
              (\<forall>cs v. in_doc L (inner d) cs v \<longleftrightarrow> on_disk W G ig m [] cs v) \<and>
              doc_snapshot V d = Ok bs \<and> dk_read D m1 out = Ok bs))"
proof -
  have lt: "loro_text_tree L ok" using assms(1) by (simp add: loro_stored_def)
  obtain N where N: "\<forall>cs es. ws_read_dir W m cs = Ok es \<longrightarrow> es \<noteq> [] \<longrightarrow> length cs < N"
    using disk_laws.open_depth [OF assms(2,3)] by blast
  have names: "distinct (map entry_name es)" if "ws_read_dir W m cs = Ok es" for cs es
    using disk_laws.open_names [OF assms(2,3) that] .
  note new = loro_stored.new_ok [OF assms(1), of peer] loro_stored.new_empty [OF assms(1), of peer]
  have "\<exists>m1 r. snapshot D V L G fuel peer m dir out = Some (m1, r) \<and>
           (\<forall>k. r = Ok k \<longrightarrow> (\<exists>d bs. ok (inner d) \<and> tidy L (inner d) \<and> shaped L (inner d) \<and>
              (\<forall>cs v. in_doc L (inner d) cs v \<longleftrightarrow> on_disk W G ig m [] cs v) \<and>
              doc_snapshot V d = Ok bs \<and> dk_read D m1 out = Ok bs))" if big: "Suc (Suc N) \<le> fuel" for fuel
  proof -
    have "\<exists>i files res. import_dir L W G m ig fuel (ld_new V peer) [] None 0 = Some ((i, files), res) \<and>
        (res = Ok () \<longrightarrow> ok i \<and> tidy L i \<and> shaped L i \<and> (\<forall>cs v. in_doc L i cs v \<longleftrightarrow> on_disk W G ig m [] cs v))"
    proof (rule loro_text_tree.import_grows [OF lt new])
      show "length p < Suc N" if "on_disk W G ig m [] p None" for p using on_disk_depth [OF N that] .
      show "Suc N < fuel" using big by simp
    qed (rule names)
    then obtain i files res where r: "import_dir L W G m ig fuel (ld_new V peer) [] None 0 = Some ((i, files), res)"
      "res = Ok () \<Longrightarrow> ok i \<and> tidy L i \<and> shaped L i \<and> (\<forall>cs v. in_doc L i cs v \<longleftrightarrow> on_disk W G ig m [] cs v)"
      by blast
    show ?thesis
    proof (cases res)
      case (Inl e)
      with assms(3,4) r(1) show ?thesis by (simp add: snapshot_def import_tree_def doc_new_def)
    next
      case (Inr u)
      let ?d = "doc_commit V ((doc_new V peer)\<lparr>inner := i\<rparr>)"
      have imp: "import_tree V L W G fuel m (doc_new V peer) = Some (?d, Ok files)"
        using Inr r(1) assms(4) by (simp add: import_tree_def doc_new_def)
      have "ok (ld_commit V i)" "same_view L i (ld_commit V i)"
        using loro_stored.commit_view [OF assms(1)] r(2) Inr by simp_all
      then have d: "ok (inner ?d) \<and> tidy L (inner ?d) \<and> shaped L (inner ?d) \<and>
          (\<forall>cs v. in_doc L (inner ?d) cs v \<longleftrightarrow> on_disk W G ig m [] cs v)"
        using r(2) Inr loro_stored.view_in_doc [OF assms(1)] by (simp add: doc_commit_def)
      show ?thesis
        using imp d assms(3) disk_laws.write_read [OF assms(2)]
        by (auto simp: snapshot_def split: sum.split prod.split)
    qed
  qed
  then show ?thesis by blast
qed

lemma restore_writes:
  assumes "loro_stored L ok V" "disk_laws D" "dk_read D m file = Ok bs" "doc_snapshot V d = Ok bs"
    and "ok (inner d)" "tidy L (inner d)" "shaped L (inner d)"
  shows "\<exists>N. \<forall>fuel \<ge> N. \<exists>m2 r. restore D V L G fuel peer m file dir = Some (m2, r) \<and>
           (\<forall>k. r = Ok k \<longrightarrow> restored D G m dir (\<lambda>p c. in_doc L (inner d) p (Some c)) m2)"
proof (cases "\<exists>m1 W. dk_create_dir_all D m dir = (m1, Ok ()) \<and> dk_open D m1 dir = Ok W")
  case False
  then have "\<exists>m2 e. restore D V L G fuel peer m file dir = Some (m2, Err e)" for fuel
    by (auto simp: restore_def split: prod.split sum.split)
  then show ?thesis by (metis sum.distinct(1))
next
  case True
  then obtain m1 W where w: "dk_create_dir_all D m dir = (m1, Ok ())" "dk_open D m1 dir = Ok W" by blast
  obtain d' where d': "doc_from_snapshot V peer bs = Ok d'" "ok (inner d')" "same_view L (inner d) (inner d')"
    using loro_stored.reopened [OF assms(1,5,4)] by blast
  note view = loro_stored.view_in_doc [OF assms(1) d'(3)]
  have lt: "loro_tree L ok" using assms(1) by (simp add: loro_stored_def loro_text_tree_def)
  have "tidy L (inner d')" using view(2) assms(6) by simp
  from export_exact [OF lt d'(2) this disk_laws.open_laws [OF assms(2) w(2)], of G m1] obtain N where
    N: "\<And>fuel. N \<le> fuel \<Longrightarrow> \<exists>m2 r. export_tree L W G fuel (inner d') m1 = Some (m2, r) \<and>
         (\<forall>plan. r = Ok plan \<longrightarrow> plan_exact L W G (inner d') m1 m2 plan)" by blast
  have "\<exists>t. ft_content L (inner d') n = Some t" if "located L (inner d') n p" "ft_kind L (inner d') n = Some File" for n p
    using assms(7) view(3) that by (fastforce simp: shaped_def shape_def split: option.splits)
  note brought = plan_exact_in_doc [OF _ _ this]
  have run: "restore D V L G fuel peer m file dir =
      (case export_tree L W G fuel (inner d') m1 of
         None \<Rightarrow> None | Some (m2, Inl e) \<Rightarrow> Some (m2, Err e) | Some (m2, Inr plan) \<Rightarrow> Some (m2, Ok (length (pl_files plan))))"
    for fuel
    using w d'(1) disk_laws.dirs_read [OF assms(2) w(1)] assms(3) by (simp add: restore_def)
  show ?thesis
  proof (intro exI [of _ N] allI impI)
    fix fuel assume "N \<le> fuel"
    from N [OF this] obtain m2 r where o: "export_tree L W G fuel (inner d') m1 = Some (m2, r)"
      "\<And>plan. r = Ok plan \<Longrightarrow> plan_exact L W G (inner d') m1 m2 plan" by blast
    show "\<exists>m2 r. restore D V L G fuel peer m file dir = Some (m2, r) \<and>
           (\<forall>k. r = Ok k \<longrightarrow> restored D G m dir (\<lambda>p c. in_doc L (inner d) p (Some c)) m2)"
    proof (cases r)
      case (Inl e)
      with o(1) run show ?thesis by simp
    next
      case (Inr plan)
      with o(2) obtain ig where ig: "ignorer_load W G m1 = Ok ig" by (auto simp: plan_exact_def)
      from brought [OF o(2) [OF Inr] ig] w ig o(1) Inr run show ?thesis by (auto simp: restored_def view(1))
    qed
  qed
qed

text \<open>
  C22. A directory comes back from its snapshot.  With enough fuel for their depths, \<open>snapshot\<close> and then
  \<open>restore\<close>, into whatever directory and whatever happened there before, end without a panic; when both
  succeed, every text file of the first directory outside \<open>.eg\<close> that neither ignores is in the second with
  its bytes, and no other file of the second changed.\<close>

theorem restore_recreates:
  assumes "loro_stored L dwf V" "disk_laws D" "dk_open D m dir = Ok W" "ignorer_load W G m = Ok ig"
  shows "\<exists>N. \<forall>fuel \<ge> N. \<exists>m1 r. snapshot D V L G fuel peer m dir out = Some (m1, r) \<and>
           (\<forall>k. r = Ok k \<longrightarrow> (\<exists>N'. \<forall>fuel' \<ge> N'. \<exists>m3 r'. restore D V L G fuel' peer' m1 out dir' = Some (m3, r') \<and>
              (\<forall>k'. r' = Ok k' \<longrightarrow> restored D G m1 dir' (\<lambda>p c. on_disk W G ig m [] p (Some c)) m3)))"
proof -
  obtain N where N: "\<And>fuel. N \<le> fuel \<Longrightarrow> \<exists>m1 r. snapshot D V L G fuel peer m dir out = Some (m1, r) \<and>
           (\<forall>k. r = Ok k \<longrightarrow> (\<exists>d bs. dwf (inner d) \<and> tidy L (inner d) \<and> shaped L (inner d) \<and>
              (\<forall>cs v. in_doc L (inner d) cs v \<longleftrightarrow> on_disk W G ig m [] cs v) \<and>
              doc_snapshot V d = Ok bs \<and> dk_read D m1 out = Ok bs))"
    using snapshot_holds [OF assms] by blast
  let ?again = "\<lambda>m1. \<exists>N'. \<forall>fuel' \<ge> N'. \<exists>m3 r'. restore D V L G fuel' peer' m1 out dir' = Some (m3, r') \<and>
      (\<forall>k'. r' = Ok k' \<longrightarrow> restored D G m1 dir' (\<lambda>p c. on_disk W G ig m [] p (Some c)) m3)"
  have again: "?again m1"
    if d: "dwf (inner d) \<and> tidy L (inner d) \<and> shaped L (inner d) \<and>
        (\<forall>cs v. in_doc L (inner d) cs v \<longleftrightarrow> on_disk W G ig m [] cs v) \<and> doc_snapshot V d = Ok bs \<and> dk_read D m1 out = Ok bs"
    for m1 d bs
    using restore_writes [OF assms(1,2), of m1 out bs d G peer' dir'] d by simp
  show ?thesis
  proof (intro exI [of _ N] allI impI)
    fix fuel assume "N \<le> fuel"
    from N [OF this] obtain m1 r where o: "snapshot D V L G fuel peer m dir out = Some (m1, r)"
      and held: "\<And>k. r = Ok k \<Longrightarrow> \<exists>d bs. dwf (inner d) \<and> tidy L (inner d) \<and> shaped L (inner d) \<and>
        (\<forall>cs v. in_doc L (inner d) cs v \<longleftrightarrow> on_disk W G ig m [] cs v) \<and> doc_snapshot V d = Ok bs \<and> dk_read D m1 out = Ok bs"
      by blast
    have "?again m1" if "r = Ok k" for k
      using held [OF that] again by (elim exE)
    with o show "\<exists>m1 r. snapshot D V L G fuel peer m dir out = Some (m1, r) \<and> (\<forall>k. r = Ok k \<longrightarrow> ?again m1)"
      by (intro exI [of _ m1] exI [of _ r] conjI allI impI)
  qed
qed

text \<open>Fuel that was enough stays enough, with the same result.\<close>

lemma import_entries_more:
  assumes "\<And>d rel q files x. sub d rel q files = Some x \<Longrightarrow> sub' d rel q files = Some x"
  shows "import_entries L W G w ig sub rel parent es d files = Some x \<Longrightarrow>
           import_entries L W G w ig sub' rel parent es d files = Some x"
proof (induction es arbitrary: d files)
  case (Cons e es)
  have same: "sub d1 cs q k = None \<or> sub' d1 cs q k = sub d1 cs q k" for d1 cs q k
    using assms [of d1 cs q k] by (cases "sub d1 cs q k") auto
  show ?case
  proof (cases e)
    case (EDir name)
    show ?thesis
    proof (cases "ft_create_dir L d parent name")
      case (Some dn)
      then show ?thesis
        using Cons same [of "fst dn" "rel @ [name]" "Some (snd dn)" files] EDir
        by (cases dn) (auto split: if_splits option.splits sum.splits)
    qed (use Cons EDir in \<open>auto split: if_splits\<close>)
  next
    case (EFile name)
    with Cons show ?thesis by (auto split: if_splits option.splits sum.splits)
  qed
qed simp

lemma import_dir_more:
  "import_dir L W G w ig k d rel parent files = Some x \<Longrightarrow> k \<le> k' \<Longrightarrow>
     import_dir L W G w ig k' d rel parent files = Some x"
proof (induction k arbitrary: k' d rel parent files x)
  case (Suc k)
  then obtain k1 where k1: "k' = Suc k1" "k \<le> k1" by (cases k') auto
  have "import_entries L W G w ig (import_dir L W G w ig k1) rel parent es d files = Some x"
    if "import_entries L W G w ig (import_dir L W G w ig k) rel parent es d files = Some x" for es
    using that by (rule import_entries_more [rotated]) (rule Suc.IH [OF _ k1(2)])
  with Suc.prems(1) show ?case by (cases "ws_read_dir W w rel") (auto simp: k1(1))
qed simp

lemma export_nodes_more:
  assumes "\<And>w n p plan x. sub w n p plan = Some x \<Longrightarrow> sub' w n p plan = Some x"
  shows "export_nodes sub ns parent w plan = Some x \<Longrightarrow> export_nodes sub' ns parent w plan = Some x"
proof (induction ns arbitrary: w plan)
  case (Cons n ns)
  then obtain y where y: "sub w n parent plan = Some y" by (auto split: option.splits)
  with assms [OF this] Cons show ?case by (auto split: sum.splits prod.splits)
qed simp

lemma export_node_more:
  "export_node L W G d ig k w n parent plan = Some x \<Longrightarrow> k \<le> k' \<Longrightarrow>
     export_node L W G d ig k' w n parent plan = Some x"
proof (induction k arbitrary: k' w n parent plan x)
  case (Suc k)
  then obtain k1 where k1: "k' = Suc k1" "k \<le> k1" by (cases k') auto
  have "export_nodes (export_node L W G d ig k1) ns p w1 plan1 = Some x"
    if "export_nodes (export_node L W G d ig k) ns p w1 plan1 = Some x" for ns p w1 plan1
    using that by (rule export_nodes_more [rotated]) (rule Suc.IH [OF _ k1(2)])
  with Suc.prems(1) show ?case
    by (auto simp: k1(1) Let_def split: option.splits if_splits node_kind.splits prod.splits sum.splits)
qed simp

lemma export_more:
  "export_tree L W G k d w = Some x \<Longrightarrow> k \<le> k' \<Longrightarrow> export_tree L W G k' d w = Some x"
  using export_nodes_more [OF export_node_more [where k = k and k' = k']]
  by (cases "ignorer_load W G w") (simp_all add: export_tree_def)

lemma snapshot_more:
  "snapshot D V L G k peer m dir out = Some x \<Longrightarrow> k \<le> k' \<Longrightarrow> snapshot D V L G k' peer m dir out = Some x"
  using import_dir_more [where k = k and k' = k']
  by (fastforce simp: snapshot_def import_tree_def split: sum.splits option.splits)

lemma restore_more:
  "restore D V L G k peer m file dir = Some x \<Longrightarrow> k \<le> k' \<Longrightarrow> restore D V L G k' peer m file dir = Some x"
  using export_nodes_more [OF export_node_more [where k = k and k' = k']]
  by (fastforce simp: restore_def export_tree_def split: sum.splits option.splits prod.splits)

definition demo_folder :: mem_workspace where
  "demo_folder =
     fst (mem_write_file (fst (mem_write_file (fst (mem_create_dir mem_new [''d'']))
       [''d'', ''a'', ''b''] ''hi'')) [''d'', ''.eg'', ''key''] ''s'')"

definition demo_tree :: rtree where
  "demo_tree = fst (fst (the (import_dir ref_ct (ws_below mem_ops [''d'']) demo_ignore demo_folder [] 4 rt_empty [] None 0)))"

lemma demo_import:
  "import_dir ref_ct (ws_below mem_ops [''d'']) demo_ignore demo_folder [] 4 rt_empty [] None 0 = Some ((demo_tree, 1), Ok ())"
  by code_simp

lemma demo_snapshot:
  "snapshot mem_disk snap_vdoc ref_ct demo_ignore 4 0 demo_folder ''d'' ''d.snap'' =
     Some (fst (mem_write_file demo_folder [''d.snap''] (rt_snapshot demo_tree)), Ok 1)"
proof -
  have "mem_comps ''d'' = [''d'']" "mem_comps ''d.snap'' = [''d.snap'']" "mem_is_dir demo_folder [''d'']" by code_simp+
  moreover have "ignorer_load (ws_below mem_ops [''d'']) demo_ignore demo_folder = Ok []" by code_simp
  ultimately show ?thesis
    using demo_import mem_write_file_def [of demo_folder "[''d.snap'']" "rt_snapshot demo_tree"]
    by (simp add: snapshot_def mem_disk_def import_tree_def doc_new_def doc_commit_def doc_snapshot_def Let_def)
qed

lemma demo_restored:
  "is_ok (snd (the (export_tree ref_ct (ws_below mem_ops [''o'']) demo_ignore 4 demo_tree
     (fst (mem_create_dir (fst (mem_write_file demo_folder [''d.snap''] bs)) [''o''])))))"
  by code_simp

lemma demo_restore:
  "\<exists>m3 k. restore mem_disk snap_vdoc ref_ct demo_ignore 4 0
     (fst (mem_write_file demo_folder [''d.snap''] (rt_snapshot demo_tree))) ''d.snap'' ''o'' = Some (m3, Ok k)"
proof -
  let ?bs = "rt_snapshot demo_tree"
  let ?m1 = "fst (mem_write_file demo_folder [''d.snap''] ?bs)"
  let ?m2 = "fst (mem_create_dir ?m1 [''o''])"
  have dirs: "dk_create_dir_all mem_disk ?m1 ''o'' = (?m2, Ok ())"
    by (simp add: mem_disk_def mem_comps_def mem_create_dir_def)
  have opens: "dk_open mem_disk ?m2 ''o'' = Ok (ws_below mem_ops [''o''])"
    by (simp add: mem_disk_def mem_comps_def mem_is_dir_def mem_create_dir_def set_bt_insert flip: image_set)
  have "dk_write mem_disk demo_folder ''d.snap'' ?bs = (?m1, Ok ())"
    by (simp add: mem_disk_def mem_comps_def mem_write_file_def Let_def)
  from mem_dk.dirs_read [OF dirs, of "''d.snap''"] mem_dk.write_read [OF this]
  have rd: "dk_read mem_disk ?m2 ''d.snap'' = Ok ?bs" by simp
  have "export_tree ref_ct (ws_below mem_ops [''o'']) demo_ignore 4 demo_tree ?m2 \<noteq> None" by code_simp
  then obtain m3 r where o: "export_tree ref_ct (ws_below mem_ops [''o'']) demo_ignore 4 demo_tree ?m2 = Some (m3, r)" by auto
  moreover from this obtain plan where "r = Ok plan" using demo_restored [of ?bs] by (auto simp: is_ok_iff)
  ultimately show ?thesis
    using dirs opens rd by (simp add: restore_def doc_from_snapshot_def)
qed

theorem restore_recreates_witness:
  "\<exists>m1 m3 k. snapshot mem_disk snap_vdoc ref_ct demo_ignore 4 0 demo_folder ''d'' ''d.snap'' = Some (m1, Ok 1) \<and>
     restore mem_disk snap_vdoc ref_ct demo_ignore 4 0 m1 ''d.snap'' ''o'' = Some (m3, Ok k) \<and>
     mem_read_file m3 [''o'', ''a'', ''b''] = Ok ''hi''"
proof -
  let ?m1 = "fst (mem_write_file demo_folder [''d.snap''] (rt_snapshot demo_tree))"
  let ?W = "ws_below mem_ops [''d'']"
  obtain m3 k where rest: "restore mem_disk snap_vdoc ref_ct demo_ignore 4 0 ?m1 ''d.snap'' ''o'' = Some (m3, Ok k)"
    using demo_restore by blast
  have "mem_is_dir demo_folder (mem_comps ''d'')" by code_simp
  then have opens: "dk_open mem_disk demo_folder ''d'' = Ok ?W" by (simp add: mem_disk_def mem_comps_def)
  have load: "ignorer_load ?W demo_ignore demo_folder = Ok []" by code_simp
  obtain N where N: "\<And>fuel. N \<le> fuel \<Longrightarrow> \<exists>m1 r. snapshot mem_disk snap_vdoc ref_ct demo_ignore fuel 0 demo_folder ''d'' ''d.snap'' = Some (m1, r) \<and>
      (\<forall>k. r = Ok k \<longrightarrow> (\<exists>N'. \<forall>fuel' \<ge> N'. \<exists>m3 r'. restore mem_disk snap_vdoc ref_ct demo_ignore fuel' 0 m1 ''d.snap'' ''o'' = Some (m3, r') \<and>
         (\<forall>k'. r' = Ok k' \<longrightarrow> restored mem_disk demo_ignore m1 ''o'' (\<lambda>p c. on_disk ?W demo_ignore [] demo_folder [] p (Some c)) m3)))"
    using restore_recreates [OF stored.loro_stored_axioms mem_dk.disk_laws_axioms opens load] by blast
  have "snapshot mem_disk snap_vdoc ref_ct demo_ignore (max N 4) 0 demo_folder ''d'' ''d.snap'' = Some (?m1, Ok 1)"
    using snapshot_more [OF demo_snapshot] by simp
  with N [of "max N 4"] obtain N' where N': "\<And>fuel'. N' \<le> fuel' \<Longrightarrow> \<exists>m3 r'. restore mem_disk snap_vdoc ref_ct demo_ignore fuel' 0 ?m1 ''d.snap'' ''o'' = Some (m3, r') \<and>
         (\<forall>k'. r' = Ok k' \<longrightarrow> restored mem_disk demo_ignore ?m1 ''o'' (\<lambda>p c. on_disk ?W demo_ignore [] demo_folder [] p (Some c)) m3)"
    by auto
  have "restore mem_disk snap_vdoc ref_ct demo_ignore (max N' 4) 0 ?m1 ''d.snap'' ''o'' = Some (m3, Ok k)"
    using restore_more [OF rest] by simp
  with N' [of "max N' 4"] have "restored mem_disk demo_ignore ?m1 ''o'' (\<lambda>p c. on_disk ?W demo_ignore [] demo_folder [] p (Some c)) m3"
    by auto
  then obtain m2 ig where r: "dk_open mem_disk m2 ''o'' = Ok (ws_below mem_ops [''o''])"
      "ignorer_load (ws_below mem_ops [''o'']) demo_ignore m2 = Ok ig"
      "brings (ws_below mem_ops [''o'']) (\<lambda>p c. on_disk ?W demo_ignore [] demo_folder [] p (Some c) \<and> visible demo_ignore ig False p) m2 m3"
      "dk_create_dir_all mem_disk ?m1 ''o'' = (m2, Ok ())"
    by (auto simp: restored_def mem_disk_def mem_comps_def split: if_splits)
  have "m2 = fst (mem_create_dir ?m1 [''o''])" using r(4) by (simp add: mem_disk_def mem_comps_def mem_create_dir_def)
  moreover have "ignorer_load (ws_below mem_ops [''o'']) demo_ignore (fst (mem_create_dir ?m1 [''o''])) = Ok []" by code_simp
  ultimately have "ig = []" using r(2) by simp
  moreover have "visible demo_ignore [] False [''a'', ''b'']" by code_simp
  moreover have "on_disk ?W demo_ignore [] demo_folder [] [''a'', ''b''] (Some ''hi'')"
  proof -
    have "ws_read_dir ?W demo_folder [] = Ok [EDir ''.eg'', EDir ''a'']" "ws_read_dir ?W demo_folder [''a''] = Ok [EFile ''b'']"
      "accepted demo_ignore [] [] (EDir ''a'')" "accepted demo_ignore [] [''a''] (EFile ''b'')" by code_simp+
    moreover have "ws_read_file ?W demo_folder [''a'', ''b''] = Ok ''hi''" "valid_utf8 ''hi''" by code_simp+
    then have "entry_value ?W demo_folder [''a''] (EFile ''b'') (Some ''hi'')" by (simp add: entry_value_def)
    ultimately show ?thesis
      using on_disk.deep [of ?W demo_folder "[]" "[EDir ''.eg'', EDir ''a'']" "''a''" demo_ignore "[]"]
        on_disk.own [of ?W demo_folder "[''a'']" "[EFile ''b'']" "EFile ''b''" demo_ignore "[]"]
      by (simp add: entry_name_def)
  qed
  ultimately have "mem_read_file m3 [''o'', ''a'', ''b''] = Ok ''hi''" using r(3) by (simp add: brings_def)
  with demo_snapshot rest show ?thesis by blast
qed

section \<open>What watch writes\<close>

definition saved :: "'m disk \<Rightarrow> ('d, 'v, 'f) vdoc \<Rightarrow> string \<Rightarrow> 'm \<Rightarrow> 'd doc \<Rightarrow> bool" where
  "saved D V out m d \<longleftrightarrow> (\<exists>bs. doc_snapshot V d = Ok bs \<and> dk_read D m out = Ok bs)"

lemma watch_start_saves:
  assumes "disk_laws D" "watch_start D V L G fuel peer m dir out = Some (m0, Ok wt)"
  shows "saved D V out m0 (wt_doc wt)"
proof -
  obtain d where "persist D V m d out = (m0, Ok ())" "wt_doc wt = d"
    using assms(2) by (auto simp: watch_start_def split: sum.splits option.splits prod.splits)
  then show ?thesis
    using disk_laws.write_read [OF assms(1)] by (auto simp: saved_def persist_def split: sum.splits)
qed

lemma watch_batch_writes:
  assumes "watch_batch V L W w base snapshot_path paths (d, bases) = Some ((d1, bases1), Ok written)"
  shows "case written of None \<Rightarrow> d1 = d | Some bs \<Rightarrow> doc_snapshot V d1 = Ok bs"
  using assms by (auto simp: watch_batch_def Let_def split: if_splits option.splits sum.splits)

lemma watch_turn_saves:
  assumes "disk_laws D" "saved D V out m (wt_doc wt)" "watch_turn D V L out m wt batch = Some ((m1, wt1), Ok ())"
  shows "saved D V out m1 (wt_doc wt1)"
proof (cases batch)
  case None
  with assms(2,3) show ?thesis by (simp add: watch_turn_def)
next
  case (Some paths)
  then obtain d bases written where b: "watch_batch V L (wt_ws wt) m (wt_base wt) (wt_snapshot wt) paths (wt_doc wt, wt_bases wt) =
      Some ((d, bases), Ok written)" "wt1 = wt\<lparr>wt_doc := d, wt_bases := bases\<rparr>"
    "(m1, Ok ()) = (case written of None \<Rightarrow> (m, Ok ()) | Some bs \<Rightarrow> dk_write D m out bs)"
    using assms(3) by (auto simp: watch_turn_def Let_def split: option.splits sum.splits prod.splits)
  from watch_batch_writes [OF b(1)] b(2,3) assms(2) show ?thesis
    using disk_laws.write_read [OF assms(1), of m out _ m1] by (auto simp: saved_def split: option.splits)
qed

lemma watch_run_saves:
  assumes "disk_laws D" "\<forall>(f, batch) \<in> set evs. \<forall>m. dk_read D (f m) out = dk_read D m out"
  shows "saved D V out m (wt_doc wt) \<Longrightarrow> watch_run D V L out m wt evs = Some ((m1, wt1), Ok ()) \<Longrightarrow>
           saved D V out m1 (wt_doc wt1)"
  using assms(2)
proof (induction evs arbitrary: m wt)
  case (Cons e evs)
  obtain f batch where e: "e = (f, batch)" by (cases e)
  obtain m2 wt2 where t: "watch_turn D V L out (f m) wt batch = Some ((m2, wt2), Ok ())"
    "watch_run D V L out m2 wt2 evs = Some ((m1, wt1), Ok ())"
    using Cons.prems(2) by (auto simp: e split: option.splits sum.splits)
  have "saved D V out (f m) (wt_doc wt)" using Cons.prems(1,3) by (simp add: saved_def e)
  from Cons.IH [OF watch_turn_saves [OF assms(1) this t(1)] t(2)] Cons.prems(3) show ?case by simp
qed simp

text \<open>
  C23. The file \<open>watch\<close> keeps is never behind: after its start, and after any sequence of batches of which
  none failed, whatever others did to the rest of the file system in between, the file holds exactly the
  snapshot of the document the next batch is merged into.\<close>

theorem watch_keeps_snapshot:
  assumes "disk_laws D" "watch_start D V L G fuel peer m dir out = Some (m0, Ok wt0)"
    and "\<forall>(f, batch) \<in> set evs. \<forall>m. dk_read D (f m) out = dk_read D m out"
    and "watch_run D V L out m0 wt0 evs = Some ((m1, wt1), Ok ())"
  shows "saved D V out m1 (wt_doc wt1)"
  by (rule watch_run_saves [OF assms(1,3) watch_start_saves [OF assms(1,2)] assms(4)])

text \<open>Watching an empty directory, into which a file comes.\<close>

definition demo_notes :: "(rtree, unit, unit) vdoc" where
  "demo_notes = snap_vdoc\<lparr>ld_export_snapshot := \<lambda>d. Ok (concat (map snd (rt_texts d)))\<rparr>"

lemma demo_notes_simps [simp]:
  "ld_new demo_notes p = rt_empty" "ld_commit demo_notes d = d"
  "ld_export_snapshot demo_notes d = Ok (concat (map snd (rt_texts d)))" "ld_state_frontiers demo_notes d = ()"
  by (simp_all add: demo_notes_def)

definition demo_open_dir :: mem_workspace where
  "demo_open_dir = fst (mem_create_dir mem_new [''d''])"

definition demo_watching :: "(mem_workspace, rtree, nat, unit) watching" where
  "demo_watching = \<lparr>wt_ws = ws_below mem_ops [''d''], wt_doc = \<lparr>inner = rt_empty, comment_seq = 0\<rparr>, wt_bases = [],
     wt_base = [''d''], wt_snapshot = Some [''n'']\<rparr>"

lemma demo_watch_start:
  "watch_start mem_disk demo_notes ref_ct demo_ignore 4 0 demo_open_dir ''d'' ''n'' =
     Some (fst (mem_write_file demo_open_dir [''n''] []), Ok demo_watching)"
proof -
  let ?m = "fst (mem_write_file demo_open_dir [''n''] [])"
  have c: "mem_comps ''d'' = [''d'']" "mem_comps ''n'' = [''n'']" "mem_is_dir demo_open_dir [''d'']" "mem_is_dir ?m [''d'']"
    "is_ok (mem_read_file ?m [''n''])" "rt_texts rt_empty = []"
    "mem_write_file demo_open_dir [''n''] [] = (?m, Ok ())" by code_simp+
  have i: "ignorer_load (ws_below mem_ops [''d'']) demo_ignore demo_open_dir = Ok []"
    "ignorer_load (ws_below mem_ops [''d'']) demo_ignore ?m = Ok []"
    "import_dir ref_ct (ws_below mem_ops [''d'']) demo_ignore demo_open_dir [] 4 rt_empty [] None 0 = Some ((rt_empty, 0), Ok ())"
    "seed_roots ref_ct rt_empty = []" by code_simp+
  let ?W = "ws_below mem_ops [''d'']" and ?d = "\<lparr>inner = rt_empty, comment_seq = 0\<rparr>"
  have "dk_open mem_disk demo_open_dir ''d'' = Ok ?W" using c(1,3) by (simp add: mem_disk_def)
  moreover have "import_tree demo_notes ref_ct ?W demo_ignore 4 demo_open_dir (doc_new demo_notes 0) = Some (?d, Ok 0)"
    using i(1,3) by (simp add: import_tree_def doc_new_def doc_commit_def)
  moreover have "persist mem_disk demo_notes demo_open_dir ?d ''n'' = (?m, Ok ())"
    using c(2,6,7) by (simp add: persist_def doc_snapshot_def mem_disk_def)
  moreover have "seed demo_notes ref_ct ?W demo_ignore ?m ?d = Some (Ok ([], []))"
    using i(2,4) by (simp add: seed_def)
  moreover have "dk_canonicalize mem_disk ?m ''d'' = Ok [''d'']" "dk_canonicalize mem_disk ?m ''n'' = Ok [''n'']"
    using c(1,2,4,5) by (simp_all add: mem_disk_def)
  ultimately show ?thesis by (simp add: watch_start_def demo_watching_def)
qed

definition demo_batches :: "((mem_workspace \<Rightarrow> mem_workspace) \<times> path list option) list" where
  "demo_batches = [(\<lambda>m. m, None), (\<lambda>m. fst (mem_write_file m [''d'', ''f''] ''hey''), Some [[''n''], [''d'', ''f'']])]"

lemma demo_watch_run:
  "map_option (\<lambda>((m1, wt1), r). (mem_read_file m1 [''n''], r))
     (watch_run mem_disk demo_notes ref_ct ''n'' (fst (mem_write_file demo_open_dir [''n''] [])) demo_watching demo_batches)
   = Some (Ok ''hey'', Ok ())"
  by code_simp

theorem watch_keeps_snapshot_witness:
  "\<exists>m1 wt1. watch_run mem_disk demo_notes ref_ct ''n'' (fst (mem_write_file demo_open_dir [''n''] [])) demo_watching demo_batches =
       Some ((m1, wt1), Ok ()) \<and> mem_read_file m1 [''n''] = Ok ''hey'' \<and> concat (map snd (rt_texts (inner (wt_doc wt1)))) = ''hey''"
proof -
  obtain m1 wt1 where r: "watch_run mem_disk demo_notes ref_ct ''n'' (fst (mem_write_file demo_open_dir [''n''] [])) demo_watching
      demo_batches = Some ((m1, wt1), Ok ())" "mem_read_file m1 [''n''] = Ok ''hey''"
    using demo_watch_run by auto
  have "\<forall>(f, batch) \<in> set demo_batches. \<forall>m. dk_read mem_disk (f m) ''n'' = dk_read mem_disk m ''n''"
    by (simp add: demo_batches_def mem_disk_def mem_comps_def mem_read_file_def mem_write_files)
  from watch_keeps_snapshot [OF mem_dk.disk_laws_axioms demo_watch_start this r(1)] r(2)
  have "concat (map snd (rt_texts (inner (wt_doc wt1)))) = ''hey''"
    by (auto simp: saved_def doc_snapshot_def mem_disk_def mem_comps_def)
  with r show ?thesis by blast
qed

section \<open>A host finds its document again\<close>

text \<open>
  C24. What a host stored it finds again: once \<open>store\<close> succeeded, however the export went about the files, the
  next \<open>serve\<close>, \<open>join\<close> or \<open>pull\<close> in the same repository reads a document with the same tree, names, contents
  and comments, instead of seeding from disk or cloning anew; its counter of comments starts over.\<close>

theorem host_reopens_document:
  assumes "loro_stored L dwf V" "workspace_laws W" "dwf (inner d)"
    and "store V L W G fuel d w = Some (w', Ok plan)"
  shows "\<exists>d'. dwf (inner d') \<and> same_view L (inner d) (inner d') \<and> comment_seq d' = 0 \<and>
           read_doc V W peer w' = Ok (Some d') \<and> open_or_clone V W peer w' = Ok d' \<and>
           open_or_seed V L W G fuel' peer w' = Some (Ok d')"
proof -
  obtain bs w1 where s: "doc_snapshot V d = Ok bs" "ws_write_private W w DOC_PATH bs = (w1, Ok ())"
    "export_tree L W G fuel (inner d) w1 = Some (w', Ok plan)"
    using assms(4) by (auto simp: store_def split: sum.splits prod.splits)
  have "\<not> visible G ig False DOC_PATH" for ig by (simp add: visible_def DOC_PATH_def EG_DIR_def)
  then have "ws_read_file W w' DOC_PATH = ws_read_file W w1 DOC_PATH"
    using export_within [OF assms(2) s(3), of DOC_PATH] by blast
  also have "\<dots> = Ok bs" by (rule workspace_laws.private_read [OF assms(2) s(2)])
  finally have rd: "ws_read_file W w' DOC_PATH = Ok bs" .
  obtain d' where d': "doc_from_snapshot V peer bs = Ok d'" "dwf (inner d')" "same_view L (inner d) (inner d')" "comment_seq d' = 0"
    using loro_stored.reopened [OF assms(1,3) s(1)] by blast
  then have "read_doc V W peer w' = Ok (Some d')" using rd by (simp add: read_doc_def)
  with d' show ?thesis by (auto simp: open_or_clone_def open_or_seed_def)
qed

lemma demo_exported:
  "is_ok (snd (the (export_tree ref_ct mem_ops demo_ignore 4 demo_tree (fst (mem_write_file mem_new DOC_PATH bs)))))"
  "export_tree ref_ct mem_ops demo_ignore 4 demo_tree (fst (mem_write_file mem_new DOC_PATH bs)) \<noteq> None"
  by code_simp+

theorem host_reopens_document_witness:
  "\<exists>w d'. store snap_vdoc ref_ct mem_ops demo_ignore 4 \<lparr>inner = demo_tree, comment_seq = 7\<rparr> mem_new \<in> range (\<lambda>p. Some (w, Ok p)) \<and>
     open_or_clone snap_vdoc mem_ops 5 w = Ok d' \<and> rt_roots (inner d') = [0]"
proof -
  let ?d = "\<lparr>inner = demo_tree, comment_seq = 7\<rparr>" and ?w = "fst (mem_write_file mem_new DOC_PATH (rt_snapshot demo_tree))"
  obtain w plan where e: "export_tree ref_ct mem_ops demo_ignore 4 demo_tree ?w = Some (w, Ok plan)"
    using demo_exported [of "rt_snapshot demo_tree"] by (auto simp: is_ok_iff)
  have "mem_write_private mem_new DOC_PATH bs = (fst (mem_write_file mem_new DOC_PATH bs), Ok ())" for bs
    by (simp add: mem_write_private_def mem_write_file_def Let_def)
  with e have s: "store snap_vdoc ref_ct mem_ops demo_ignore 4 ?d mem_new = Some (w, Ok plan)"
    by (simp add: store_def doc_snapshot_def)
  have "rt_ok demo_tree" by code_simp
  then have "rtx_ok (inner ?d)" by (simp, intro rtx_okI) (assumption, code_simp)
  from host_reopens_document [OF stored.loro_stored_axioms mem.workspace_laws_axioms this s, of 5 4] obtain d' where
    d': "same_view ref_ct demo_tree (inner d')" "open_or_clone snap_vdoc mem_ops 5 w = Ok d'" by auto
  then have "kids ref_ct (inner d') None = kids ref_ct demo_tree None" by (simp add: same_view_def same_tree_def)
  moreover have "rt_roots demo_tree = [0]" by code_simp
  ultimately have "rt_roots (inner d') = [0]" by (simp add: kids_def ft_roots_def)
  with s d'(2) show ?thesis by blast
qed

end
