(* ===== verification/Mount_Link.thy ===== *)
theory Mount_Link
  imports Mount_Props Snapshots
begin

text \<open>
  The rest of \<open>crates/eg/src/mount.rs\<close>: what \<open>mount\<close> resolves before it mounts, the document in the state
  directory, the loop that keeps dialing the peer, and what happens at the end.  The machine and its file system
  are those of \<open>Keys\<close> and \<open>Snapshots\<close>.  Binding, dialing and the session itself are outcomes; the session's
  imports, the kernel's requests and the ticker are the steps of \<open>Mount\<close>.
\<close>

section \<open>Finding the peer\<close>

definition IROH_SCHEME :: string where "IROH_SCHEME = ''iroh://''"

definition parse_endpoint :: "(string \<Rightarrow> 'e option) \<Rightarrow> string \<Rightarrow> io_error + 'e" where
  "parse_endpoint from_str s =
     (let bare = (case strip_prefix IROH_SCHEME s of Some r \<Rightarrow> r | None \<Rightarrow> s)
      in case from_str bare of
           Some i \<Rightarrow> Ok i
         | None \<Rightarrow> Err (IoInvalidInput, s @ '' is not a configured remote or an iroh://<endpoint-id>''))"

text \<open>The remote of a target by name, or the target itself as a peer.\<close>

definition mount_peer :: "global_config \<Rightarrow> string \<Rightarrow> io_error + string option \<times> string" where
  "mount_peer global target =
     (case map_of (gc_remotes global) target of
        Some remote \<Rightarrow>
          (case rm_peer remote of
             None \<Rightarrow> Err (IoInvalidInput, ''eg config.toml: [remote.'' @ target @ ''] has no peer'')
           | Some peer \<Rightarrow> Ok (Some target, peer))
      | None \<Rightarrow> Ok (None, target))"

definition data_dir :: "'m machine \<Rightarrow> io_error + string" where
  "data_dir M = xdg_dir M ''XDG_DATA_HOME'' [''.local'', ''share'']"

definition state_dir :: "('e \<Rightarrow> string) \<Rightarrow> string \<Rightarrow> string option \<Rightarrow> 'e \<Rightarrow> string" where
  "state_dir show dir remote_name i =
     path_join (path_join dir ''remote'') (case remote_name of Some name \<Rightarrow> name | None \<Rightarrow> show i)"

section \<open>The document of the state directory\<close>

definition STATE_DOC :: path where "STATE_DOC = [''doc'']"

definition load_state :: "('d, 'v, 'f) vdoc \<Rightarrow> 'w workspace \<Rightarrow> 64 word \<Rightarrow> 'w \<Rightarrow> io_error + 'd doc" where
  "load_state V W peer w =
     (case ws_read_file W w STATE_DOC of
        Inr bs \<Rightarrow> (case doc_from_snapshot V peer bs of Inl e \<Rightarrow> Err (to_io e) | Inr d \<Rightarrow> Ok d)
      | Inl e \<Rightarrow> if fst e = IoNotFound then Ok (doc_new V peer) else Err e)"

definition store_state :: "('d, 'v, 'f) vdoc \<Rightarrow> 'w workspace \<Rightarrow> 'd doc \<Rightarrow> 'w \<Rightarrow> 'w \<times> (io_error + unit)" where
  "store_state V W d w =
     (case doc_snapshot V d of Inl e \<Rightarrow> (w, Err (to_io e)) | Inr bs \<Rightarrow> ws_write_private W w STATE_DOC bs)"

section \<open>Mounting\<close>

text \<open>The calls that leave the program: endpoint ids, the lock, the owner of a directory, the FUSE session.\<close>

record ('m, 'e) mount_sys =
  ms_from_str :: "string \<Rightarrow> 'e option"
  ms_show :: "'e \<Rightarrow> string"
  ms_lock :: "'m \<Rightarrow> string \<Rightarrow> io_error + unit"
  ms_owner :: "'m \<Rightarrow> path \<Rightarrow> io_error + 32 word \<times> 32 word"
  ms_session :: "path \<Rightarrow> io_error + unit"

record ('m, 'd, 'n, 'f, 'e) mounting =
  mg_fs :: "('d, 'n, 'f) doc_mount"
  mg_state :: "'m workspace"
  mg_peer :: 'e
  mg_secret :: bytes

definition mount_repo :: "string option \<Rightarrow> config" where
  "mount_repo remote_name = config_default\<lparr>cf_remote := remote_name\<rparr>"

text \<open>From the lock on: the key, the document, and the mount over the directory.\<close>

definition mount_over ::
    "'m machine \<Rightarrow> 'm disk \<Rightarrow> ('d, 'v, 'f) vdoc \<Rightarrow> ('m, 'e) mount_sys \<Rightarrow> bytes \<Rightarrow> 64 word \<Rightarrow> nat
       \<Rightarrow> global_config \<Rightarrow> string option \<Rightarrow> string option \<Rightarrow> 'e \<Rightarrow> 'm workspace \<Rightarrow> string \<Rightarrow> 'm
       \<Rightarrow> 'm \<times> (io_error + ('m, 'd, 'n, 'f, 'e) mounting)" where
  "mount_over M D V S fresh peer now global cli_key remote_name i state mountpoint m =
     (case keys_effective M state fresh m m global cli_key (mount_repo remote_name) False of
        (m1, Inl e) \<Rightarrow> (m1, Err e)
      | (m1, Inr (eff, s)) \<Rightarrow>
          (m1, case load_state V state peer m1 of
                 Inl e \<Rightarrow> Err e
               | Inr d \<Rightarrow>
                   (case dk_canonicalize D m1 mountpoint of
                      Inl e \<Rightarrow> Err e
                    | Inr mp \<Rightarrow>
                        (case ms_owner S m1 mp of
                           Inl e \<Rightarrow> Err e
                         | Inr (uid, gid) \<Rightarrow>
                             (case ms_session S mp of
                                Inl e \<Rightarrow> Err e
                              | Inr _ \<Rightarrow> Ok \<lparr>mg_fs = mount_new d uid gid now, mg_state = state, mg_peer = i,
                                             mg_secret = s\<rparr>)))))"

definition mount_start ::
    "'m machine \<Rightarrow> 'm disk \<Rightarrow> ('d, 'v, 'f) vdoc \<Rightarrow> ('m, 'e) mount_sys \<Rightarrow> (string \<Rightarrow> string + ttable) \<Rightarrow> bytes
       \<Rightarrow> 64 word \<Rightarrow> nat \<Rightarrow> string \<Rightarrow> string \<Rightarrow> string option \<Rightarrow> 'm
       \<Rightarrow> 'm \<times> (io_error + ('m, 'd, 'n, 'f, 'e) mounting)" where
  "mount_start M D V S toml fresh peer now target mountpoint cli_key m =
     (case load_global M toml m of
        Inl e \<Rightarrow> (m, Err e)
      | Inr global \<Rightarrow>
          (case mount_peer global target of
             Inl e \<Rightarrow> (m, Err e)
           | Inr (remote_name, p) \<Rightarrow>
               (case parse_endpoint (ms_from_str S) p of
                  Inl e \<Rightarrow> (m, Err e)
                | Inr i \<Rightarrow>
                    (case data_dir M of
                       Inl e \<Rightarrow> (m, Err e)
                     | Inr dir \<Rightarrow>
                         (let sdir = state_dir (ms_show S) dir remote_name i
                          in case dk_create_dir_all D m sdir of
                               (m1, Inl e) \<Rightarrow> (m1, Err e)
                             | (m1, Inr _) \<Rightarrow>
                                 (case dk_open D m1 sdir of
                                    Inl e \<Rightarrow> (m1, Err e)
                                  | Inr state \<Rightarrow>
                                      (case ms_lock S m1 sdir of
                                         Inl e \<Rightarrow> (m1, Err e)
                                       | Inr _ \<Rightarrow>
                                           mount_over M D V S fresh peer now global cli_key remote_name i state
                                             mountpoint m1)))))))"

section \<open>The link\<close>

text \<open>How one turn of the dial loop went: no connection, or a session with its result.\<close>

datatype dial = DialFailed net_error | Linked "net_error + unit"

text \<open>Whether the loop goes on, with what it prints to standard error.\<close>

definition link_turn :: "string \<Rightarrow> dial \<Rightarrow> ('d, 'n, 'f) doc_mount \<Rightarrow> ('d, 'n, 'f) doc_mount \<times> string list \<times> bool" where
  "link_turn who dl st =
     (case dl of
        DialFailed e \<Rightarrow> (st, [''eg mount: '' @ net_error_display e], True)
      | Linked (Inr _) \<Rightarrow> (st, [''eg mount: link closed''], True)
      | Linked (Inl e) \<Rightarrow>
          (case e of
             Refused message \<Rightarrow>
               (st\<lparr>mt_revoked := True\<rparr>,
                [(case message of
                    Some msg \<Rightarrow> ''eg mount: rejected by '' @ who @ '': '' @ msg
                  | None \<Rightarrow> ''eg mount: rejected by '' @ who),
                 ''eg mount: serving the local copy read-only; unmount with ctrl-c''], False)
           | _ \<Rightarrow> (st, [''eg mount: link dropped: '' @ net_error_display e], True)))"

section \<open>The mounted state\<close>

text \<open>
  The whole of a mount between start and ctrl-c: the document and its buffers, the state directory, and whether
  the dial loop still runs.  The task that persists writes the document out after a nudge, and only prints that
  it failed.
\<close>

record ('w, 'd, 'n, 'f) mount_run =
  rn_fs :: "('d, 'n, 'f) doc_mount"
  rn_disk :: 'w
  rn_linked :: bool

definition run_persist ::
    "('d, 'v, 'f) vdoc \<Rightarrow> 'w workspace \<Rightarrow> ('w, 'd, 'n, 'f) mount_run \<Rightarrow> ('w, 'd, 'n, 'f) mount_run" where
  "run_persist V W rn = rn\<lparr>rn_disk := fst (store_state V W (mt_doc (rn_fs rn)) (rn_disk rn))\<rparr>"

definition run_link :: "string \<Rightarrow> dial \<Rightarrow> ('w, 'd, 'n, 'f) mount_run \<Rightarrow> ('w, 'd, 'n, 'f) mount_run" where
  "run_link who dl rn =
     (if rn_linked rn
      then (case link_turn who dl (rn_fs rn) of (st, out, on) \<Rightarrow> rn\<lparr>rn_fs := st, rn_linked := on\<rparr>)
      else rn)"

inductive run_step ::
    "('d, 'v, 'f) vdoc \<Rightarrow> ('d, 'n, 't, 'm) loro_ct \<Rightarrow> ('d, 'n) reports \<Rightarrow> (dir_entry list \<Rightarrow> dir_entry \<Rightarrow> bool)
       \<Rightarrow> ('d \<Rightarrow> bool) \<Rightarrow> 'w workspace \<Rightarrow> string \<Rightarrow> ('w, 'd, 'n, 'f) mount_run \<Rightarrow> ('w, 'd, 'n, 'f) mount_run \<Rightarrow> bool"
  for V L E full imported W who where
  run_served: "handle V L E full now (rn_fs rn) req = Some (st, r) \<Longrightarrow> room L (rn_fs rn) \<Longrightarrow>
     run_step V L E full imported W who rn (rn\<lparr>rn_fs := st\<rparr>)"
| run_ticked: "run_step V L E full imported W who rn (rn\<lparr>rn_fs := commit_stale V L E now CEILING (rn_fs rn)\<rparr>)"
| run_synced: "rn_linked rn \<Longrightarrow> imported i \<Longrightarrow>
     run_step V L E full imported W who rn (rn\<lparr>rn_fs := put_doc E now i (rn_fs rn)\<rparr>)"
| run_dialed: "run_step V L E full imported W who rn (run_link who dl rn)"
| run_persisted: "run_step V L E full imported W who rn (run_persist V W rn)"

inductive_cases run_stepE: "run_step V L E full imported W who rn rn'"

section \<open>Unmounting\<close>

text \<open>
  After ctrl-c what is buffered is committed, then the FUSE session is dropped, then the document is written out.
  The session answers on its own thread until it is dropped: \<open>late\<close> are the requests it answers in between.
\<close>

fun serve_late ::
    "('d, 'v, 'f) vdoc \<Rightarrow> ('d, 'n, 't, 'm) loro_ct \<Rightarrow> ('d, 'n) reports \<Rightarrow> (dir_entry list \<Rightarrow> dir_entry \<Rightarrow> bool)
       \<Rightarrow> (nat \<times> request) list \<Rightarrow> ('d, 'n, 'f) doc_mount \<Rightarrow> (('d, 'n, 'f) doc_mount \<times> (errno + reply) list) option" where
  "serve_late V L E full [] st = Some (st, [])"
| "serve_late V L E full ((now, req) # late) st =
     (case handle V L E full now st req of
        None \<Rightarrow> None
      | Some (st1, r) \<Rightarrow> map_option (\<lambda>(st2, rs). (st2, r # rs)) (serve_late V L E full late st1))"

definition mount_end ::
    "('d, 'v, 'f) vdoc \<Rightarrow> ('d, 'n, 't, 'm) loro_ct \<Rightarrow> ('d, 'n) reports \<Rightarrow> (dir_entry list \<Rightarrow> dir_entry \<Rightarrow> bool)
       \<Rightarrow> 'w workspace \<Rightarrow> nat \<Rightarrow> (nat \<times> request) list \<Rightarrow> ('w, 'd, 'n, 'f) mount_run
       \<Rightarrow> (('w, 'd, 'n, 'f) mount_run \<times> (errno + reply) list \<times> (io_error + unit)) option" where
  "mount_end V L E full W now late rn =
     map_option (\<lambda>(st, rs).
         case store_state V W (mt_doc st) (rn_disk rn) of
           (w, r) \<Rightarrow> (rn\<lparr>rn_fs := st, rn_disk := w\<rparr>, rs, r))
       (serve_late V L E full late (commit_stale V L E now 0 (rn_fs rn)))"

end
