(* ===== verification/Mount_Link_Props.thy ===== *)
theory Mount_Link_Props
  imports Mount_Link
begin

text \<open>
  Properties of a mount as a whole: what a refusal by the peer leaves possible, that the state directory holds
  everything that was written when the mount ends, and which writes it can miss.
\<close>

section \<open>Runs\<close>

definition run_new :: "('d, 'n, 'f) doc_mount \<Rightarrow> 'w \<Rightarrow> ('w, 'd, 'n, 'f) mount_run" where
  "run_new st w = \<lparr>rn_fs = st, rn_disk = w, rn_linked = True\<rparr>"

text \<open>What a run does to the mounted state are steps of \<open>Mount\<close>, and it is linked until it is refused.\<close>

lemma link_turn_fs:
  "link_turn who dl st = (st', out, on) \<Longrightarrow>
     (on \<and> st' = st) \<or> (\<not> on \<and> st' = st\<lparr>mt_revoked := True\<rparr> \<and> (\<exists>m. dl = Linked (Err (Refused m))))"
  by (auto simp: link_turn_def split: dial.splits sum.splits net_error.splits)

lemma run_step_fs:
  assumes "run_step V L E full imported W who rn rn'"
  shows "(mount_step V L E full imported)\<^sup>=\<^sup>= (rn_fs rn) (rn_fs rn')"
  using assms
proof cases
  case (run_served now req st r)
  then show ?thesis using mount_step.served by auto
next
  case (run_ticked now)
  then show ?thesis using mount_step.ticked by auto
next
  case (run_synced i now)
  then show ?thesis using mount_step.synced by auto
next
  case (run_dialed dl)
  then show ?thesis
    using link_turn_fs [of who dl "rn_fs rn"] mount_step.refused [of V L E full imported "rn_fs rn"]
    by (auto simp: run_link_def split: prod.split)
qed (simp add: run_persist_def)

lemma run_fs:
  "(run_step V L E full imported W who)\<^sup>*\<^sup>* rn rn' \<Longrightarrow> (mount_step V L E full imported)\<^sup>*\<^sup>* (rn_fs rn) (rn_fs rn')"
proof (induction rule: rtranclp_induct)
  case (step a b)
  from step(3) run_step_fs [OF step(2)] show ?case by (auto intro: rtranclp.rtrancl_into_rtrancl)
qed simp

section \<open>After a refusal\<close>

text \<open>Nothing but the inode table and the buffers that are committed change for a revoked key.\<close>

definition settles :: "('d, 'n, 'f) doc_mount \<Rightarrow> ('d, 'n, 'f) doc_mount \<Rightarrow> bool" where
  "settles st st' \<longleftrightarrow>
     (mt_revoked st' \<longleftrightarrow> mt_revoked st) \<and> set (map fst (mt_buffers st')) \<subseteq> set (map fst (mt_buffers st)) \<and>
     (mt_buffers st = [] \<longrightarrow> mt_doc st' = mt_doc st)"

lemma settles_trans:
  assumes "settles a b" "settles b c"
  shows "settles a c"
proof -
  have sub: "set (map fst (mt_buffers c)) \<subseteq> set (map fst (mt_buffers a))"
    using assms unfolding settles_def by (blast intro: subset_trans)
  have "mt_buffers a = [] \<Longrightarrow> mt_buffers b = []" using assms(1) by (simp add: settles_def)
  then have "mt_buffers a = [] \<Longrightarrow> mt_doc c = mt_doc a" using assms by (simp add: settles_def)
  with sub show ?thesis using assms by (simp add: settles_def)
qed

lemma settles_frame:
  "mt_revoked st' = mt_revoked st \<Longrightarrow> mt_buffers st' = mt_buffers st \<Longrightarrow> mt_doc st' = mt_doc st \<Longrightarrow> settles st st'"
  by (simp add: settles_def)

lemma wb_commit_settles: "settles st (wb_commit V L E now n st)"
proof -
  have "fst ` set (AList.delete n (mt_buffers st)) \<subseteq> fst ` set (mt_buffers st)"
    by (auto simp: AList.delete_eq)
  then show ?thesis by (simp add: settles_def) (simp add: wb_commit_def)
qed

lemma commit_stale_settles: "settles st (commit_stale V L E now age st)"
proof -
  have "settles st (fold (wb_commit V L E now) ns st)" for ns st
  proof (induction ns arbitrary: st)
    case (Cons n ns)
    from settles_trans [OF wb_commit_settles Cons.IH] show ?case by simp
  qed (simp add: settles_def)
  then show ?thesis by (simp add: commit_stale_def)
qed

lemma revoked_settles:
  assumes "mt_revoked st" "handle V L E full now st req = Some (st', r)"
  shows "settles st st'"
proof -
  have reply: "settles st st1" if "reply_node L mk st n = (st1, r1)" for mk n st1 r1
    using reply_node_frame [OF that] by (simp add: settles_frame)
  have idle: "settles st st" by (simp add: settles_def)
  have flush: "settles st (commit_ino V L E now ino st)" for ino
    using wb_commit_settles [of st V L E now] idle by (simp add: commit_ino_def split: option.split)
  show ?thesis
  proof (cases req)
    case (Lookup parent name)
    with assms(2) reply idle show ?thesis
      by (auto simp: handle_def fuse_lookup_def mount_entry_of_def split: option.splits)
  next
    case (Setattr ino sz)
    with assms idle show ?thesis by (cases sz) (auto simp: handle_def fuse_setattr_def denied_def)
  next
    case (Readdir ino offset)
    with assms(2) show ?thesis
      by (auto simp: handle_def fuse_readdir_def Let_def settles_def split: option.splits prod.splits)
  next
    case (Read ino offset sz)
    with assms(2) idle show ?thesis by (auto simp: handle_def fuse_read_def split: option.splits)
  qed (use assms flush idle in \<open>auto simp: handle_def denied_def fuse_getattr_def fuse_write_def fuse_flush_def
        fuse_release_def fuse_fsync_def fuse_create_def fuse_mkdir_def fuse_unlink_def fuse_rmdir_def fuse_rename_def\<close>)
qed

text \<open>Only the link takes the key away, and with the key it ends.\<close>

lemma handle_keeps_key:
  assumes "handle V L E full now st req = Some (st', r)"
  shows "mt_revoked st' = mt_revoked st"
proof -
  have reply: "mt_revoked st1 = mt_revoked st0" if "reply_node L mk st0 n = (st1, r1)" for mk n st0 st1 r1
    using reply_node_frame [OF that] by simp
  have flush: "mt_revoked (commit_ino V L E now ino st) = mt_revoked st" for ino
    by (simp add: commit_ino_def split: option.split)
  show ?thesis
  proof (cases req)
    case (Setattr ino sz)
    with assms show ?thesis
      by (cases sz) (auto simp: handle_def fuse_setattr_def touched_def Let_def split: option.splits if_splits prod.splits sum.splits)
  next
    case (Write ino offset data)
    with assms show ?thesis
      by (auto simp: handle_def fuse_write_def touched_def split: option.splits if_splits sum.splits)
  next
    case (Create parent name)
    with assms show ?thesis
      by (auto simp: handle_def fuse_create_def split: option.splits if_splits sum.splits dest!: reply)
  next
    case (Mkdir parent name)
    with assms show ?thesis
      by (auto simp: handle_def fuse_mkdir_def mount_entry_of_def split: option.splits if_splits sum.splits dest!: reply)
  next
    case (Lookup parent name)
    with assms show ?thesis
      by (auto simp: handle_def fuse_lookup_def mount_entry_of_def split: option.splits dest!: reply)
  next
    case (Rename parent name newparent newname flags)
    with assms show ?thesis
      by (auto simp: handle_def fuse_rename_def split: option.splits if_splits sum.splits)
  qed (use assms flush in \<open>auto simp: handle_def fuse_getattr_def fuse_readdir_def fuse_read_def fuse_flush_def
        fuse_release_def fuse_fsync_def fuse_unlink_def fuse_rmdir_def Let_def
        split: option.splits if_splits sum.splits prod.splits\<close>)
qed

definition link_ended :: "('w, 'd, 'n, 'f) mount_run \<Rightarrow> bool" where
  "link_ended rn \<longleftrightarrow> (rn_linked rn \<longleftrightarrow> \<not> mt_revoked (rn_fs rn))"

lemma step_link_ended:
  assumes "run_step V L E full imported W who rn rn'" "link_ended rn"
  shows "link_ended rn'"
  using assms(1)
proof cases
  case (run_served now req st r)
  with assms(2) handle_keeps_key [OF run_served(2)] show ?thesis by (simp add: link_ended_def)
next
  case (run_ticked now)
  with assms(2) commit_stale_settles [of "rn_fs rn" V L E now CEILING] show ?thesis
    by (simp add: link_ended_def settles_def)
next
  case (run_dialed dl)
  with assms(2) link_turn_fs [of who dl "rn_fs rn"] show ?thesis
    by (auto simp: run_link_def link_ended_def split: prod.split)
qed (use assms(2) in \<open>simp_all add: run_persist_def link_ended_def\<close>)

lemma run_link_ended:
  "(run_step V L E full imported W who)\<^sup>*\<^sup>* rn rn' \<Longrightarrow> link_ended rn \<Longrightarrow> link_ended rn'"
  by (induction rule: rtranclp_induct) (blast intro: step_link_ended)+

lemma step_settles:
  assumes "run_step V L E full imported W who rn rn'" "link_ended rn" "mt_revoked (rn_fs rn)"
  shows "settles (rn_fs rn) (rn_fs rn') \<and> mt_revoked (rn_fs rn')"
  using assms(1)
proof cases
  case (run_served now req st r)
  with revoked_settles [OF assms(3) run_served(2)] assms(3) show ?thesis by (simp add: settles_def)
next
  case (run_ticked now)
  with commit_stale_settles [of "rn_fs rn" V L E now CEILING] assms(3) show ?thesis by (simp add: settles_def)
qed (use assms(2,3) in \<open>simp_all add: link_ended_def run_link_def run_persist_def settles_def\<close>)

lemma run_settles:
  "(run_step V L E full imported W who)\<^sup>*\<^sup>* rn rn' \<Longrightarrow> link_ended rn \<Longrightarrow> mt_revoked (rn_fs rn) \<Longrightarrow>
     settles (rn_fs rn) (rn_fs rn') \<and> mt_revoked (rn_fs rn') \<and> link_ended rn'"
proof (induction rule: rtranclp_induct)
  case (step a b)
  then have "settles (rn_fs a) (rn_fs b) \<and> mt_revoked (rn_fs b)" using step_settles [OF step(2)] by blast
  with step step_link_ended [OF step(2)] show ?case by (blast intro: settles_trans)
qed (simp add: settles_def)

text \<open>
  C34. A refusal is final.  Whatever a mount did since its start, once its key is revoked the dial loop has ended:
  the peer is not dialed again, nothing more is imported, no file becomes dirty that was not, and with the last
  buffer committed the document never changes again, however long the mount goes on serving.\<close>

theorem refused_mount_is_frozen:
  assumes "(run_step V L E full imported W who)\<^sup>*\<^sup>* (run_new (mount_new d uid gid epoch) w) rn"
    and "mt_revoked (rn_fs rn)" "(run_step V L E full imported W who)\<^sup>*\<^sup>* rn rn'"
  shows "\<not> rn_linked rn' \<and> mt_revoked (rn_fs rn') \<and> run_link who dl rn' = rn' \<and>
         set (map fst (mt_buffers (rn_fs rn'))) \<subseteq> set (map fst (mt_buffers (rn_fs rn))) \<and>
         (mt_buffers (rn_fs rn) = [] \<longrightarrow> mt_doc (rn_fs rn') = mt_doc (rn_fs rn))"
proof -
  have "link_ended (run_new (mount_new d uid gid epoch) w)" by (simp add: link_ended_def run_new_def mount_new_def)
  from run_settles [OF assms(3) run_link_ended [OF assms(1) this] assms(2)] show ?thesis
    by (auto simp: settles_def link_ended_def run_link_def)
qed

text \<open>The host refuses: what is asked of the mount then is refused too.\<close>

theorem refused_mount_is_frozen_witness:
  "run_link ''p'' (DialFailed (Io [])) ((run_link ''p'' (Linked (Err (Refused None))) (run_new demo_mounted ())))
     = run_link ''p'' (Linked (Err (Refused None))) (run_new demo_mounted ())"
proof -
  let ?rn = "run_link ''p'' (Linked (Err (Refused None))) (run_new demo_mounted ())"
  let ?step = "run_step one_text ref_ct demo_reports (\<lambda>acc e. False) (\<lambda>i. False) (undefined :: unit workspace) ''p''"
  have new: "demo_mounted = mount_new (mt_doc demo_mounted) 1000 1000 7" by (simp add: demo_mounted_def mount_new_def)
  have "?step\<^sup>*\<^sup>* (run_new (mount_new (mt_doc demo_mounted) 1000 1000 7) ()) ?rn"
    using run_dialed [of one_text ref_ct demo_reports "\<lambda>acc e. False" "\<lambda>i. False" "undefined :: unit workspace" "''p''"
        "run_new demo_mounted ()" "Linked (Err (Refused None))"] new by auto
  moreover have "mt_revoked (rn_fs ?rn)" by (simp add: run_link_def link_turn_def run_new_def)
  ultimately show ?thesis
    by (elim refused_mount_is_frozen [OF _ _ rtranclp.rtrancl_refl, where dl = "DialFailed (Io [])",
        THEN conjunct2, THEN conjunct2, THEN conjunct1])
qed

section \<open>What the end of a mount keeps\<close>

lemma commit_all: "mt_buffers (commit_stale V L E now 0 st) = []"
proof -
  have "mt_buffers (fold (wb_commit V L E now) ns st) = filter (\<lambda>p. fst p \<notin> set ns) (mt_buffers st)" for ns st
  proof (induction ns arbitrary: st)
    case (Cons n ns)
    then show ?case by (simp add: AList.delete_eq) (rule filter_cong, auto)
  qed simp
  then show ?thesis by (auto simp: commit_stale_def filter_empty_conv)
qed

lemma state_reloads:
  assumes "loro_stored L dwf V" "workspace_laws W" "dwf (inner d)" "store_state V W d w = (w', Ok ())"
  shows "\<exists>d'. load_state V W peer w' = Ok d' \<and> dwf (inner d') \<and> same_view L (inner d) (inner d') \<and> comment_seq d' = 0"
proof -
  obtain bs where s: "doc_snapshot V d = Ok bs" "ws_write_private W w STATE_DOC bs = (w', Ok ())"
    using assms(4) by (auto simp: store_state_def split: sum.splits)
  have "ws_read_file W w' STATE_DOC = Ok bs" by (rule workspace_laws.private_read [OF assms(2) s(2)])
  then show ?thesis using loro_stored.reopened [OF assms(1,3) s(1), of peer] by (auto simp: load_state_def)
qed

text \<open>
  C33. A mount ends with everything written.  Whatever requests, commits, imports and dials a mount saw, when it
  ends with nothing arriving after ctrl-c the last buffer is committed without a panic; and when the state
  directory could be written, the next mount of it starts from a document with the same tree, names, contents
  and comments.\<close>

theorem remount_shows_all:
  assumes "served_doc L dwf V" "loro_stored L dwf V" "workspace_laws W" "dwf (inner d)" "tidy L (inner d)"
    and "(run_step V L E full (\<lambda>i. dwf i \<and> tidy L i) W who)\<^sup>*\<^sup>* (run_new (mount_new d uid gid epoch) w) rn"
  shows "\<exists>rn' r. mount_end V L E full W now [] rn = Some (rn', [], r) \<and> mt_buffers (rn_fs rn') = [] \<and>
           rn_fs rn' = commit_stale V L E now 0 (rn_fs rn) \<and>
           (r = Ok () \<longrightarrow> (\<exists>d'. load_state V W peer (rn_disk rn') = Ok d' \<and> dwf (inner d') \<and>
              same_view L (inner (mt_doc (rn_fs rn'))) (inner d') \<and> comment_seq d' = 0))"
proof -
  let ?st = "commit_stale V L E now 0 (rn_fs rn)"
  have "(mount_step V L E full (\<lambda>i. dwf i \<and> tidy L i))\<^sup>*\<^sup>* (mount_new d uid gid epoch) (rn_fs rn)"
    using run_fs [OF assms(6)] by (simp add: run_new_def)
  then have "mount_ok L dwf (rn_fs rn)"
    using served_doc.run_ok [OF assms(1) _ served_doc.new_ok [OF assms(1,4,5)]] by blast
  then have ok: "dwf (inner (mt_doc ?st))"
    using served_doc.commit_stale_ok [OF assms(1)] by (auto simp: mount_ok_def)
  obtain w' r where s: "store_state V W (mt_doc ?st) (rn_disk rn) = (w', r)" by fastforce
  then have "mount_end V L E full W now [] rn = Some (rn\<lparr>rn_fs := ?st, rn_disk := w'\<rparr>, [], r)"
    by (simp add: mount_end_def)
  then show ?thesis using state_reloads [OF assms(2,3) ok, of "rn_disk rn" w' peer] s by (auto simp: commit_all)
qed

text \<open>
  C35. The end misses what arrives late.  A write the FUSE session answers after the buffers were committed and
  before it is dropped is acknowledged, but the document and the state directory are left as they would have been
  without it, and its bytes are only in a buffer that is never committed.\<close>

theorem late_write_is_lost:
  assumes "\<not> mt_revoked (rn_fs rn)" "node (mt_inodes (rn_fs rn)) ino = Some n" "unat offset + length data < 2 ^ 64"
    and "ft_content L (inner (mt_doc (commit_stale V L E now 0 (rn_fs rn)))) n = Some t"
  shows "\<exists>rn1 rn2 r. mount_end V L E full W now [] rn = Some (rn1, [], r) \<and>
           mount_end V L E full W now [(later, Write ino offset data)] rn =
             Some (rn2, [Ok (RWritten (of_nat (length data)))], r) \<and>
           rn_disk rn2 = rn_disk rn1 \<and> mt_doc (rn_fs rn2) = mt_doc (rn_fs rn1) \<and> map_of (mt_buffers (rn_fs rn2)) n \<noteq> None"
proof -
  let ?st = "commit_stale V L E now 0 (rn_fs rn)"
  have k: "\<not> mt_revoked ?st" using assms(1) commit_stale_settles [of "rn_fs rn" V L E now 0] by (simp add: settles_def)
  have "mt_inodes (fold (wb_commit V L E now) ns st) = mt_inodes st" for ns st
    by (induction ns arbitrary: st) simp_all
  then have n: "node (mt_inodes ?st) ino = Some n" using assms(2) by (simp add: commit_stale_def)
  have "shadow V L ?st n = Some (tx_str L (inner (mt_doc ?st)) t, doc_frontiers V (mt_doc ?st))"
    using assms(4) by (simp add: shadow_def commit_all)
  from write_dirty [OF k n this assms(3), of later] obtain st1 where
    "fuse_write V L later ?st ino offset data = Some (st1, Ok (RWritten (of_nat (length data))))"
    "mt_doc st1 = mt_doc ?st" "map_of (mt_buffers st1) n \<noteq> None" by (auto simp: dirty_def)
  then show ?thesis by (simp add: mount_end_def handle_def split: prod.split)
qed

section \<open>A mount that was written to\<close>

lemma snap_merge:
  "set_content_at snap_vdoc ref_ct i n s f = (case ft_content ref_ct i n of None \<Rightarrow> (i, False) | Some t \<Rightarrow> (rt_set i t s, True))"
  by (simp add: set_content_at_def split: option.split)

lemma rtx_set: "rtx_ok i \<Longrightarrow> rtx_ok (rt_set i t s) \<and> tidy ref_ct (rt_set i t s) = tidy ref_ct i"
  using rtx.update_text [of i t s "rt_set i t s"] tidy_set [of i t s] by (simp add: rtx_ok_def)

interpretation snap_mounted: served_doc ref_ct rtx_ok snap_vdoc
proof (rule served_doc.intro)
  show "loro_tree ref_ct rtx_ok" by (rule rtx.loro_tree_axioms)
  show "served_doc_axioms ref_ct rtx_ok snap_vdoc"
  proof (rule served_doc_axioms.intro, goal_cases)
    case (1 i)
    then show ?case by simp
  next
    case (2 i n s f)
    then show ?case using rtx_set by (simp add: snap_merge split: option.split)
  next
    case (3 i a b t delta)
    then show ?case by (auto simp: ref_ct_def delta_bytes_def split: if_splits)
  qed
qed

lemma demo_mounted_rtx: "rtx_ok (inner (mt_doc demo_mounted))"
  by (rule rtx_okI [OF demo_mounted_doc(1)]) code_simp

lemma demo_open_reply: "fuse_lookup ref_ct demo_mounted 1 ''f'' = reply_node ref_ct REntry demo_mounted 0"
proof -
  have "os_name ''f'' = Some ''f''" "mount_children ref_ct demo_mounted 1 = Some [0]"
    "ft_name ref_ct (inner (mt_doc demo_mounted)) 0 = Some ''f''" by code_simp+
  then show ?thesis by (simp add: fuse_lookup_def mount_entry_of_def)
qed

lemma demo_open_frame:
  "mt_doc demo_open = mt_doc demo_mounted" "mt_buffers demo_open = []" "\<not> mt_revoked demo_open"
  "mt_inodes demo_open = fst (inode inodes_new 0)"
proof -
  obtain r where "reply_node ref_ct REntry demo_mounted 0 = (demo_open, r)"
    using demo_open_reply by (simp add: demo_open_def) (metis prod.collapse)
  note f = reply_node_frame [OF this]
  show "mt_doc demo_open = mt_doc demo_mounted" by (rule f)
  show "mt_buffers demo_open = []" "\<not> mt_revoked demo_open" using f by (simp_all add: demo_mounted_def mount_new_def)
  show "mt_inodes demo_open = fst (inode inodes_new 0)" using f(4) by (auto simp: demo_mounted_def mount_new_def)
qed

lemma demo_rooms: "room ref_ct demo_mounted" "room ref_ct demo_open"
proof -
  have c: "ft_roots ref_ct (inner (mt_doc demo_mounted)) = [0]" "ft_kind ref_ct (inner (mt_doc demo_mounted)) 0 = Some File"
    by code_simp+
  then show "room ref_ct demo_mounted"
    by (auto simp: room_def mount_children_def demo_mounted_def mount_new_def inodes_new_def node_def)
  show "room ref_ct demo_open"
    using c by (auto simp: room_def mount_children_def demo_open_frame node_def inode_def inodes_new_def Let_def
        split: if_splits)
qed

definition demo_written :: "(rtree, nat, unit) doc_mount" where
  "demo_written = demo_open\<lparr>mt_buffers := [(0, \<lparr>bf_bytes = ''hello'', bf_base = (), bf_last_write = 9\<rparr>)],
     mt_mtimes := (mt_mtimes demo_open)(0 \<mapsto> 9)\<rparr>"

lemma demo_text: "ft_content ref_ct (inner (mt_doc demo_mounted)) 0 = Some 1" "rt_str (inner (mt_doc demo_mounted)) 1 = []"
  by code_simp+

lemma demo_write: "fuse_write snap_vdoc ref_ct 9 demo_open 2 0 ''hello'' = Some (demo_written, Ok (RWritten 5))"
  using demo_text
  by (simp add: fuse_write_def wb_write_def wb_seeded_def denied_def touched_def demo_written_def demo_open_frame
      node_def inode_def inodes_new_def Let_def doc_frontiers_def resize_def)

lemma demo_write_run:
  "(run_step snap_vdoc ref_ct demo_reports (\<lambda>acc e. False) (\<lambda>i. rtx_ok i \<and> tidy ref_ct i) mem_ops ''p'')\<^sup>*\<^sup>*
     (run_new demo_mounted mem_new) (run_new demo_written mem_new)"
proof -
  let ?step = "run_step snap_vdoc ref_ct demo_reports (\<lambda>acc e. False) (\<lambda>i. rtx_ok i \<and> tidy ref_ct i) mem_ops ''p''"
  have step: "?step (run_new st mem_new) (run_new st' mem_new)"
    if "handle snap_vdoc ref_ct demo_reports (\<lambda>acc e. False) now st req = Some (st', r)" "room ref_ct st" for now st req st' r
    using run_served [where rn = "run_new st mem_new" and st = st'] that by (fastforce simp: run_new_def)
  have "handle snap_vdoc ref_ct demo_reports (\<lambda>acc e. False) 8 demo_mounted (Lookup 1 ''f'') =
      Some (demo_open, snd (fuse_lookup ref_ct demo_mounted 1 ''f''))"
    by (simp add: handle_def demo_open_def)
  from step [OF this demo_rooms(1)] have 1: "?step (run_new demo_mounted mem_new) (run_new demo_open mem_new)" .
  have "handle snap_vdoc ref_ct demo_reports (\<lambda>acc e. False) 9 demo_open (Write 2 0 ''hello'') = Some (demo_written, Ok (RWritten 5))"
    by (simp add: handle_def demo_write)
  from step [OF this demo_rooms(2)] have 2: "?step (run_new demo_open mem_new) (run_new demo_written mem_new)" .
  from 1 2 show ?thesis by auto
qed

theorem remount_shows_all_witness:
  "\<exists>rn d. mount_end snap_vdoc ref_ct demo_reports (\<lambda>acc e. False) mem_ops 10 [] (run_new demo_written mem_new) = Some (rn, [], Ok ()) \<and>
     load_state snap_vdoc mem_ops 5 (rn_disk rn) = Ok d \<and> rt_str (inner d) 1 = ''hello''"
proof -
  have new: "demo_mounted = mount_new (mt_doc demo_mounted) 1000 1000 7" by (simp add: demo_mounted_def mount_new_def)
  have run: "(run_step snap_vdoc ref_ct demo_reports (\<lambda>acc e. False) (\<lambda>i. rtx_ok i \<and> tidy ref_ct i) mem_ops ''p'')\<^sup>*\<^sup>*
     (run_new (mount_new (mt_doc demo_mounted) 1000 1000 7) mem_new) (run_new demo_written mem_new)"
    by (simp only: new [symmetric] demo_write_run)
  obtain rn r where e: "mount_end snap_vdoc ref_ct demo_reports (\<lambda>acc e. False) mem_ops 10 [] (run_new demo_written mem_new) = Some (rn, [], r)"
    and st: "rn_fs rn = commit_stale snap_vdoc ref_ct demo_reports 10 0 demo_written"
    and load: "r = Ok () \<Longrightarrow> \<exists>d. load_state snap_vdoc mem_ops 5 (rn_disk rn) = Ok d \<and> same_view ref_ct (inner (mt_doc (rn_fs rn))) (inner d)"
    using remount_shows_all [OF snap_mounted.served_doc_axioms stored.loro_stored_axioms mem.workspace_laws_axioms
        demo_mounted_rtx demo_mounted_doc(2) run, of 10 5]
    by (auto simp: run_new_def)
  have "ws_write_private mem_ops w p c = (fst (mem_write_file w p c), Ok ())" for w p c
    by (simp add: mem_write_private_def mem_write_file_def Let_def)
  with e have "r = Ok ()" by (auto simp: mount_end_def store_state_def doc_snapshot_def)
  moreover have "inner (mt_doc (rn_fs rn)) = rt_set (inner (mt_doc demo_mounted)) 1 (from_utf8_lossy ''hello'')"
    using demo_text(1)
    by (simp add: st commit_stale_def demo_written_def wb_commit_def wb_apply_def snap_merge demo_open_frame doc_commit_def)
  moreover have "from_utf8_lossy ''hello'' = ''hello''"
  proof (rule from_utf8_lossy_valid)
    show "valid_utf8 ''hello''" by code_simp
  qed
  ultimately show ?thesis using e load by (auto simp: same_view_def same_texts_def rt_set_def rt_str_def)
qed

theorem late_write_is_lost_witness:
  "\<exists>rn1 rn2. mount_end snap_vdoc ref_ct demo_reports (\<lambda>acc e. False) mem_ops 10 [] (run_new demo_written mem_new) = Some (rn1, [], Ok ()) \<and>
     mount_end snap_vdoc ref_ct demo_reports (\<lambda>acc e. False) mem_ops 10 [(11, Write 2 5 ''!'')] (run_new demo_written mem_new) =
       Some (rn2, [Ok (RWritten 1)], Ok ()) \<and> rn_disk rn2 = rn_disk rn1"
proof -
  have k: "\<not> mt_revoked (rn_fs (run_new demo_written mem_new))" "node (mt_inodes (rn_fs (run_new demo_written mem_new))) 2 = Some 0"
    by (simp_all add: run_new_def demo_written_def demo_open_frame node_def inode_def inodes_new_def Let_def)
  have "ft_content ref_ct (rt_set i t s) n = ft_content ref_ct i n" for i t s n
    by (simp add: ft_content_def rt_set_def rt_meta_def rt_get_def)
  then have "ft_content ref_ct (inner (mt_doc (commit_stale snap_vdoc ref_ct demo_reports 10 0 (rn_fs (run_new demo_written mem_new))))) 0 = Some 1"
    using demo_text(1)
    by (simp add: run_new_def commit_stale_def demo_written_def wb_commit_def wb_apply_def snap_merge demo_open_frame doc_commit_def)
  from late_write_is_lost [OF k _ this, of 5 "''!''" "\<lambda>acc e. False" mem_ops 11] obtain rn1 rn2 r where
    o: "mount_end snap_vdoc ref_ct demo_reports (\<lambda>acc e. False) mem_ops 10 [] (run_new demo_written mem_new) = Some (rn1, [], r)"
    "mount_end snap_vdoc ref_ct demo_reports (\<lambda>acc e. False) mem_ops 10 [(11, Write 2 5 ''!'')] (run_new demo_written mem_new) =
       Some (rn2, [Ok (RWritten 1)], r)" "rn_disk rn2 = rn_disk rn1" by auto
  have "ws_write_private mem_ops w p c = (fst (mem_write_file w p c), Ok ())" for w p c
    by (simp add: mem_write_private_def mem_write_file_def Let_def)
  with o(1) have "r = Ok ()" by (auto simp: mount_end_def store_state_def doc_snapshot_def)
  with o show ?thesis by blast
qed

end
