(* ===== verification/Mount_Replies.thy ===== *)
theory Mount_Replies
  imports Mount_Props
begin

text \<open>
  The replies of the mount: each has the type and the size its request asks for, and names only inodes the
  mount then knows.
\<close>

definition reply_typed :: "request \<Rightarrow> reply \<Rightarrow> bool" where
  "reply_typed req r \<longleftrightarrow>
     (case req of
        Lookup parent name \<Rightarrow> (\<exists>a. r = REntry a)
      | Getattr ino \<Rightarrow> (\<exists>a. r = RAttr a \<and> fa_ino a = ino)
      | Setattr ino sz \<Rightarrow> (\<exists>a. r = RAttr a \<and> fa_ino a = ino)
      | Readdir ino offset \<Rightarrow> (\<exists>es. r = RDir es)
      | Read ino offset sz \<Rightarrow> (\<exists>bs. r = RData bs \<and> length bs \<le> unat sz)
      | Write ino offset data \<Rightarrow> r = RWritten (of_nat (length data))
      | Create parent name \<Rightarrow> (\<exists>a. r = RCreated a)
      | Mkdir parent name \<Rightarrow> (\<exists>a. r = REntry a)
      | _ \<Rightarrow> r = ROk)"

definition reply_inos :: "reply \<Rightarrow> 64 word set" where
  "reply_inos r =
     (case r of REntry a \<Rightarrow> {fa_ino a} | RAttr a \<Rightarrow> {fa_ino a} | RCreated a \<Rightarrow> {fa_ino a} | RDir es \<Rightarrow> de_ino ` set es | _ \<Rightarrow> {})"

definition known_inos :: "'n inodes \<Rightarrow> 64 word set" where
  "known_inos s = insert ROOT {ino. node s ino \<noteq> None}"

lemma attr_of_known: "attr_of L st ino = Some a \<Longrightarrow> fa_ino a = ino \<and> ino \<in> known_inos (mt_inodes st)"
  by (auto simp: attr_of_def attr_def known_inos_def Let_def split: if_splits option.splits node_kind.splits)

lemma reply_attr_known:
  "reply_attr L st ino = Ok r \<Longrightarrow> \<exists>a. r = RAttr a \<and> fa_ino a = ino \<and> ino \<in> known_inos (mt_inodes st)"
  by (auto simp: reply_attr_def dest: attr_of_known split: option.splits)

lemma reply_node_known:
  "reply_node L mk st n = (st', Ok r) \<Longrightarrow> \<exists>a. r = mk a \<and> fa_ino a \<in> known_inos (mt_inodes st')"
  by (auto simp: reply_node_def Let_def dest: attr_of_known split: prod.splits option.splits)

lemma read_bytes_fits: "read_bytes L d t offset sz = Some bs \<Longrightarrow> length bs \<le> sz"
proof -
  have "length r \<le> sz" if "read_widened L d t offset (min len (offset + sz)) ws = Some (Some r)" for len ws r
    using that by (auto simp: read_widened_def Let_def split: prod.splits option.splits if_splits)
  then show "read_bytes L d t offset sz = Some bs \<Longrightarrow> length bs \<le> sz"
    using find_map_Some_in by (fastforce simp: read_bytes_def Let_def split: if_splits option.splits)
qed

lemma wb_read_fits: "wb_read buffers n offset sz = Some bs \<Longrightarrow> length bs \<le> unat sz"
  by (auto simp: wb_read_def saturating_add_def Let_def split: option.splits)

lemma add_entries_subset: "set (add_entries full acc es) \<subseteq> set acc \<union> set es"
proof (induction es arbitrary: acc)
  case (Cons e es)
  from Cons.IH [of "acc @ [e]"] show ?case by auto
qed simp

lemma dir_entries_known:
  assumes "inodes_ok s" "unat (next_ino s) + length ns < 2 ^ 64" "dir_entries L d ns s = (s', es)" "(ino, kind, name) \<in> set es"
  shows "node s' ino \<noteq> None"
proof -
  have eq: "map (\<lambda>(i, kind, name). (by_ino s' i, kind, name)) es = List.map_filter (\<lambda>n. map_option
      (\<lambda>name. (Some n, if ft_kind L d n = Some Dir then Directory else RegularFile, name)) (named_node L d n)) ns"
    using dir_entries_ok [OF assms(1,2), of L d] unfolding assms(3) by simp
  have "(by_ino s' ino, kind, name) \<in> set (map (\<lambda>(i, kind, name). (by_ino s' i, kind, name)) es)"
    using assms(4) by force
  then show ?thesis unfolding eq by (auto simp: in_map_filter node_def dest: sym)
qed

lemma readdir_known:
  assumes "mount_ok L ok st" "room L st" "fuse_readdir L full st ino offset = (st', Ok r)"
  shows "\<exists>es. r = RDir es \<and> de_ino ` set es \<subseteq> known_inos (mt_inodes st')"
proof -
  obtain ns where ns: "mount_children L st ino = Some ns"
    using assms(3) by (auto simp: fuse_readdir_def split: option.splits)
  obtain s es where e: "dir_entries L (inner (mt_doc st)) ns (mt_inodes st) = (s, es)" by fastforce
  have ok: "inodes_ok (mt_inodes st)" "unat (next_ino (mt_inodes st)) + length ns < 2 ^ 64"
    using assms(1,2) ns by (auto simp: mount_ok_def room_def)
  have grow: "inodes_grow (mt_inodes st) s" using dir_entries_ok [OF ok, of L "inner (mt_doc st)"] e by simp
  have "ino \<in> known_inos s"
    using ns grow by (auto simp: mount_children_def known_inos_def node_def inodes_grow_def map_le_def dom_def
        split: if_splits option.splits)
  then have all: "i \<in> known_inos s" if "(i, kind, name) \<in> set ([(ino, Directory, ''.''), (ROOT, Directory, ''..'')] @ es)" for i kind name
    using that dir_entries_known [OF ok e] by (auto simp: known_inos_def)
  let ?numbered = "map (\<lambda>(i, ino, kind, name). \<lparr>de_ino = ino, de_offset = of_nat (i + 1), de_kind = kind, de_name = name\<rparr>)
      (List.enumerate 0 ([(ino, Directory, ''.''), (ROOT, Directory, ''..'')] @ es))"
  have "de_ino x \<in> known_inos s" if x: "x \<in> set ?numbered" for x
  proof -
    let ?X = "[(ino, Directory, ''.''), (ROOT, Directory, ''..'')] @ es"
    obtain q where q: "q \<in> set (List.enumerate 0 ?X)"
      "x = (\<lambda>(i, ino, kind, name). \<lparr>de_ino = ino, de_offset = of_nat (i + 1), de_kind = kind, de_name = name\<rparr>) q"
      using x unfolding set_map by blast
    obtain k i kind name where k: "q = (k, i, kind, name)" by (rule prod_cases4)
    have "snd q \<in> set (map snd (List.enumerate 0 ?X))" unfolding set_map by (rule imageI [OF q(1)])
    then have "snd q \<in> set ?X" unfolding map_snd_enumerate .
    moreover have "de_ino x = i" using q(2) k by simp
    ultimately show ?thesis using all [of i kind name] k by simp
  qed
  moreover have "set (add_entries full [] (drop (unat offset) ?numbered)) \<subseteq> set ?numbered"
    using add_entries_subset [of full "[]" "drop (unat offset) ?numbered"] set_drop_subset [of "unat offset" ?numbered]
    unfolding list.set(1) by blast
  moreover have "r = RDir (add_entries full [] (drop (unat offset) ?numbered))" "mt_inodes st' = s"
    using assms(3) ns e by (auto simp: fuse_readdir_def Let_def)
  ultimately show ?thesis by blast
qed

lemma made_known:
  assumes "(case made of None \<Rightarrow> None | Some (Inl e) \<Rightarrow> Some (st, Err (errno_of e))
     | Some (Inr (i, n)) \<Rightarrow> Some (reply_node L mk (g i) n)) = Some (st', Ok r)"
  shows "\<exists>a. r = mk a \<and> fa_ino a \<in> known_inos (mt_inodes st')"
  using assms by (auto dest: reply_node_known split: option.splits sum.splits prod.splits)

lemma handle_typed:
  assumes "mount_ok L ok st" "room L st" "handle V L E full now st req = Some (st', Ok r)"
  shows "reply_typed req r \<and> reply_inos r \<subseteq> known_inos (mt_inodes st')"
proof (cases req)
  case (Lookup parent name)
  with assms(3) show ?thesis
    by (auto simp: handle_def fuse_lookup_def mount_entry_of_def reply_typed_def reply_inos_def dest!: reply_node_known
        split: option.splits)
next
  case (Getattr ino)
  with assms(3) show ?thesis
    by (auto simp: handle_def fuse_getattr_def reply_typed_def reply_inos_def dest!: reply_attr_known)
next
  case (Setattr ino sz)
  with assms(3) show ?thesis
    by (cases sz) (auto simp: handle_def fuse_setattr_def Let_def reply_typed_def reply_inos_def dest!: reply_attr_known
        split: if_splits option.splits prod.splits sum.splits)
next
  case (Readdir ino offset)
  with assms(3) readdir_known [OF assms(1,2), of full ino offset st' r] show ?thesis
    by (auto simp: handle_def reply_typed_def reply_inos_def)
next
  case (Read ino offset sz)
  have "unat (ucast sz :: 64 word) = unat sz"
    using unsigned_less [of sz, where ?'a = nat] by (simp add: unsigned_ucast_eq take_bit_nat_eq_self)
  with Read assms(3) show ?thesis
    by (auto simp: handle_def fuse_read_def reply_typed_def reply_inos_def dest!: wb_read_fits read_bytes_fits
        split: option.splits)
next
  case (Write ino offset data)
  with assms(3) show ?thesis
    by (auto simp: handle_def fuse_write_def wb_write_def Let_def reply_typed_def reply_inos_def
        split: if_splits option.splits sum.splits)
next
  case (Create parent name)
  with assms(3) show ?thesis
    by (auto simp: handle_def fuse_create_def reply_typed_def reply_inos_def dest!: reply_node_known
        split: if_splits option.splits sum.splits)
next
  case (Mkdir parent name)
  with assms(3) show ?thesis
    by (auto simp: handle_def fuse_mkdir_def mount_entry_of_def reply_typed_def reply_inos_def dest!: reply_node_known
        split: if_splits option.splits sum.splits)
qed (use assms(3) in \<open>auto simp: handle_def fuse_flush_def fuse_release_def fuse_fsync_def fuse_unlink_def fuse_rmdir_def
      fuse_rename_def Let_def reply_typed_def reply_inos_def split: if_splits option.splits sum.splits\<close>)

text \<open>
  C32. Replies are well-typed.  At any point of a run of the mount a request that is not refused with an errno is
  answered with the kind of reply the kernel waits for: attributes of the inode asked about, at most as many
  bytes as it reads, as many bytes written as it sent; and every inode number in the reply, of the node itself
  or of an entry of the listing, is one the mount then resolves.\<close>

theorem replies_are_typed:
  assumes "served_doc L dwf V" "dwf (inner d)" "tidy L (inner d)"
    and "(mount_step V L E full (\<lambda>i. dwf i \<and> tidy L i))\<^sup>*\<^sup>* (mount_new d uid gid epoch) st" "room L st"
    and "handle V L E full now st req = Some (st', Ok r)"
  shows "reply_typed req r \<and> reply_inos r \<subseteq> known_inos (mt_inodes st')"
proof -
  have "mount_ok L dwf st"
    using served_doc.run_ok [OF assms(1,4) served_doc.new_ok [OF assms(1-3)]] by simp
  from handle_typed [OF this assms(5,6)] show ?thesis .
qed

theorem replies_are_typed_witness:
  "\<exists>st' r. handle one_text ref_ct demo_reports (\<lambda>acc e. False) 9 demo_mounted (Lookup 1 ''f'') = Some (st', Ok r) \<and>
     reply_typed (Lookup 1 ''f'') r \<and> reply_inos r \<subseteq> known_inos (mt_inodes st')"
proof -
  have new: "demo_mounted = mount_new (mt_doc demo_mounted) 1000 1000 7" by (simp add: demo_mounted_def mount_new_def)
  have "ft_roots ref_ct (inner (mt_doc demo_mounted)) = [0]" by code_simp
  then have room: "room ref_ct demo_mounted"
    by (auto simp: room_def mount_children_def demo_mounted_def mount_new_def inodes_new_def node_def)
  have "is_ok (snd (fuse_lookup ref_ct demo_mounted 1 ''f''))" by code_simp
  then obtain st' r where h: "handle one_text ref_ct demo_reports (\<lambda>acc e. False) 9 demo_mounted (Lookup 1 ''f'') = Some (st', Ok r)"
    by (cases "fuse_lookup ref_ct demo_mounted 1 ''f''") (auto simp: handle_def is_ok_iff)
  have "(mount_step one_text ref_ct demo_reports (\<lambda>acc e. False) (\<lambda>i. rt_ok i \<and> tidy ref_ct i))\<^sup>*\<^sup>*
      (mount_new (mt_doc demo_mounted) 1000 1000 7) demo_mounted"
    by (simp only: new [symmetric] rtranclp.rtrancl_refl)
  from replies_are_typed [OF mounted.served_doc_axioms demo_mounted_doc this room h] h show ?thesis by blast
qed

end
