(* ===== verification/Oneshot.thy ===== *)
theory Oneshot
  imports Net_Frames Sync_Pair
begin

text \<open>
  The one-shot driver over a connection: \<open>drive\<close> of \<open>crates/okayeg-net/src/lib.rs\<close> on the bytes the peer sends
  until it ends its stream, and \<open>Node::sync_with\<close> of \<open>node.rs\<close>, which dials and then drives.  What is sent is
  collected; writing to the stream does not fail.
\<close>

section \<open>The driver\<close>

definition framed_then :: "bytes \<Rightarrow> 'd \<times> bytes \<times> (net_error + unit) \<Rightarrow> 'd \<times> bytes \<times> (net_error + unit)" where
  "framed_then b = (\<lambda>(d, sent, r). (d, b @ sent, r))"

function drive_loop :: "('d, 'v, 'f) vdoc \<Rightarrow> sync \<Rightarrow> 'd \<Rightarrow> bytes \<Rightarrow> 'd \<times> bytes \<times> (net_error + unit)" where
  "drive_loop V y d s =
     (case read_frame s of
        Inl e \<Rightarrow> (d, [], Err e)
      | Inr (frame, rest) \<Rightarrow>
          (case decode_frame frame of
             Inl e \<Rightarrow> (d, [], Err e)
           | Inr (Ephemeral _) \<Rightarrow> drive_loop V y d rest
           | Inr m \<Rightarrow>
               (case sync_on V d y m of
                  (d', y', Inl e) \<Rightarrow> (d', [], Err (Protocol e))
                | (d', y', Inr (Send out)) \<Rightarrow>
                    (case write_frame (msg_encode out) of
                       Inl e \<Rightarrow> (d', [], Err e)
                     | Inr b \<Rightarrow> framed_then b (drive_loop V y' d' rest))
                | (d', y', Inr Done) \<Rightarrow> (d', [], Ok ()))))"
  by pat_completeness auto
termination by (relation "measure (\<lambda>(V, y, d, s). length s)") (auto dest: read_frame_shorter)

declare drive_loop.simps [simp del]

definition drive :: "('d, 'v, 'f) vdoc \<Rightarrow> 'd \<Rightarrow> bytes \<Rightarrow> perms \<Rightarrow> 'd \<times> bytes \<times> (net_error + unit)" where
  "drive V d recv perms =
     (case write_frame (msg_encode (sync_start V d)) of
        Inl e \<Rightarrow> (d, [], Err e)
      | Inr b \<Rightarrow> framed_then b (drive_loop V (sync_gated perms) d recv))"

text \<open>What a dial gives: an error, or all that the peer will send.\<close>

definition sync_with ::
    "('d, 'v, 'f) vdoc \<Rightarrow> ('e \<Rightarrow> net_error + bytes) \<Rightarrow> 'e \<Rightarrow> 'd \<Rightarrow> 'd \<times> (net_error + unit)" where
  "sync_with V connect peer d =
     (case connect peer of
        Inl e \<Rightarrow> (d, Err e)
      | Inr recv \<Rightarrow> (case drive V d recv perms_all of (d', sent, r) \<Rightarrow> (d', r)))"

section \<open>The driver takes the turns of a side\<close>

definition drives :: "('d, 'v, 'f) vdoc \<Rightarrow> 'd side \<times> msg list \<Rightarrow> 'd side \<times> msg list \<Rightarrow> bool" where
  "drives V = (\<lambda>(a, out) (a', out'). \<exists>ms. drive_step V a = Some (a', ms) \<and> out' = out @ ms)"

lemma framed_Cons: "write_frame b = Ok w \<Longrightarrow> framed (b # bs) = w @ framed bs"
  by (simp add: framed_def)

lemma read_frames_step: "read_frame s = Ok (b, r) \<Longrightarrow> fst (read_frames s) = b # fst (read_frames r)"
  by (subst read_frames.simps) (simp split: prod.splits)

lemma sync_on_not_done: "sync_on V d y m = (d', y', Ok out) \<Longrightarrow> sy_state y \<noteq> SyncDone"
  by (auto simp: sync_on_def split: msg.splits)

lemma sync_on_state:
  "sync_on V d y m = (d', y', Ok (Send out)) \<Longrightarrow> sy_state y' = AwaitUpdates"
  "sync_on V d y m = (d', y', Ok Done) \<Longrightarrow> sy_state y' = SyncDone"
  by (auto simp: sync_on_def on_have_def on_updates_def split: sync_state.splits msg.splits sum.splits prod.splits if_splits)

lemma drive_loop_framed:
  assumes "length (msg_encode m) \<le> MAX_FRAME"
  shows "drive_loop V y d (framed (msg_encode m # ms)) =
     (case m of
        Ephemeral _ \<Rightarrow> drive_loop V y d (framed ms)
      | _ \<Rightarrow>
          (case sync_on V d y m of
             (d', y', Inl e) \<Rightarrow> (d', [], Err (Protocol e))
           | (d', y', Inr (Send out)) \<Rightarrow>
               (case write_frame (msg_encode out) of
                  Inl e \<Rightarrow> (d', [], Err e)
                | Inr b \<Rightarrow> framed_then b (drive_loop V y' d' (framed ms)))
           | (d', y', Inr Done) \<Rightarrow> (d', [], Ok ())))"
proof -
  obtain w where w: "write_frame (msg_encode m) = Ok w" using write_frame_ok [OF assms] by blast
  have "read_frame (framed (msg_encode m # ms)) = Ok (msg_encode m, framed ms)"
    using read_write_frame [OF w] assms by (simp add: framed_Cons [OF w])
  then show ?thesis by (subst drive_loop.simps) (simp split: msg.split)
qed

text \<open>
  The loop on bytes takes the turns of a side whose inbox holds the decoded frames, so what is proved of two
  sides in any interleaving holds of two drivers: when it returns, that side is done, holds the same document
  and has sent the messages framed here.
\<close>

lemma drive_loop_turns:
  assumes "drive_loop V y d s = (d', sent, Ok ())"
  shows "\<exists>ins outs y'. (\<forall>out. (drives V)\<^sup>*\<^sup>*
            (\<lparr>sd_doc = d, sd_sync = y, sd_inbox = ins, sd_error = None\<rparr>, out)
            (\<lparr>sd_doc = d', sd_sync = y', sd_inbox = [], sd_error = None\<rparr>, out @ outs)) \<and>
         sy_state y \<noteq> SyncDone \<and> sy_state y' = SyncDone \<and> sent = framed (map msg_encode outs) \<and>
         prefix (map Ok ins) (map decode_frame (fst (read_frames s)))"
  using assms
proof (induction "length s" arbitrary: s y d sent rule: less_induct)
  case less
  obtain frame rest where f: "read_frame s = Ok (frame, rest)"
    using less.prems by (subst (asm) drive_loop.simps) (auto split: sum.splits)
  obtain m where m: "decode_frame frame = Ok m"
    using less.prems f by (subst (asm) drive_loop.simps) (auto split: sum.splits)
  note frames = read_frames_step [OF f] and IH = less.hyps [OF read_frame_shorter [OF f]]
  show ?case
  proof (cases "\<exists>b. m = Ephemeral b")
    case True
    then obtain b where b: "m = Ephemeral b" by blast
    then have "drive_loop V y d rest = (d', sent, Ok ())"
      using less.prems f m by (subst (asm) drive_loop.simps) simp
    from IH [OF this] obtain ins outs y' where
      ih: "\<forall>out. (drives V)\<^sup>*\<^sup>* (\<lparr>sd_doc = d, sd_sync = y, sd_inbox = ins, sd_error = None\<rparr>, out)
            (\<lparr>sd_doc = d', sd_sync = y', sd_inbox = [], sd_error = None\<rparr>, out @ outs)"
      "sy_state y \<noteq> SyncDone" "sy_state y' = SyncDone" "sent = framed (map msg_encode outs)"
      "prefix (map Ok ins) (map decode_frame (fst (read_frames rest)))" by blast
    have "drives V (\<lparr>sd_doc = d, sd_sync = y, sd_inbox = m # ins, sd_error = None\<rparr>, out)
        (\<lparr>sd_doc = d, sd_sync = y, sd_inbox = ins, sd_error = None\<rparr>, out)" for out
      using ih(2) b by (simp add: drives_def drive_step_def)
    with ih m show ?thesis unfolding frames
      by (intro exI [of _ "m # ins"] exI [of _ outs] exI [of _ y']) (auto intro: converse_rtranclp_into_rtranclp)
  next
    case False
    obtain d1 y1 r where on: "sync_on V d y m = (d1, y1, r)" by (metis prod_cases3)
    have loop: "drive_loop V y d s =
        (case r of Inl e \<Rightarrow> (d1, [], Err (Protocol e))
         | Inr (Send out) \<Rightarrow> (case write_frame (msg_encode out) of Inl e \<Rightarrow> (d1, [], Err e)
              | Inr b \<Rightarrow> framed_then b (drive_loop V y1 d1 rest))
         | Inr Done \<Rightarrow> (d1, [], Ok ()))"
      using False f m on by (subst drive_loop.simps) (cases m; auto split: sum.split step.split)
    have turn: "drives V (\<lparr>sd_doc = d, sd_sync = y, sd_inbox = m # ins, sd_error = None\<rparr>, out)
        (\<lparr>sd_doc = d1, sd_sync = y1, sd_inbox = ins, sd_error = None\<rparr>, out @ (case st of Send o1 \<Rightarrow> [o1] | Done \<Rightarrow> []))"
      if "r = Ok st" for st ins out
      using sync_on_not_done [of V d y m d1 y1] on that False
      by (cases m; cases st) (simp_all add: drives_def drive_step_def)
    from less.prems loop consider "r = Ok Done" "d' = d1" "sent = []"
      | out b sent' where "r = Ok (Send out)" "write_frame (msg_encode out) = Ok b"
          "drive_loop V y1 d1 rest = (d', sent', Ok ())" "sent = b @ sent'"
      by (auto simp: framed_then_def split: sum.splits step.splits prod.splits)
    then show ?thesis
    proof cases
      case 1
      have "(drives V)\<^sup>*\<^sup>* (\<lparr>sd_doc = d, sd_sync = y, sd_inbox = [m], sd_error = None\<rparr>, out)
            (\<lparr>sd_doc = d', sd_sync = y1, sd_inbox = [], sd_error = None\<rparr>, out @ [])" for out
        using turn [OF 1(1), of "[]" out] 1(2) by auto
      with 1 on sync_on_not_done [of V d y m d1 y1] sync_on_state(2) [of V d y m d1 y1] m show ?thesis unfolding frames
        by (intro exI [of _ "[m]"] exI [of _ "[]"] exI [of _ y1]) (simp add: framed_def)
    next
      case (2 out b sent')
      obtain ins outs y' where
        ih: "\<forall>out. (drives V)\<^sup>*\<^sup>* (\<lparr>sd_doc = d1, sd_sync = y1, sd_inbox = ins, sd_error = None\<rparr>, out)
              (\<lparr>sd_doc = d', sd_sync = y', sd_inbox = [], sd_error = None\<rparr>, out @ outs)"
        "sy_state y' = SyncDone" "sent' = framed (map msg_encode outs)"
        "prefix (map Ok ins) (map decode_frame (fst (read_frames rest)))"
        using IH [OF 2(3)] by blast
      have "(drives V)\<^sup>*\<^sup>* (\<lparr>sd_doc = d, sd_sync = y, sd_inbox = m # ins, sd_error = None\<rparr>, out0)
            (\<lparr>sd_doc = d', sd_sync = y', sd_inbox = [], sd_error = None\<rparr>, out0 @ out # outs)" for out0
        using converse_rtranclp_into_rtranclp [of "drives V", OF turn [OF 2(1), of ins out0]] ih(1) by fastforce
      with 2 ih on sync_on_not_done [of V d y m d1 y1] m show ?thesis unfolding frames
        by (intro exI [of _ "m # ins"] exI [of _ "out # outs"] exI [of _ y']) (simp add: framed_Cons)
    qed
  qed
qed

lemma drive_turns:
  assumes "drive V d recv p = (d', sent, Ok ())"
  shows "\<exists>ins outs y'. (drives V)\<^sup>*\<^sup>*
            (\<lparr>sd_doc = d, sd_sync = sync_gated p, sd_inbox = ins, sd_error = None\<rparr>, [])
            (\<lparr>sd_doc = d', sd_sync = y', sd_inbox = [], sd_error = None\<rparr>, outs) \<and>
         sy_state y' = SyncDone \<and> sent = framed (map msg_encode (sync_start V d # outs)) \<and>
         prefix (map Ok ins) (map decode_frame (fst (read_frames recv)))"
proof -
  obtain b sent' where b: "write_frame (msg_encode (sync_start V d)) = Ok b" "sent = b @ sent'"
    and l: "drive_loop V (sync_gated p) d recv = (d', sent', Ok ())"
    using assms by (auto simp: drive_def framed_then_def split: sum.splits prod.splits)
  from drive_loop_turns [OF l] obtain ins outs y' where
    t: "\<forall>out. (drives V)\<^sup>*\<^sup>* (\<lparr>sd_doc = d, sd_sync = sync_gated p, sd_inbox = ins, sd_error = None\<rparr>, out)
            (\<lparr>sd_doc = d', sd_sync = y', sd_inbox = [], sd_error = None\<rparr>, out @ outs)"
    "sy_state y' = SyncDone" "sent' = framed (map msg_encode outs)"
    "prefix (map Ok ins) (map decode_frame (fst (read_frames recv)))" by blast
  from t(1) have "(drives V)\<^sup>*\<^sup>* (\<lparr>sd_doc = d, sd_sync = sync_gated p, sd_inbox = ins, sd_error = None\<rparr>, [])
            (\<lparr>sd_doc = d', sd_sync = y', sd_inbox = [], sd_error = None\<rparr>, outs)" by (metis append_Nil)
  moreover have "sent = framed (map msg_encode (sync_start V d # outs))"
    using b(2) t(3) framed_Cons [OF b(1)] by simp
  ultimately show ?thesis using t(2,4) by blast
qed

end
