(* ===== verification/Commands.thy ===== *)
theory Commands
  imports Host Oneshot
begin

text \<open>
  The commands of \<open>crates/eg/src/net.rs\<close> from their first line: \<open>pull\<close> to its end, \<open>serve\<close> and \<open>join\<close> up to the
  point where they wait for events.  The base directory is given in canonical form.  \<open>bind\<close> is what binding a
  node with a secret gives: an error, or the node's way to dial.  \<open>None\<close> is a panic, or a walk that does not
  end.
\<close>

section \<open>Pull\<close>

definition pull_dialing :: "string \<Rightarrow> nat \<Rightarrow> string" where
  "pull_dialing who timeout = ''eg pull: dialing '' @ who @ '' (up to '' @ dec timeout @ ''s)...''"

definition pull_done :: "string \<Rightarrow> nat \<Rightarrow> string \<Rightarrow> string" where
  "pull_done who files dir = ''eg pull: synced with '' @ who @ '', wrote '' @ dec files @ '' file(s) to '' @ dir"

text \<open>Once the peer's id is parsed; \<open>connect\<close> is the bound node dialing within the timeout.\<close>

definition pull_from ::
    "('d, 'v, 'f) vdoc \<Rightarrow> ('d, 'n, 't, 'm) loro_ct \<Rightarrow> 'w workspace \<Rightarrow> ('b, 'g) gitignore \<Rightarrow> nat \<Rightarrow> ('e \<Rightarrow> string)
       \<Rightarrow> (net_error + (nat \<Rightarrow> 'e \<Rightarrow> net_error + bytes)) \<Rightarrow> 64 word \<Rightarrow> string \<Rightarrow> nat \<Rightarrow> 'e \<Rightarrow> 'w
       \<Rightarrow> ('w \<times> string list \<times> (io_error + unit)) option" where
  "pull_from V L W G fuel show bound me dir timeout who w =
     (case open_or_clone V W me w of
        Inl e \<Rightarrow> Some (w, [], Err e)
      | Inr d \<Rightarrow>
          (case seed V L W G w d of
             None \<Rightarrow> None
           | Some (Inl e) \<Rightarrow> Some (w, [], Err e)
           | Some (Inr (bases, dirs)) \<Rightarrow>
               (case bound of
                  Inl e \<Rightarrow> Some (w, [], Err (to_io (net_error_display e)))
                | Inr connect \<Rightarrow>
                    (let out = [pull_dialing (show who) timeout] in
                     case sync_with V (connect timeout) who (inner d) of
                       (d', Inl e) \<Rightarrow>
                         (case report_sync_error show ''eg pull'' who e of (ls, e') \<Rightarrow> Some (w, out @ ls, Err e'))
                     | (d', Inr _) \<Rightarrow>
                         (case export_and_prune V L W G fuel (d\<lparr>inner := d'\<rparr>) w bases dirs of
                            None \<Rightarrow> None
                          | Some (w1, Inl e) \<Rightarrow> Some (w1, out, Err e)
                          | Some (w1, Inr files) \<Rightarrow> Some (w1, out @ [pull_done (show who) files dir], Ok ()))))))"

definition pull_command ::
    "('d, 'v, 'f) vdoc \<Rightarrow> ('d, 'n, 't, 'm) loro_ct \<Rightarrow> 'x machine \<Rightarrow> 'w workspace \<Rightarrow> ('b, 'g) gitignore \<Rightarrow> nat
       \<Rightarrow> 'e trust_codec \<Rightarrow> (string \<Rightarrow> string + ttable) \<Rightarrow> (bytes \<Rightarrow> string)
       \<Rightarrow> (bytes \<Rightarrow> net_error + (nat \<Rightarrow> 'e \<Rightarrow> net_error + bytes)) \<Rightarrow> bytes \<Rightarrow> 64 word \<Rightarrow> string \<Rightarrow> string \<Rightarrow> nat
       \<Rightarrow> string option \<Rightarrow> 'x \<Rightarrow> 'w \<Rightarrow> ('x \<times> 'w \<times> string list \<times> (io_error + unit)) option" where
  "pull_command V L M W G fuel K toml utf8_err bind fresh me dir peer timeout key m w =
     (case open_repo W w of
        (w1, Inl e) \<Rightarrow> Some (m, w1, [], Err e)
      | (w1, Inr _) \<Rightarrow>
          (case effective_for M W toml utf8_err fresh m w1 key of
             (m1, Inl e) \<Rightarrow> Some (m1, w1, [], Err e)
           | (m1, Inr (eff, sec)) \<Rightarrow>
               (case ep_parse K peer of
                  Inl e \<Rightarrow> Some (m1, w1, [], Err (to_io e))
                | Inr who \<Rightarrow>
                    map_option (Pair m1) (pull_from V L W G fuel (ep_show K) (bind sec) me dir timeout who w1))))"

section \<open>Serve and join\<close>

text \<open>What a command that stays holds when it starts to wait: its document and what disk agreed on.\<close>

record ('d, 'n, 'f) hosting =
  hs_effective :: effective
  hs_doc :: "'d doc"
  hs_bases :: "('n, 'f) file_bases"
  hs_dirs :: export_dirs

text \<open>The start of \<open>spawn_watch_and_export\<close>.\<close>

definition watch_and_export ::
    "('d, 'v, 'f) vdoc \<Rightarrow> ('d, 'n, 't, 'm) loro_ct \<Rightarrow> 'w workspace \<Rightarrow> ('b, 'g) gitignore \<Rightarrow> effective \<Rightarrow> 'w \<Rightarrow> 'd doc
       \<Rightarrow> (io_error + ('d, 'n, 'f) hosting) option" where
  "watch_and_export V L W G eff w d =
     map_option (\<lambda>r. case r of
         Inl e \<Rightarrow> Err e
       | Inr (bases, dirs) \<Rightarrow> Ok \<lparr>hs_effective = eff, hs_doc = d, hs_bases = bases, hs_dirs = dirs\<rparr>)
       (seed V L W G w d)"

definition serve_start ::
    "('d, 'v, 'f) vdoc \<Rightarrow> ('d, 'n, 't, 'm) loro_ct \<Rightarrow> 'x machine \<Rightarrow> 'w workspace \<Rightarrow> ('b, 'g) gitignore \<Rightarrow> nat
       \<Rightarrow> (string \<Rightarrow> string + ttable) \<Rightarrow> (bytes \<Rightarrow> string) \<Rightarrow> (bytes \<Rightarrow> net_error + 'k) \<Rightarrow> bytes \<Rightarrow> 64 word
       \<Rightarrow> string option \<Rightarrow> 'x \<Rightarrow> 'w \<Rightarrow> ('x \<times> 'w \<times> (io_error + ('d, 'n, 'f) hosting)) option" where
  "serve_start V L M W G fuel toml utf8_err bind fresh me key m w =
     (case open_repo W w of
        (w1, Inl e) \<Rightarrow> Some (m, w1, Err e)
      | (w1, Inr _) \<Rightarrow>
          (case effective_for M W toml utf8_err fresh m w1 key of
             (m1, Inl e) \<Rightarrow> Some (m1, w1, Err e)
           | (m1, Inr (eff, sec)) \<Rightarrow>
               (case open_or_seed V L W G fuel me w1 of
                  None \<Rightarrow> None
                | Some (Inl e) \<Rightarrow> Some (m1, w1, Err e)
                | Some (Inr d) \<Rightarrow>
                    (case store V L W G fuel d w1 of
                       None \<Rightarrow> None
                     | Some (w2, Inl e) \<Rightarrow> Some (m1, w2, Err e)
                     | Some (w2, Inr plan) \<Rightarrow>
                         (case bind sec of
                            Inl e \<Rightarrow> Some (m1, w2, Err (to_io (net_error_display e)))
                          | Inr node \<Rightarrow>
                              map_option (\<lambda>r. (m1, w2, r)) (watch_and_export V L W G eff w2 d))))))"

definition join_start ::
    "('d, 'v, 'f) vdoc \<Rightarrow> ('d, 'n, 't, 'm) loro_ct \<Rightarrow> 'x machine \<Rightarrow> 'w workspace \<Rightarrow> ('b, 'g) gitignore
       \<Rightarrow> 'e trust_codec \<Rightarrow> (string \<Rightarrow> string + ttable) \<Rightarrow> (bytes \<Rightarrow> string) \<Rightarrow> (bytes \<Rightarrow> net_error + 'k) \<Rightarrow> bytes
       \<Rightarrow> 64 word \<Rightarrow> string \<Rightarrow> string option \<Rightarrow> 'x \<Rightarrow> 'w \<Rightarrow> ('x \<times> 'w \<times> (io_error + 'e \<times> ('d, 'n, 'f) hosting)) option" where
  "join_start V L M W G K toml utf8_err bind fresh me peer key m w =
     (case open_repo W w of
        (w1, Inl e) \<Rightarrow> Some (m, w1, Err e)
      | (w1, Inr _) \<Rightarrow>
          (case effective_for M W toml utf8_err fresh m w1 key of
             (m1, Inl e) \<Rightarrow> Some (m1, w1, Err e)
           | (m1, Inr (eff, sec)) \<Rightarrow>
               (case ep_parse K peer of
                  Inl e \<Rightarrow> Some (m1, w1, Err (to_io e))
                | Inr who \<Rightarrow>
                    (case open_or_clone V W me w1 of
                       Inl e \<Rightarrow> Some (m1, w1, Err e)
                     | Inr d \<Rightarrow>
                         (case bind sec of
                            Inl e \<Rightarrow> Some (m1, w1, Err (to_io (net_error_display e)))
                          | Inr node \<Rightarrow>
                              map_option (\<lambda>r. (m1, w1, map_sum (\<lambda>e. e) (Pair who) r))
                                (watch_and_export V L W G eff w1 d))))))"

end
