(* ===== verification/Commands_Props.thy ===== *)
theory Commands_Props
  imports Commands Snapshot_Props Watch_Prune
begin

text \<open>
  What the commands leave in the directory: \<open>pull\<close> settles it on the document it ends with, and \<open>serve\<close> on the
  document it finds, whatever was edited on disk while no command ran.
\<close>

section \<open>What seeding pins\<close>

text \<open>The nodes the loop of \<open>seed\<close> meets: at a place, below directories that are not ignored.\<close>

definition seen :: "('d, 'n, 't, 'm) loro_ct \<Rightarrow> ('b, 'g) gitignore \<Rightarrow> 'd \<Rightarrow> 'g \<Rightarrow> 'n \<times> string \<times> path \<Rightarrow> bool" where
  "seen L G d ig = (\<lambda>(n, name, parent).
     (\<exists>q. site L d q parent \<and> n \<in> set (kids L d q)) \<and> ft_name L d n = Some name \<and>
     (if parent = [] then name \<noteq> EG_DIR else visible G ig True parent))"

lemma seen_located: "seen L G d ig (n, name, parent) \<Longrightarrow> located L d n (parent @ [name])"
  by (auto simp: seen_def located_snoc)

lemma seen_visible:
  "seen L G d ig (n, name, parent) \<Longrightarrow>
     visible G ig dir (parent @ [name]) \<longleftrightarrow> materializable G ig name (parent @ [name]) dir"
  by (auto simp: seen_def visible_snoc)

lemma seen_succs: "seen L G d ig x \<Longrightarrow> y \<in> set (seed_succs L G d ig x) \<Longrightarrow> seen L G d ig y"
proof -
  assume x: "seen L G d ig x" and y: "y \<in> set (seed_succs L G d ig x)"
  obtain n name parent where xs: "x = (n, name, parent)" by (cases x)
  from y obtain c cname where c: "y = (c, cname, parent @ [name])" "c \<in> set (ft_children L d n)" "ft_name L d c = Some cname"
    and dir: "ft_kind L d n = Some Dir" "materializable G ig name (parent @ [name]) True"
    by (auto simp: seed_succs_def xs Let_def in_map_filter split: if_splits)
  have "site L d (Some n) (parent @ [name])" using seen_located [of L G d ig n name parent] x xs dir by (simp add: site_Some)
  moreover have "c \<in> set (kids L d (Some n))" using c(2) by (simp add: kids_def)
  moreover have "visible G ig True (parent @ [name])" using seen_visible [of L G d ig n name parent True] x xs dir by simp
  ultimately show ?thesis using c(3) unfolding seen_def c(1) by auto
qed

text \<open>A base is a file that was on disk as the document has it.\<close>

definition pinned ::
    "('d, 'v, 'f) vdoc \<Rightarrow> ('d, 'n, 't, 'm) loro_ct \<Rightarrow> 'w workspace \<Rightarrow> ('b, 'g) gitignore \<Rightarrow> 'w \<Rightarrow> 'd doc \<Rightarrow> 'g \<Rightarrow> path
       \<Rightarrow> ('n, 'f) exported_base \<Rightarrow> bool" where
  "pinned V L W G w d ig q b \<longleftrightarrow>
     located L (inner d) (eb_node b) q \<and> ft_kind L (inner d) (eb_node b) = Some File \<and> visible G ig False q \<and>
     ws_read_file W w q = Ok (file_text L (inner d) (eb_node b)) \<and> eb_frontier b = doc_frontiers V d"

lemma seed_pins:
  assumes "seed V L W G w d = Some (Ok (bases, dirs))" "ignorer_load W G w = Ok ig"
  shows "map_of bases q = Some b \<Longrightarrow> pinned V L W G w d ig q b"
proof -
  obtain l where l: "dfs (seed_succs L G (inner d) ig) (rev (seed_roots L (inner d))) [] = Some l"
    and f: "fold (seed_visit L W G w (inner d) ig (doc_frontiers V d)) l ([], []) = (bases, dirs)"
    using assms by (auto simp: seed_def)
  have "\<forall>x \<in> set l. seen L G (inner d) ig x"
  proof (rule dfs_all [OF l])
    show "\<forall>x \<in> set (rev (seed_roots L (inner d))) \<union> set []. seen L G (inner d) ig x"
      by (fastforce simp: seed_roots_def in_map_filter seen_def kids_def intro!: exI [of _ None])
  qed (rule seen_succs)
  then have "\<forall>q b. map_of (fst (fold (seed_visit L W G w (inner d) ig (doc_frontiers V d)) l s)) q = Some b \<longrightarrow>
      map_of (fst s) q = Some b \<or> pinned V L W G w d ig q b" for s
  proof (induction l arbitrary: s)
    case (Cons x l)
    obtain n name parent where x: "x = (n, name, parent)" by (cases x)
    then have sn: "seen L G (inner d) ig (n, name, parent)" using Cons.prems by simp
    have "map_of (fst (seed_visit L W G w (inner d) ig (doc_frontiers V d) x s)) q = Some b \<Longrightarrow>
        map_of (fst s) q = Some b \<or> pinned V L W G w d ig q b" for q b
      using seen_located [OF sn] seen_visible [OF sn]
      by (cases s) (auto simp: seed_visit_def x Let_def update_conv' pinned_def split: if_splits)
    with Cons.IH Cons.prems show ?case by fastforce
  qed simp
  from this [of "([], [])"] show "map_of bases q = Some b \<Longrightarrow> pinned V L W G w d ig q b" by (simp add: f)
qed

section \<open>Storing and exporting\<close>

lemma ignorer_load_same: "ws_read_file W w' IGNORE_PATH = ws_read_file W w IGNORE_PATH \<Longrightarrow> ignorer_load W G w' = ignorer_load W G w"
  by (simp add: ignorer_load_def)

lemma doc_path_hidden: "\<not> visible G ig dir DOC_PATH"
  by (simp add: visible_def DOC_PATH_def EG_DIR_def)

text \<open>
  A store that succeeds leaves the snapshot at its place, every visible file as in the document and every other
  file as it was.
\<close>

lemma store_exact:
  assumes "loro_tree L ok" "workspace_laws W" "ok (inner d)" "tidy L (inner d)"
    and "store V L W G fuel d w = Some (w', Ok plan)"
  obtains ig bs where "ignorer_load W G w = Ok ig" "doc_snapshot V d = Ok bs" "ws_read_file W w' DOC_PATH = Ok bs"
    "\<And>p n. (p, n) \<in> set (pl_files plan) \<longleftrightarrow>
        located L (inner d) n p \<and> ft_kind L (inner d) n = Some File \<and> visible G ig False p"
    "\<And>p n. (p, n) \<in> set (pl_files plan) \<Longrightarrow> ws_read_file W w' p = Ok (file_text L (inner d) n)"
    "\<And>p. p \<notin> fst ` set (pl_files plan) \<Longrightarrow> p \<noteq> DOC_PATH \<Longrightarrow> ws_read_file W w' p = ws_read_file W w p"
proof -
  obtain bs w1 where s: "doc_snapshot V d = Ok bs" "ws_write_private W w DOC_PATH bs = (w1, Ok ())"
    "export_tree L W G fuel (inner d) w1 = Some (w', Ok plan)"
    using assms(5) by (auto simp: store_def split: sum.splits prod.splits)
  obtain N where N: "\<And>k. N \<le> k \<Longrightarrow> \<exists>w' r. export_tree L W G k (inner d) w1 = Some (w', r) \<and>
      (\<forall>plan. r = Ok plan \<longrightarrow> plan_exact L W G (inner d) w1 w' plan)"
    using export_exact [OF assms(1,3,4,2)] by blast
  from N [of "max N fuel"] export_more [OF s(3), of "max N fuel"] have e: "plan_exact L W G (inner d) w1 w' plan" by auto
  have same: "ws_read_file W w1 p = ws_read_file W w p" if *: "p \<noteq> DOC_PATH" for p
    by (rule workspace_laws.private_other [OF assms(2) s(2)]) (rule *)
  have ig: "ignorer_load W G w1 = ignorer_load W G w"
    by (rule ignorer_load_same) (rule same, simp add: IGNORE_PATH_def DOC_PATH_def)
  obtain g where g: "ignorer_load W G w = Ok g" "\<And>p n. (p, n) \<in> set (pl_files plan) \<longleftrightarrow>
      located L (inner d) n p \<and> ft_kind L (inner d) n = Some File \<and> visible G g False p"
    using e ig unfolding plan_exact_def by auto
  have "DOC_PATH \<notin> fst ` set (pl_files plan)" using g(2) doc_path_hidden by (metis imageE prod.collapse)
  then have "ws_read_file W w' DOC_PATH = Ok bs"
    using e workspace_laws.private_read [OF assms(2) s(2)] by (simp add: plan_exact_def)
  from that [OF g(1) s(1) this g(2)] same e show ?thesis unfolding plan_exact_def by auto
qed

section \<open>Pull\<close>

text \<open>
  The directory after a pull: the visible files of the document it ended with, each with its text; what else was
  there is untouched, or gone because the document before the sync had it with the same text.
\<close>

definition settled ::
    "('d, 'n, 't, 'm) loro_ct \<Rightarrow> 'w workspace \<Rightarrow> ('b, 'g) gitignore \<Rightarrow> 'g \<Rightarrow> 'd \<Rightarrow> 'd \<Rightarrow> 'w \<Rightarrow> 'w \<Rightarrow> path \<Rightarrow> bool" where
  "settled L W G ig d d' w w' p \<longleftrightarrow>
     (if \<exists>n. located L d' n p \<and> ft_kind L d' n = Some File \<and> visible G ig False p
      then \<forall>n. located L d' n p \<and> ft_kind L d' n = Some File \<longrightarrow> ws_read_file W w' p = Ok (file_text L d' n)
      else ws_read_file W w' p = ws_read_file W w p \<or>
           ((\<forall>bs. ws_read_file W w' p \<noteq> Ok bs) \<and>
            (\<forall>bs. ws_read_file W w p = Ok bs \<longrightarrow>
               (\<exists>n. located L d n p \<and> ft_kind L d n = Some File \<and> visible G ig False p \<and> bs = file_text L d n))))"

lemma export_and_prune_settles:
  assumes "loro_tree L ok" "workspace_laws W" "ok (inner d')" "tidy L (inner d')"
    and "seed V L W G w d = Some (Ok (bases, dirs))"
    and "export_and_prune V L W G fuel d' w bases dirs = Some (w', Ok files)"
  shows "\<exists>ig bs. ignorer_load W G w = Ok ig \<and> doc_snapshot V d' = Ok bs \<and> ws_read_file W w' DOC_PATH = Ok bs \<and>
           (\<forall>p. p \<noteq> DOC_PATH \<longrightarrow> settled L W G ig (inner d) (inner d') w w' p)"
proof -
  obtain w1 plan bases' dirs' where st: "store V L W G fuel d' w = Some (w1, Ok plan)"
    and ad: "advance_and_prune V L W d' plan (w1, bases, dirs) = ((w', bases', dirs'), files)"
    using assms(6) by (auto simp: export_and_prune_def split: option.splits prod.splits sum.splits)
  obtain ig bs where e: "ignorer_load W G w = Ok ig" "doc_snapshot V d' = Ok bs" "ws_read_file W w1 DOC_PATH = Ok bs"
    "\<And>p n. (p, n) \<in> set (pl_files plan) \<longleftrightarrow>
        located L (inner d') n p \<and> ft_kind L (inner d') n = Some File \<and> visible G ig False p"
    "\<And>p n. (p, n) \<in> set (pl_files plan) \<Longrightarrow> ws_read_file W w1 p = Ok (file_text L (inner d') n)"
    "\<And>p. p \<notin> fst ` set (pl_files plan) \<Longrightarrow> p \<noteq> DOC_PATH \<Longrightarrow> ws_read_file W w1 p = ws_read_file W w p"
    by (rule store_exact [OF assms(1-4) st]) (rule that)
  note pin = seed_pins [OF assms(5) e(1)]
  note adv = advance_keeps [OF assms(2) ad]
  have doc: "DOC_PATH \<notin> fst ` set (pl_files plan)" using e(4) doc_path_hidden by (metis imageE prod.collapse)
  moreover have "map_of bases DOC_PATH = None"
    using pin doc_path_hidden by (metis not_Some_eq pinned_def)
  ultimately have "ws_read_file W w' DOC_PATH = Ok bs"
    using adv [of DOC_PATH] e(3) by auto
  moreover have "settled L W G ig (inner d) (inner d') w w' p" if "p \<noteq> DOC_PATH" for p
  proof (cases "p \<in> fst ` set (pl_files plan)")
    case True
    then obtain n where n: "(p, n) \<in> set (pl_files plan)" by auto
    have "ws_read_file W w' p = ws_read_file W w1 p" using adv [of p] True by simp
    moreover have shown: "located L (inner d') n p \<and> ft_kind L (inner d') n = Some File \<and> visible G ig False p"
      using n e(4) by blast
    ultimately have "\<forall>n. located L (inner d') n p \<and> ft_kind L (inner d') n = Some File \<longrightarrow>
        ws_read_file W w' p = Ok (file_text L (inner d') n)" using e(4,5) by metis
    with shown show ?thesis unfolding settled_def by metis
  next
    case False
    then have none: "\<not> (\<exists>n. located L (inner d') n p \<and> ft_kind L (inner d') n = Some File \<and> visible G ig False p)"
      using e(4) by (metis fst_conv imageI)
    have same: "ws_read_file W w1 p = ws_read_file W w p" by (rule e(6) [OF False that])
    consider "ws_read_file W w' p = ws_read_file W w p"
      | "\<forall>bs. ws_read_file W w' p \<noteq> Ok bs" "\<forall>bs. ws_read_file W w p = Ok bs \<longrightarrow> (\<exists>base. map_of bases p = Some base)"
      using adv [of p] unfolding if_not_P [OF False] same by blast
    then show ?thesis
    proof cases
      case 1
      then show ?thesis unfolding settled_def if_not_P [OF none] by blast
    next
      case 2
      have "\<exists>n. located L (inner d) n p \<and> ft_kind L (inner d) n = Some File \<and> visible G ig False p \<and> bs = file_text L (inner d) n"
        if r: "ws_read_file W w p = Ok bs" for bs
      proof -
        obtain b where "map_of bases p = Some b" using 2(2) r by blast
        from pin [OF this] r show ?thesis by (auto simp: pinned_def)
      qed
      with 2(1) show ?thesis unfolding settled_def if_not_P [OF none] by blast
    qed
  qed
  ultimately show ?thesis using e(1,2) by blast
qed

lemma settled_exported:
  "settled L W G ig d d' w w' p \<Longrightarrow> located L d' n p \<Longrightarrow> ft_kind L d' n = Some File \<Longrightarrow> visible G ig False p \<Longrightarrow>
     ws_read_file W w' p = Ok (file_text L d' n)"
  unfolding settled_def by (metis (no_types, lifting))

text \<open>A sync that ends well, on the document that was opened: the one way for a pull to reach its export.\<close>

definition pull_synced ::
    "('d, 'v, 'f) vdoc \<Rightarrow> ('d, 'n, 't, 'm) loro_ct \<Rightarrow> 'w workspace \<Rightarrow> ('b, 'g) gitignore
       \<Rightarrow> (net_error + (nat \<Rightarrow> 'e \<Rightarrow> net_error + bytes)) \<Rightarrow> 64 word \<Rightarrow> nat \<Rightarrow> 'e \<Rightarrow> 'w \<Rightarrow> 'd doc \<Rightarrow> 'd \<Rightarrow> bool" where
  "pull_synced V L W G bound me timeout who w d d' \<longleftrightarrow>
     (\<exists>connect agreed. open_or_clone V W me w = Ok d \<and> seed V L W G w d = Some (Ok agreed) \<and> bound = Ok connect \<and>
        sync_with V (connect timeout) who (inner d) = (d', Ok ()))"

lemma pull_from_cases:
  assumes "pull_from V L W G fuel show bound me dir timeout who w = Some (w', out, r)"
  obtains (early) "w' = w" "\<not> is_ok r"
  | (exported) d d' bases dirs r' where "pull_synced V L W G bound me timeout who w d d'"
      "seed V L W G w d = Some (Ok (bases, dirs))"
      "export_and_prune V L W G fuel (d\<lparr>inner := d'\<rparr>) w bases dirs = Some (w', r')" "is_ok r = is_ok r'"
proof (cases "open_or_clone V W me w")
  case (Inl e)
  with assms show thesis by (intro early) (auto simp: pull_from_def pull_synced_def)
next
  case d: (Inr d)
  show thesis
  proof (cases "seed V L W G w d")
    case None
    with assms d show thesis by (simp add: pull_from_def)
  next
    case (Some sr)
    show thesis
    proof (cases sr)
      case (Inl e)
      with assms d Some show thesis by (intro early) (auto simp: pull_from_def pull_synced_def)
    next
      case (Inr bd)
      obtain bases dirs where sd: "seed V L W G w d = Some (Ok (bases, dirs))" using Some Inr by (cases bd) simp
      show thesis
      proof (cases bound)
        case (Inl e)
        with assms d sd show thesis by (intro early) (auto simp: pull_from_def pull_synced_def)
      next
        case c: (Inr connect)
        obtain d' res where sy: "sync_with V (connect timeout) who (inner d) = (d', res)" by fastforce
        show thesis
        proof (cases res)
          case (Inl e)
          with assms d sd c sy show thesis
            by (intro early) (auto simp: pull_from_def pull_synced_def Let_def split: prod.splits)
        next
          case (Inr u)
          then have "pull_synced V L W G bound me timeout who w d d'" using d sd c sy by (simp add: pull_synced_def)
          moreover obtain r' where ep: "export_and_prune V L W G fuel (d\<lparr>inner := d'\<rparr>) w bases dirs = Some (w', r')"
            using assms d sd c sy Inr by (auto simp: pull_from_def Let_def split: option.splits prod.splits sum.splits)
          moreover have "is_ok r = is_ok r'"
            using assms d sd c sy Inr ep by (cases r') (auto simp: pull_from_def Let_def)
          ultimately show thesis by (intro exported [OF _ sd])
        qed
      qed
    qed
  qed
qed

text \<open>Also an export that fails stays within the paths the document may show, and the place of the document.\<close>

lemma export_and_prune_within:
  assumes "workspace_laws W" "seed V L W G w d = Some (Ok (bases, dirs))"
    and "export_and_prune V L W G fuel d' w bases dirs = Some (w', r)"
    and "p \<noteq> DOC_PATH" "(ws_read_file W w' p = Ok bs) \<noteq> (ws_read_file W w p = Ok bs)"
  shows "\<exists>ig. ignorer_load W G w = Ok ig \<and> visible G ig False p"
proof (cases "ignorer_load W G w")
  case (Inl e)
  with assms(2) show ?thesis by (simp add: seed_def)
next
  case (Inr ig)
  have hidden: ?thesis if "ws_read_file W w2 p \<noteq> ws_read_file W w p" "store V L W G fuel d' w = Some (w2, r2)" for w2 r2
  proof -
    from that(2) consider "w2 = w" | b w1 r1 where "ws_write_private W w DOC_PATH b = (w1, r1)" "w2 = w1"
      | b w1 where "ws_write_private W w DOC_PATH b = (w1, Ok ())" "export_tree L W G fuel (inner d') w1 = Some (w2, r2)"
      by (auto simp: store_def split: sum.splits prod.splits)
    then show ?thesis
    proof cases
      case 1
      with that(1) show ?thesis by simp
    next
      case 2
      with workspace_laws.private_other [OF assms(1) 2(1) assms(4)] that(1) show ?thesis by simp
    next
      case 3
      note same = workspace_laws.private_other [OF assms(1) 3(1)]
      have "ws_read_file W w2 p \<noteq> ws_read_file W w1 p" using that(1) same [OF assms(4)] by simp
      from export_within [OF assms(1) 3(2) this] obtain ig' where "ignorer_load W G w1 = Ok ig'" "visible G ig' False p" by blast
      moreover have "ignorer_load W G w1 = ignorer_load W G w"
        by (rule ignorer_load_same) (rule same, simp add: IGNORE_PATH_def DOC_PATH_def)
      ultimately show ?thesis by auto
    qed
  qed
  from assms(3) consider e where "store V L W G fuel d' w = Some (w', Inl e)"
    | w2 plan bases' dirs' k where "store V L W G fuel d' w = Some (w2, Ok plan)"
        "advance_and_prune V L W d' plan (w2, bases, dirs) = ((w', bases', dirs'), k)"
    by (auto simp: export_and_prune_def split: option.splits prod.splits sum.splits)
  then show ?thesis
  proof cases
    case (1 e)
    then show ?thesis using hidden [OF _ 1] assms(5) by metis
  next
    case (2 w2 plan bases' dirs' k)
    show ?thesis
    proof (cases "ws_read_file W w2 p = ws_read_file W w p")
      case False
      then show ?thesis by (rule hidden [OF _ 2(1)])
    next
      case True
      show ?thesis
      proof (cases "\<exists>b. map_of bases p = Some b")
        case pinned: True
        then show ?thesis using seed_pins [OF assms(2) Inr] Inr by (auto simp: pinned_def)
      next
        case False
        with advance_keeps [OF assms(1) 2(2), of p] True assms(5) show ?thesis by (auto split: if_splits)
      qed
    qed
  qed
qed

text \<open>
  C26. A pull whose sync does not end well, be it for the document of the repository, the listing of what disk
  and document agree on, the node, the dial or the exchange, fails and leaves the directory as it was.  One
  whose sync ends well changes files at visible paths only, and the stored document, even when its export then
  fails half way.  If it succeeds, with distinct sibling names in the merged document, it settles the directory:
  every visible file of the merged document is on disk with its text, any other file is untouched or gone, and gone
  only if the document had it before the sync with exactly the bytes on disk; and the merged document is stored.\<close>

theorem pull_settles_directory:
  assumes "loro_tree L ok" "workspace_laws W"
    and "pull_from V L W G fuel show bound me dir timeout who w = Some (w', out, r)"
  shows "((\<nexists>d d'. pull_synced V L W G bound me timeout who w d d') \<longrightarrow> w' = w \<and> \<not> is_ok r) \<and>
         (\<forall>p bs. p \<noteq> DOC_PATH \<longrightarrow> (ws_read_file W w' p = Ok bs) \<noteq> (ws_read_file W w p = Ok bs) \<longrightarrow>
            (\<exists>ig. ignorer_load W G w = Ok ig \<and> visible G ig False p)) \<and>
         (\<forall>d d'. is_ok r \<longrightarrow> pull_synced V L W G bound me timeout who w d d' \<longrightarrow> ok d' \<longrightarrow> tidy L d' \<longrightarrow>
            (\<exists>ig bs. ignorer_load W G w = Ok ig \<and> doc_snapshot V (d\<lparr>inner := d'\<rparr>) = Ok bs \<and> ws_read_file W w' DOC_PATH = Ok bs \<and>
               (\<forall>p. p \<noteq> DOC_PATH \<longrightarrow> settled L W G ig (inner d) d' w w' p)))"
  using assms(3)
proof (cases rule: pull_from_cases)
  case early
  then show ?thesis by simp
next
  case (exported d d' bases dirs r')
  have one: "d2 = d \<and> d2' = d'" if "pull_synced V L W G bound me timeout who w d2 d2'" for d2 d2'
    using that exported(1) by (auto simp: pull_synced_def)
  have "\<exists>ig bs. ignorer_load W G w = Ok ig \<and> doc_snapshot V (d\<lparr>inner := d'\<rparr>) = Ok bs \<and> ws_read_file W w' DOC_PATH = Ok bs \<and>
      (\<forall>p. p \<noteq> DOC_PATH \<longrightarrow> settled L W G ig (inner d) d' w w' p)" if good: "is_ok r" "ok d'" "tidy L d'"
  proof -
    obtain files where "export_and_prune V L W G fuel (d\<lparr>inner := d'\<rparr>) w bases dirs = Some (w', Ok files)"
      using exported(3,4) good(1) by (cases r') auto
    from export_and_prune_settles [OF assms(1,2) _ _ exported(2) this] good(2,3) show ?thesis by simp
  qed
  with one exported(1) export_and_prune_within [OF assms(2) exported(2,3)] show ?thesis by blast
qed

text \<open>A peer that sends the tree of \<open>demo_folder\<close>, which is also what a snapshot reads back as.\<close>

definition peer_vdoc :: "(rtree, unit, unit) vdoc" where
  "peer_vdoc = snap_vdoc\<lparr>ld_export_snapshot := (\<lambda>d. Ok ''snap''), ld_export_updates := (\<lambda>d v. Ok []),
     ld_import := (\<lambda>d bs. (demo_tree, Ok False))\<rparr>"

definition demo_connect :: "nat \<Rightarrow> string \<Rightarrow> net_error + bytes" where
  "demo_connect timeout who = Ok (framed [msg_encode (Have []), msg_encode (Ephemeral ''p''), msg_encode (Updates ''all'')])"

definition demo_clone :: mem_workspace where
  "demo_clone = fst (mem_write_file (fst (open_repo mem_ops mem_new)) [''.eg'', ''key''] ''s'')"

lemma demo_tree_facts: "rt_ok demo_tree" "tidy ref_ct demo_tree" "located ref_ct demo_tree 1 [''a'', ''b'']"
  "ft_kind ref_ct demo_tree 1 = Some File" "file_text ref_ct demo_tree 1 = ''hi''" "visible demo_ignore [] False [''a'', ''b'']"
proof -
  show ok: "rt_ok demo_tree" by code_simp
  show "tidy ref_ct demo_tree" by (rule rt_tidyI [OF ok]) code_simp
  have "resolve_from ref_ct demo_tree None [''a'', ''b''] = Inr (Some 1)" by code_simp
  from loro_tree.resolve_from_site [OF rt.loro_tree_axioms this] show "located ref_ct demo_tree 1 [''a'', ''b'']" by simp
  show "ft_kind ref_ct demo_tree 1 = Some File" "file_text ref_ct demo_tree 1 = ''hi''"
    "visible demo_ignore [] False [''a'', ''b'']" by code_simp+
qed

lemma peer_vdoc_simps [simp]:
  "ld_state_vv peer_vdoc d = ()" "vv_encode peer_vdoc v = []" "vv_decode peer_vdoc bs = Ok ()"
  "ld_export_updates peer_vdoc d v = Ok []" "ld_import peer_vdoc d bs = (demo_tree, Ok False)"
  by (simp_all add: peer_vdoc_def snap_vdoc_def)

lemma demo_sync: "sync_with peer_vdoc (demo_connect t) who d = (demo_tree, Ok ())"
proof -
  have w: "write_frame (msg_encode (Have [])) = Ok (be32 1 @ [CHR 0x00])"
    "write_frame (msg_encode (Updates [])) = Ok (be32 1 @ [CHR 0x01])" by (simp_all add: write_frame_def)
  have fits: "length (msg_encode (Have [])) \<le> MAX_FRAME" "length (msg_encode (Ephemeral ''p'')) \<le> MAX_FRAME"
    "length (msg_encode (Updates ''all'')) \<le> MAX_FRAME" by (simp_all add: MAX_FRAME_def)
  show ?thesis
    by (simp add: sync_with_def demo_connect_def drive_def fits [THEN drive_loop_framed] w framed_then_def sync_start_def
        sync_on_def sync_gated_def perms_all_def on_have_def on_updates_def import_no_orphans_def del: msg_encode.simps)
qed

lemma demo_seed: "seed peer_vdoc ref_ct mem_ops demo_ignore demo_clone (doc_new peer_vdoc 0) = Some (Ok ([], []))"
proof -
  have "ignorer_load mem_ops demo_ignore demo_clone = Ok []" "seed_roots ref_ct (inner (doc_new peer_vdoc 0)) = []" by code_simp+
  then show ?thesis by (simp add: seed_def)
qed

lemma demo_pull:
  "\<exists>w' out. pull_from peer_vdoc ref_ct mem_ops demo_ignore 4 (\<lambda>x. x) (Ok demo_connect) 0 ''/d'' 15 ''host'' demo_clone =
     Some (w', out, Ok ())"
proof -
  let ?d = "doc_new peer_vdoc 0"
  have o: "open_or_clone peer_vdoc mem_ops 0 demo_clone = Ok ?d" by code_simp
  note sd = demo_seed
  note sy = demo_sync [of 15 "''host''" "inner ?d"]
  have "is_ok (snd (the (export_and_prune peer_vdoc ref_ct mem_ops demo_ignore 4 (?d\<lparr>inner := demo_tree\<rparr>) demo_clone [] [])))"
    "export_and_prune peer_vdoc ref_ct mem_ops demo_ignore 4 (?d\<lparr>inner := demo_tree\<rparr>) demo_clone [] [] \<noteq> None" by code_simp+
  then obtain w' files where "export_and_prune peer_vdoc ref_ct mem_ops demo_ignore 4 (?d\<lparr>inner := demo_tree\<rparr>) demo_clone [] [] =
      Some (w', Ok files)" by (auto simp: is_ok_iff)
  with o sd sy show ?thesis by (simp add: pull_from_def Let_def)
qed

theorem pull_settles_directory_witness:
  "\<exists>w' out. pull_from peer_vdoc ref_ct mem_ops demo_ignore 4 (\<lambda>x. x) (Ok demo_connect) 0 ''/d'' 15 ''host'' demo_clone =
     Some (w', out, Ok ()) \<and>
     ws_read_file mem_ops w' [''a'', ''b''] = Ok ''hi'' \<and> ws_read_file mem_ops w' [''.eg'', ''key''] = Ok ''s''"
proof -
  let ?d = "doc_new peer_vdoc 0"
  obtain w' out where p: "pull_from peer_vdoc ref_ct mem_ops demo_ignore 4 (\<lambda>x. x) (Ok demo_connect) 0 ''/d'' 15 ''host'' demo_clone =
      Some (w', out, Ok ())" using demo_pull by blast
  have o: "open_or_clone peer_vdoc mem_ops 0 demo_clone = Ok ?d" by code_simp
  note sy = demo_sync [of 15 "''host''" "inner ?d"]
  have ig: "ignorer_load mem_ops demo_ignore demo_clone = Ok []" by code_simp
  have key: "ws_read_file mem_ops demo_clone [''.eg'', ''key''] = Ok ''s''" by code_simp
  note all = pull_settles_directory [OF rt.loro_tree_axioms mem.workspace_laws_axioms p]
  have "pull_synced peer_vdoc ref_ct mem_ops demo_ignore (Ok demo_connect) 0 15 ''host'' demo_clone ?d demo_tree" using o sy demo_seed by (simp add: pull_synced_def)
  with all [THEN conjunct2, THEN conjunct2] demo_tree_facts(1,2) ig
  have st: "\<And>p. p \<noteq> DOC_PATH \<Longrightarrow> settled ref_ct mem_ops demo_ignore [] (inner ?d) demo_tree demo_clone w' p" by auto
  have eg: "ws_read_file mem_ops w' [''.eg'', ''key''] = Ok bs \<longleftrightarrow> ws_read_file mem_ops demo_clone [''.eg'', ''key''] = Ok bs" for bs
  proof -
    have "\<not> visible demo_ignore ig False [''.eg'', ''key'']" for ig by (simp add: visible_def EG_DIR_def)
    with all [THEN conjunct2, THEN conjunct1, rule_format, of "[''.eg'', ''key'']" bs] show ?thesis
      by (auto simp: DOC_PATH_def)
  qed
  have "[''a'', ''b''] \<noteq> DOC_PATH" by (simp add: DOC_PATH_def)
  from settled_exported [OF st [OF this] demo_tree_facts(3,4,6)]
  have "ws_read_file mem_ops w' [''a'', ''b''] = Ok ''hi''" unfolding demo_tree_facts(5) .
  moreover have "ws_read_file mem_ops w' [''.eg'', ''key''] = Ok ''s''"
    using eg [of "''s''"] key by simp
  ultimately show ?thesis using p by blast
qed

section \<open>Serve\<close>

text \<open>
  C27. A repository that was served before starts from its stored document, and the store at the start of
  \<open>serve\<close> writes every visible file back as the document has it: whatever was edited in such a file while no
  command ran is overwritten on disk, and is not in the document either.  Files the document does not have stay,
  outside the document.\<close>

theorem serve_overwrites_offline_edits:
  assumes "loro_tree L ok" "workspace_laws W" "open_repo W w = (w1, u)" "read_doc V W me w1 = Ok (Some d)"
    and "ok (inner d)" "tidy L (inner d)" "ignorer_load W G w1 = Ok ig"
    and "serve_start V L M W G fuel toml utf8_err bind fresh me key m w = Some (m', w', Ok h)"
  shows "hs_doc h = d \<and>
     (\<forall>n p. located L (inner d) n p \<longrightarrow> ft_kind L (inner d) n = Some File \<longrightarrow> visible G ig False p \<longrightarrow>
        ws_read_file W w' p = Ok (file_text L (inner d) n)) \<and>
     (\<forall>p. p \<noteq> DOC_PATH \<longrightarrow>
        (\<forall>n. located L (inner d) n p \<longrightarrow> ft_kind L (inner d) n = Some File \<longrightarrow> \<not> visible G ig False p) \<longrightarrow>
        ws_read_file W w' p = ws_read_file W w1 p)"
proof -
  have os: "open_or_seed V L W G fuel me w1 = Some (Ok d)" using assms(4) by (simp add: open_or_seed_def)
  obtain m1 eff sec where ef: "effective_for M W toml utf8_err fresh m w1 key = (m1, Ok (eff, sec))"
    using assms(3,8) by (auto simp: serve_start_def split: sum.splits prod.splits)
  obtain w2 r where "store V L W G fuel d w1 = Some (w2, r)"
    using assms(3,8) os ef by (auto simp: serve_start_def split: sum.splits option.splits)
  with assms(3,8) os ef obtain plan where st: "store V L W G fuel d w1 = Some (w', Ok plan)"
    and wx: "watch_and_export V L W G eff w' d = Some (Ok h)"
    by (auto simp: serve_start_def split: sum.splits)
  from wx have h: "hs_doc h = d"
    by (cases "the (seed V L W G w' d)") (auto simp: watch_and_export_def)
  obtain ig' bs where e: "ignorer_load W G w1 = Ok ig'" "doc_snapshot V d = Ok bs" "ws_read_file W w' DOC_PATH = Ok bs"
    "\<And>p n. (p, n) \<in> set (pl_files plan) \<longleftrightarrow>
        located L (inner d) n p \<and> ft_kind L (inner d) n = Some File \<and> visible G ig' False p"
    "\<And>p n. (p, n) \<in> set (pl_files plan) \<Longrightarrow> ws_read_file W w' p = Ok (file_text L (inner d) n)"
    "\<And>p. p \<notin> fst ` set (pl_files plan) \<Longrightarrow> p \<noteq> DOC_PATH \<Longrightarrow> ws_read_file W w' p = ws_read_file W w1 p"
    by (rule store_exact [OF assms(1,2,5,6) st]) (rule that)
  have "ig' = ig" using e(1) assms(7) by simp
  with e(4-6) h show ?thesis by fastforce
qed

definition demo_edited :: mem_workspace where
  "demo_edited = fst (mem_write_file (fst (mem_write_file mem_new DOC_PATH ''snap'')) [''a'', ''b''] ''mine'')"

definition demo_serve :: "((string \<times> bytes) list \<times> mem_workspace \<times> (io_error + (rtree, nat, unit) hosting)) option" where
  "demo_serve = serve_start peer_vdoc ref_ct (mem_machine demo_env) mem_ops demo_ignore 4 demo_toml (\<lambda>_. [])
     (\<lambda>_. Ok ()) demo_fresh 0 None [] demo_edited"

lemma demo_serve_ok: "\<exists>m' w' h. demo_serve = Some (m', w', Ok h)"
proof -
  let ?d = "\<lparr>inner = demo_tree, comment_seq = 0\<rparr>"
  let ?w1 = "fst (open_repo mem_ops demo_edited)"
  let ?st = "store peer_vdoc ref_ct mem_ops demo_ignore 4 ?d ?w1"
  have op: "open_repo mem_ops demo_edited = (?w1, Ok ())" by code_simp
  have rd: "read_doc peer_vdoc mem_ops 0 ?w1 = Ok (Some ?d)" by code_simp
  have "is_ok (snd (effective_for (mem_machine demo_env) mem_ops demo_toml (\<lambda>_. []) demo_fresh [] ?w1 None))" by code_simp
  then obtain m1 es where ef: "effective_for (mem_machine demo_env) mem_ops demo_toml (\<lambda>_. []) demo_fresh [] ?w1 None = (m1, Ok es)"
    by (metis is_ok_iff prod.collapse)
  have "?st \<noteq> None" "is_ok (snd (the ?st))" and ig: "ignorer_load mem_ops demo_ignore (fst (the ?st)) = Ok []" by code_simp+
  then obtain w2 plan where st: "?st = Some (w2, Ok plan)" by (auto simp: is_ok_iff)
  have roots: "seed_roots ref_ct demo_tree = [(0, ''a'', [])]" by code_simp
  have "seed_succs ref_ct demo_ignore demo_tree [] (0, ''a'', []) = [(1, ''b'', [''a''])]"
    "seed_succs ref_ct demo_ignore demo_tree [] (1, ''b'', [''a'']) = []" by code_simp+
  then have "dfs (seed_succs ref_ct demo_ignore demo_tree []) (rev (seed_roots ref_ct demo_tree)) [] =
      Some [(0, ''a'', []), (1, ''b'', [''a''])]" by (simp add: roots dfs_Cons)
  then obtain sb where "seed peer_vdoc ref_ct mem_ops demo_ignore w2 ?d = Some (Ok sb)"
    using ig by (simp add: seed_def st)
  moreover obtain w1 where "?w1 = w1" by blast
  ultimately show ?thesis using op rd ef st
    by (cases es; cases sb) (simp add: demo_serve_def serve_start_def open_or_seed_def watch_and_export_def)
qed

theorem serve_overwrites_offline_edits_witness:
  "\<exists>m' w' h. demo_serve = Some (m', w', Ok h) \<and> ws_read_file mem_ops demo_edited [''a'', ''b''] = Ok ''mine'' \<and>
     ws_read_file mem_ops w' [''a'', ''b''] = Ok ''hi'' \<and> inner (hs_doc h) = demo_tree"
proof -
  let ?d = "\<lparr>inner = demo_tree, comment_seq = 0\<rparr>"
  let ?w1 = "fst (open_repo mem_ops demo_edited)"
  have op: "open_repo mem_ops demo_edited = (?w1, Ok ())" by code_simp
  have rd: "read_doc peer_vdoc mem_ops 0 ?w1 = Ok (Some ?d)" by code_simp
  have ig: "ignorer_load mem_ops demo_ignore ?w1 = Ok []" by code_simp
  obtain m' w' h where sv: "demo_serve = Some (m', w', Ok h)"
    using demo_serve_ok by blast
  have ok: "rt_ok (inner ?d)" "tidy ref_ct (inner ?d)" using demo_tree_facts by simp_all
  from serve_overwrites_offline_edits [OF rt.loro_tree_axioms mem.workspace_laws_axioms op rd ok ig sv [unfolded demo_serve_def]]
  have "hs_doc h = ?d" "ws_read_file mem_ops w' [''a'', ''b''] = Ok ''hi''"
    using demo_tree_facts(3,4,6) unfolding demo_tree_facts(5) [symmetric] by auto
  moreover have "ws_read_file mem_ops demo_edited [''a'', ''b''] = Ok ''mine''" by code_simp
  ultimately show ?thesis using sv by (intro exI [of _ m'] exI [of _ w'] exI [of _ h]) simp
qed

end
