(* ===== verification/Spec2Isabelle.thy ===== *)
theory Spec2Isabelle
  imports Pull_Serve Net_Drive Doc_Fs_Events Comments_Props Config_Props Trust_Props Bridge_Import Watch_Prune
    Watch_Apply Mount_Props Host_Props Shell_Props Browser_Props Snapshot_Props Mount_Link_Props
    Mount_Replies Commands_Props
begin

text \<open>
  Verification of okayeg, which keeps a directory of text files in sync between peers as one Loro document.

  \<^bold>\<open>The program and its theories.\<close>  The crates are layered, and the theories follow them.

  \<^item> \<open>crates/okayeg\<close>, the document.  \<open>doc.rs\<close> is \<open>Doc\<close>, \<open>tree.rs\<close> \<open>File_Tree\<close>, \<open>fs.rs\<close> \<open>Doc_Fs\<close> and
    \<open>Doc_Fs_Events\<close>, \<open>comment.rs\<close> \<open>Comments\<close>, \<open>presence.rs\<close> and \<open>presence/wire.rs\<close> \<open>Presence\<close> and
    \<open>Presence_Wire\<close>, \<open>sync.rs\<close> \<open>Sync\<close>.  Loro itself is third-party code: its operations are the records of
    \<open>Loro_Api\<close>, an argument of every definition that calls it, and its documented behaviour is the
    \<open>assumes\<close> of the locales \<open>loro_history\<close>, \<open>loro_tree\<close>, \<open>loro_text_tree\<close>, \<open>loro_stored\<close> and
    \<open>loro_comments\<close>, each interpreted on a concrete store (\<open>Loro_Ref_Hist\<close>, \<open>Ref_Tree\<close>, \<open>Stored\<close>).
  \<^item> \<open>crates/okayeg-net\<close>, sessions between peers.  \<open>authz.rs\<close> is \<open>Authz\<close>; of \<open>lib.rs\<close>, framing and the
    refusal of \<open>accept\<close> are \<open>Net_Frames\<close>, \<open>drive\<close> against \<open>drive\<close> is \<open>Sync_Pair\<close>, \<open>drive_live\<close> is
    \<open>Net_Drive\<close> for one end and \<open>Live_Pair\<close> for two; \<open>drive\<close> on the bytes of a connection and \<open>sync_with\<close> are
    \<open>Oneshot\<close>, \<open>sync_with\<close> of \<open>node.rs\<close> against a live host is
    \<open>Pull_Serve\<close>.
  \<^item> \<open>crates/eg\<close>, the command.  \<open>workspace.rs\<close> is \<open>Workspace\<close>, \<open>trust.rs\<close> \<open>Trust\<close>, \<open>config.rs\<close> \<open>Config\<close>,
    \<open>keys.rs\<close> \<open>Keys\<close>, \<open>ignore.rs\<close> and \<open>bridge.rs\<close> \<open>Bridge\<close>, \<open>watch.rs\<close> \<open>Watch\<close>, the commands
    \<open>snapshot\<close>, \<open>restore\<close> and \<open>watch\<close> of these two \<open>Snapshots\<close>, \<open>mount.rs\<close> \<open>Mount\<close> for the filesystem and
    \<open>Mount_Link\<close> for its life around it, \<open>net.rs\<close> \<open>Host\<close> and, for
    the sequence of its commands, \<open>Commands\<close>, and \<open>main.rs\<close>, \<open>filetree.rs\<close> and \<open>comment.rs\<close> \<open>Shell\<close>.
  \<^item> \<open>crates/okayeg-wasm\<close>, the browser.  \<open>identity.rs\<close>, \<open>wire.rs\<close> and \<open>comments.rs\<close> are \<open>Browser_Js\<close>, the client of
    \<open>lib.rs\<close> is \<open>Browser\<close>.
  \<^item> \<open>Prelude\<close>, \<open>Utf8\<close>, \<open>Hex\<close> and \<open>Dfs\<close> hold what several of them share: results as sums, Rust's strings and
    characters, hexadecimal, and the depth-first loop of the tree walks.

  A connecting peer is judged by the gate (\<open>Host\<close>, from \<open>Trust\<close> or \<open>Authz\<close>), its session runs with the
  rights of the verdict (\<open>Net_Drive\<close>), the session imports updates into the document and relays presence, a
  nudge lets the host export the document to disk (\<open>Bridge\<close>, \<open>Watch\<close>), and an edit on disk goes back into
  the document (\<open>Watch\<close>) and out to every session.  A mount (\<open>Mount\<close>) is another client of the document.

  \<^bold>\<open>How code is modelled.\<close> A struct is a record and an enum a datatype, with the source's
  names. A Rust string or byte vector is a list of bytes. A \<open>Result\<close> is a sum with the error on
  the left; an outer \<open>option\<close> is the panic of an \<open>expect\<close> or a loop that does not
  end, and the theorems prove that it does not occur. State is passed and returned. Integers whose width
  matters (inode numbers, versions, sizes, comment counters, lengths of frames) are words or carry their
  bound. A task of the asynchronous code runs from one await to the next as one step, which the
  single-threaded runtime of the program guarantees; what can interleave is a step relation or a list of
  events; the accept loop of a host is two of these steps, since it waits for the stream of a peer after the
  verdict. A mount has threads of its own for requests: a request is one step, so an import by the runtime
  thread falls between two requests (\<open>Mount\<close> says what that leaves out). Memory is unbounded. A
  workspace is the file system under one directory without symbolic links; its laws are the locales
  \<open>workspace_laws\<close> and \<open>workspace_kinds\<close>, interpreted on
  \<open>MemWorkspace\<close>. A hash map whose order shows is a list in its iteration order.

  \<^bold>\<open>What the theorems show.\<close>

  \<^item> Exchange: two one-shot drivers converge in four turns over every interleaving (\<open>Sync_Pair\<close>), two live
    sessions with commits at any time quiesce and converge (\<open>Live_Pair\<close>), and a pull with nothing to say waits
    for ever on a host that has nothing either (\<open>Pull_Serve\<close>).  The driver on bytes takes the turns of a side of
    these models (\<open>Oneshot\<close>).
  \<^item> Access: no session sends or imports without the right for it and no peer writes presence it does not
    own (\<open>Net_Drive\<close>, \<open>Presence\<close>); verdicts, trust files and configurations fail closed (\<open>Authz\<close>,
    \<open>Trust_Props\<close>, \<open>Config_Props\<close>); a peer that is forgotten and revoked stays out, but for one
    connection the gate had let in before and whose stream was still to open, and the session command hears of
    every session (\<open>Host_Props\<close>); a connection that fails while it is accepted ends the host
    (\<open>failed_handshake_ends_serve\<close>); a refusal reaches the peer (\<open>Net_Frames\<close>).
  \<^item> Document: the path operations refine a map from paths to files and directories (\<open>Doc_Fs_Spec\<close>,
    \<open>Doc_Fs_Refine\<close>, \<open>Doc_Fs_Props\<close>), the walks end and list exactly what can be reached (\<open>Doc_Fs_Walk\<close>),
    subscribers hear exactly of what was created, moved, renamed, deleted or edited (\<open>Doc_Fs_Events\<close>), and comments read back and stay
    apart (\<open>Comments_Props\<close>).
  \<^item> Disk: import and export relate disk and document exactly (\<open>Bridge_Import\<close>, \<open>Bridge_Props\<close>), export touches
    only visible paths, with its files and its directories, and pruning removes only unedited files and empty
    directories (\<open>Bridge_Props\<close>, \<open>Watch_Prune\<close>); a change on disk is merged where the kinds of document and disk
    do not conflict (\<open>Watch_Apply\<close>).  A directory comes back from its snapshot, the file of \<open>watch\<close> is always current, and a host
    finds the document it stored (\<open>Snapshot_Props\<close>).  A pull settles the directory on the merged document or, when its sync
    does not end well, leaves it alone; and \<open>serve\<close> on the stored one, over what was edited meanwhile (\<open>Commands_Props\<close>).
  \<^item> Mount: its tables stay sound over every run, buffered writes become one edit, a directory can be read in
    pieces, and a revoked key only reads (\<open>Mount_Inv\<close>, \<open>Mount_Props\<close>); its
    replies are well-typed (\<open>Mount_Replies\<close>); a refusal is final, and the next mount shows what was written,
    except what arrives too late (\<open>Mount_Link_Props\<close>).
  \<^item> Command: the key of a node is stable (\<open>Keys\<close>), commands find their repository and leave everything but the
    trust file alone (\<open>Shell_Props\<close>), the scopes of the configuration merge as documented (\<open>Config_Props\<close>).
  \<^item> Browser: its file list is exactly the files of the document, and a created file is there (\<open>Browser_Props\<close>).

  \<^bold>\<open>Bounds and fuel.\<close>  The recursion of the import takes its depth as fuel; \<open>import_reads_disk\<close> asks for at
  least the depth of the directory and then never runs out, and fuel that was
  enough stays enough with the same result (\<open>snapshot_more\<close>, \<open>restore_more\<close>, \<open>export_more\<close>).  The walks and \<open>path_of\<close> are partial functions,
  total on every document with the laws (\<open>walk_lists_paths\<close>, \<open>path_of_inverts_resolve\<close>).  Frames are bounded by
  \<open>MAX_FRAME\<close>, the cap of the readers.

  \<^bold>\<open>Not modelled.\<close>  Loro, cap-std, iroh, fuser, notify, clap, the TOML and gitignore crates and the browser
  are not part of the repository; the code around them that only passes values on (binding and dialing an
  endpoint, the lock and the system calls of \<open>CapWorkspace\<close>, the kernel side of a mount, the parsing of command
  lines, the async plumbing of \<open>serve\<close>, \<open>join\<close> and \<open>mount\<close>) is left out.  Of messages for the user the details that
  come from such a crate are parameters.  Of the browser's client the timers and the connection are left out.
\<close>

end
